(* ===== verification/Prelude.thy ===== *)
theory Prelude
  imports Complex_Main "HOL-Library.Word" "HOL-Library.AList" "HOL-Library.Multiset"
begin

text \<open>
  What every component theory shares: the Go integer types as words, the two ways the
  code returns an error, association lists as Go maps, the grouping loop
  \<^verbatim>\<open>byKey[k] = append(byKey[k], v)\<close>, the binary64 quotient the validator compares
  against a tolerance, and reachable states of a step relation with the interface an
  invariant has to meet.

  Go's \<^verbatim>\<open>error\<close> result is an option (\<open>None\<close> is nil) where a function returns nothing
  else, and the left part of a sum where it returns a value too.
\<close>

unbundle bit_operations_syntax

section \<open>Fixed-width integers\<close>

type_synonym byte = "8 word"
type_synonym uint8 = "8 word"
type_synonym uint32 = "32 word"
type_synonym uint64 = "64 word"
type_synonym int64 = "64 word"

text \<open>
  A Go \<^verbatim>\<open>int64\<close> is a 64-bit word that the comparisons read through \<open>sint\<close>
  (\<open><s\<close> and \<open>\<le>s\<close>). Addition and subtraction wrap, as Go's do.
  A reading of the monotonic clock is not negative, and differences of two such readings
  never wrap.
\<close>

named_theorems clock_simps \<open>signed comparison of clock readings\<close>

definition nonneg64 :: "int64 \<Rightarrow> bool" where
  "nonneg64 t \<longleftrightarrow> 0 \<le> sint t"

lemma sint64_bounds: "- (2 ^ 63) \<le> sint (t :: int64)" "sint (t :: int64) < 2 ^ 63"
  using sint_range_size [of t] by (simp_all add: word_size)

lemma sint_diff_nonneg:
  assumes "nonneg64 a" and "nonneg64 b"
  shows "sint (a - b) = sint a - sint b"
proof -
  have "sint a < 2 ^ 63" "sint b < 2 ^ 63" using sint64_bounds by blast+
  then have "- (2 ^ 63) \<le> sint a - sint b" and "sint a - sint b < 2 ^ 63"
    using assms by (simp_all add: nonneg64_def)
  then have "signed_take_bit 63 (sint a - sint b) = sint a - sint b"
    by (intro signed_take_bit_int_eq_self) simp_all
  then show ?thesis by (simp add: sint_word_ariths(2))
qed

lemma sless_sint [clock_simps]: "(a <s b) = (sint a < sint (b :: int64))"
  by (simp add: word_sless_alt)

lemma sle_sint [clock_simps]: "(a \<le>s b) = (sint a \<le> sint (b :: int64))"
  by (simp add: word_sle_eq)

text \<open>Go's wrap of an \<^verbatim>\<open>int\<close> product to 64 bits.\<close>

definition wrap64 :: "int \<Rightarrow> int" where
  "wrap64 x = signed_take_bit 63 x"

lemma wrap64_id: "- (2 ^ 63) \<le> x \<Longrightarrow> x < 2 ^ 63 \<Longrightarrow> wrap64 x = x"
  unfolding wrap64_def by (rule signed_take_bit_int_eq_self) simp_all

lemma unat64_bound: "unat (x :: uint64) < 2 ^ 64"
proof -
  have "unat x < 2 ^ LENGTH(64)" by (rule unsigned_less)
  then show ?thesis by simp
qed

lemma unat32_bound: "unat (x :: uint32) < 2 ^ 32"
proof -
  have "unat x < 2 ^ LENGTH(32)" by (rule unsigned_less)
  then show ?thesis by simp
qed

lemma unat8_bound: "unat (x :: byte) < 256"
proof -
  have "unat x < 2 ^ LENGTH(8)" by (rule unsigned_less)
  then show ?thesis by simp
qed

lemma unat_of_nat64: "n < 2 ^ 64 \<Longrightarrow> unat (of_nat n :: uint64) = n"
  by (simp add: unat_of_nat take_bit_nat_eq_self_iff)

lemma unat_of_nat32: "n < 2 ^ 32 \<Longrightarrow> unat (of_nat n :: uint32) = n"
  by (simp add: unat_of_nat take_bit_nat_eq_self_iff)

lemma unat_ucast8: "unat (ucast (v :: uint64) :: byte) = unat v mod 256"
  by (simp add: unsigned_ucast_eq unsigned_take_bit_eq take_bit_eq_mod)

text \<open>Widening a word and narrowing it again is the identity.\<close>

lemma ucast_back [simp]:
  "(ucast (ucast (x :: uint32) :: uint64) :: uint32) = x"
  "(ucast (ucast (y :: byte) :: uint64) :: byte) = y"
  "(ucast (ucast (y :: byte) :: uint32) :: byte) = y"
  by (rule bit_word_eqI, auto simp: bit_simps)+

lemma ucast_eq_0_iff [simp]:
  "(ucast (x :: uint32) :: uint64) = 0 \<longleftrightarrow> x = 0" "(ucast (y :: byte) :: uint64) = 0 \<longleftrightarrow> y = 0"
  "(ucast (y :: byte) :: uint32) = 0 \<longleftrightarrow> y = 0"
  by (metis ucast_back(1) unsigned_0, metis ucast_back(2) unsigned_0, metis ucast_back(3) unsigned_0)

section \<open>Strings as bytes\<close>

definition string_bytes :: "string \<Rightarrow> byte list" where
  "string_bytes s = map (\<lambda>c. of_nat (of_char c)) s"

definition bytes_string :: "byte list \<Rightarrow> string" where
  "bytes_string b = map (\<lambda>x. char_of (unat x)) b"

lemma length_string_bytes [simp]: "length (string_bytes s) = length s"
  by (simp add: string_bytes_def)

lemma bytes_string_bytes [simp]: "bytes_string (string_bytes s) = s"
proof -
  have "unat (of_nat (of_char c) :: byte) = of_char c" for c
    by (simp add: unat_of_nat take_bit_nat_eq_self_iff)
  then show ?thesis by (simp add: bytes_string_def string_bytes_def o_def map_idI)
qed

section \<open>Binary64 quotients\<close>

text \<open>
  \<^verbatim>\<open>float64(a) / float64(b)\<close> for 64-bit integers: every intermediate value is 0 or has a
  magnitude between \<open>2^-64\<close> and \<open>2^64\<close>, so no overflow, subnormal or NaN occurs
  and rounding to 53 significant bits, ties to even, is all the format does. The scaling
  loop needs at most 120 halvings or doublings in that range; the fuel is twice that.
\<close>

definition half_even :: "rat \<Rightarrow> int" where
  "half_even x = (let f = \<lfloor>x\<rfloor>; d = x - of_int f in
     if d < 1 / 2 then f else if 1 / 2 < d then f + 1 else if even f then f else f + 1)"

fun f64_scale :: "nat \<Rightarrow> rat \<Rightarrow> rat" where
  "f64_scale 0 x = of_int (half_even x)"
| "f64_scale (Suc n) x =
     (if 2 ^ 53 \<le> x then 2 * f64_scale n (x / 2)
      else if x < 2 ^ 52 then f64_scale n (2 * x) / 2
      else of_int (half_even x))"

definition f64 :: "rat \<Rightarrow> rat" where
  "f64 x = (if x = 0 then 0 else if x < 0 then - f64_scale 240 (- x) else f64_scale 240 x)"

definition f64_of_int64 :: "int64 \<Rightarrow> rat" where
  "f64_of_int64 t = f64 (of_int (sint t))"

definition f64_div :: "rat \<Rightarrow> rat \<Rightarrow> rat" where
  "f64_div x y = f64 (x / y)"

definition absF :: "rat \<Rightarrow> rat" where
  "absF v = (if v < 0 then - v else v)"

text \<open>
  Go's \<^verbatim>\<open>int64(v)\<close> of a float64 drops the fraction; out of range it is the
  processor's answer (amd64: the least integer).
\<close>

definition int64_of_f64 :: "rat \<Rightarrow> int" where
  "int64_of_f64 v = (let t = (if v < 0 then - \<lfloor>- v\<rfloor> else \<lfloor>v\<rfloor>) in
     if - (2 ^ 63) \<le> t \<and> t < 2 ^ 63 then t else - (2 ^ 63))"

lemma f64_0 [simp]: "f64 0 = 0"
  by (simp add: f64_def)

lemma f64_of_int64_0 [simp]: "f64_of_int64 0 = 0"
  by (simp add: f64_of_int64_def)

lemma f64_div_0 [simp]: "f64_div 0 y = 0"
  by (simp add: f64_div_def)

lemma absF_abs: "absF v = \<bar>v\<bar>"
  by (simp add: absF_def)

section \<open>Maps as association lists\<close>

text \<open>
  A Go map that the code iterates over is an association list with distinct keys; the
  list order is one of the orders Go may iterate in.
\<close>

fun group_append :: "'k \<Rightarrow> 'v \<Rightarrow> ('k \<times> 'v list) list \<Rightarrow> ('k \<times> 'v list) list" where
  "group_append k v [] = [(k, [v])]"
| "group_append k v ((k', vs) # ps) =
     (if k' = k then (k', vs @ [v]) # ps else (k', vs) # group_append k v ps)"

definition group_by :: "('a \<Rightarrow> 'k) \<Rightarrow> ('a \<Rightarrow> 'v) \<Rightarrow> 'a list \<Rightarrow> ('k \<times> 'v list) list" where
  "group_by key val xs = foldl (\<lambda>g x. group_append (key x) (val x) g) [] xs"

definition group_get :: "('k \<times> 'v list) list \<Rightarrow> 'k \<Rightarrow> 'v list" where
  "group_get g k = (case map_of g k of None \<Rightarrow> [] | Some vs \<Rightarrow> vs)"

lemma keys_group_append:
  "map fst (group_append k v g) = (if k \<in> set (map fst g) then map fst g else map fst g @ [k])"
  by (induction k v g rule: group_append.induct) auto

lemma group_get_append:
  "group_get (group_append k v g) j = (if j = k then group_get g k @ [v] else group_get g j)"
  by (induction k v g rule: group_append.induct) (auto simp: group_get_def)

lemma distinct_group_append:
  "distinct (map fst g) \<Longrightarrow> distinct (map fst (group_append k v g))"
  by (simp add: keys_group_append)

lemma group_by_snoc:
  "group_by key val (xs @ [x]) = group_append (key x) (val x) (group_by key val xs)"
  by (simp add: group_by_def)

lemma group_by_Nil [simp]: "group_by key val [] = []"
  by (simp add: group_by_def)

lemma distinct_group_by [simp]: "distinct (map fst (group_by key val xs))"
  by (induction xs rule: rev_induct) (simp_all add: group_by_snoc distinct_group_append)

lemma keys_group_by: "set (map fst (group_by key val xs)) = key ` set xs"
  by (induction xs rule: rev_induct) (auto simp: group_by_snoc keys_group_append)

lemma group_get_by:
  "group_get (group_by key val xs) k = map val (filter (\<lambda>x. key x = k) xs)"
  by (induction xs rule: rev_induct)
     (auto simp: group_by_snoc group_get_append, simp add: group_get_def)

lemma group_append_nonempty:
  assumes "\<forall>(k, vs) \<in> set g. vs \<noteq> []"
  shows "\<forall>(k, vs) \<in> set (group_append j v g). vs \<noteq> []"
  using assms by (induction j v g rule: group_append.induct) auto

lemma group_by_nonempty: "\<forall>(k, vs) \<in> set (group_by key val xs). vs \<noteq> []"
  by (induction xs rule: rev_induct)
     (simp, unfold group_by_snoc, rule group_append_nonempty)

section \<open>Chains of checks\<close>

text \<open>
  A Go function that returns the first failing check is a chain of conditionals and case
  distinctions; it returns nil exactly when every check passes.
\<close>

named_theorems check_simps \<open>when a chain of checks returns nil\<close>

lemma guard_None [check_simps]: "(if P then Some e else x) = None \<longleftrightarrow> \<not> P \<and> x = None"
  by simp

lemma then_None [check_simps]: "(case x of None \<Rightarrow> y | Some e \<Rightarrow> Some e) = None \<longleftrightarrow> x = None \<and> y = None"
  by (simp split: option.splits)

lemma if_None [check_simps]: "(if P then x else None) = None \<longleftrightarrow> (P \<longrightarrow> x = None)"
  by simp

section \<open>Lists\<close>

lemma sorted_map_sort_key [simp]: "sorted (map f (sort_key f xs))"
  by simp

lemma sort_key_permutes: "mset (sort_key f xs) = mset xs"
  by simp

lemma foldl_snoc_map: "foldl (\<lambda>acc x. acc @ [f x]) acc xs = acc @ map f xs"
  by (induction xs arbitrary: acc) simp_all

lemma successive_pairs_sorted_wrt:
  assumes "transp R"
  shows "(\<forall>i. Suc i < length xs \<longrightarrow> R (xs ! i) (xs ! Suc i)) \<longleftrightarrow> sorted_wrt R xs"
  using sorted_wrt_iff_nth_Suc_transp [OF assms, of xs] by blast

section \<open>Reachable states\<close>

inductive reach :: "('s \<Rightarrow> bool) \<Rightarrow> ('s \<Rightarrow> 's \<Rightarrow> bool) \<Rightarrow> 's \<Rightarrow> bool"
  for start :: "'s \<Rightarrow> bool" and step :: "'s \<Rightarrow> 's \<Rightarrow> bool" where
  reach_start: "start s \<Longrightarrow> reach start step s"
| reach_step: "reach start step s \<Longrightarrow> step s t \<Longrightarrow> reach start step t"

text \<open>
  The interface between a component's step relation and its safety properties: an
  invariant that holds initially and that each step keeps holds in every reachable state.
\<close>

locale step_invariant =
  fixes start :: "'s \<Rightarrow> bool" and step :: "'s \<Rightarrow> 's \<Rightarrow> bool" and inv :: "'s \<Rightarrow> bool"
  assumes start_inv: "start s \<Longrightarrow> inv s"
    and step_inv: "step s t \<Longrightarrow> inv s \<Longrightarrow> inv t"
begin

lemma reach_inv: "reach start step s \<Longrightarrow> inv s"
  by (induction rule: reach.induct) (auto intro: start_inv step_inv)

lemma steps_inv: "step\<^sup>*\<^sup>* s t \<Longrightarrow> inv s \<Longrightarrow> inv t"
  by (induction rule: rtranclp_induct) (auto intro: step_inv)

end

text \<open>
  The interface between a step relation and its liveness: if each step brings the end closer,
  and some step is possible until then, the end is reached from every state.
\<close>

locale step_terminates =
  fixes step :: "'s \<Rightarrow> 's \<Rightarrow> bool" and distance :: "'s \<Rightarrow> nat" and ended :: "'s \<Rightarrow> bool"
  assumes step_closer: "step s t \<Longrightarrow> distance t < distance s"
    and step_possible: "\<not> ended s \<Longrightarrow> \<exists>t. step s t"
begin

lemma completes: "\<exists>t. step\<^sup>*\<^sup>* s t \<and> ended t"
proof (induction "distance s" arbitrary: s rule: less_induct)
  case less
  show ?case
  proof (cases "ended s")
    case False
    then obtain s1 where s1: "step s s1" using step_possible by blast
    then obtain t where "step\<^sup>*\<^sup>* s1 t" "ended t" using less step_closer by blast
    then show ?thesis using s1 by (meson converse_rtranclp_into_rtranclp)
  qed blast
qed

end

end
