(* ===== verification/Identity.thy ===== *)
theory Identity
  imports Prelude
begin

text \<open>
  \<^verbatim>\<open>internal/identity/identity.go\<close>: the cells of the design, the logical request and its
  UID encoding, and the emitters that own timestamps. A cell is the string it is in the
  code, so that a value no constant names is representable.
\<close>

section \<open>Cells\<close>

type_synonym Cell = string
type_synonym CohortID = uint32
type_synonym Ordinal = uint32
type_synonym EnvelopeID = uint64
type_synonym ExecutionID = uint64
type_synonym WriterID = uint32
type_synonym UID = int64

abbreviation (input) CellD0 :: Cell where "CellD0 \<equiv> ''D0''"
abbreviation (input) CellF00 :: Cell where "CellF00 \<equiv> ''F00''"
abbreviation (input) CellF01 :: Cell where "CellF01 \<equiv> ''F01''"
abbreviation (input) CellF10 :: Cell where "CellF10 \<equiv> ''F10''"
abbreviation (input) CellF11D :: Cell where "CellF11D \<equiv> ''F11-D''"
abbreviation (input) CellF11P :: Cell where "CellF11P \<equiv> ''F11-P''"
abbreviation (input) CellF00Seq :: Cell where "CellF00Seq \<equiv> ''F00-seq''"

definition implementedCells :: "Cell \<Rightarrow> bool" where
  "implementedCells c \<longleftrightarrow> c \<in> {CellD0, CellF00, CellF10}"

definition AllCells :: "Cell list" where
  "AllCells = [CellD0, CellF00, CellF01, CellF10, CellF11D, CellF11P, CellF00Seq]"

datatype cell_error = UnknownCell string | CellNotImplemented Cell

definition ParseCell :: "string \<Rightarrow> cell_error + Cell" where
  "ParseCell s = (case find (\<lambda>c. c = s) AllCells of
     Some c \<Rightarrow> Inr c | None \<Rightarrow> Inl (UnknownCell s))"

definition Implemented :: "Cell \<Rightarrow> bool" where
  "Implemented c = implementedCells c"

definition ImplementedCells :: "Cell list" where
  "ImplementedCells = filter implementedCells AllCells"

definition CheckImplemented :: "Cell \<Rightarrow> cell_error option" where
  "CheckImplemented c =
     (if Implemented c then None
      else case ParseCell c of Inl e \<Rightarrow> Some e | Inr _ \<Rightarrow> Some (CellNotImplemented c))"

definition PreformsBatch :: "Cell \<Rightarrow> bool" where
  "PreformsBatch c \<longleftrightarrow> c = CellF11P"

definition UsesProxy :: "Cell \<Rightarrow> bool" where
  "UsesProxy c \<longleftrightarrow> c \<noteq> CellD0"

definition AggregatesEnvelopes :: "Cell \<Rightarrow> bool" where
  "AggregatesEnvelopes c \<longleftrightarrow> c = CellF10 \<or> c = CellF11D \<or> c = CellF11P"

definition VectorizesCompute :: "Cell \<Rightarrow> bool" where
  "VectorizesCompute c \<longleftrightarrow> c = CellF01 \<or> c = CellF11D \<or> c = CellF11P"

section \<open>Logical requests and UIDs\<close>

datatype LogicalRequest = LogicalRequest (Cohort: uint32) (Ordinal: uint32)

text \<open>The order the validator sorts requests by: cohort, then ordinal.\<close>

instantiation LogicalRequest :: linorder
begin

definition less_eq_LogicalRequest :: "LogicalRequest \<Rightarrow> LogicalRequest \<Rightarrow> bool" where
  "a \<le> b \<longleftrightarrow> (if Cohort a \<noteq> Cohort b then Cohort a < Cohort b else Ordinal a \<le> Ordinal b)"

definition less_LogicalRequest :: "LogicalRequest \<Rightarrow> LogicalRequest \<Rightarrow> bool" where
  "a < b \<longleftrightarrow> (if Cohort a \<noteq> Cohort b then Cohort a < Cohort b else Ordinal a < Ordinal b)"

instance
proof
  fix x y z :: LogicalRequest
  show "(x < y) = (x \<le> y \<and> \<not> y \<le> x)"
    by (auto simp: less_eq_LogicalRequest_def less_LogicalRequest_def)
  show "x \<le> x" by (simp add: less_eq_LogicalRequest_def)
  show "x \<le> z" if "x \<le> y" "y \<le> z"
    using that by (auto simp: less_eq_LogicalRequest_def split: if_splits)
  show "x = y" if "x \<le> y" "y \<le> x"
    using that by (cases x; cases y) (auto simp: less_eq_LogicalRequest_def split: if_splits)
  show "x \<le> y \<or> y \<le> x" by (auto simp: less_eq_LogicalRequest_def)
qed

end

abbreviation (input) uidOrdinalBits :: nat where "uidOrdinalBits \<equiv> 20"

definition MaxOrdinal :: nat where
  "MaxOrdinal = 2 ^ uidOrdinalBits - 1"

definition UID :: "LogicalRequest \<Rightarrow> UID" where
  "UID r = push_bit uidOrdinalBits (ucast (Cohort r)) OR ucast (Ordinal r)"

definition uidLogicalRequest :: "UID \<Rightarrow> LogicalRequest" where
  "uidLogicalRequest u =
     LogicalRequest (ucast (drop_bit uidOrdinalBits u)) (ucast (u AND of_nat MaxOrdinal))"

section \<open>Emitters\<close>

type_synonym Emitter = uint8

abbreviation (input) EmitterUnknown :: Emitter where "EmitterUnknown \<equiv> 0"
abbreviation (input) EmitterLoadGen :: Emitter where "EmitterLoadGen \<equiv> 1"
abbreviation (input) EmitterProxy :: Emitter where "EmitterProxy \<equiv> 2"
abbreviation (input) EmitterAdapter :: Emitter where "EmitterAdapter \<equiv> 3"
abbreviation (input) EmitterTriton :: Emitter where "EmitterTriton \<equiv> 4"

definition emitterNames :: "(Emitter \<times> string) list" where
  "emitterNames = [(EmitterUnknown, ''unknown''), (EmitterLoadGen, ''loadgen''),
     (EmitterProxy, ''proxy''), (EmitterAdapter, ''adapter''), (EmitterTriton, ''triton'')]"

text \<open>\<open>None\<close> stands for the \<^verbatim>\<open>Emitter(n)\<close> rendering of a value the table does not name.\<close>

definition emitterString :: "Emitter \<Rightarrow> string option" where
  "emitterString e = map_of emitterNames e"

definition ParseEmitter :: "string \<Rightarrow> string + Emitter" where
  "ParseEmitter s = (case find (\<lambda>(e, n). n = s \<and> e \<noteq> EmitterUnknown) emitterNames of
     Some (e, _) \<Rightarrow> Inr e | None \<Rightarrow> Inl s)"

section \<open>Lemmas\<close>

lemma distinct_AllCells: "distinct AllCells"
  by (simp add: AllCells_def)

lemma ParseCell_Inr_iff: "ParseCell s = Inr c \<longleftrightarrow> c = s \<and> s \<in> set AllCells"
  by (auto simp: ParseCell_def find_Some_iff find_None_iff split: option.splits)

lemma ParseCell_Inl: "s \<notin> set AllCells \<Longrightarrow> ParseCell s = Inl (UnknownCell s)"
  by (auto simp: ParseCell_def find_None_iff split: option.splits simp: find_Some_iff)

lemma Implemented_AllCells: "Implemented c \<Longrightarrow> c \<in> set AllCells"
  by (auto simp: Implemented_def implementedCells_def AllCells_def)

lemma CheckImplemented_None_iff [simp]: "CheckImplemented c = None \<longleftrightarrow> Implemented c"
  by (simp add: CheckImplemented_def split: sum.splits)

lemma of_nat_MaxOrdinal: "of_nat MaxOrdinal = (mask 20 :: uint64)"
  by (simp add: MaxOrdinal_def mask_eq_exp_minus_1)

lemma unat_Ordinal_le_iff: "unat (x :: uint32) \<le> MaxOrdinal \<longleftrightarrow> take_bit 20 x = x"
proof -
  have "take_bit 20 x = x \<longleftrightarrow> unat x < 2 ^ 20"
    by (simp add: word_unat_eq_iff unsigned_take_bit_eq take_bit_nat_eq_self_iff)
  then show ?thesis by (auto simp: MaxOrdinal_def)
qed

lemma uid_Ordinal: "Ordinal (uidLogicalRequest (UID r)) = take_bit 20 (Ordinal r)"
  unfolding uidLogicalRequest_def UID_def of_nat_MaxOrdinal
  by (intro bit_word_eqI) (auto simp: bit_simps)

lemma uid_Cohort: "Cohort (uidLogicalRequest (UID r)) = (Cohort r OR drop_bit 20 (Ordinal r))"
  unfolding uidLogicalRequest_def UID_def
  by (intro bit_word_eqI) (auto simp: bit_simps)

lemma UID_roundtrip_iff:
  "uidLogicalRequest (UID r) = r \<longleftrightarrow> unat (Ordinal r) \<le> MaxOrdinal"
proof
  assume "uidLogicalRequest (UID r) = r"
  then show "unat (Ordinal r) \<le> MaxOrdinal"
    using uid_Ordinal [of r] by (simp add: unat_Ordinal_le_iff)
next
  assume "unat (Ordinal r) \<le> MaxOrdinal"
  then have t: "take_bit 20 (Ordinal r) = Ordinal r" by (simp add: unat_Ordinal_le_iff)
  then have "drop_bit 20 (Ordinal r) = 0" by (simp add: take_bit_eq_self_iff_drop_bit_eq_0)
  with t show "uidLogicalRequest (UID r) = r"
    by (intro LogicalRequest.expand) (simp add: uid_Ordinal uid_Cohort)
qed

lemma UID_inj:
  "unat (Ordinal a) \<le> MaxOrdinal \<Longrightarrow> unat (Ordinal b) \<le> MaxOrdinal \<Longrightarrow> UID a = UID b \<Longrightarrow> a = b"
  by (metis UID_roundtrip_iff)

end
