(* ===== verification/Schema.thy ===== *)
theory Schema
  imports Identity
begin

text \<open>
  \<^verbatim>\<open>internal/events/schema.go\<close>: the 15-timestamp record, the stage masks that type
  absence, who owns which stage, and the record's setters. Arrays are lists of the
  array's length (\<open>record_wf\<close>); the setters keep the lengths.
\<close>

section \<open>Stages and masks\<close>

type_synonym Stage = uint8
type_synonym StageMask = uint32
type_synonym Status = uint8
type_synonym CPUScope = uint8

definition SchemaVersion :: nat where "SchemaVersion = 2"

abbreviation (input) StageSched :: Stage where "StageSched \<equiv> 1"
abbreviation (input) StageClientSend :: Stage where "StageClientSend \<equiv> 2"
abbreviation (input) StageProxyRecv :: Stage where "StageProxyRecv \<equiv> 3"
abbreviation (input) StageCohortSeal :: Stage where "StageCohortSeal \<equiv> 4"
abbreviation (input) StageProxySend :: Stage where "StageProxySend \<equiv> 5"
abbreviation (input) StageAdapterRecv :: Stage where "StageAdapterRecv \<equiv> 6"
abbreviation (input) StageAdapterDispatch :: Stage where "StageAdapterDispatch \<equiv> 7"
abbreviation (input) StageQueueStart :: Stage where "StageQueueStart \<equiv> 8"
abbreviation (input) StageComputeStart :: Stage where "StageComputeStart \<equiv> 9"
abbreviation (input) StageComputeEnd :: Stage where "StageComputeEnd \<equiv> 10"
abbreviation (input) StageAdapterResult :: Stage where "StageAdapterResult \<equiv> 11"
abbreviation (input) StageAdapterSend :: Stage where "StageAdapterSend \<equiv> 12"
abbreviation (input) StageProxyRespRecv :: Stage where "StageProxyRespRecv \<equiv> 13"
abbreviation (input) StageProxyFanout :: Stage where "StageProxyFanout \<equiv> 14"
abbreviation (input) StageClientRecv :: Stage where "StageClientRecv \<equiv> 15"

definition StageCount :: nat where "StageCount = 15"

definition stageNames :: "string list" where
  "stageNames = ['''', ''t_sched'', ''t_client_send'', ''t_proxy_recv'', ''t_cohort_seal'',
     ''t_proxy_send'', ''t_adapter_recv'', ''t_adapter_dispatch'', ''t_queue_start'',
     ''t_compute_start'', ''t_compute_end'', ''t_adapter_result'', ''t_adapter_send'',
     ''t_proxy_resp_recv'', ''t_proxy_fanout'', ''t_client_recv'']"

definition Valid :: "Stage \<Rightarrow> bool" where
  "Valid s \<longleftrightarrow> 1 \<le> s \<and> s \<le> of_nat StageCount"

definition stageString :: "Stage \<Rightarrow> string option" where
  "stageString s = (if 1 \<le> s \<and> s \<le> of_nat StageCount then Some (stageNames ! unat s) else None)"

definition AllStages :: "Stage list" where
  "AllStages = map of_nat [1 ..< Suc StageCount]"

definition ParseStage :: "string \<Rightarrow> string + Stage" where
  "ParseStage name = (case find (\<lambda>s. stageNames ! unat s = name) AllStages of
     Some s \<Rightarrow> Inr s | None \<Rightarrow> Inl name)"

text \<open>\<^verbatim>\<open>StageMask(1)<<(s-1)\<close>: the subtraction wraps at 8 bits and a shift by 32 or more is 0.\<close>

definition stage_bit :: "Stage \<Rightarrow> StageMask" where
  "stage_bit s = push_bit (unat (s - 1)) 1"

definition mask_With :: "StageMask \<Rightarrow> Stage \<Rightarrow> StageMask" where
  "mask_With m s = m OR stage_bit s"

definition mask_Without :: "StageMask \<Rightarrow> Stage \<Rightarrow> StageMask" where
  "mask_Without m s = m AND NOT (stage_bit s)"

definition mask_Has :: "StageMask \<Rightarrow> Stage \<Rightarrow> bool" where
  "mask_Has m s \<longleftrightarrow> m AND stage_bit s \<noteq> 0"

definition MaskOf :: "Stage list \<Rightarrow> StageMask" where
  "MaskOf stages = foldl mask_With 0 stages"

definition mask_Len :: "StageMask \<Rightarrow> nat" where
  "mask_Len m = length (filter (bit m) [0 ..< 32])"

definition mask_Stages :: "StageMask \<Rightarrow> Stage list" where
  "mask_Stages m = filter (mask_Has m) AllStages"

definition loadGenStages :: StageMask where
  "loadGenStages = MaskOf [StageSched, StageClientSend, StageClientRecv]"
definition proxyStages :: StageMask where
  "proxyStages = MaskOf [StageProxyRecv, StageProxySend, StageProxyRespRecv, StageProxyFanout]"
definition adapterStages :: StageMask where
  "adapterStages =
     MaskOf [StageAdapterRecv, StageAdapterDispatch, StageAdapterResult, StageAdapterSend]"
definition tritonStages :: StageMask where
  "tritonStages = MaskOf [StageQueueStart, StageComputeStart, StageComputeEnd]"

definition TopologyMask :: "Cell \<Rightarrow> string + StageMask" where
  "TopologyMask cell =
     (if cell = CellD0 then Inr (loadGenStages OR tritonStages OR MaskOf [StageCohortSeal])
      else if cell \<in> {CellF00, CellF01, CellF10, CellF11D, CellF11P, CellF00Seq}
      then Inr (loadGenStages OR proxyStages OR adapterStages OR tritonStages
                OR MaskOf [StageCohortSeal])
      else Inl cell)"

definition SealOwner :: "Cell \<Rightarrow> Emitter" where
  "SealOwner cell = (if AggregatesEnvelopes cell then EmitterProxy else EmitterLoadGen)"

definition emitterStages :: "Emitter \<Rightarrow> StageMask option" where
  "emitterStages e =
     (if e = EmitterLoadGen then Some loadGenStages
      else if e = EmitterProxy then Some proxyStages
      else if e = EmitterAdapter then Some adapterStages
      else if e = EmitterTriton then Some tritonStages
      else None)"

definition OwnedStages :: "Cell \<Rightarrow> Emitter \<Rightarrow> StageMask" where
  "OwnedStages cell emitter =
     (case emitterStages emitter of None \<Rightarrow> 0
      | Some m0 \<Rightarrow>
          let m = (if SealOwner cell = emitter then mask_With m0 StageCohortSeal else m0) in
          case TopologyMask cell of Inl _ \<Rightarrow> 0 | Inr topology \<Rightarrow> m AND topology)"

section \<open>Statuses and CPU scopes\<close>

abbreviation (input) StatusUnspecified :: Status where "StatusUnspecified \<equiv> 0"
abbreviation (input) StatusOK :: Status where "StatusOK \<equiv> 1"
abbreviation (input) StatusError :: Status where "StatusError \<equiv> 2"
abbreviation (input) StatusTimeout :: Status where "StatusTimeout \<equiv> 3"

abbreviation (input) CPUScopeUnspecified :: CPUScope where "CPUScopeUnspecified \<equiv> 0"
abbreviation (input) CPUScopeProcess :: CPUScope where "CPUScopeProcess \<equiv> 1"
abbreviation (input) CPUScopeDispatch :: CPUScope where "CPUScopeDispatch \<equiv> 2"

definition statusNames :: "(Status \<times> string) list" where
  "statusNames = [(StatusUnspecified, ''unspecified''), (StatusOK, ''ok''),
     (StatusError, ''error''), (StatusTimeout, ''timeout'')]"

definition cpuScopeNames :: "(CPUScope \<times> string) list" where
  "cpuScopeNames = [(CPUScopeUnspecified, ''unspecified''), (CPUScopeProcess, ''process''),
     (CPUScopeDispatch, ''dispatch'')]"

definition ParseCPUScope :: "string \<Rightarrow> string + CPUScope" where
  "ParseCPUScope s = (case find (\<lambda>(c, n). n = s) cpuScopeNames of
     Some (c, _) \<Rightarrow> Inr c | None \<Rightarrow> Inl s)"

definition ComparableAcrossFactorA :: "CPUScope \<Rightarrow> bool" where
  "ComparableAcrossFactorA s \<longleftrightarrow> s = CPUScopeDispatch"

section \<open>The record\<close>

record DispatchEvidence =
  Dispatched :: uint32
  SkewNanos :: int64
  CPUNanos :: int64
  CPUScope :: CPUScope

definition MaxMembership :: nat where "MaxMembership = 64"

record Record =
  rEmitter :: Emitter
  rSeq :: uint64
  rCohort :: CohortID
  rOrdinal :: Ordinal
  rEnvelopeID :: EnvelopeID
  rExecutionID :: ExecutionID
  rPresence :: StageMask
  rStatus :: Status
  rTS :: "int64 list"
  rLogicalBytes :: uint32
  rEnvelopeBytes :: uint32
  rBatchSize :: uint32
  rDispatch :: DispatchEvidence
  rHasDispatch :: bool
  rMembership :: "UID list"
  rMembershipStored :: uint8
  rMembershipCount :: uint32

definition zeroDispatch :: DispatchEvidence where
  "zeroDispatch = \<lparr>Dispatched = 0, SkewNanos = 0, CPUNanos = 0, CPUScope = 0\<rparr>"

definition zeroRecord :: Record where
  "zeroRecord = \<lparr>rEmitter = 0, rSeq = 0, rCohort = 0, rOrdinal = 0, rEnvelopeID = 0,
     rExecutionID = 0, rPresence = 0, rStatus = 0, rTS = replicate (Suc StageCount) 0,
     rLogicalBytes = 0, rEnvelopeBytes = 0, rBatchSize = 0, rDispatch = zeroDispatch,
     rHasDispatch = False, rMembership = replicate MaxMembership 0, rMembershipStored = 0,
     rMembershipCount = 0\<rparr>"

definition record_wf :: "Record \<Rightarrow> bool" where
  "record_wf r \<longleftrightarrow> length (rTS r) = Suc StageCount \<and> length (rMembership r) = MaxMembership
     \<and> unat (rMembershipStored r) \<le> MaxMembership"

text \<open>
  \<^verbatim>\<open>SetStage\<close> indexes an array of 16: the call sites pass stage constants, and
  \<^verbatim>\<open>Decode\<close> a stage its field range bounds, so the index is in range.
\<close>

definition SetStage :: "Stage \<Rightarrow> int64 \<Rightarrow> Record \<Rightarrow> Record" where
  "SetStage s ts r = r\<lparr>rTS := (rTS r)[unat s := ts], rPresence := mask_With (rPresence r) s\<rparr>"

definition recStage :: "Record \<Rightarrow> Stage \<Rightarrow> int64 \<times> bool" where
  "recStage r s = (if \<not> Valid s \<or> \<not> mask_Has (rPresence r) s then (0, False)
     else (rTS r ! unat s, True))"

definition SetDispatch :: "DispatchEvidence \<Rightarrow> Record \<Rightarrow> Record" where
  "SetDispatch e r = r\<lparr>rDispatch := e, rHasDispatch := True\<rparr>"

definition SetMembership :: "UID list \<Rightarrow> Record \<Rightarrow> Record" where
  "SetMembership uids r =
     (let n = min (length uids) MaxMembership in
      r\<lparr>rMembershipCount := of_nat (length uids),
        rMembership := take n uids @ drop n (rMembership r),
        rMembershipStored := of_nat n\<rparr>)"

definition MembershipUIDs :: "Record \<Rightarrow> UID list" where
  "MembershipUIDs r = take (unat (rMembershipStored r)) (rMembership r)"

definition recRequest :: "Record \<Rightarrow> LogicalRequest" where
  "recRequest r = LogicalRequest (rCohort r) (rOrdinal r)"

definition recReset :: "Record \<Rightarrow> Record" where
  "recReset r = zeroRecord"

section \<open>Lemmas\<close>

named_theorems mask_simps \<open>membership in stage masks\<close>

lemma mask_Has_bit: "mask_Has m s \<longleftrightarrow> bit m (unat (s - 1))"
  by (simp add: mask_Has_def stage_bit_def and_exp_eq_0_iff_not_bit)

lemma unat_minus1: "s \<noteq> 0 \<Longrightarrow> unat (s - 1 :: 'a::len word) = unat s - 1"
  by (metis unat_minus_one)

lemma Valid_unat: "Valid s \<longleftrightarrow> 1 \<le> unat s \<and> unat s \<le> 15"
  by (simp add: Valid_def StageCount_def word_le_nat_alt)

lemma AllStages_code: "AllStages = [1, 2, 3, 4, 5, 6, 7, 8, 9, 10, 11, 12, 13, 14, 15]"
  by (simp add: AllStages_def StageCount_def upt_rec)

lemma Valid_AllStages: "Valid s \<longleftrightarrow> s \<in> set AllStages"
proof
  assume v: "Valid s"
  have "s = of_nat (unat s)" by simp
  moreover have "unat s \<in> set [1 ..< Suc StageCount]"
    using v by (simp add: Valid_unat StageCount_def)
  ultimately show "s \<in> set AllStages" unfolding AllStages_def set_map by (rule image_eqI)
next
  assume "s \<in> set AllStages"
  then show "Valid s" by (auto simp: AllStages_code Valid_def StageCount_def)
qed

lemma Valid_unat_minus1:
  assumes "Valid s"
  shows "unat (s - 1) = unat s - 1" "unat (s - 1) < 15" "unat (s - 1) < 32"
proof -
  have "s \<noteq> 0" using assms by (auto simp: Valid_unat)
  then show "unat (s - 1) = unat s - 1" by (rule unat_minus1)
  then show "unat (s - 1) < 15" "unat (s - 1) < 32" using assms by (simp_all add: Valid_unat) linarith+
qed

lemma Valid_inj: "Valid s \<Longrightarrow> Valid t \<Longrightarrow> unat (s - 1) = unat (t - 1) \<longleftrightarrow> s = t"
  by (auto simp: Valid_unat_minus1 Valid_unat word_unat_eq_iff)

lemma bit_mask_With:
  "bit (mask_With m s) n \<longleftrightarrow> bit m n \<or> (n = unat (s - 1) \<and> n < 32)"
  by (auto simp: mask_With_def stage_bit_def bit_simps)

lemma mask_Has_With [mask_simps]:
  "Valid s \<Longrightarrow> Valid t \<Longrightarrow> mask_Has (mask_With m s) t \<longleftrightarrow> t = s \<or> mask_Has m t"
  using Valid_inj [of s t] Valid_unat_minus1(3) [of s]
  by (auto simp: mask_Has_bit bit_mask_With)

lemma mask_Has_Without [mask_simps]:
  "Valid s \<Longrightarrow> Valid t \<Longrightarrow> mask_Has (mask_Without m s) t \<longleftrightarrow> t \<noteq> s \<and> mask_Has m t"
  using Valid_inj [of s t] Valid_unat_minus1(3) [of s] Valid_unat_minus1(3) [of t]
  by (auto simp: mask_Has_bit mask_Without_def stage_bit_def bit_simps)

lemma mask_Has_0 [mask_simps, simp]: "\<not> mask_Has 0 s"
  by (simp add: mask_Has_def)

lemma mask_Has_and [mask_simps]: "mask_Has (m AND m') s \<longleftrightarrow> mask_Has m s \<and> mask_Has m' s"
  by (simp add: mask_Has_bit bit_simps)

lemma mask_Has_or [mask_simps]: "mask_Has (m OR m') s \<longleftrightarrow> mask_Has m s \<or> mask_Has m' s"
  by (simp add: mask_Has_bit bit_simps)

lemma mask_Has_MaskOf [mask_simps]:
  assumes "\<forall>t \<in> set ss. Valid t" and "Valid s"
  shows "mask_Has (MaskOf ss) s \<longleftrightarrow> s \<in> set ss"
  using assms unfolding MaskOf_def
  by (induction ss rule: rev_induct) (auto simp: mask_simps)

lemma set_mask_Stages: "set (mask_Stages m) = {s. Valid s \<and> mask_Has m s}"
  by (auto simp: mask_Stages_def Valid_AllStages)

text \<open>Two masks of schema stages with the same members are equal.\<close>

lemma mask_eqI:
  assumes "\<And>s. Valid s \<Longrightarrow> mask_Has a s = mask_Has b s"
    and "take_bit 15 a = a" and "take_bit 15 b = b"
  shows "a = b"
proof (rule bit_word_eqI)
  fix n assume "n < LENGTH(32)"
  show "bit a n = bit b n"
  proof (cases "n < 15")
    case True
    then have u: "unat (of_nat (Suc n) :: 8 word) = Suc n"
      by (simp add: unat_of_nat take_bit_nat_eq_self_iff del: of_nat_Suc)
    then have v: "Valid (of_nat (Suc n))"
      using True by (simp add: Valid_unat del: of_nat_Suc)
    have "unat (of_nat (Suc n) - 1 :: 8 word) = n" by (subst unat_minus1) (use u in auto)
    with assms(1) [OF v] show ?thesis by (simp add: mask_Has_bit)
  next
    case False
    then have "\<not> bit (take_bit 15 a) n" "\<not> bit (take_bit 15 b) n" by (simp_all add: bit_simps)
    with assms(2,3) show ?thesis by simp
  qed
qed

lemma stage_group_code:
  "loadGenStages = 0x4003" "proxyStages = 0x3014" "adapterStages = 0xC60" "tritonStages = 0x380"
  by (simp_all add: loadGenStages_def proxyStages_def adapterStages_def tritonStages_def
      MaskOf_def mask_With_def stage_bit_def)

text \<open>The setters keep the array lengths, and each accessor reads what its setter wrote.\<close>

named_theorems record_simps \<open>accessors of a record after its setters\<close>

lemma record_wf_zero [simp, intro]: "record_wf zeroRecord"
  by (simp add: record_wf_def zeroRecord_def)

lemma record_wf_setters [record_simps]:
  "record_wf r \<Longrightarrow> record_wf (SetStage s ts r)"
  "record_wf r \<Longrightarrow> record_wf (SetDispatch e r)"
  "record_wf r \<Longrightarrow> record_wf (SetMembership uids r)"
proof -
  show "record_wf r \<Longrightarrow> record_wf (SetStage s ts r)" by (simp add: record_wf_def SetStage_def)
  show "record_wf r \<Longrightarrow> record_wf (SetDispatch e r)" by (simp add: record_wf_def SetDispatch_def)
  have "unat (of_nat (min (length uids) MaxMembership) :: 8 word) \<le> MaxMembership"
    by (simp add: unat_of_nat take_bit_eq_mod del: of_nat_min)
  then show "record_wf r \<Longrightarrow> record_wf (SetMembership uids r)"
    by (simp add: record_wf_def SetMembership_def Let_def)
qed

lemma recStage_SetStage [record_simps]:
  assumes "record_wf r" and "Valid s"
  shows "recStage (SetStage s ts r) t = (if t = s then (ts, True) else recStage r t)"
  using assms
  by (auto simp: recStage_def SetStage_def mask_simps record_wf_def Valid_unat StageCount_def
      nth_list_update word_unat_eq_iff)

lemma MembershipUIDs_SetMembership [record_simps]:
  "MembershipUIDs (SetMembership uids r) = take MaxMembership uids"
proof -
  let ?n = "min (length uids) MaxMembership"
  have "?n < 2 ^ 8" by (simp add: MaxMembership_def)
  then have "unat (of_nat ?n :: 8 word) = ?n"
    by (simp add: unat_of_nat take_bit_nat_eq_self_iff del: of_nat_min)
  then have "MembershipUIDs (SetMembership uids r) = take ?n uids"
    by (simp add: MembershipUIDs_def SetMembership_def Let_def del: of_nat_min)
  also have "\<dots> = take MaxMembership uids" by (cases "length uids \<le> MaxMembership") simp_all
  finally show ?thesis .
qed

lemma recStage_zero [simp]: "recStage zeroRecord s = (0, False)"
  by (simp add: recStage_def zeroRecord_def)

text \<open>Ownership, computed once per cell.\<close>

lemma TopologyMask_cases:
  "TopologyMask c = Inr m \<longleftrightarrow>
     (c = CellD0 \<and> m = 0x438B) \<or> (c \<noteq> CellD0 \<and> c \<in> set AllCells \<and> m = 0x7FFF)"
  by (auto simp: TopologyMask_def stage_group_code MaskOf_def mask_With_def stage_bit_def
      AllCells_def)

lemma TopologyMask_Inl_iff: "TopologyMask c = Inl e \<longleftrightarrow> c \<notin> set AllCells \<and> e = c"
  by (auto simp: TopologyMask_def AllCells_def)

end
