(* ===== verification/Codec.thy ===== *)
theory Codec
  imports Schema
begin

text \<open>
  \<^verbatim>\<open>internal/events/codec.go\<close>: the hand-written wire format of one event record.
  The encoders append to a byte list as the code appends to \<^verbatim>\<open>dst\<close>; the decoder is the
  code's loop over the remaining bytes. \<^verbatim>\<open>encoding/binary\<close>'s \<^verbatim>\<open>AppendUvarint\<close> and
  \<^verbatim>\<open>Uvarint\<close> and \<^verbatim>\<open>strconv\<close>'s \<^verbatim>\<open>AppendUint\<close> and \<^verbatim>\<open>ParseUint\<close> (base 10, 32 bits) are
  modelled as the standard library defines them.
\<close>

section \<open>Varints\<close>

function AppendUvarint :: "byte list \<Rightarrow> uint64 \<Rightarrow> byte list" where
  "AppendUvarint dst x =
     (if 0x80 \<le> x then AppendUvarint (dst @ [ucast x OR 0x80]) (drop_bit 7 x)
      else dst @ [ucast x])"
  by pat_completeness auto

lemma unat_drop_bit7: "unat (drop_bit 7 (x :: uint64)) = unat x div 128"
  by (simp add: drop_bit_eq_div unat_div)

lemma unat_drop_bit7_less: "0x80 \<le> (x :: uint64) \<Longrightarrow> unat (drop_bit 7 x) < unat x"
  unfolding unat_drop_bit7 by (simp add: word_le_nat_alt)

termination AppendUvarint
  by (relation "measure (\<lambda>(_, x). unat x)") (simp_all add: unat_drop_bit7_less)

declare AppendUvarint.simps [simp del]

text \<open>
  \<^verbatim>\<open>Uvarint\<close> reads at most ten bytes (\<open>i\<close> counts them, \<open>s = 7 * i\<close> is the shift):
  0 consumed means the bytes ran out, a negative count an overflow.
\<close>

fun Uvarint_loop :: "nat \<Rightarrow> uint64 \<Rightarrow> byte list \<Rightarrow> uint64 \<times> int" where
  "Uvarint_loop i x [] = (0, 0)"
| "Uvarint_loop i x (b # buf) =
     (if i = 10 then (0, - int (i + 1))
      else if b < 0x80
      then (if i = 9 \<and> 1 < b then (0, - int (i + 1))
            else (x OR push_bit (7 * i) (ucast b), int (i + 1)))
      else Uvarint_loop (i + 1) (x OR push_bit (7 * i) (ucast (b AND 0x7F))) buf)"

definition Uvarint :: "byte list \<Rightarrow> uint64 \<times> int" where
  "Uvarint buf = Uvarint_loop 0 0 buf"

function varintLen_loop :: "nat \<Rightarrow> uint64 \<Rightarrow> nat" where
  "varintLen_loop n v = (if 0x80 \<le> v then varintLen_loop (n + 1) (drop_bit 7 v) else n)"
  by pat_completeness auto

termination varintLen_loop
  by (relation "measure (\<lambda>(_, x). unat x)") (simp_all add: unat_drop_bit7_less)

declare varintLen_loop.simps [simp del]

definition varintLen :: "uint64 \<Rightarrow> nat" where
  "varintLen v = varintLen_loop 1 v"

section \<open>Fields\<close>

definition wireVarint :: nat where "wireVarint = 0"
definition wireLen :: nat where "wireLen = 2"

definition appendTag :: "byte list \<Rightarrow> nat \<Rightarrow> nat \<Rightarrow> byte list" where
  "appendTag dst field wire = AppendUvarint dst (push_bit 3 (of_nat field) OR of_nat wire)"

definition appendVarintField :: "byte list \<Rightarrow> nat \<Rightarrow> uint64 \<Rightarrow> byte list" where
  "appendVarintField dst field v =
     (if v = 0 then dst else AppendUvarint (appendTag dst field wireVarint) v)"

definition appendBytesField :: "byte list \<Rightarrow> nat \<Rightarrow> byte list \<Rightarrow> byte list" where
  "appendBytesField dst field b =
     (if length b = 0 then dst
      else AppendUvarint (appendTag dst field wireLen) (of_nat (length b)) @ b)"

definition appendStringField :: "byte list \<Rightarrow> nat \<Rightarrow> string \<Rightarrow> byte list" where
  "appendStringField dst field s =
     (if s = '''' then dst
      else AppendUvarint (appendTag dst field wireLen) (of_nat (length s)) @ string_bytes s)"

section \<open>The Triton request id\<close>

fun AppendUint :: "nat \<Rightarrow> string" where
  "AppendUint n = (if n < 10 then [char_of (48 + n)]
     else AppendUint (n div 10) @ [char_of (48 + n mod 10)])"

declare AppendUint.simps [simp del]

definition TritonRequestID :: "LogicalRequest \<Rightarrow> string" where
  "TritonRequestID r = ''c'' @ AppendUint (unat (Cohort r)) @ ''/o'' @ AppendUint (unat (Ordinal r))"

definition AppendTritonRequestID :: "byte list \<Rightarrow> LogicalRequest \<Rightarrow> byte list" where
  "AppendTritonRequestID dst r = dst @ string_bytes (TritonRequestID r)"

datatype num_error = ErrSyntax | ErrRange

fun ParseUint_loop :: "nat \<Rightarrow> string \<Rightarrow> num_error + nat" where
  "ParseUint_loop n [] = Inr n"
| "ParseUint_loop n (c # cs) =
     (let d = of_char c :: nat in
      if d < 48 \<or> 57 < d then Inl ErrSyntax
      else let n1 = n * 10 + (d - 48) in
        if 2 ^ 32 - 1 < n1 then Inl ErrRange else ParseUint_loop n1 cs)"

definition ParseUint32 :: "string \<Rightarrow> num_error + nat" where
  "ParseUint32 s = (if s = '''' then Inl ErrSyntax else ParseUint_loop 0 s)"

datatype id_error = MalformedID string | MalformedCohort string num_error
  | MalformedOrdinal string num_error

text \<open>The scan for \<^verbatim>\<open>/o\<close> starts at index 1 and takes the first match.\<close>

definition ParseTritonRequestID :: "string \<Rightarrow> id_error + LogicalRequest" where
  "ParseTritonRequestID s =
     (if length s < 4 \<or> s ! 0 \<noteq> CHR ''c'' then Inl (MalformedID s)
      else case find (\<lambda>i. s ! i = CHR ''/'' \<and> s ! (i + 1) = CHR ''o'') [1 ..< length s - 1] of
        None \<Rightarrow> Inl (MalformedID s)
      | Some sep \<Rightarrow>
          (case ParseUint32 (take (sep - 1) (drop 1 s)) of
             Inl e \<Rightarrow> Inl (MalformedCohort s e)
           | Inr cohort \<Rightarrow>
               (case ParseUint32 (drop (sep + 2) s) of
                  Inl e \<Rightarrow> Inl (MalformedOrdinal s e)
                | Inr ordinal \<Rightarrow> Inr (LogicalRequest (of_nat cohort) (of_nat ordinal)))))"

section \<open>Records\<close>

definition fieldSchemaVersion :: nat where "fieldSchemaVersion = 1"
definition fieldExperimentID :: nat where "fieldExperimentID = 2"
definition fieldSessionID :: nat where "fieldSessionID = 3"
definition fieldRunID :: nat where "fieldRunID = 4"
definition fieldCell :: nat where "fieldCell = 5"
definition fieldClockDomainID :: nat where "fieldClockDomainID = 6"
definition fieldEmitter :: nat where "fieldEmitter = 7"
definition fieldWriterID :: nat where "fieldWriterID = 8"
definition fieldSeq :: nat where "fieldSeq = 9"
definition fieldCohortID :: nat where "fieldCohortID = 10"
definition fieldOrdinal :: nat where "fieldOrdinal = 11"
definition fieldEnvelopeID :: nat where "fieldEnvelopeID = 12"
definition fieldExecutionID :: nat where "fieldExecutionID = 13"
definition fieldTritonRequestID :: nat where "fieldTritonRequestID = 14"
definition fieldPresenceMask :: nat where "fieldPresenceMask = 15"
definition fieldStatus :: nat where "fieldStatus = 16"
definition fieldTimestampBase :: nat where "fieldTimestampBase = 20"
definition fieldLogicalBytes :: nat where "fieldLogicalBytes = 40"
definition fieldEnvelopeBytes :: nat where "fieldEnvelopeBytes = 41"
definition fieldBatchSize :: nat where "fieldBatchSize = 42"
definition fieldMembershipUIDs :: nat where "fieldMembershipUIDs = 43"
definition fieldMembershipCount :: nat where "fieldMembershipCount = 44"
definition fieldDispatched :: nat where "fieldDispatched = 45"
definition fieldDispatchSkewNanos :: nat where "fieldDispatchSkewNanos = 46"
definition fieldAdapterCPUNanos :: nat where "fieldAdapterCPUNanos = 47"
definition fieldAdapterCPUScope :: nat where "fieldAdapterCPUScope = 48"

lemmas field_defs = fieldSchemaVersion_def fieldExperimentID_def fieldSessionID_def fieldRunID_def
  fieldCell_def fieldClockDomainID_def fieldEmitter_def fieldWriterID_def fieldSeq_def
  fieldCohortID_def fieldOrdinal_def fieldEnvelopeID_def fieldExecutionID_def
  fieldTritonRequestID_def fieldPresenceMask_def fieldStatus_def fieldTimestampBase_def
  fieldLogicalBytes_def fieldEnvelopeBytes_def fieldBatchSize_def fieldMembershipUIDs_def
  fieldMembershipCount_def fieldDispatched_def fieldDispatchSkewNanos_def
  fieldAdapterCPUNanos_def fieldAdapterCPUScope_def

definition tritonRequestIDMax :: nat where "tritonRequestIDMax = 24"
definition maxVarintField :: nat where "maxVarintField = 2 + 10"
definition varintFields :: nat where "varintFields = 7 + 2 + StageCount + 3 + 1 + 4"
definition maxBodySize :: nat where
  "maxBodySize = varintFields * maxVarintField + (2 + 1 + tritonRequestIDMax)
     + (2 + 2 + MaxMembership * 10)"

record RunHeader =
  hExperiment :: string
  hSession :: string
  hRun :: string
  hCell :: Cell
  hClockDomain :: string
  hWriterID :: WriterID

datatype header_error = NeedsExperiment | NeedsSession | NeedsRun | NeedsCell | NeedsClockDomain

definition RunHeader_Validate :: "RunHeader \<Rightarrow> header_error option" where
  "RunHeader_Validate h =
     (if hExperiment h = '''' then Some NeedsExperiment
      else if hSession h = '''' then Some NeedsSession
      else if hRun h = '''' then Some NeedsRun
      else if hCell h = '''' then Some NeedsCell
      else if hClockDomain h = '''' then Some NeedsClockDomain
      else None)"

definition encodeHeader :: "RunHeader \<Rightarrow> byte list" where
  "encodeHeader h =
     (let buf = [];
          buf = appendVarintField buf fieldSchemaVersion (of_nat SchemaVersion);
          buf = appendStringField buf fieldExperimentID (hExperiment h);
          buf = appendStringField buf fieldSessionID (hSession h);
          buf = appendStringField buf fieldRunID (hRun h);
          buf = appendStringField buf fieldCell (hCell h);
          buf = appendStringField buf fieldClockDomainID (hClockDomain h)
      in buf)"

definition appendStage :: "Record \<Rightarrow> byte list \<Rightarrow> Stage \<Rightarrow> byte list" where
  "appendStage r dst s =
     (if mask_Has (rPresence r) s
      then AppendUvarint (appendTag dst (fieldTimestampBase + unat s - 1) wireVarint)
             (rTS r ! unat s)
      else dst)"

definition appendMembership :: "Record \<Rightarrow> byte list \<Rightarrow> byte list" where
  "appendMembership r dst =
     (let n = unat (rMembershipStored r) in
      if 0 < n
      then let payload = foldl (\<lambda>p uid. p + varintLen uid) 0 (take n (rMembership r));
               dst = appendTag dst fieldMembershipUIDs wireLen;
               dst = AppendUvarint dst (of_nat payload)
           in foldl AppendUvarint dst (take n (rMembership r))
      else dst)"

definition appendDispatch :: "Record \<Rightarrow> byte list \<Rightarrow> byte list" where
  "appendDispatch r dst =
     (if rHasDispatch r
      then let dst = appendTag dst fieldDispatched wireVarint;
               dst = AppendUvarint dst (ucast (Dispatched (rDispatch r)));
               dst = appendTag dst fieldDispatchSkewNanos wireVarint;
               dst = AppendUvarint dst (SkewNanos (rDispatch r));
               dst = appendTag dst fieldAdapterCPUNanos wireVarint;
               dst = AppendUvarint dst (CPUNanos (rDispatch r))
           in appendVarintField dst fieldAdapterCPUScope (ucast (CPUScope (rDispatch r)))
      else dst)"

definition appendRecord :: "byte list \<Rightarrow> Record \<Rightarrow> WriterID \<Rightarrow> byte list" where
  "appendRecord dst r writerID =
     (let dst = appendVarintField dst fieldEmitter (ucast (rEmitter r));
          dst = appendVarintField dst fieldWriterID (ucast writerID);
          dst = appendVarintField dst fieldSeq (rSeq r);
          dst = appendVarintField dst fieldCohortID (ucast (rCohort r));
          dst = appendVarintField dst fieldOrdinal (ucast (rOrdinal r));
          dst = appendVarintField dst fieldEnvelopeID (rEnvelopeID r);
          dst = appendVarintField dst fieldExecutionID (rExecutionID r);
          dst = appendBytesField dst fieldTritonRequestID (AppendTritonRequestID [] (recRequest r));
          dst = appendVarintField dst fieldPresenceMask (ucast (rPresence r));
          dst = appendVarintField dst fieldStatus (ucast (rStatus r));
          dst = foldl (appendStage r) dst AllStages;
          dst = appendVarintField dst fieldLogicalBytes (ucast (rLogicalBytes r));
          dst = appendVarintField dst fieldEnvelopeBytes (ucast (rEnvelopeBytes r));
          dst = appendVarintField dst fieldBatchSize (ucast (rBatchSize r));
          dst = appendMembership r dst;
          dst = appendVarintField dst fieldMembershipCount (ucast (rMembershipCount r))
      in appendDispatch r dst)"

section \<open>Decoding\<close>

record Decoded =
  dSchemaVersion :: uint32
  dHeader :: RunHeader
  dRecord :: Record

datatype decode_error = TruncatedTag | TruncatedVarint nat | TruncatedBytes nat
  | UnsupportedWire nat nat | TruncatedMembership

abbreviation (input) dRecord_upd :: "(Record \<Rightarrow> Record) \<Rightarrow> Decoded \<Rightarrow> Decoded" where
  "dRecord_upd f d \<equiv> d\<lparr>dRecord := f (dRecord d)\<rparr>"

abbreviation (input) dDispatch_upd ::
    "(DispatchEvidence \<Rightarrow> DispatchEvidence) \<Rightarrow> bool \<Rightarrow> Decoded \<Rightarrow> Decoded" where
  "dDispatch_upd f present d \<equiv> dRecord_upd (\<lambda>r. r\<lparr>rDispatch := f (rDispatch r),
     rHasDispatch := present \<or> rHasDispatch r\<rparr>) d"

text \<open>\<^verbatim>\<open>setVarint\<close> always returns nil, so it has no error value here.\<close>

definition setVarint :: "nat \<Rightarrow> uint64 \<Rightarrow> Decoded \<Rightarrow> Decoded" where
  "setVarint field v d =
     (if fieldTimestampBase \<le> field \<and> field < fieldTimestampBase + StageCount
      then let stage = (of_nat (field - fieldTimestampBase + 1) :: Stage) in
           dRecord_upd (\<lambda>r. r\<lparr>rTS := (rTS r)[unat stage := v]\<rparr>) d
      else if field = fieldSchemaVersion then d\<lparr>dSchemaVersion := ucast v\<rparr>
      else if field = fieldEmitter then dRecord_upd (\<lambda>r. r\<lparr>rEmitter := ucast v\<rparr>) d
      else if field = fieldWriterID then d\<lparr>dHeader := (dHeader d)\<lparr>hWriterID := ucast v\<rparr>\<rparr>
      else if field = fieldSeq then dRecord_upd (\<lambda>r. r\<lparr>rSeq := v\<rparr>) d
      else if field = fieldCohortID then dRecord_upd (\<lambda>r. r\<lparr>rCohort := ucast v\<rparr>) d
      else if field = fieldOrdinal then dRecord_upd (\<lambda>r. r\<lparr>rOrdinal := ucast v\<rparr>) d
      else if field = fieldEnvelopeID then dRecord_upd (\<lambda>r. r\<lparr>rEnvelopeID := v\<rparr>) d
      else if field = fieldExecutionID then dRecord_upd (\<lambda>r. r\<lparr>rExecutionID := v\<rparr>) d
      else if field = fieldPresenceMask then dRecord_upd (\<lambda>r. r\<lparr>rPresence := ucast v\<rparr>) d
      else if field = fieldStatus then dRecord_upd (\<lambda>r. r\<lparr>rStatus := ucast v\<rparr>) d
      else if field = fieldLogicalBytes then dRecord_upd (\<lambda>r. r\<lparr>rLogicalBytes := ucast v\<rparr>) d
      else if field = fieldEnvelopeBytes then dRecord_upd (\<lambda>r. r\<lparr>rEnvelopeBytes := ucast v\<rparr>) d
      else if field = fieldBatchSize then dRecord_upd (\<lambda>r. r\<lparr>rBatchSize := ucast v\<rparr>) d
      else if field = fieldMembershipCount
      then dRecord_upd (\<lambda>r. r\<lparr>rMembershipCount := ucast v\<rparr>) d
      else if field = fieldDispatched
      then dDispatch_upd (\<lambda>e. e\<lparr>Dispatched := ucast v\<rparr>) True d
      else if field = fieldDispatchSkewNanos
      then dDispatch_upd (\<lambda>e. e\<lparr>SkewNanos := v\<rparr>) True d
      else if field = fieldAdapterCPUNanos
      then dDispatch_upd (\<lambda>e. e\<lparr>CPUNanos := v\<rparr>) True d
      else if field = fieldAdapterCPUScope
      then dDispatch_upd (\<lambda>e. e\<lparr>CPUScope := ucast v\<rparr>) False d
      else d)"

function membership_loop :: "UID list \<Rightarrow> byte list \<Rightarrow> decode_error + UID list" where
  "membership_loop uids payload =
     (if 0 < length payload
      then let (v, n) = Uvarint payload in
        if n \<le> 0 then Inl TruncatedMembership
        else membership_loop (uids @ [v]) (drop (nat n) payload)
      else Inr uids)"
  by pat_completeness auto

termination membership_loop
  by (relation "measure (\<lambda>(_, p). length p)") auto

declare membership_loop.simps [simp del]

definition setBytes :: "nat \<Rightarrow> byte list \<Rightarrow> Decoded \<Rightarrow> decode_error + Decoded" where
  "setBytes field payload d =
     (if field = fieldExperimentID
      then Inr (d\<lparr>dHeader := (dHeader d)\<lparr>hExperiment := bytes_string payload\<rparr>\<rparr>)
      else if field = fieldSessionID
      then Inr (d\<lparr>dHeader := (dHeader d)\<lparr>hSession := bytes_string payload\<rparr>\<rparr>)
      else if field = fieldRunID
      then Inr (d\<lparr>dHeader := (dHeader d)\<lparr>hRun := bytes_string payload\<rparr>\<rparr>)
      else if field = fieldCell
      then Inr (d\<lparr>dHeader := (dHeader d)\<lparr>hCell := bytes_string payload\<rparr>\<rparr>)
      else if field = fieldClockDomainID
      then Inr (d\<lparr>dHeader := (dHeader d)\<lparr>hClockDomain := bytes_string payload\<rparr>\<rparr>)
      else if field = fieldTritonRequestID then Inr d
      else if field = fieldMembershipUIDs
      then (case membership_loop [] payload of
              Inl e \<Rightarrow> Inl e
            | Inr uids \<Rightarrow> Inr (dRecord_upd (SetMembership uids) d))
      else Inr d)"

text \<open>The loop of \<^verbatim>\<open>Decode\<close>: \<open>seen\<close> is \<^verbatim>\<open>membershipCountSeen\<close>.\<close>

function Decode_loop :: "bool \<Rightarrow> Decoded \<Rightarrow> byte list \<Rightarrow> decode_error + bool \<times> Decoded" where
  "Decode_loop seen d b =
     (if 0 < length b
      then let (tag, n) = Uvarint b in
        if n \<le> 0 then Inl TruncatedTag
        else let b1 = drop (nat n) b;
                 field = unat (drop_bit 3 tag); wire = unat (tag AND 7) in
          if wire = wireVarint
          then let (v, m) = Uvarint b1 in
            if m \<le> 0 then Inl (TruncatedVarint field)
            else Decode_loop (field = fieldMembershipCount \<or> seen) (setVarint field v d)
                   (drop (nat m) b1)
          else if wire = wireLen
          then let (size, m) = Uvarint b1 in
            if m \<le> 0 \<or> length (drop (nat m) b1) < unat size then Inl (TruncatedBytes field)
            else (case setBytes field (take (unat size) (drop (nat m) b1)) d of
                    Inl e \<Rightarrow> Inl e
                  | Inr d' \<Rightarrow> Decode_loop seen d' (drop (nat m + unat size) b1))
          else Inl (UnsupportedWire wire field)
      else Inr (seen, d))"
  by pat_completeness auto

termination Decode_loop
  by (relation "measure (\<lambda>(_, _, b). length b)") auto

declare Decode_loop.simps [simp del]

definition zeroDecoded :: Decoded where
  "zeroDecoded = \<lparr>dSchemaVersion = 0,
     dHeader = \<lparr>hExperiment = '''', hSession = '''', hRun = '''', hCell = '''',
                hClockDomain = '''', hWriterID = 0\<rparr>,
     dRecord = zeroRecord\<rparr>"

definition Decode :: "byte list \<Rightarrow> decode_error + Decoded" where
  "Decode b =
     (case Decode_loop False zeroDecoded b of
        Inl e \<Rightarrow> Inl e
      | Inr (seen, d) \<Rightarrow>
          if \<not> seen \<and> 0 < rMembershipStored (dRecord d)
          then Inr (dRecord_upd (\<lambda>r. r\<lparr>rMembershipCount := ucast (rMembershipStored r)\<rparr>) d)
          else Inr d)"

end
