(* ===== verification/CodecProofs.thy ===== *)
theory CodecProofs
  imports Codec
begin

text \<open>
  The round trip of the record codec, bottom up: varints, tags and fields, one lemma per
  shape of field through the decode loop, then the whole record. \<open>canon\<close> says what a
  record is after an archive round trip, and a record built by the setters is its own
  canonical form.
\<close>

section \<open>Varints\<close>

definition varint :: "uint64 \<Rightarrow> byte list" where
  "varint v = AppendUvarint [] v"

lemma AppendUvarint_append: "AppendUvarint dst v = dst @ varint v"
proof -
  have "AppendUvarint (pre @ d) v = pre @ AppendUvarint d v" for pre d
  proof (induction d v rule: AppendUvarint.induct)
    case (1 d x)
    show ?case
      by (subst (1 2) AppendUvarint.simps) (use 1 in simp)
  qed
  from this [of dst "[]"] show ?thesis by (simp add: varint_def)
qed

lemma varint_rec:
  "varint v = (if 0x80 \<le> v then (ucast v OR 0x80) # varint (drop_bit 7 v) else [ucast v])"
  unfolding varint_def [of v]
  by (subst AppendUvarint.simps) (simp add: AppendUvarint_append)

lemma length_varint_le:
  "unat v < 128 ^ Suc n \<Longrightarrow> length (varint v) \<le> Suc n"
proof (induction n arbitrary: v)
  case 0
  then have "\<not> 0x80 \<le> v" by (simp add: word_le_nat_alt)
  then show ?case by (subst varint_rec) simp
next
  case (Suc n)
  have "unat (drop_bit 7 v) < 128 ^ Suc n"
    using Suc.prems by (simp only: unat_drop_bit7 power_Suc [of _ "Suc n"] less_mult_imp_div_less mult.commute)
  then show ?case using Suc.IH by (subst varint_rec) simp
qed

lemma length_varint_le_10: "length (varint v) \<le> 10"
proof -
  have "unat v < 128 ^ Suc 9" using unat64_bound [of v] by simp
  from length_varint_le [OF this] show ?thesis by simp
qed

lemma length_varint_pos [simp]: "0 < length (varint v)" "varint v \<noteq> []"
  by (subst varint_rec, simp)+

lemma varintLen_loop_eq: "varintLen_loop n v + 1 = n + length (varint v)"
proof (induction n v rule: varintLen_loop.induct)
  case (1 n v)
  show ?case by (subst varintLen_loop.simps, subst varint_rec) (use 1 in simp)
qed

lemma varintLen_eq: "varintLen v = length (varint v)"
  using varintLen_loop_eq [of 1 v] by (simp add: varintLen_def)

lemma varint_induct:
  assumes "\<And>v. (0x80 \<le> v \<Longrightarrow> P (drop_bit 7 v)) \<Longrightarrow> P v"
  shows "P (v :: uint64)"
  by (induction "unat v" arbitrary: v rule: less_induct) (metis assms unat_drop_bit7_less)

lemma byte_high_bit: "bit (b :: byte) 7 \<longleftrightarrow> 0x80 \<le> b"
proof -
  have "bit b 7 \<longleftrightarrow> bit (unat b) 7" by (simp add: bit_simps)
  also have "\<dots> \<longleftrightarrow> odd (unat b div 128)" by (simp add: bit_iff_odd)
  also have "\<dots> \<longleftrightarrow> 128 \<le> unat b"
  proof (cases "128 \<le> unat b")
    case True
    moreover have "unat b < 256" by (rule unat8_bound)
    ultimately have "unat b div 128 = 1" by (simp add: div_nat_eqI)
    with True show ?thesis by simp
  qed simp
  also have "\<dots> \<longleftrightarrow> 0x80 \<le> b" by (simp add: word_le_nat_alt)
  finally show ?thesis .
qed

lemma small_byte:
  assumes "\<not> 0x80 \<le> (v :: uint64)"
  shows "\<not> 0x80 \<le> (ucast v :: byte)" and "(ucast (ucast v :: byte) :: uint64) = v"
proof -
  have "unat v < 128" using assms by (simp add: word_le_nat_alt)
  then have u: "unat (ucast v :: byte) = unat v"
    by (simp add: unat_ucast8)
  then show "\<not> 0x80 \<le> (ucast v :: byte)" using assms by (simp add: word_le_nat_alt)
  show "(ucast (ucast v :: byte) :: uint64) = v"
    using u by (simp add: word_unat_eq_iff unsigned_ucast_eq unsigned_take_bit_eq)
qed

lemma byte_masks: "(0x7F :: byte) = mask 7" "(0x80 :: byte) = push_bit 7 1"
  by (simp_all add: mask_eq_exp_minus_1)

lemma bit_0x80: "bit (0x80 :: byte) n \<longleftrightarrow> n = 7"
  unfolding byte_masks(2) bit_push_bit_iff by (auto simp: bit_1_iff)

lemma low7: "ucast ((ucast v OR 0x80 :: byte) AND 0x7F) = take_bit 7 (v :: uint64)"
proof -
  have "(ucast v OR 0x80 :: byte) AND 0x7F = take_bit 7 (ucast v OR 0x80)"
    by (simp add: take_bit_eq_mask byte_masks(1))
  also have "\<dots> = take_bit 7 (ucast v)" by (rule bit_word_eqI) (auto simp: bit_simps bit_0x80)
  finally show ?thesis by simp (rule bit_word_eqI, auto simp: bit_simps)
qed

lemma split7: "take_bit 7 v OR push_bit 7 (drop_bit 7 v) = (v :: uint64)"
proof (rule bit_word_eqI)
  fix n assume "n < LENGTH(64)"
  then show "bit (take_bit 7 v OR push_bit 7 (drop_bit 7 v)) n = bit v n"
    by (cases "n < 7") (auto simp: bit_simps)
qed

lemma varint_group:
  "push_bit (7 * i) (ucast ((ucast v OR 0x80 :: byte) AND 0x7F)) OR
         push_bit (7 * (i + 1)) (drop_bit 7 v) = push_bit (7 * i) (v :: uint64)"
proof -
  have "push_bit (7 * (i + 1)) (drop_bit 7 v) = push_bit (7 * i) (push_bit 7 (drop_bit 7 v))"
    by (simp add: push_bit_push_bit add.commute)
  then have "?thesis = (push_bit (7*i) (take_bit 7 v OR push_bit 7 (drop_bit 7 v)) = push_bit (7*i) v)"
   unfolding low7 push_bit_or by simp
  then show ?thesis by (simp only: split7)
qed

lemma Uvarint_loop_varint:
  "i \<le> 9 \<Longrightarrow> drop_bit (64 - 7 * i) v = 0 \<Longrightarrow>
   Uvarint_loop i x (varint v @ rest) = (x OR push_bit (7 * i) v, int (i + length (varint v)))"
proof (induction v arbitrary: i x rule: varint_induct)
  case (1 v)
  have nine: "unat v < 2" if "i = 9"
  proof -
    have "drop_bit 1 v = 0" using 1 that by simp
    moreover have "unat (drop_bit 1 v) = unat v div 2" by (simp add: drop_bit_eq_div unat_div)
    ultimately show ?thesis by simp
  qed
  show ?case
  proof (cases "0x80 \<le> v")
    case False
    then have e: "varint v = [ucast v]" by (subst varint_rec) simp
    have "\<not> 1 < (ucast v :: byte)" if "i = 9"
      using nine [OF that] by (simp add: word_less_nat_alt unat_ucast8)
    with 1 e small_byte [OF False] show ?thesis by (simp add: not_le [symmetric])
  next
    case True
    then have e: "varint v = (ucast v OR 0x80) # varint (drop_bit 7 v)" by (subst varint_rec) simp
    have nb: "0x80 \<le> (ucast v OR 0x80 :: byte)"
      unfolding byte_high_bit [symmetric] by (simp add: bit_or_iff bit_0x80)
    have i: "i \<le> 8" using 1 nine True by (cases "i = 9") (simp_all add: word_le_nat_alt)
    then have "drop_bit (64 - 7 * (i + 1)) (drop_bit 7 v) = 0" using 1 by simp
    from 1(1) [OF True _ this] i
    have "Uvarint_loop (i + 1) y (varint (drop_bit 7 v) @ rest)
        = (y OR push_bit (7 * (i + 1)) (drop_bit 7 v), int (i + 1 + length (varint (drop_bit 7 v))))"
      for y by simp
    with e nb i varint_group [of i v] show ?thesis
      by (simp add: not_le [symmetric] or.assoc)
  qed
qed

lemma Uvarint_varint [simp]: "Uvarint (varint v @ rest) = (v, int (length (varint v)))"
  using Uvarint_loop_varint [of 0 v 0 rest] by (simp add: Uvarint_def)

section \<open>Fields through the decode loop\<close>

definition tag :: "nat \<Rightarrow> nat \<Rightarrow> byte list" where
  "tag field wire = varint (push_bit 3 (of_nat field) OR of_nat wire)"

lemma tag_fields:
  assumes "field \<le> 48" and "wire < 8"
  shows "unat (drop_bit 3 (push_bit 3 (of_nat field) OR of_nat wire :: uint64)) = field"
    and "unat ((push_bit 3 (of_nat field) OR of_nat wire :: uint64) AND 7) = wire"
proof -
  let ?w = "of_nat wire :: uint64" and ?f = "of_nat field :: uint64"
  have "drop_bit 3 ?w = 0" using assms by (simp add: drop_bit_eq_div word_unat_eq_iff unat_div unat_of_nat take_bit_nat_eq_self_iff)
  then have "drop_bit 3 (push_bit 3 ?f OR ?w) = drop_bit 3 (push_bit 3 ?f)" unfolding drop_bit_or by simp
  also have "\<dots> = take_bit 61 ?f" by (rule bit_word_eqI) (auto simp: bit_simps)
  finally show "unat (drop_bit 3 (push_bit 3 ?f OR ?w)) = field" using assms
    by (simp only: unsigned_take_bit_eq) (simp add: unat_of_nat take_bit_nat_eq_self_iff)
  have "(push_bit 3 ?f OR ?w) AND 7 = take_bit 3 (push_bit 3 ?f OR ?w)"
    by (simp add: take_bit_eq_mask mask_eq_exp_minus_1)
  also have "\<dots> = take_bit 3 ?w" unfolding take_bit_or by (simp add: take_bit_push_bit)
  finally show "unat ((push_bit 3 ?f OR ?w) AND 7) = wire" using assms
    by (simp only: unsigned_take_bit_eq) (simp add: unat_of_nat take_bit_nat_eq_self_iff)
qed

definition vfield :: "nat \<Rightarrow> uint64 \<Rightarrow> byte list" where
  "vfield field v = (if v = 0 then [] else tag field wireVarint @ varint v)"

definition bfield :: "nat \<Rightarrow> byte list \<Rightarrow> byte list" where
  "bfield field b = (if b = [] then [] else tag field wireLen @ varint (of_nat (length b)) @ b)"

lemma vfield_0 [simp]: "vfield field 0 = []"
  by (simp add: vfield_def)

lemma append_fields:
  "appendTag dst field wire = dst @ tag field wire"
  "appendVarintField dst field v = dst @ vfield field v"
  "appendBytesField dst field b = dst @ bfield field b"
  "appendStringField dst field s = dst @ bfield field (string_bytes s)"
  by (simp_all add: appendTag_def appendVarintField_def appendBytesField_def
      appendStringField_def AppendUvarint_append tag_def vfield_def bfield_def string_bytes_def)

lemma tag_word:
  assumes "field \<le> 48" and "wire < 8"
  obtains w where "tag field wire = varint w" "unat (drop_bit 3 w) = field" "unat (w AND 7) = wire"
  using tag_fields [OF assms] by (simp only: tag_def)

lemma Decode_varint:
  assumes "field \<le> 48"
  shows "Decode_loop seen d (tag field wireVarint @ varint v @ rest)
       = Decode_loop (field = fieldMembershipCount \<or> seen) (setVarint field v d) rest"
proof -
  obtain w where w: "tag field wireVarint = varint w" "unat (drop_bit 3 w) = field"
      "unat (w AND 7) = wireVarint"
    using tag_word [OF assms, of wireVarint] by (auto simp: wireVarint_def)
  show ?thesis unfolding w(1) by (subst Decode_loop.simps) (simp only: Uvarint_varint Let_def prod.case w(2,3), simp)
qed

lemma Decode_bytes:
  assumes "field \<le> 48" and "length b < 2 ^ 64"
  shows "Decode_loop seen d (tag field wireLen @ varint (of_nat (length b)) @ b @ rest)
       = (case setBytes field b d of Inl e \<Rightarrow> Inl e | Inr d' \<Rightarrow> Decode_loop seen d' rest)"
proof -
  obtain w where w: "tag field wireLen = varint w" "unat (drop_bit 3 w) = field"
      "unat (w AND 7) = wireLen"
    using tag_word [OF assms(1), of wireLen] by (auto simp: wireLen_def)
  have "unat (of_nat (length b) :: uint64) = length b"
    using assms(2) by (simp add: unat_of_nat take_bit_nat_eq_self_iff)
  then show ?thesis unfolding w(1)
    by (subst Decode_loop.simps)
       (simp only: Uvarint_varint Let_def prod.case w(2,3),
        simp add: wireVarint_def wireLen_def split: sum.split)
qed

lemma Decode_vfield:
  assumes "field \<le> 48"
  shows "Decode_loop seen d (vfield field v @ rest)
       = Decode_loop (field = fieldMembershipCount \<and> v \<noteq> 0 \<or> seen)
           (if v = 0 then d else setVarint field v d) rest"
  using Decode_varint [OF assms] by (simp add: vfield_def)

lemma Decode_bfield:
  assumes "field \<le> 48" and "length b < 2 ^ 64"
  shows "Decode_loop seen d (bfield field b @ rest)
       = (if b = [] then Decode_loop seen d rest
          else case setBytes field b d of Inl e \<Rightarrow> Inl e | Inr d' \<Rightarrow> Decode_loop seen d' rest)"
  using Decode_bytes [OF assms] by (simp add: bfield_def)

section \<open>Timestamps and membership\<close>

definition stage_field :: "Record \<Rightarrow> Stage \<Rightarrow> byte list" where
  "stage_field r s = (if mask_Has (rPresence r) s
     then tag (fieldTimestampBase + unat s - 1) wireVarint @ varint (rTS r ! unat s) else [])"

lemma append_stages:
  "foldl (appendStage r) dst ss = dst @ concat (map (stage_field r) ss)"
  by (induction ss arbitrary: dst)
     (simp_all add: appendStage_def stage_field_def append_fields AppendUvarint_append)

definition set_stages :: "Record \<Rightarrow> Stage list \<Rightarrow> int64 list \<Rightarrow> int64 list" where
  "set_stages r ss ts =
     foldl (\<lambda>ts s. if mask_Has (rPresence r) s then ts[unat s := rTS r ! unat s] else ts) ts ss"

lemma setVarint_stage:
  assumes "Valid s"
  shows "setVarint (fieldTimestampBase + unat s - 1) v d
       = d\<lparr>dRecord := (dRecord d)\<lparr>rTS := (rTS (dRecord d))[unat s := v]\<rparr>\<rparr>"
  using assms by (simp add: setVarint_def fieldTimestampBase_def StageCount_def Valid_unat Let_def)

lemma Decode_stages:
  assumes "\<forall>s \<in> set ss. Valid s"
  shows "Decode_loop seen d (concat (map (stage_field r) ss) @ rest)
       = Decode_loop seen (d\<lparr>dRecord := (dRecord d)\<lparr>rTS := set_stages r ss (rTS (dRecord d))\<rparr>\<rparr>) rest"
  using assms
proof (induction ss arbitrary: d)
  case Nil
  then show ?case by (simp add: set_stages_def)
next
  case (Cons s ss)
  then have v: "Valid s" by simp
  then have "fieldTimestampBase + unat s - 1 \<le> 48" "fieldTimestampBase + unat s - 1 \<noteq> fieldMembershipCount"
    by (simp_all add: Valid_unat field_defs)
  note step = Decode_varint [OF this(1), of seen] this(2)
  show ?case
  proof (cases "mask_Has (rPresence r) s")
    case True
    with Cons step show ?thesis
      by (simp add: stage_field_def setVarint_stage [OF v, unfolded One_nat_def] set_stages_def)
  next
    case False
    with Cons show ?thesis by (simp add: stage_field_def set_stages_def)
  qed
qed

lemma length_set_stages [simp]: "length (set_stages r ss ts) = length ts"
  unfolding set_stages_def by (induction ss arbitrary: ts) auto

lemma set_stages_snoc:
  "set_stages r (ss @ [s]) ts =
     (if mask_Has (rPresence r) s then (set_stages r ss ts)[unat s := rTS r ! unat s]
      else set_stages r ss ts)"
  by (simp add: set_stages_def)

lemma set_stages_nth:
  assumes "i < length ts"
  shows "set_stages r ss ts ! i =
     (if \<exists>s \<in> set ss. unat s = i \<and> mask_Has (rPresence r) s then rTS r ! i else ts ! i)"
  using assms
proof (induction ss rule: rev_induct)
  case Nil
  then show ?case by (simp add: set_stages_def)
next
  case (snoc s ss)
  then show ?case
    by (cases "unat s = i") (auto simp: set_stages_snoc)
qed

lemma membership_loop_varints:
  "membership_loop acc (concat (map varint us)) = Inr (acc @ us)"
proof (induction us arbitrary: acc)
  case Nil
  show ?case by (subst membership_loop.simps) simp
next
  case (Cons u us)
  show ?case by (subst membership_loop.simps) (simp add: Cons)
qed

definition membership_field :: "Record \<Rightarrow> byte list" where
  "membership_field r = bfield fieldMembershipUIDs (concat (map varint (MembershipUIDs r)))"

lemma foldl_AppendUvarint: "foldl AppendUvarint dst us = dst @ concat (map varint us)"
  by (induction us arbitrary: dst) (simp_all add: AppendUvarint_append)

lemma foldl_varintLen:
  "foldl (\<lambda>p u. p + varintLen u) n us = n + length (concat (map varint us))"
  by (induction us arbitrary: n) (simp_all add: varintLen_eq)

lemma length_varints_le: "length (concat (map varint us)) \<le> 10 * length us"
  by (induction us) (auto intro: order_trans [OF add_mono [OF length_varint_le_10]])

lemma MembershipUIDs_Nil_iff:
  "record_wf r \<Longrightarrow> MembershipUIDs r = [] \<longleftrightarrow> rMembershipStored r = 0"
  by (auto simp: MembershipUIDs_def record_wf_def MaxMembership_def unat_eq_0)

lemma appendMembership_eq:
  assumes "record_wf r"
  shows "appendMembership r dst = dst @ membership_field r"
  using MembershipUIDs_Nil_iff [OF assms]
  by (cases "MembershipUIDs r")
     (auto simp: appendMembership_def membership_field_def bfield_def Let_def append_fields
       AppendUvarint_append foldl_AppendUvarint foldl_varintLen MembershipUIDs_def [symmetric]
       unat_gt_0)

section \<open>The round trip\<close>

text \<open>
  What an archive round trip makes of a record: a timestamp outside the presence mask and
  fan-out evidence that is not claimed are not on the wire, membership slots past the
  stored count are zero, and a zero membership count is recovered from what was stored.
\<close>

definition canonTS :: "Record \<Rightarrow> int64 list" where
  "canonTS r = map (\<lambda>i. if 1 \<le> i \<and> mask_Has (rPresence r) (of_nat i) then rTS r ! i else 0)
     [0 ..< Suc StageCount]"

definition canon :: "Record \<Rightarrow> Record" where
  "canon r = r\<lparr>
     rTS := canonTS r,
     rDispatch := (if rHasDispatch r then rDispatch r else zeroDispatch),
     rMembership := MembershipUIDs r @ replicate (MaxMembership - length (MembershipUIDs r)) 0,
     rMembershipCount := (if rMembershipCount r = 0 then ucast (rMembershipStored r)
                          else rMembershipCount r)\<rparr>"

lemma encodeHeader_eq:
  "encodeHeader h = vfield fieldSchemaVersion (of_nat SchemaVersion)
     @ bfield fieldExperimentID (string_bytes (hExperiment h))
     @ bfield fieldSessionID (string_bytes (hSession h))
     @ bfield fieldRunID (string_bytes (hRun h))
     @ bfield fieldCell (string_bytes (hCell h))
     @ bfield fieldClockDomainID (string_bytes (hClockDomain h))"
  by (simp add: encodeHeader_def append_fields Let_def)

definition dispatch_field :: "Record \<Rightarrow> byte list" where
  "dispatch_field r = (if rHasDispatch r
     then tag fieldDispatched wireVarint @ varint (ucast (Dispatched (rDispatch r)))
        @ tag fieldDispatchSkewNanos wireVarint @ varint (SkewNanos (rDispatch r))
        @ tag fieldAdapterCPUNanos wireVarint @ varint (CPUNanos (rDispatch r))
        @ vfield fieldAdapterCPUScope (ucast (CPUScope (rDispatch r)))
     else [])"

definition body :: "Record \<Rightarrow> WriterID \<Rightarrow> byte list" where
  "body r w =
     vfield fieldEmitter (ucast (rEmitter r)) @ vfield fieldWriterID (ucast w)
     @ vfield fieldSeq (rSeq r) @ vfield fieldCohortID (ucast (rCohort r))
     @ vfield fieldOrdinal (ucast (rOrdinal r)) @ vfield fieldEnvelopeID (rEnvelopeID r)
     @ vfield fieldExecutionID (rExecutionID r)
     @ bfield fieldTritonRequestID (string_bytes (TritonRequestID (recRequest r)))
     @ vfield fieldPresenceMask (ucast (rPresence r)) @ vfield fieldStatus (ucast (rStatus r))
     @ concat (map (stage_field r) AllStages)
     @ vfield fieldLogicalBytes (ucast (rLogicalBytes r))
     @ vfield fieldEnvelopeBytes (ucast (rEnvelopeBytes r))
     @ vfield fieldBatchSize (ucast (rBatchSize r)) @ membership_field r
     @ vfield fieldMembershipCount (ucast (rMembershipCount r)) @ dispatch_field r"

lemma appendRecord_eq: "record_wf r \<Longrightarrow> appendRecord dst r w = dst @ body r w"
  by (simp add: appendRecord_def body_def Let_def append_fields append_stages
      appendMembership_eq AppendTritonRequestID_def appendDispatch_def dispatch_field_def
      AppendUvarint_append)

lemma string_bytes_Nil_iff [simp]: "string_bytes s = [] \<longleftrightarrow> s = ''''"
  by (simp add: string_bytes_def)

text \<open>One lemma per string field: an empty string is not on the wire and leaves the zero value.\<close>

lemma Decode_strings:
  assumes "length s < 2 ^ 64"
  shows
    "hExperiment (dHeader d) = '''' \<Longrightarrow>
       Decode_loop seen d (bfield fieldExperimentID (string_bytes s) @ rest)
         = Decode_loop seen (d\<lparr>dHeader := (dHeader d)\<lparr>hExperiment := s\<rparr>\<rparr>) rest"
    "hSession (dHeader d) = '''' \<Longrightarrow>
       Decode_loop seen d (bfield fieldSessionID (string_bytes s) @ rest)
         = Decode_loop seen (d\<lparr>dHeader := (dHeader d)\<lparr>hSession := s\<rparr>\<rparr>) rest"
    "hRun (dHeader d) = '''' \<Longrightarrow>
       Decode_loop seen d (bfield fieldRunID (string_bytes s) @ rest)
         = Decode_loop seen (d\<lparr>dHeader := (dHeader d)\<lparr>hRun := s\<rparr>\<rparr>) rest"
    "hCell (dHeader d) = '''' \<Longrightarrow>
       Decode_loop seen d (bfield fieldCell (string_bytes s) @ rest)
         = Decode_loop seen (d\<lparr>dHeader := (dHeader d)\<lparr>hCell := s\<rparr>\<rparr>) rest"
    "hClockDomain (dHeader d) = '''' \<Longrightarrow>
       Decode_loop seen d (bfield fieldClockDomainID (string_bytes s) @ rest)
         = Decode_loop seen (d\<lparr>dHeader := (dHeader d)\<lparr>hClockDomain := s\<rparr>\<rparr>) rest"
  using assms by (cases d; cases "dHeader d"; auto simp: Decode_bfield setBytes_def field_defs)+

lemma Decode_header:
  assumes "length (hExperiment h) < 2 ^ 64" "length (hSession h) < 2 ^ 64"
    "length (hRun h) < 2 ^ 64" "length (hCell h) < 2 ^ 64" "length (hClockDomain h) < 2 ^ 64"
  shows "Decode_loop False zeroDecoded (encodeHeader h @ rest) = Decode_loop False
    \<lparr>dSchemaVersion = of_nat SchemaVersion, dHeader = h\<lparr>hWriterID := 0\<rparr>, dRecord = zeroRecord\<rparr> rest"
proof -
  let ?d = "zeroDecoded\<lparr>dSchemaVersion := of_nat SchemaVersion\<rparr>"
  have "Decode_loop False zeroDecoded (vfield fieldSchemaVersion (of_nat SchemaVersion) @ b)
      = Decode_loop False ?d b" for b
    by (simp add: Decode_vfield setVarint_def field_defs StageCount_def SchemaVersion_def)
  then show ?thesis using assms
    by (cases h) (simp add: encodeHeader_eq Decode_strings zeroDecoded_def)
qed

text \<open>One lemma per scalar field: a zero is not on the wire and leaves the zero value.\<close>

lemma Decode_scalars:
  "Decode_loop seen d (vfield fieldWriterID (ucast w) @ rest)
     = Decode_loop seen (if w = 0 then d else d\<lparr>dHeader := (dHeader d)\<lparr>hWriterID := w\<rparr>\<rparr>) rest"
  "rEmitter (dRecord d) = 0 \<Longrightarrow> Decode_loop seen d (vfield fieldEmitter (ucast e) @ rest)
     = Decode_loop seen (dRecord_upd (\<lambda>r. r\<lparr>rEmitter := e\<rparr>) d) rest"
  "rSeq (dRecord d) = 0 \<Longrightarrow> Decode_loop seen d (vfield fieldSeq q @ rest)
     = Decode_loop seen (dRecord_upd (\<lambda>r. r\<lparr>rSeq := q\<rparr>) d) rest"
  "rCohort (dRecord d) = 0 \<Longrightarrow> Decode_loop seen d (vfield fieldCohortID (ucast w) @ rest)
     = Decode_loop seen (dRecord_upd (\<lambda>r. r\<lparr>rCohort := w\<rparr>) d) rest"
  "rOrdinal (dRecord d) = 0 \<Longrightarrow> Decode_loop seen d (vfield fieldOrdinal (ucast w) @ rest)
     = Decode_loop seen (dRecord_upd (\<lambda>r. r\<lparr>rOrdinal := w\<rparr>) d) rest"
  "rEnvelopeID (dRecord d) = 0 \<Longrightarrow> Decode_loop seen d (vfield fieldEnvelopeID q @ rest)
     = Decode_loop seen (dRecord_upd (\<lambda>r. r\<lparr>rEnvelopeID := q\<rparr>) d) rest"
  "rExecutionID (dRecord d) = 0 \<Longrightarrow> Decode_loop seen d (vfield fieldExecutionID q @ rest)
     = Decode_loop seen (dRecord_upd (\<lambda>r. r\<lparr>rExecutionID := q\<rparr>) d) rest"
  "rPresence (dRecord d) = 0 \<Longrightarrow> Decode_loop seen d (vfield fieldPresenceMask (ucast w) @ rest)
     = Decode_loop seen (dRecord_upd (\<lambda>r. r\<lparr>rPresence := w\<rparr>) d) rest"
  "rStatus (dRecord d) = 0 \<Longrightarrow> Decode_loop seen d (vfield fieldStatus (ucast e) @ rest)
     = Decode_loop seen (dRecord_upd (\<lambda>r. r\<lparr>rStatus := e\<rparr>) d) rest"
  "rLogicalBytes (dRecord d) = 0 \<Longrightarrow> Decode_loop seen d (vfield fieldLogicalBytes (ucast w) @ rest)
     = Decode_loop seen (dRecord_upd (\<lambda>r. r\<lparr>rLogicalBytes := w\<rparr>) d) rest"
  "rEnvelopeBytes (dRecord d) = 0 \<Longrightarrow> Decode_loop seen d (vfield fieldEnvelopeBytes (ucast w) @ rest)
     = Decode_loop seen (dRecord_upd (\<lambda>r. r\<lparr>rEnvelopeBytes := w\<rparr>) d) rest"
  "rBatchSize (dRecord d) = 0 \<Longrightarrow> Decode_loop seen d (vfield fieldBatchSize (ucast w) @ rest)
     = Decode_loop seen (dRecord_upd (\<lambda>r. r\<lparr>rBatchSize := w\<rparr>) d) rest"
  "Decode_loop seen d (vfield fieldMembershipCount (ucast w) @ rest)
     = Decode_loop (w \<noteq> 0 \<or> seen)
         (if w = 0 then d else dRecord_upd (\<lambda>r. r\<lparr>rMembershipCount := w\<rparr>) d) rest"
  by (cases d; cases "dRecord d";
      simp add: Decode_vfield setVarint_def field_defs StageCount_def)+

lemma field_bounds [simp]:
  "fieldMembershipUIDs \<le> 48" "fieldTritonRequestID \<le> 48" "fieldDispatched \<le> 48"
  "fieldDispatchSkewNanos \<le> 48" "fieldAdapterCPUNanos \<le> 48" "fieldAdapterCPUScope \<le> 48"
  "fieldDispatched \<noteq> fieldMembershipCount" "fieldDispatchSkewNanos \<noteq> fieldMembershipCount"
  "fieldAdapterCPUNanos \<noteq> fieldMembershipCount" "fieldAdapterCPUScope \<noteq> fieldMembershipCount"
  by (simp_all add: field_defs)

lemma Decode_membership:
  assumes "record_wf r"
  shows "Decode_loop seen d (membership_field r @ rest)
       = Decode_loop seen (if rMembershipStored r = 0 then d
           else dRecord_upd (SetMembership (MembershipUIDs r)) d) rest"
proof -
  let ?us = "MembershipUIDs r"
  have "length ?us \<le> 64" using assms by (simp add: MembershipUIDs_def record_wf_def MaxMembership_def)
  then have "length (concat (map varint ?us)) < 2 ^ 64"
    using length_varints_le [of ?us] by simp
  moreover have "concat (map varint ?us) = [] \<longleftrightarrow> ?us = []"
    by (cases ?us) simp_all
  moreover have "setBytes fieldMembershipUIDs (concat (map varint ?us)) d
      = Inr (dRecord_upd (SetMembership ?us) d)"
    by (simp add: setBytes_def field_defs membership_loop_varints)
  ultimately show ?thesis
    by (simp add: membership_field_def Decode_bfield MembershipUIDs_Nil_iff [OF assms]
        del: concat_eq_Nil_conv)
qed

lemma setVarint_dispatch:
  "setVarint fieldDispatched v d = dDispatch_upd (\<lambda>e. e\<lparr>Dispatched := ucast v\<rparr>) True d"
  "setVarint fieldDispatchSkewNanos v d = dDispatch_upd (\<lambda>e. e\<lparr>SkewNanos := v\<rparr>) True d"
  "setVarint fieldAdapterCPUNanos v d = dDispatch_upd (\<lambda>e. e\<lparr>CPUNanos := v\<rparr>) True d"
  "setVarint fieldAdapterCPUScope v d = dDispatch_upd (\<lambda>e. e\<lparr>CPUScope := ucast v\<rparr>) False d"
  by (simp_all add: setVarint_def field_defs StageCount_def)

lemma Decode_Nil [simp]: "Decode_loop seen d [] = Inr (seen, d)"
  by (subst Decode_loop.simps) simp

lemma Decode_dispatch:
  assumes "rDispatch (dRecord d) = zeroDispatch" and "\<not> rHasDispatch (dRecord d)"
  shows "Decode_loop seen d (dispatch_field r) = Inr (seen,
     dRecord_upd (\<lambda>q. if rHasDispatch r
       then q\<lparr>rDispatch := rDispatch r, rHasDispatch := True\<rparr> else q) d)"
proof (cases "rHasDispatch r")
  case True
  have scope: "Decode_loop seen d (vfield fieldAdapterCPUScope v)
      = Inr (seen, if v = 0 then d else setVarint fieldAdapterCPUScope v d)" for seen d v
    using Decode_vfield [of fieldAdapterCPUScope seen d v "[]"] by simp
  show ?thesis
    using assms True
    by (cases d; cases "dRecord d"; cases "rDispatch r")
       (simp add: dispatch_field_def Decode_varint setVarint_dispatch scope zeroDispatch_def)
next
  case False
  then show ?thesis by (simp add: dispatch_field_def)
qed

text \<open>The record the stream decodes to, before the count is repaired.\<close>

lemma set_stages_canon: "set_stages r AllStages (0 # replicate StageCount 0) = canonTS r"
proof (rule nth_equalityI)
  fix i assume "i < length (set_stages r AllStages (0 # replicate StageCount 0))"
  then have i: "i < Suc StageCount" "i < 16" by (simp_all add: StageCount_def)
  then have u: "unat (of_nat i :: Stage) = i" by (simp add: unat_of_nat take_bit_nat_eq_self_iff)
  have "(\<exists>s \<in> set AllStages. unat s = i \<and> mask_Has (rPresence r) s)
      \<longleftrightarrow> 1 \<le> i \<and> mask_Has (rPresence r) (of_nat i)"
    using i u by (auto simp: Valid_AllStages [symmetric] Valid_unat intro!: bexI [of _ "of_nat i"])
  moreover have "(0 # replicate StageCount 0) ! i = (0 :: int64)"
    using i by (cases i) simp_all
  moreover have "canonTS r ! i
      = (if 1 \<le> i \<and> mask_Has (rPresence r) (of_nat i) then rTS r ! i else 0)"
    unfolding canonTS_def using i by (simp add: nth_map [of i "[0 ..< Suc StageCount]"] del: upt_Suc)
  ultimately show "set_stages r AllStages (0 # replicate StageCount 0) ! i = canonTS r ! i"
    using i by (simp add: set_stages_nth)
qed (simp add: canonTS_def)

section \<open>The Triton request id\<close>

lemma of_char_digit: "d < 10 \<Longrightarrow> of_char (char_of (48 + d) :: char) = (48 + d :: nat)"
  by simp

lemma AppendUint_digits: "\<forall>c \<in> set (AppendUint n). \<exists>d < 10. c = char_of (48 + d :: nat)"
proof (induction n rule: AppendUint.induct)
  case (1 n)
  show ?case
  proof (cases "n < 10")
    case True
    then show ?thesis by (subst AppendUint.simps) auto
  next
    case False
    with 1 show ?thesis
      by (subst AppendUint.simps) (auto intro: exI [of _ "n mod 10"])
  qed
qed

lemma length_AppendUint: "n < 10 ^ Suc k \<Longrightarrow> length (AppendUint n) \<le> Suc k"
proof (induction k arbitrary: n)
  case 0
  then show ?case by (subst AppendUint.simps) simp
next
  case (Suc k)
  then have "n div 10 < 10 ^ Suc k" by (simp add: less_mult_imp_div_less)
  with Suc.IH show ?case by (subst AppendUint.simps) simp
qed

lemma AppendUint_nonempty [simp]: "AppendUint n \<noteq> ''''" "0 < length (AppendUint n)"
  by (subst AppendUint.simps, simp)+

lemma ParseUint_AppendUint:
  "n < 2 ^ 32 \<Longrightarrow> ParseUint_loop 0 (AppendUint n @ cs) = ParseUint_loop n cs"
proof (induction n arbitrary: cs rule: AppendUint.induct)
  case (1 n)
  show ?case
  proof (cases "n < 10")
    case True
    then show ?thesis by (subst AppendUint.simps) (simp add: Let_def)
  next
    case False
    have "n div 10 < 2 ^ 32" using 1(2) by linarith
    moreover have "n mod 10 \<le> 9" by (simp add: less_Suc_eq_le [symmetric])
    ultimately show ?thesis using 1(1) [OF False] 1(2) False
      by (subst AppendUint.simps) (simp add: Let_def of_char_digit)
  qed
qed

lemma ParseUint32_AppendUint: "ParseUint32 (AppendUint (unat (w :: uint32))) = Inr (unat w)"
  using ParseUint_AppendUint [of "unat w" "[]"] unat32_bound [of w] by (simp add: ParseUint32_def)

lemma length_TritonRequestID: "length (TritonRequestID r) < tritonRequestIDMax"
proof -
  have "length (AppendUint (unat w)) \<le> Suc 9" for w :: uint32
    by (rule length_AppendUint) (use unat32_bound [of w] in simp)
  from this [of "Cohort r"] this [of "Ordinal r"] show ?thesis
    by (simp add: TritonRequestID_def tritonRequestIDMax_def)
qed

lemma AppendUint_no_slash: "CHR ''/'' \<notin> set (AppendUint n)"
proof
  assume "CHR ''/'' \<in> set (AppendUint n)"
  then obtain d :: nat where "d < 10" "CHR ''/'' = char_of (48 + d)"
    using AppendUint_digits [of n] by blast
  then have "of_char (CHR ''/'') = (48 + d :: nat)" by (metis of_char_digit)
  then show False by simp
qed

lemma find_separator:
  assumes "s = ''c'' @ a @ ''/o'' @ b" and "CHR ''/'' \<notin> set a" and "b \<noteq> ''''"
  shows "find (\<lambda>i. s ! i = CHR ''/'' \<and> s ! (i + 1) = CHR ''o'') [1 ..< length s - 1]
       = Some (Suc (length a))"
  unfolding find_Some_iff
proof (intro exI [of _ "length a"] conjI allI impI)
  show "length a < length [1 ..< length s - 1]" using assms(1,3) by (cases b) auto
  then show idx: "Suc (length a) = [1 ..< length s - 1] ! length a" by simp
  show "s ! ([1 ..< length s - 1] ! length a) = CHR ''/''"
    and "s ! ([1 ..< length s - 1] ! length a + 1) = CHR ''o''"
    unfolding idx [symmetric] using assms(1) by (simp_all add: nth_append)
  fix j assume j: "j < length a"
  then have "s ! Suc j = a ! j" using assms(1) by (simp add: nth_append)
  moreover have "[1 ..< length s - 1] ! j = Suc j"
    using j \<open>length a < length [1 ..< length s - 1]\<close> by simp
  ultimately show "\<not> (s ! ([1 ..< length s - 1] ! j) = CHR ''/''
      \<and> s ! ([1 ..< length s - 1] ! j + 1) = CHR ''o'')"
    using assms(2) j nth_mem by force
qed

lemma ParseTritonRequestID_inverse: "ParseTritonRequestID (TritonRequestID r) = Inr r"
proof -
  let ?a = "AppendUint (unat (Cohort r))" and ?b = "AppendUint (unat (Ordinal r))"
  have len: "4 < length (TritonRequestID r) + 1"
    using AppendUint_nonempty(2) [of "unat (Cohort r)"] AppendUint_nonempty(2) [of "unat (Ordinal r)"]
    by (simp add: TritonRequestID_def)
  have "find (\<lambda>i. TritonRequestID r ! i = CHR ''/'' \<and> TritonRequestID r ! (i + 1) = CHR ''o'')
      [1 ..< length (TritonRequestID r) - 1] = Some (Suc (length ?a))"
    by (rule find_separator [where b = ?b]) (simp_all add: TritonRequestID_def AppendUint_no_slash)
  then show ?thesis
    using len by (simp add: ParseTritonRequestID_def)
      (simp add: TritonRequestID_def ParseUint32_AppendUint)
qed

section \<open>Properties\<close>

lemma rMembership_MembershipUIDs:
  "record_wf r \<Longrightarrow> length (MembershipUIDs r) = unat (rMembershipStored r)"
  by (simp add: MembershipUIDs_def record_wf_def)

lemma zero_SetMembership:
  assumes "record_wf r" and "rMembership q = replicate MaxMembership 0"
  shows "SetMembership (MembershipUIDs r) q = q\<lparr>
     rMembership := rMembership (canon r), rMembershipStored := rMembershipStored r,
     rMembershipCount := ucast (rMembershipStored r)\<rparr>"
proof -
  have l: "length (MembershipUIDs r) = unat (rMembershipStored r)"
    and le: "unat (rMembershipStored r) \<le> MaxMembership"
    using assms(1) by (simp_all add: rMembership_MembershipUIDs record_wf_def)
  then have m: "min (length (MembershipUIDs r)) MaxMembership = unat (rMembershipStored r)" by simp
  have c: "(of_nat (unat (rMembershipStored r)) :: uint32) = ucast (rMembershipStored r)"
    by (simp add: unsigned_of_nat of_nat_unat)
  show ?thesis
    using l le assms(2) by (cases q) (simp add: SetMembership_def m Let_def canon_def c)
qed

lemma Decode_body:
  assumes "record_wf r"
  shows "Decode_loop False \<lparr>dSchemaVersion = v, dHeader = h, dRecord = zeroRecord\<rparr> (body r w)
       = Inr (rMembershipCount r \<noteq> 0, \<lparr>dSchemaVersion = v,
           dHeader = (if w = 0 then h else h\<lparr>hWriterID := w\<rparr>), dRecord = canon r\<rparr>)"
proof -
  have id_field: "Decode_loop seen d
      (bfield fieldTritonRequestID (string_bytes (TritonRequestID q)) @ rest)
    = Decode_loop seen d rest" for seen d q rest
    using length_TritonRequestID [of q]
    by (simp add: Decode_bfield tritonRequestIDMax_def)
       (simp add: TritonRequestID_def setBytes_def field_defs)
  have stages: "\<forall>s \<in> set AllStages. Valid s" by (simp add: Valid_AllStages)
  have stored: "rMembershipStored r = 0 \<Longrightarrow> rMembership (canon r) = replicate MaxMembership 0"
    by (simp add: canon_def MembershipUIDs_def)
  show ?thesis
    using assms stored
    by (cases h; cases "rMembershipStored r = 0"; cases "rMembershipCount r = 0"; cases "rHasDispatch r")
       (simp_all add: body_def Decode_scalars id_field Decode_stages [OF stages] Decode_membership
        zero_SetMembership Decode_dispatch zeroRecord_def set_stages_canon, simp_all add: canon_def)
qed

lemma Decode_encode_canon:
  assumes "record_wf r"
    and "\<forall>s \<in> {hExperiment h, hSession h, hRun h, hCell h, hClockDomain h}. length s < 2 ^ 63"
  shows "Decode (encodeHeader h @ appendRecord [] r (hWriterID h))
       = Inr \<lparr>dSchemaVersion = of_nat SchemaVersion, dHeader = h, dRecord = canon r\<rparr>"
proof -
  have b: "length s < 2 ^ 63 \<Longrightarrow> length s < 2 ^ 64" for s :: string by simp
  have "(if hWriterID h = 0 then h\<lparr>hWriterID := 0\<rparr> else h\<lparr>hWriterID := 0, hWriterID := hWriterID h\<rparr>) = h"
    by (cases h) simp
  then have loop: "Decode_loop False zeroDecoded (encodeHeader h @ body r (hWriterID h)) =
      Inr (rMembershipCount r \<noteq> 0,
        \<lparr>dSchemaVersion = of_nat SchemaVersion, dHeader = h, dRecord = canon r\<rparr>)"
    using assms(2) Decode_header [of h "body r (hWriterID h)"]
      Decode_body [OF assms(1), of _ "h\<lparr>hWriterID := 0\<rparr>" "hWriterID h"] by (simp only: b ball_simps insert_iff)
  have "rMembershipCount r = 0 \<Longrightarrow>
      (canon r)\<lparr>rMembershipCount := ucast (rMembershipStored (canon r))\<rparr> = canon r"
    by (cases r) (simp add: canon_def)
  then show ?thesis unfolding Decode_def appendRecord_eq [OF assms(1)] append_Nil loop by simp
qed

lemma canon_accessors:
  assumes "record_wf r"
  shows "recStage (canon r) s = recStage r s" "MembershipUIDs (canon r) = MembershipUIDs r"
    "recRequest (canon r) = recRequest r" "rStatus (canon r) = rStatus r"
    "rHasDispatch (canon r) = rHasDispatch r"
    "rHasDispatch r \<Longrightarrow> rDispatch (canon r) = rDispatch r"
proof -
  have "canonTS r ! unat s = rTS r ! unat s" if "Valid s" "mask_Has (rPresence r) s"
    using that unfolding canonTS_def
    by (subst nth_map) (simp_all add: Valid_unat StageCount_def del: upt_Suc)
  then show "recStage (canon r) s = recStage r s" by (simp add: recStage_def canon_def)
  show "MembershipUIDs (canon r) = MembershipUIDs r"
    using rMembership_MembershipUIDs [OF assms] unfolding MembershipUIDs_def [of "canon r"]
    by (simp add: canon_def)
qed (simp_all add: canon_def recRequest_def)



lemma length_tag:
  assumes "field \<le> 48" and "wire \<le> 2"
  shows "length (tag field wire) \<le> 2"
proof -
  obtain w where w: "tag field wire = varint w" "unat (drop_bit 3 w) = field" 
    using tag_word [OF assms(1), of wire] assms(2) by auto
  have "unat (drop_bit 3 w) = unat w div 8" by (simp add: drop_bit_eq_div unat_div)
  with w(2) assms(1) have "unat w < 128 ^ Suc 1" by (simp; linarith)
  then show ?thesis using length_varint_le [of w 1] w(1) by simp
qed

lemma length_vfield_le [simp]: "field \<le> 48 \<Longrightarrow> length (vfield field v) \<le> maxVarintField"
  using length_varint_le_10 [of v] length_tag [of field wireVarint]
  by (simp add: vfield_def maxVarintField_def wireVarint_def)

lemma length_varint_small: "n < 128 ^ Suc k \<Longrightarrow> k < 9 \<Longrightarrow> length (varint (of_nat n)) \<le> Suc k"
proof (rule length_varint_le)
  assume "n < 128 ^ Suc k" "k < 9"
  then show "unat (of_nat n :: uint64) < 128 ^ Suc k"
    by (simp add: unat_of_nat take_bit_eq_mod)
qed

lemma length_stages:
  "length (concat (map (stage_field r) ss)) \<le> length ss * maxVarintField"
  if "\<forall>s \<in> set ss. Valid s"
  using that
proof (induction ss)
  case (Cons s ss)
  have "length (stage_field r s) \<le> maxVarintField"
    using Cons.prems length_tag [of "fieldTimestampBase + unat s - 1" wireVarint]
      length_varint_le_10 [of "rTS r ! unat s"]
    by (simp add: stage_field_def maxVarintField_def Valid_unat field_defs wireVarint_def)
  with Cons show ?case by simp
qed simp

lemma length_membership_field:
  assumes "record_wf r"
  shows "length (membership_field r) \<le> 2 + 2 + MaxMembership * 10"
proof -
  let ?p = "concat (map varint (MembershipUIDs r))"
  have us: "length (MembershipUIDs r) \<le> MaxMembership"
    using assms by (simp add: rMembership_MembershipUIDs record_wf_def)
  then have p: "length ?p \<le> MaxMembership * 10"
    using length_varints_le [of "MembershipUIDs r"] by simp
  then have "length (varint (of_nat (length ?p))) \<le> Suc 1"
    by (intro length_varint_small) (simp_all add: MaxMembership_def)
  with p length_tag [of fieldMembershipUIDs wireLen] show ?thesis
    by (simp add: membership_field_def bfield_def wireLen_def)
qed

lemma length_id_field:
  "length (bfield fieldTritonRequestID (string_bytes (TritonRequestID q))) \<le> 2 + 1 + tritonRequestIDMax"
proof -
  have "length (TritonRequestID q) < 24" using length_TritonRequestID [of q]
    by (simp add: tritonRequestIDMax_def)
  moreover from this have "length (varint (of_nat (length (TritonRequestID q)))) \<le> Suc 0"
    by (intro length_varint_small) simp_all
  ultimately show ?thesis using length_tag [of fieldTritonRequestID wireLen]
    by (simp add: bfield_def wireLen_def tritonRequestIDMax_def)
qed

lemma length_dispatch_field: "length (dispatch_field r) \<le> 4 * maxVarintField"
  using length_varint_le_10 [of "ucast (Dispatched (rDispatch r))"]
    length_varint_le_10 [of "SkewNanos (rDispatch r)"] length_varint_le_10 [of "CPUNanos (rDispatch r)"]
    length_tag [of fieldDispatched wireVarint] length_tag [of fieldDispatchSkewNanos wireVarint]
    length_tag [of fieldAdapterCPUNanos wireVarint]
    length_vfield_le [of fieldAdapterCPUScope "ucast (CPUScope (rDispatch r))"]
  by (simp add: dispatch_field_def wireVarint_def maxVarintField_def)

text \<open>
  C1. What the writer archives is what the validator reads. Decoding the header and body
  bytes of any record, under any header whose strings fit a Go string, gives the schema
  version, that header with the writer's id, and a record on which every accessor the
  validator uses (each stage with its presence, the membership, the request, the status,
  the fan-out evidence with its presence) agrees with the record that was written; the one
  thing repaired is a membership count of 0, recovered from the stored uids.
\<close>

theorem Decode_encode:
  assumes "record_wf r"
    and "\<forall>s \<in> {hExperiment h, hSession h, hRun h, hCell h, hClockDomain h}. length s < 2 ^ 63"
  shows "\<exists>q. Decode (encodeHeader h @ appendRecord [] r (hWriterID h))
        = Inr \<lparr>dSchemaVersion = of_nat SchemaVersion, dHeader = h, dRecord = q\<rparr>
      \<and> (\<forall>s. recStage q s = recStage r s) \<and> MembershipUIDs q = MembershipUIDs r
      \<and> rMembershipCount q = (if rMembershipCount r = 0 then of_nat (length (MembershipUIDs r))
                              else rMembershipCount r)
      \<and> recRequest q = recRequest r \<and> rPresence q = rPresence r \<and> rStatus q = rStatus r
      \<and> rEmitter q = rEmitter r \<and> rSeq q = rSeq r
      \<and> rEnvelopeID q = rEnvelopeID r \<and> rExecutionID q = rExecutionID r
      \<and> rLogicalBytes q = rLogicalBytes r \<and> rEnvelopeBytes q = rEnvelopeBytes r
      \<and> rBatchSize q = rBatchSize r \<and> rHasDispatch q = rHasDispatch r
      \<and> rDispatch q = (if rHasDispatch r then rDispatch r else zeroDispatch)"
proof -
  have "(of_nat (length (MembershipUIDs r)) :: uint32) = ucast (rMembershipStored r)"
    unfolding rMembership_MembershipUIDs [OF assms(1)] by (simp add: unsigned_of_nat of_nat_unat)
  then show ?thesis
    using Decode_encode_canon [OF assms] canon_accessors [OF assms(1)]
    by (intro exI [of _ "canon r"]) (simp add: canon_def)
qed

definition sampleRecord :: Record where
  "sampleRecord = SetMembership [5, 6] (SetDispatch
     \<lparr>Dispatched = 2, SkewNanos = 0, CPUNanos = 900, CPUScope = CPUScopeProcess\<rparr>
     (SetStage StageAdapterRecv 1000 (zeroRecord\<lparr>rEmitter := EmitterAdapter, rSeq := 7, rOrdinal := 1\<rparr>)))"

definition sampleHeader :: RunHeader where
  "sampleHeader = \<lparr>hExperiment = ''e'', hSession = ''s'', hRun = ''r'', hCell = CellF10,
     hClockDomain = ''clk'', hWriterID = 3\<rparr>"

lemma record_wf_sample: "record_wf sampleRecord"
  unfolding sampleRecord_def by (intro record_simps) (simp add: record_wf_def zeroRecord_def)

theorem Decode_encode_witness:
  "\<exists>q. Decode (encodeHeader sampleHeader @ appendRecord [] sampleRecord (hWriterID sampleHeader))
        = Inr \<lparr>dSchemaVersion = of_nat SchemaVersion, dHeader = sampleHeader, dRecord = q\<rparr>
      \<and> recStage q StageAdapterRecv = recStage sampleRecord StageAdapterRecv
      \<and> MembershipUIDs q = [5, 6] \<and> rHasDispatch q"
proof -
  have m: "MembershipUIDs sampleRecord = [5, 6]" "rHasDispatch sampleRecord"
    by (simp_all add: sampleRecord_def record_simps MaxMembership_def)
       (simp add: SetMembership_def SetDispatch_def Let_def)
  show ?thesis
    using Decode_encode [OF record_wf_sample, of sampleHeader] m
    by (auto simp: sampleHeader_def)
qed

lemma body_bound:
  assumes "record_wf r"
  shows "length (appendRecord [] r w) \<le> maxBodySize"
proof -
  have "\<forall>s \<in> set AllStages. Valid s" by (simp add: Valid_AllStages)
  moreover have "length AllStages = StageCount" by (simp add: AllStages_def)
  ultimately have s: "length (concat (map (stage_field r) AllStages)) \<le> StageCount * maxVarintField"
    using length_stages [of AllStages r] by simp
  have v: "length (vfield fieldEmitter a) \<le> maxVarintField" "length (vfield fieldWriterID a) \<le> maxVarintField"
    "length (vfield fieldSeq a) \<le> maxVarintField" "length (vfield fieldCohortID a) \<le> maxVarintField"
    "length (vfield fieldOrdinal a) \<le> maxVarintField" "length (vfield fieldEnvelopeID a) \<le> maxVarintField"
    "length (vfield fieldExecutionID a) \<le> maxVarintField" "length (vfield fieldPresenceMask a) \<le> maxVarintField"
    "length (vfield fieldStatus a) \<le> maxVarintField" "length (vfield fieldLogicalBytes a) \<le> maxVarintField"
    "length (vfield fieldEnvelopeBytes a) \<le> maxVarintField" "length (vfield fieldBatchSize a) \<le> maxVarintField"
    "length (vfield fieldMembershipCount a) \<le> maxVarintField" for a
    by (rule length_vfield_le; simp add: field_defs)+
  have "maxBodySize = 7 * maxVarintField + (2 + 1 + tritonRequestIDMax) + 2 * maxVarintField
      + StageCount * maxVarintField + 3 * maxVarintField + (2 + 2 + MaxMembership * 10)
      + maxVarintField + 4 * maxVarintField"
    by (simp add: maxBodySize_def varintFields_def algebra_simps)
  then show ?thesis
    unfolding appendRecord_eq [OF assms] body_def append_Nil length_append
    using s length_membership_field [OF assms] length_id_field [of "recRequest r"]
      length_dispatch_field [of r]
      v(1) [of "ucast (rEmitter r)"] v(2) [of "ucast w"] v(3) [of "rSeq r"] v(4) [of "ucast (rCohort r)"]
      v(5) [of "ucast (rOrdinal r)"] v(6) [of "rEnvelopeID r"] v(7) [of "rExecutionID r"]
      v(8) [of "ucast (rPresence r)"] v(9) [of "ucast (rStatus r)"] v(10) [of "ucast (rLogicalBytes r)"]
      v(11) [of "ucast (rEnvelopeBytes r)"] v(12) [of "ucast (rBatchSize r)"]
      v(13) [of "ucast (rMembershipCount r)"]
    by linarith
qed

text \<open>
  A record never outgrows the space the writer reserves for it: the encoded body of any
  record is at most \<^verbatim>\<open>maxBodySize\<close> bytes, whatever its field values.
\<close>

theorem appendRecord_maxBodySize:
  assumes "record_wf r"
  shows "length (appendRecord [] r w) \<le> maxBodySize"
  by (rule body_bound [OF assms])

theorem appendRecord_maxBodySize_witness:
  "length (appendRecord [] sampleRecord 3) \<le> maxBodySize"
  by (rule appendRecord_maxBodySize [OF record_wf_sample])

text \<open>
  The Triton request id identifies the request: it parses back to the request it was
  rendered from, and it fits the 24-byte stack buffer with room to spare.
\<close>

theorem TritonRequestID_roundtrip:
  "ParseTritonRequestID (TritonRequestID r) = Inr r \<and> length (TritonRequestID r) < tritonRequestIDMax"
  by (simp add: ParseTritonRequestID_inverse length_TritonRequestID)

end
