(* ===== verification/Archive.thy ===== *)
theory Archive
  imports CodecProofs
begin

text \<open>
  \<^verbatim>\<open>internal/events/parquet/parquet.go\<close>: the archive row of a record, and the record a row is read
  back as. The Parquet file itself is the library's: writing it stores the rows, reading it
  yields rows. An absent column is \<^verbatim>\<open>None\<close>, the nil pointer of the code.
\<close>

section \<open>Rows\<close>

record Row =
  rwSchemaVersion :: uint32
  rwExperimentID :: string
  rwSessionID :: string
  rwRunID :: string
  rwCell :: string
  rwClockDomainID :: string
  rwEmitter :: string
  rwWriterID :: uint32
  rwSeq :: uint64
  rwCohortID :: uint32
  rwOrdinal :: uint32
  rwEnvelopeID :: uint64
  rwExecutionID :: uint64
  rwTritonRequestID :: string
  rwPresenceMask :: uint32
  rwStatus :: string
  rwTSched :: "int64 option"
  rwTClientSend :: "int64 option"
  rwTProxyRecv :: "int64 option"
  rwTCohortSeal :: "int64 option"
  rwTProxySend :: "int64 option"
  rwTAdapterRecv :: "int64 option"
  rwTAdapterDispatch :: "int64 option"
  rwTQueueStart :: "int64 option"
  rwTComputeStart :: "int64 option"
  rwTComputeEnd :: "int64 option"
  rwTAdapterResult :: "int64 option"
  rwTAdapterSend :: "int64 option"
  rwTProxyRespRecv :: "int64 option"
  rwTProxyFanout :: "int64 option"
  rwTClientRecv :: "int64 option"
  rwLogicalBytes :: uint32
  rwEnvelopeBytes :: uint32
  rwBatchSize :: uint32
  rwMembershipUIDs :: "int64 list"
  rwMembershipCount :: uint32
  rwDispatched :: "uint32 option"
  rwDispatchSkewNanos :: "int64 option"
  rwAdapterCPUNanos :: "int64 option"
  rwAdapterCPUScope :: "string option"

text \<open>
  \<^verbatim>\<open>stageField\<close> is a pointer to a stage's column: it is read through the first function and
  written through the second. It is only asked for stages of the schema.
\<close>

definition stageField :: "Stage \<Rightarrow> Row \<Rightarrow> int64 option" where
  "stageField s r =
     (if s = StageSched then rwTSched r
      else if s = StageClientSend then rwTClientSend r
      else if s = StageProxyRecv then rwTProxyRecv r
      else if s = StageCohortSeal then rwTCohortSeal r
      else if s = StageProxySend then rwTProxySend r
      else if s = StageAdapterRecv then rwTAdapterRecv r
      else if s = StageAdapterDispatch then rwTAdapterDispatch r
      else if s = StageQueueStart then rwTQueueStart r
      else if s = StageComputeStart then rwTComputeStart r
      else if s = StageComputeEnd then rwTComputeEnd r
      else if s = StageAdapterResult then rwTAdapterResult r
      else if s = StageAdapterSend then rwTAdapterSend r
      else if s = StageProxyRespRecv then rwTProxyRespRecv r
      else if s = StageProxyFanout then rwTProxyFanout r
      else if s = StageClientRecv then rwTClientRecv r
      else None)"

definition setStageField :: "Stage \<Rightarrow> int64 \<Rightarrow> Row \<Rightarrow> Row" where
  "setStageField s v r =
     (if s = StageSched then r\<lparr>rwTSched := Some v\<rparr>
      else if s = StageClientSend then r\<lparr>rwTClientSend := Some v\<rparr>
      else if s = StageProxyRecv then r\<lparr>rwTProxyRecv := Some v\<rparr>
      else if s = StageCohortSeal then r\<lparr>rwTCohortSeal := Some v\<rparr>
      else if s = StageProxySend then r\<lparr>rwTProxySend := Some v\<rparr>
      else if s = StageAdapterRecv then r\<lparr>rwTAdapterRecv := Some v\<rparr>
      else if s = StageAdapterDispatch then r\<lparr>rwTAdapterDispatch := Some v\<rparr>
      else if s = StageQueueStart then r\<lparr>rwTQueueStart := Some v\<rparr>
      else if s = StageComputeStart then r\<lparr>rwTComputeStart := Some v\<rparr>
      else if s = StageComputeEnd then r\<lparr>rwTComputeEnd := Some v\<rparr>
      else if s = StageAdapterResult then r\<lparr>rwTAdapterResult := Some v\<rparr>
      else if s = StageAdapterSend then r\<lparr>rwTAdapterSend := Some v\<rparr>
      else if s = StageProxyRespRecv then r\<lparr>rwTProxyRespRecv := Some v\<rparr>
      else if s = StageProxyFanout then r\<lparr>rwTProxyFanout := Some v\<rparr>
      else if s = StageClientRecv then r\<lparr>rwTClientRecv := Some v\<rparr>
      else r)"

text \<open>The \<^verbatim>\<open>String\<close> methods, with the rendering of a value their table does not name.\<close>

definition emitterText :: "Emitter \<Rightarrow> string" where
  "emitterText e = (case emitterString e of Some n \<Rightarrow> n | None \<Rightarrow> ''Emitter('' @ AppendUint (unat e) @ '')'')"

definition statusText :: "Status \<Rightarrow> string" where
  "statusText s = (case map_of statusNames s of Some n \<Rightarrow> n | None \<Rightarrow> ''Status('' @ AppendUint (unat s) @ '')'')"

definition cpuScopeText :: "CPUScope \<Rightarrow> string" where
  "cpuScopeText s = (case map_of cpuScopeNames s of Some n \<Rightarrow> n | None \<Rightarrow> ''CPUScope('' @ AppendUint (unat s) @ '')'')"

section \<open>From a record to its row\<close>

definition rowOf :: "Decoded \<Rightarrow> Row" where
  "rowOf d =
     (let h = dHeader d; r = dRecord d in
      \<lparr>rwSchemaVersion = dSchemaVersion d, rwExperimentID = hExperiment h, rwSessionID = hSession h,
       rwRunID = hRun h, rwCell = hCell h, rwClockDomainID = hClockDomain h, rwEmitter = emitterText (rEmitter r),
       rwWriterID = hWriterID h, rwSeq = rSeq r, rwCohortID = rCohort r, rwOrdinal = rOrdinal r,
       rwEnvelopeID = rEnvelopeID r, rwExecutionID = rExecutionID r,
       rwTritonRequestID = TritonRequestID (recRequest r), rwPresenceMask = rPresence r,
       rwStatus = statusText (rStatus r), rwTSched = None, rwTClientSend = None, rwTProxyRecv = None,
       rwTCohortSeal = None, rwTProxySend = None, rwTAdapterRecv = None, rwTAdapterDispatch = None,
       rwTQueueStart = None, rwTComputeStart = None, rwTComputeEnd = None, rwTAdapterResult = None,
       rwTAdapterSend = None, rwTProxyRespRecv = None, rwTProxyFanout = None, rwTClientRecv = None,
       rwLogicalBytes = rLogicalBytes r, rwEnvelopeBytes = rEnvelopeBytes r, rwBatchSize = rBatchSize r,
       rwMembershipUIDs = [], rwMembershipCount = rMembershipCount r,
       rwDispatched = None, rwDispatchSkewNanos = None, rwAdapterCPUNanos = None, rwAdapterCPUScope = None\<rparr>)"

definition fillStage :: "Record \<Rightarrow> Row \<Rightarrow> Stage \<Rightarrow> Row" where
  "fillStage r row s = (let (ts, ok) = recStage r s in if ok then setStageField s ts row else row)"

definition ToRow :: "Decoded \<Rightarrow> Row" where
  "ToRow d =
     (let r = dRecord d;
          row = foldl (fillStage r) (rowOf d) AllStages;
          row = row\<lparr>rwMembershipUIDs := rwMembershipUIDs row @ MembershipUIDs r\<rparr>
      in if rHasDispatch r
         then row\<lparr>rwDispatched := Some (Dispatched (rDispatch r)),
                rwDispatchSkewNanos := Some (SkewNanos (rDispatch r)),
                rwAdapterCPUNanos := Some (CPUNanos (rDispatch r)),
                rwAdapterCPUScope := Some (cpuScopeText (CPUScope (rDispatch r)))\<rparr>
         else row)"

section \<open>From a row back to a record\<close>

datatype row_error =
    RowEmitter string
  | RowCPUScope string
  | RowHalfDispatch LogicalRequest nat

definition rowStatus :: "string \<Rightarrow> Status" where
  "rowStatus s = (if s = ''ok'' then StatusOK else if s = ''error'' then StatusError
     else if s = ''timeout'' then StatusTimeout else StatusUnspecified)"

definition readStage :: "Row \<Rightarrow> Record \<Rightarrow> Stage \<Rightarrow> Record" where
  "readStage row r s = (case stageField s row of None \<Rightarrow> r | Some ts \<Rightarrow> r\<lparr>rTS := (rTS r)[unat s := ts]\<rparr>)"

definition FromRow :: "Row \<Rightarrow> row_error + Decoded" where
  "FromRow row =
     (case ParseEmitter (rwEmitter row) of Inl e \<Rightarrow> Inl (RowEmitter e)
      | Inr emitter \<Rightarrow>
          let h = \<lparr>hExperiment = rwExperimentID row, hSession = rwSessionID row, hRun = rwRunID row,
                hCell = rwCell row, hClockDomain = rwClockDomainID row, hWriterID = rwWriterID row\<rparr>;
              r = zeroRecord\<lparr>rEmitter := emitter, rSeq := rwSeq row, rCohort := rwCohortID row,
                rOrdinal := rwOrdinal row, rEnvelopeID := rwEnvelopeID row, rExecutionID := rwExecutionID row,
                rPresence := rwPresenceMask row, rLogicalBytes := rwLogicalBytes row,
                rEnvelopeBytes := rwEnvelopeBytes row, rBatchSize := rwBatchSize row\<rparr>;
              r = r\<lparr>rStatus := rowStatus (rwStatus row)\<rparr>;
              r = foldl (readStage row) r AllStages;
              r = SetMembership (rwMembershipUIDs row) r;
              r = r\<lparr>rMembershipCount := rwMembershipCount row\<rparr>;
              present = length (filter id [rwDispatched row \<noteq> None, rwDispatchSkewNanos row \<noteq> None,
                rwAdapterCPUNanos row \<noteq> None, rwAdapterCPUScope row \<noteq> None])
          in if present = 0 then Inr \<lparr>dSchemaVersion = rwSchemaVersion row, dHeader = h, dRecord = r\<rparr>
             else if present = 4
             then (case ParseCPUScope (the (rwAdapterCPUScope row)) of Inl e \<Rightarrow> Inl (RowCPUScope e)
                   | Inr scope \<Rightarrow>
                       Inr \<lparr>dSchemaVersion = rwSchemaVersion row, dHeader = h,
                         dRecord = SetDispatch \<lparr>Dispatched = the (rwDispatched row),
                           SkewNanos = the (rwDispatchSkewNanos row), CPUNanos = the (rwAdapterCPUNanos row),
                           CPUScope = scope\<rparr> r\<rparr>)
             else Inl (RowHalfDispatch (recRequest r) present))"

definition writeArchive :: "Decoded list \<Rightarrow> Row list" where
  "writeArchive records = map ToRow records"

fun readRows :: "Row list \<Rightarrow> row_error + Decoded list" where
  "readRows [] = Inr []"
| "readRows (row # rows) =
     (case FromRow row of Inl e \<Rightarrow> Inl e
      | Inr d \<Rightarrow> (case readRows rows of Inl e \<Rightarrow> Inl e | Inr ds \<Rightarrow> Inr (d # ds)))"


section \<open>The columns of a row\<close>

lemma stageField_set:
  assumes "Valid s"
  shows "stageField t (setStageField s v r) = (if t = s then Some v else stageField t r)"
proof -
  have "s \<in> set [1, 2, 3, 4, 5, 6, 7, 8, 9, 10, 11, 12, 13, 14, 15]"
    using assms by (simp add: Valid_AllStages AllStages_code)
  then show ?thesis
    unfolding list.set by (elim insertE emptyE; hypsubst) (simp_all add: setStageField_def stageField_def)
qed

text \<open>What writing a stage leaves alone.\<close>

definition plainRow :: "Row \<Rightarrow> Row" where
  "plainRow r = r\<lparr>rwTSched := None, rwTClientSend := None, rwTProxyRecv := None, rwTCohortSeal := None,
     rwTProxySend := None, rwTAdapterRecv := None, rwTAdapterDispatch := None, rwTQueueStart := None,
     rwTComputeStart := None, rwTComputeEnd := None, rwTAdapterResult := None, rwTAdapterSend := None,
     rwTProxyRespRecv := None, rwTProxyFanout := None, rwTClientRecv := None\<rparr>"

lemma plainRow_set: "plainRow (setStageField s v r) = plainRow r"
  by (simp add: plainRow_def setStageField_def)

lemma plainRow_fill: "plainRow (foldl (fillStage q) row ss) = plainRow row"
proof (induction ss arbitrary: row)
  case (Cons s ss)
  have "plainRow (fillStage q row s) = plainRow row" by (simp add: fillStage_def plainRow_set split_beta)
  with Cons show ?case by simp
qed simp

lemma stageField_fill:
  assumes "list_all Valid ss"
  shows "stageField t (foldl (fillStage q) row ss)
     = (if t \<in> set ss \<and> snd (recStage q t) then Some (fst (recStage q t)) else stageField t row)"
  using assms
  by (induction ss rule: rev_induct) (auto simp: fillStage_def split_beta Let_def stageField_set)

definition readTS :: "Row \<Rightarrow> int64 list \<Rightarrow> Stage list \<Rightarrow> int64 list" where
  "readTS row ts ss = foldl (\<lambda>ts s. case stageField s row of None \<Rightarrow> ts | Some v \<Rightarrow> ts[unat s := v]) ts ss"

lemma readStages: "foldl (readStage row) r ss = r\<lparr>rTS := readTS row (rTS r) ss\<rparr>"
  unfolding readTS_def by (induction ss arbitrary: r) (simp_all add: readStage_def split: option.splits)

lemma readTS_nth:
  assumes "length ts = Suc StageCount"
  shows "length (readTS row ts ss) = Suc StageCount"
    and "i < Suc StageCount \<Longrightarrow> readTS row ts ss ! i
      = (if of_nat i \<in> set ss \<and> stageField (of_nat i) row \<noteq> None then the (stageField (of_nat i) row) else ts ! i)"
proof -
  show len: "length (readTS row ts ss) = Suc StageCount" for ss
    unfolding readTS_def by (induction ss rule: rev_induct) (auto simp: assms split: option.splits)
  show "readTS row ts ss ! i
      = (if of_nat i \<in> set ss \<and> stageField (of_nat i) row \<noteq> None then the (stageField (of_nat i) row) else ts ! i)"
    if "i < Suc StageCount"
  proof -
    have "unat (of_nat i :: Stage) = i"
      using that by (simp add: unat_of_nat StageCount_def take_bit_nat_eq_self_iff)
    then have i: "unat s = i \<longleftrightarrow> s = of_nat i" for s :: Stage by (metis of_nat_unat ucast_id)
    have step: "readTS row ts (ss @ [s]) = (case stageField s row of None \<Rightarrow> readTS row ts ss | Some v \<Rightarrow> (readTS row ts ss)[unat s := v])" for s ss
      by (simp add: readTS_def split: option.split)
    show ?thesis
    proof (induction ss rule: rev_induct)
      case (snoc s ss)
      then show ?case
        using that len [of ss] i [of s]
        by (cases "unat s = i"; cases "stageField s row") (auto simp: step)
    qed (simp add: readTS_def)
  qed
qed


section \<open>The archive keeps the record\<close>

lemma emitterText_known:
  assumes "1 \<le> e" and "e \<le> 4"
  shows "ParseEmitter (emitterText e) = Inr e"
proof -
  have "e \<in> {1, 2, 3, 4}" using assms by (auto simp: word_le_nat_alt word_unat_eq_iff)
  then show ?thesis by (auto simp: ParseEmitter_def emitterText_def emitterString_def emitterNames_def)
qed

lemma statusText_known:
  assumes "s \<le> 3"
  shows "rowStatus (statusText s) = s"
proof -
  have "s \<in> {0, 1, 2, 3}" using assms by (auto simp: word_le_nat_alt word_unat_eq_iff)
  then show ?thesis by (auto simp: rowStatus_def statusText_def statusNames_def)
qed

lemma cpuScopeText_known:
  assumes "s \<le> 2"
  shows "ParseCPUScope (cpuScopeText s) = Inr s"
proof -
  have "s \<in> {0, 1, 2}" using assms by (auto simp: word_le_nat_alt word_unat_eq_iff)
  then show ?thesis by (auto simp: ParseCPUScope_def cpuScopeText_def cpuScopeNames_def)
qed

lemma readTS_ToRow:
  assumes "record_wf r" and "\<And>s. Valid s \<Longrightarrow> stageField s row = (if snd (recStage r s) then Some (fst (recStage r s)) else None)"
  shows "readTS row (rTS zeroRecord) AllStages = canonTS r"
proof (rule nth_equalityI)
  have z: "length (rTS zeroRecord) = Suc StageCount" by (simp add: zeroRecord_def)
  show "length (readTS row (rTS zeroRecord) AllStages) = length (canonTS r)"
    using readTS_nth(1) [OF z] by (simp add: canonTS_def)
  fix i assume "i < length (readTS row (rTS zeroRecord) AllStages)"
  then have i: "i < Suc StageCount" using readTS_nth(1) [OF z] by simp
  then have u: "unat (of_nat i :: Stage) = i"
    by (simp add: unat_of_nat StageCount_def take_bit_nat_eq_self_iff)
  have v: "Valid (of_nat i) \<longleftrightarrow> 1 \<le> i" using i by (simp add: Valid_unat u StageCount_def)
  have zero: "rTS zeroRecord ! i = 0" using i by (simp add: zeroRecord_def del: replicate_Suc)
  have "canonTS r ! i = (if 1 \<le> i \<and> mask_Has (rPresence r) (of_nat i) then rTS r ! i else 0)"
    using i unfolding canonTS_def by (subst nth_map) (simp_all del: upt_Suc)
  then show "readTS row (rTS zeroRecord) AllStages ! i = canonTS r ! i"
    using readTS_nth(2) [OF z i, of row AllStages] assms(2) [of "of_nat i"] v
    by (auto simp: Valid_AllStages [symmetric] zero recStage_def u)
qed

text \<open>What a row reads back as: the record, with what absence leaves unread put back to zero.\<close>

lemma FromRow_ToRow:
  assumes "record_wf (dRecord d)" and "1 \<le> rEmitter (dRecord d)" and "rEmitter (dRecord d) \<le> 4" and "rStatus (dRecord d) \<le> 3"
    and "rHasDispatch (dRecord d) \<Longrightarrow> CPUScope (rDispatch (dRecord d)) \<le> 2"
  shows "FromRow (ToRow d) = Inr (d\<lparr>dRecord := (canon (dRecord d))\<lparr>rMembershipCount := rMembershipCount (dRecord d)\<rparr>\<rparr>)"
proof -
  define r where "r = dRecord d"
  define filled where "filled = foldl (fillStage r) (rowOf d) AllStages"
  have valid: "list_all Valid AllStages" by (simp add: list_all_iff Valid_AllStages)
  have none: "stageField s (rowOf d) = None" for s by (simp add: stageField_def rowOf_def Let_def)
  have plain: "plainRow filled = plainRow (rowOf d)" by (simp add: filled_def plainRow_fill)
  have fields: "f (plainRow filled) = f (plainRow (rowOf d))" for f :: "Row \<Rightarrow> 'b" by (simp add: plain)
  note keeps = fields [of rwSchemaVersion] fields [of rwExperimentID] fields [of rwSessionID] fields [of rwRunID]
    fields [of rwCell] fields [of rwClockDomainID] fields [of rwEmitter] fields [of rwWriterID] fields [of rwSeq]
    fields [of rwCohortID] fields [of rwOrdinal] fields [of rwEnvelopeID] fields [of rwExecutionID]
    fields [of rwPresenceMask] fields [of rwStatus] fields [of rwLogicalBytes] fields [of rwEnvelopeBytes]
    fields [of rwBatchSize] fields [of rwMembershipUIDs] fields [of rwMembershipCount] fields [of rwDispatched]
    fields [of rwDispatchSkewNanos] fields [of rwAdapterCPUNanos] fields [of rwAdapterCPUScope]
  note plain_fields = keeps [unfolded plainRow_def, simplified, unfolded rowOf_def Let_def, simplified, folded r_def]
  have stages: "stageField s (ToRow d) = (if snd (recStage r s) then Some (fst (recStage r s)) else None)" if "Valid s" for s
  proof -
    have "stageField s (ToRow d) = stageField s filled" by (simp add: ToRow_def Let_def filled_def r_def stageField_def)
    then show ?thesis using stageField_fill [OF valid, of s r "rowOf d"] that
      by (simp add: filled_def none Valid_AllStages)
  qed
  have ts: "readTS (ToRow d) (rTS zeroRecord) AllStages = canonTS r"
    by (rule readTS_ToRow) (use assms(1) stages in \<open>simp_all add: r_def\<close>)
  have columns: "rwSchemaVersion (ToRow d) = dSchemaVersion d" "rwExperimentID (ToRow d) = hExperiment (dHeader d)"
    "rwSessionID (ToRow d) = hSession (dHeader d)" "rwRunID (ToRow d) = hRun (dHeader d)" "rwCell (ToRow d) = hCell (dHeader d)"
    "rwClockDomainID (ToRow d) = hClockDomain (dHeader d)" "rwEmitter (ToRow d) = emitterText (rEmitter r)"
    "rwWriterID (ToRow d) = hWriterID (dHeader d)" "rwSeq (ToRow d) = rSeq r" "rwCohortID (ToRow d) = rCohort r"
    "rwOrdinal (ToRow d) = rOrdinal r" "rwEnvelopeID (ToRow d) = rEnvelopeID r" "rwExecutionID (ToRow d) = rExecutionID r"
    "rwPresenceMask (ToRow d) = rPresence r" "rwStatus (ToRow d) = statusText (rStatus r)"
    "rwLogicalBytes (ToRow d) = rLogicalBytes r" "rwEnvelopeBytes (ToRow d) = rEnvelopeBytes r"
    "rwBatchSize (ToRow d) = rBatchSize r" "rwMembershipUIDs (ToRow d) = MembershipUIDs r"
    "rwMembershipCount (ToRow d) = rMembershipCount r"
    "rwDispatched (ToRow d) = (if rHasDispatch r then Some (Dispatched (rDispatch r)) else None)"
    "rwDispatchSkewNanos (ToRow d) = (if rHasDispatch r then Some (SkewNanos (rDispatch r)) else None)"
    "rwAdapterCPUNanos (ToRow d) = (if rHasDispatch r then Some (CPUNanos (rDispatch r)) else None)"
    "rwAdapterCPUScope (ToRow d) = (if rHasDispatch r then Some (cpuScopeText (CPUScope (rDispatch r))) else None)"
    by (simp_all add: ToRow_def Let_def r_def [symmetric] filled_def [symmetric] plain_fields)
  let ?r0 = "zeroRecord\<lparr>rEmitter := rEmitter r, rSeq := rSeq r, rCohort := rCohort r, rOrdinal := rOrdinal r,
     rEnvelopeID := rEnvelopeID r, rExecutionID := rExecutionID r, rPresence := rPresence r,
     rLogicalBytes := rLogicalBytes r, rEnvelopeBytes := rEnvelopeBytes r, rBatchSize := rBatchSize r\<rparr>"
  have "readTS (ToRow d) (rTS (?r0\<lparr>rStatus := rStatus r\<rparr>)) AllStages = canonTS r" using ts by simp
  moreover have "rMembership (?r0\<lparr>rStatus := rStatus r, rTS := canonTS r\<rparr>) = replicate MaxMembership 0"
    by (simp add: zeroRecord_def)
  ultimately have "SetMembership (MembershipUIDs r) (foldl (readStage (ToRow d)) (?r0\<lparr>rStatus := rStatus r\<rparr>) AllStages)
      = ?r0\<lparr>rStatus := rStatus r, rTS := canonTS r, rMembership := rMembership (canon r),
          rMembershipStored := rMembershipStored r, rMembershipCount := ucast (rMembershipStored r)\<rparr>"
    unfolding readStages by (simp only: zero_SetMembership [OF assms(1), folded r_def])
  moreover have "?r0\<lparr>rStatus := rStatus r, rTS := canonTS r, rMembership := rMembership (canon r),
        rMembershipStored := rMembershipStored r, rMembershipCount := rMembershipCount r\<rparr>
      = (canon r)\<lparr>rMembershipCount := rMembershipCount r, rDispatch := zeroDispatch, rHasDispatch := False\<rparr>"
    by (cases r) (simp add: zeroRecord_def canon_def)
  ultimately have built: "(SetMembership (MembershipUIDs r) (foldl (readStage (ToRow d)) (?r0\<lparr>rStatus := rStatus r\<rparr>) AllStages))
        \<lparr>rMembershipCount := rMembershipCount r\<rparr>
      = (canon r)\<lparr>rMembershipCount := rMembershipCount r, rDispatch := zeroDispatch, rHasDispatch := False\<rparr>"
    by simp
  show ?thesis
  proof (cases "rHasDispatch r")
    case True
    then have "CPUScope (rDispatch r) \<le> 2" using assms(5) by (simp add: r_def)
    then show ?thesis
      unfolding FromRow_def columns emitterText_known [OF assms(2,3), folded r_def]
        statusText_known [OF assms(4), folded r_def] Let_def sum.case built
      using True by (cases d) (simp add: cpuScopeText_known SetDispatch_def canon_def r_def)
  next
    case False
    then show ?thesis
      unfolding FromRow_def columns emitterText_known [OF assms(2,3), folded r_def]
        statusText_known [OF assms(4), folded r_def] Let_def sum.case built
      by (cases d) (simp add: canon_def r_def)
  qed
qed

lemma canon_canon:
  assumes "record_wf r"
  shows "record_wf (canon r)" and "(canon (canon r))\<lparr>rMembershipCount := rMembershipCount (canon r)\<rparr> = canon r"
proof -
  have l: "length (MembershipUIDs r) = unat (rMembershipStored r)" "unat (rMembershipStored r) \<le> MaxMembership"
    using assms by (simp_all add: rMembership_MembershipUIDs record_wf_def)
  then show "record_wf (canon r)" by (simp add: record_wf_def canon_def canonTS_def)
  have "MembershipUIDs (canon r) = MembershipUIDs r" by (rule canon_accessors(2) [OF assms])
  moreover have "canonTS (canon r) = canonTS r"
  proof (rule nth_equalityI)
    fix i assume "i < length (canonTS (canon r))"
    then have i: "i < Suc StageCount" by (simp add: canonTS_def)
    have at: "canonTS q ! i = (if 1 \<le> i \<and> mask_Has (rPresence q) (of_nat i) then rTS q ! i else 0)" for q
      using i unfolding canonTS_def by (subst nth_map) (simp_all del: upt_Suc)
    have "rPresence (canon r) = rPresence r" "rTS (canon r) ! i = canonTS r ! i" by (simp_all add: canon_def)
    then show "canonTS (canon r) ! i = canonTS r ! i" unfolding at by simp
  qed (simp add: canonTS_def)
  ultimately show "(canon (canon r))\<lparr>rMembershipCount := rMembershipCount (canon r)\<rparr> = canon r"
    by (simp add: canon_def [of "canon r"]) (simp add: canon_def)
qed

text \<open>The records an archive can hold: of a known emitter, status and CPU scope, as the stream decoder leaves them.\<close>

definition archivable :: "Decoded \<Rightarrow> bool" where
  "archivable d \<longleftrightarrow> record_wf (dRecord d) \<and> 1 \<le> rEmitter (dRecord d) \<and> rEmitter (dRecord d) \<le> 4 \<and> rStatus (dRecord d) \<le> 3
     \<and> (rHasDispatch (dRecord d) \<longrightarrow> CPUScope (rDispatch (dRecord d)) \<le> 2)
     \<and> (canon (dRecord d))\<lparr>rMembershipCount := rMembershipCount (dRecord d)\<rparr> = dRecord d"

lemma archivable_row: "archivable d \<Longrightarrow> FromRow (ToRow d) = Inr d"
  unfolding archivable_def by (subst FromRow_ToRow) auto

lemma archived_rows: "list_all archivable ds \<Longrightarrow> readRows (writeArchive ds) = Inr ds"
  by (induction ds) (simp_all add: writeArchive_def archivable_row)

lemma decoded_archivable:
  assumes "record_wf r" and "\<forall>s \<in> {hExperiment h, hSession h, hRun h, hCell h, hClockDomain h}. length s < 2 ^ 63"
    and "1 \<le> rEmitter r" and "rEmitter r \<le> 4" and "rStatus r \<le> 3" and "rHasDispatch r \<longrightarrow> CPUScope (rDispatch r) \<le> 2"
  shows "\<exists>d. Decode (encodeHeader h @ appendRecord [] r (hWriterID h)) = Inr d \<and> archivable d"
proof -
  have "rEmitter (canon r) = rEmitter r" "rStatus (canon r) = rStatus r" "rHasDispatch (canon r) = rHasDispatch r"
    "rHasDispatch r \<Longrightarrow> rDispatch (canon r) = rDispatch r" by (simp_all add: canon_def)
  then have "archivable \<lparr>dSchemaVersion = of_nat SchemaVersion, dHeader = h, dRecord = canon r\<rparr>"
    using assms(3-6) canon_canon [OF assms(1)] by (simp add: archivable_def)
  then show ?thesis using Decode_encode_canon [OF assms(1,2)] by blast
qed

text \<open>
  C2. The archive holds what the streams hold. A record of a known emitter, status and CPU
  scope, as any process writes it to its stream and the stream is read back, goes into an
  archive row that reads back as the same record under the same header: every stage with its
  presence, the membership and its count, the fan-out evidence with its presence, and nothing
  an absent stage could be read as.
\<close>

theorem archive_roundtrip:
  assumes "record_wf r" and "list_all (\<lambda>s. length s < 2 ^ 63) [hExperiment h, hSession h, hRun h, hCell h, hClockDomain h]"
    and "1 \<le> rEmitter r" and "rEmitter r \<le> 4" and "rStatus r \<le> 3" and "rHasDispatch r \<longrightarrow> CPUScope (rDispatch r) \<le> 2"
  shows "case Decode (encodeHeader h @ appendRecord [] r (hWriterID h)) of Inl _ \<Rightarrow> False
    | Inr d \<Rightarrow> FromRow (ToRow d) = Inr d"
  using decoded_archivable [of r h] assms archivable_row by auto

theorem archive_roundtrip_witness:
  "case Decode (encodeHeader sampleHeader @ appendRecord [] (sampleRecord\<lparr>rStatus := StatusOK\<rparr>) (hWriterID sampleHeader)) of
     Inl _ \<Rightarrow> False | Inr d \<Rightarrow> FromRow (ToRow d) = Inr d"
proof (rule archive_roundtrip)
  show "record_wf (sampleRecord\<lparr>rStatus := StatusOK\<rparr>)" using record_wf_sample by (simp add: record_wf_def)
qed (simp_all add: sampleHeader_def sampleRecord_def SetMembership_def SetDispatch_def SetStage_def Let_def)

text \<open>A row that carries part of the fan-out evidence is refused, not completed.\<close>

lemma half_dispatch_refused:
  assumes "rwDispatched row = None \<or> rwDispatchSkewNanos row = None \<or> rwAdapterCPUNanos row = None \<or> rwAdapterCPUScope row = None"
    and "rwDispatched row \<noteq> None \<or> rwDispatchSkewNanos row \<noteq> None \<or> rwAdapterCPUNanos row \<noteq> None \<or> rwAdapterCPUScope row \<noteq> None"
  shows "FromRow row \<noteq> Inr d"
  using assms by (auto simp: FromRow_def Let_def split: sum.splits if_splits)

end
