(* ===== verification/Joining.thy ===== *)
theory Joining
  imports Codec
begin

text \<open>
  The data of \<^verbatim>\<open>internal/validate/validate.go\<close>: defects and checks, what a run was supposed
  to produce, and \<^verbatim>\<open>Join\<close>, which assembles each request's path from the records of every
  process. The prose of a finding (\<^verbatim>\<open>Message\<close>, \<^verbatim>\<open>Detail\<close>) is not modelled: nothing reads it.
  Maps the code only looks up or iterates are association lists, sets are lists without
  repetition; where Go iterates a map the order is one of those it may choose.
\<close>

section \<open>Findings\<close>

datatype DefectKind =
    DefectMissingTimestamp
  | DefectUnexpectedStage
  | DefectNonMonotonic
  | DefectCrossClockDomain
  | DefectMembershipMismatch
  | DefectOwnUIDEcho
  | DefectTruncatedEvidence
  | DefectCoalescedSingles
  | DefectAdapterWaiting
  | DefectStageOwnership
  | DefectOverlappingExecutions
  | DefectMembershipDisagree
  | DefectExecutionCount
  | DefectDroppedRecords
  | DefectMissingRequest
  | DefectDuplicateRecord
  | DefectConservation
  | DefectSchemaVersion
  | DefectEnvelopeCardinality
  | DefectEnvelopeStageDisagreement
  | DefectFormationFailure
  | DefectDispatchSkew
  | DefectFanOutSerial
  | DefectDispatchEvidence
  | DefectRequestFailed

record Defect =
  dfKind :: DefectKind
  dfRequest :: "LogicalRequest option"
  dfStage :: string

record Check =
  ckName :: string
  ckPassed :: bool
  ckDefects :: "Defect list"

definition requestDefect :: "DefectKind \<Rightarrow> LogicalRequest \<Rightarrow> Defect" where
  "requestDefect kind req = \<lparr>dfKind = kind, dfRequest = Some req, dfStage = []\<rparr>"

definition runDefect :: "DefectKind \<Rightarrow> Defect" where
  "runDefect kind = \<lparr>dfKind = kind, dfRequest = None, dfStage = []\<rparr>"

definition stageDefect :: "DefectKind \<Rightarrow> LogicalRequest \<Rightarrow> string \<Rightarrow> Defect" where
  "stageDefect kind req stage = \<lparr>dfKind = kind, dfRequest = Some req, dfStage = stage\<rparr>"

definition pass :: "string \<Rightarrow> Check" where
  "pass name = \<lparr>ckName = name, ckPassed = True, ckDefects = []\<rparr>"

definition fail :: "string \<Rightarrow> Defect list \<Rightarrow> Check" where
  "fail name defects = \<lparr>ckName = name, ckPassed = (defects = []), ckDefects = defects\<rparr>"

definition refused :: "string \<Rightarrow> Check" where
  "refused name = \<lparr>ckName = name, ckPassed = False, ckDefects = []\<rparr>"

text \<open>\<^verbatim>\<open>Stage.String\<close> names an unknown stage too; only valid stages reach a defect.\<close>

definition stageName :: "Stage \<Rightarrow> string" where
  "stageName s = (case stageString s of Some n \<Rightarrow> n | None \<Rightarrow> [])"

lemma check_fields [simp]:
  "ckPassed (pass n)" "ckDefects (pass n) = []" "ckPassed (fail n ds) \<longleftrightarrow> ds = []"
  "ckDefects (fail n ds) = ds" "\<not> ckPassed (refused n)" "ckDefects (refused n) = []"
  "ckName (pass n) = n" "ckName (fail n ds) = n" "ckName (refused n) = n"
  by (simp_all add: pass_def fail_def refused_def)

section \<open>The expectation\<close>

text \<open>
  The tolerance is the float64 the manifest declares, a finite value. Counts are the
  manifest's, which refuses negative ones (Go's \<^verbatim>\<open>make\<close> would panic on a negative product).
\<close>

record RunExpectation =
  exRun :: string
  exCell :: Cell
  exClockDomain :: string
  exCohortSize :: int
  exCohortCount :: int
  exFirstCohortID :: CohortID
  exExecutionsPerCohort :: int
  exBatchSize :: int
  exExecutions :: int
  exToleranceFraction :: rat
  exMaxAdapterDispatchWaitNanos :: int64
  exMaxDispatchSkewNanos :: int64
  exExecutionCountDelta :: uint64
  exInferenceCountDelta :: uint64
  exBatchSizeHistogram :: "(uint64 \<times> uint64) list"
  exDroppedRecords :: uint64

definition Requests :: "RunExpectation \<Rightarrow> LogicalRequest list" where
  "Requests e = concat (map (\<lambda>c. map (\<lambda>ord. LogicalRequest (exFirstCohortID e + of_nat c) (of_nat ord))
     [0 ..< nat (exCohortSize e)]) [0 ..< nat (exCohortCount e)])"

section \<open>Joining\<close>

record Joined =
  jRequest :: LogicalRequest
  jPresence :: StageMask
  jTS :: "int64 list"
  jStatus :: Status
  jDomains :: "string list"
  jEmitters :: "(Emitter \<times> nat) list"
  jStageEmitter :: "Emitter list"
  jMembership :: "UID list"
  jMembershipCount :: uint32
  jMembershipBySource :: "(Emitter \<times> UID list) list"
  jStatusBySource :: "(Emitter \<times> Status) list"
  jBatchSize :: uint32
  jSchemaVersions :: "uint32 list"
  jEnvelopeID :: EnvelopeID
  jDispatch :: DispatchEvidence
  jHasDispatch :: bool
  jDispatchBySource :: "(Emitter \<times> DispatchEvidence) list"

type_synonym joined_map = "(LogicalRequest \<times> Joined) list"

definition newJoined :: "LogicalRequest \<Rightarrow> Joined" where
  "newJoined req = \<lparr>jRequest = req, jPresence = 0, jTS = replicate (Suc StageCount) 0,
     jStatus = StatusUnspecified, jDomains = [], jEmitters = [],
     jStageEmitter = replicate (Suc StageCount) EmitterUnknown, jMembership = [],
     jMembershipCount = 0, jMembershipBySource = [], jStatusBySource = [], jBatchSize = 0,
     jSchemaVersions = [], jEnvelopeID = 0, jDispatch = zeroDispatch, jHasDispatch = False,
     jDispatchBySource = []\<rparr>"

definition joinedStage :: "Joined \<Rightarrow> Stage \<Rightarrow> int64 \<times> bool" where
  "joinedStage j s = (if \<not> Valid s \<or> \<not> mask_Has (jPresence j) s then (0, False)
     else (jTS j ! unat s, True))"

definition statusRank :: "Status \<Rightarrow> nat" where
  "statusRank s = (if s = StatusTimeout then 3 else if s = StatusError then 2
     else if s = StatusOK then 1 else 0)"

definition joinStage :: "Record \<Rightarrow> Joined \<Rightarrow> Stage \<Rightarrow> Joined" where
  "joinStage r j s =
     (let (ts, present) = recStage r s in
      if present then j\<lparr>jTS := (jTS j)[unat s := ts], jPresence := mask_With (jPresence j) s,
                        jStageEmitter := (jStageEmitter j)[unat s := rEmitter r]\<rparr>
      else j)"

definition joinStatus :: "Record \<Rightarrow> Joined \<Rightarrow> Joined" where
  "joinStatus r j =
     (if rStatus r \<noteq> StatusUnspecified
      then let j = j\<lparr>jStatusBySource := AList.update (rEmitter r) (rStatus r) (jStatusBySource j)\<rparr>
           in if statusRank (jStatus j) < statusRank (rStatus r) then j\<lparr>jStatus := rStatus r\<rparr> else j
      else j)"

definition joinMembership :: "Record \<Rightarrow> Joined \<Rightarrow> Joined" where
  "joinMembership r j =
     (if 0 < length (MembershipUIDs r)
      then j\<lparr>jMembershipBySource := AList.update (rEmitter r) (MembershipUIDs r) (jMembershipBySource j),
             jMembership := MembershipUIDs r, jMembershipCount := rMembershipCount r\<rparr>
      else j)"

definition joinRest :: "Record \<Rightarrow> Joined \<Rightarrow> Joined" where
  "joinRest r j =
     (let j = (if 0 < rBatchSize r then j\<lparr>jBatchSize := rBatchSize r\<rparr> else j);
          j = (if rEnvelopeID r \<noteq> 0 then j\<lparr>jEnvelopeID := rEnvelopeID r\<rparr> else j)
      in if rHasDispatch r
         then j\<lparr>jDispatchBySource := AList.update (rEmitter r) (rDispatch r) (jDispatchBySource j),
                jDispatch := rDispatch r, jHasDispatch := True\<rparr>
         else j)"

definition emitterCount :: "Joined \<Rightarrow> Emitter \<Rightarrow> nat" where
  "emitterCount j e = (case map_of (jEmitters j) e of None \<Rightarrow> 0 | Some n \<Rightarrow> n)"

definition joinInto :: "Joined \<Rightarrow> Decoded \<Rightarrow> Joined" where
  "joinInto j d =
     (let r = dRecord d;
          j = j\<lparr>jDomains := List.insert (hClockDomain (dHeader d)) (jDomains j),
                jEmitters := AList.update (rEmitter r) (emitterCount j (rEmitter r) + 1) (jEmitters j),
                jSchemaVersions := List.insert (dSchemaVersion d) (jSchemaVersions j)\<rparr>;
          j = foldl (joinStage r) j AllStages
      in joinRest r (joinMembership r (joinStatus r j)))"

definition joinRecord :: "joined_map \<Rightarrow> Decoded \<Rightarrow> joined_map" where
  "joinRecord out d =
     (let req = recRequest (dRecord d);
          j = (case map_of out req of None \<Rightarrow> newJoined req | Some j \<Rightarrow> j)
      in AList.update req (joinInto j d) out)"

definition Join :: "Decoded list \<Rightarrow> joined_map" where
  "Join records = foldl joinRecord [] records"

text \<open>\<^verbatim>\<open>sortedRequests\<close>, and the pairs the loops over it read.\<close>

definition sortedRequests :: "joined_map \<Rightarrow> LogicalRequest list" where
  "sortedRequests joined = sort (map fst joined)"

definition entries :: "joined_map \<Rightarrow> (LogicalRequest \<times> Joined) list" where
  "entries joined = map (\<lambda>req. (req, the (map_of joined req))) (sortedRequests joined)"

section \<open>What joining computes\<close>

definition of_request :: "LogicalRequest \<Rightarrow> Decoded list \<Rightarrow> Decoded list" where
  "of_request req records = filter (\<lambda>d. recRequest (dRecord d) = req) records"

lemma Join_Nil [simp]: "Join [] = []"
  by (simp add: Join_def)

lemma Join_snoc: "Join (records @ [d]) = joinRecord (Join records) d"
  by (simp add: Join_def)

lemma distinct_Join: "distinct (map fst (Join records))"
  by (induction records rule: rev_induct) (simp_all add: Join_snoc joinRecord_def Let_def distinct_update)

text \<open>A request's path depends on that request's records alone.\<close>

lemma Join_lookup:
  "map_of (Join records) req =
     (if of_request req records = [] then None
      else Some (foldl joinInto (newJoined req) (of_request req records)))"
proof (induction records rule: rev_induct)
  case Nil
  show ?case by (simp add: of_request_def)
next
  case (snoc d records)
  show ?case
  proof (cases "recRequest (dRecord d) = req")
    case True
    then have "map_of (Join (records @ [d])) req
        = Some (joinInto (case map_of (Join records) req of None \<Rightarrow> newJoined req | Some j \<Rightarrow> j) d)"
      by (simp add: Join_snoc joinRecord_def Let_def update_conv')
    then show ?thesis using True snoc by (simp add: of_request_def)
  next
    case False
    then have "map_of (Join (records @ [d])) req = map_of (Join records) req"
      by (simp add: Join_snoc joinRecord_def Let_def update_conv')
    then show ?thesis using False snoc by (simp add: of_request_def)
  qed
qed

lemma keys_Join: "fst ` set (Join records) = (\<lambda>d. recRequest (dRecord d)) ` set records"
proof -
  have "req \<in> fst ` set (Join records) \<longleftrightarrow> of_request req records \<noteq> []" for req
    using Join_lookup [of records req] by (metis map_of_eq_None_iff option.distinct(1))
  moreover have "of_request req records \<noteq> [] \<longleftrightarrow> req \<in> (\<lambda>d. recRequest (dRecord d)) ` set records" for req
    by (auto simp: of_request_def filter_empty_conv)
  ultimately show ?thesis by blast
qed

lemma entries_set: "distinct (map fst joined) \<Longrightarrow> set (entries joined) = set joined"
  by (force simp: entries_def sortedRequests_def image_iff)

lemma entries_sorted: "map fst (entries joined) = sortedRequests joined"
  by (simp add: entries_def o_def)

text \<open>One record at a time.\<close>

definition joined_wf :: "Joined \<Rightarrow> bool" where
  "joined_wf j \<longleftrightarrow> length (jTS j) = Suc StageCount \<and> length (jStageEmitter j) = Suc StageCount
     \<and> take_bit 15 (jPresence j) = jPresence j"

lemma joined_wf_new [simp]: "joined_wf (newJoined req)"
  by (simp add: joined_wf_def newJoined_def)

lemma mask_With_15:
  assumes "Valid s" and "take_bit 15 m = m"
  shows "take_bit 15 (mask_With m s) = mask_With m s"
  using assms Valid_unat_minus1(2) [OF assms(1)]
  by (intro bit_word_eqI) (metis bit_mask_With bit_take_bit_iff)

lemma joinStage_carries:
  "joinStage r j s = (if snd (recStage r s)
     then j\<lparr>jTS := (jTS j)[unat s := fst (recStage r s)], jPresence := mask_With (jPresence j) s,
            jStageEmitter := (jStageEmitter j)[unat s := rEmitter r]\<rparr>
     else j)"
  by (simp add: joinStage_def split_beta)

lemma joinStages:
  assumes "set ss \<subseteq> set AllStages" and "joined_wf j"
  shows "joined_wf (foldl (joinStage r) j ss)
    \<and> (\<forall>s. Valid s \<longrightarrow> joinedStage (foldl (joinStage r) j ss) s
         = (if s \<in> set ss \<and> snd (recStage r s) then recStage r s else joinedStage j s))
    \<and> (\<forall>s. Valid s \<longrightarrow> jStageEmitter (foldl (joinStage r) j ss) ! unat s
         = (if s \<in> set ss \<and> snd (recStage r s) then rEmitter r else jStageEmitter j ! unat s))"
  using assms(1)
proof (induction ss rule: rev_induct)
  case Nil
  then show ?case using assms(2) by simp
next
  case (snoc t ss)
  let ?j = "foldl (joinStage r) j ss"
  have t: "Valid t" using snoc.prems by (simp add: Valid_AllStages)
  have IH: "joined_wf ?j"
    "\<forall>s. Valid s \<longrightarrow> joinedStage ?j s = (if s \<in> set ss \<and> snd (recStage r s) then recStage r s else joinedStage j s)"
    "\<forall>s. Valid s \<longrightarrow> jStageEmitter ?j ! unat s
       = (if s \<in> set ss \<and> snd (recStage r s) then rEmitter r else jStageEmitter j ! unat s)"
    using snoc by auto
  show ?case
  proof (cases "snd (recStage r t)")
    case False
    then have e: "foldl (joinStage r) j (ss @ [t]) = ?j" by (simp add: joinStage_carries [of r ?j])
    have m: "s \<in> set (ss @ [t]) \<and> snd (recStage r s) \<longleftrightarrow> s \<in> set ss \<and> snd (recStage r s)" for s
      using False by auto
    show ?thesis unfolding e m using IH by blast
  next
    case True
    let ?k = "?j\<lparr>jTS := (jTS ?j)[unat t := fst (recStage r t)], jPresence := mask_With (jPresence ?j) t,
                 jStageEmitter := (jStageEmitter ?j)[unat t := rEmitter r]\<rparr>"
    have k: "foldl (joinStage r) j (ss @ [t]) = ?k" using True by (simp add: joinStage_carries)
    have u: "unat s = unat t \<longleftrightarrow> s = t" "unat t < 16" for s
      using t by (simp_all add: word_unat_eq_iff Valid_unat)
    have "joined_wf ?k" using IH(1) mask_With_15 [OF t] by (simp add: joined_wf_def)
    moreover have "joinedStage ?k s = (if s = t then recStage r t else joinedStage ?j s)" if "Valid s" for s
    proof (cases "s = t")
      case st: True
      have "recStage r t = (fst (recStage r t), True)" using True by (simp add: prod_eq_iff)
      then show ?thesis using st t u(2) IH(1)
        by (simp add: joinedStage_def mask_Has_With joined_wf_def StageCount_def)
    next
      case False
      then show ?thesis using that t u(1) [of s] by (simp add: joinedStage_def mask_Has_With)
    qed
    moreover have "jStageEmitter ?k ! unat s = (if s = t then rEmitter r else jStageEmitter ?j ! unat s)" for s
      using IH(1) u(1) [of s] u(2) by (cases "s = t") (simp_all add: joined_wf_def StageCount_def)
    ultimately show ?thesis unfolding k using IH(2,3) True by auto
  qed
qed

text \<open>What the stage loop leaves alone, and what the steps after it leave alone.\<close>

lemma joinStages_frame:
  "jRequest (foldl (joinStage r) j ss) = jRequest j" "jStatus (foldl (joinStage r) j ss) = jStatus j"
  "jDomains (foldl (joinStage r) j ss) = jDomains j" "jEmitters (foldl (joinStage r) j ss) = jEmitters j"
  "jSchemaVersions (foldl (joinStage r) j ss) = jSchemaVersions j"
  "jMembership (foldl (joinStage r) j ss) = jMembership j"
  "jMembershipBySource (foldl (joinStage r) j ss) = jMembershipBySource j"
  "jMembershipCount (foldl (joinStage r) j ss) = jMembershipCount j"
  "jBatchSize (foldl (joinStage r) j ss) = jBatchSize j"
  "jEnvelopeID (foldl (joinStage r) j ss) = jEnvelopeID j"
  "jDispatchBySource (foldl (joinStage r) j ss) = jDispatchBySource j"
  by (induction ss arbitrary: j; simp add: joinStage_carries)+

lemma joinSteps_frame:
  "jTS (joinRest r (joinMembership r (joinStatus r j))) = jTS j"
  "jPresence (joinRest r (joinMembership r (joinStatus r j))) = jPresence j"
  "jStageEmitter (joinRest r (joinMembership r (joinStatus r j))) = jStageEmitter j"
  "jRequest (joinRest r (joinMembership r (joinStatus r j))) = jRequest j"
  "jDomains (joinRest r (joinMembership r (joinStatus r j))) = jDomains j"
  "jEmitters (joinRest r (joinMembership r (joinStatus r j))) = jEmitters j"
  "jSchemaVersions (joinRest r (joinMembership r (joinStatus r j))) = jSchemaVersions j"
  "jStatus (joinRest r (joinMembership r (joinStatus r j))) = jStatus (joinStatus r j)"
  by (simp_all add: joinRest_def joinMembership_def joinStatus_def Let_def)

lemma joinInto_frame:
  "jRequest (joinInto j d) = jRequest j"
  "jDomains (joinInto j d) = List.insert (hClockDomain (dHeader d)) (jDomains j)"
  "jSchemaVersions (joinInto j d) = List.insert (dSchemaVersion d) (jSchemaVersions j)"
  "jEmitters (joinInto j d) = AList.update (rEmitter (dRecord d)) (emitterCount j (rEmitter (dRecord d)) + 1) (jEmitters j)"
  by (simp_all add: joinInto_def Let_def joinSteps_frame joinStages_frame)

lemma emitterCount_joinInto:
  "emitterCount (joinInto j d) e = (if e = rEmitter (dRecord d) then 1 else 0) + emitterCount j e"
  by (simp add: emitterCount_def joinInto_frame update_conv')

lemma joinInto_stage:
  assumes "joined_wf j"
  shows "joined_wf (joinInto j d)"
    and "Valid s \<Longrightarrow> joinedStage (joinInto j d) s
           = (if snd (recStage (dRecord d) s) then recStage (dRecord d) s else joinedStage j s)"
    and "Valid s \<Longrightarrow> jStageEmitter (joinInto j d) ! unat s
           = (if snd (recStage (dRecord d) s) then rEmitter (dRecord d) else jStageEmitter j ! unat s)"
proof -
  let ?r = "dRecord d"
  let ?j = "j\<lparr>jDomains := List.insert (hClockDomain (dHeader d)) (jDomains j),
              jEmitters := AList.update (rEmitter ?r) (emitterCount j (rEmitter ?r) + 1) (jEmitters j),
              jSchemaVersions := List.insert (dSchemaVersion d) (jSchemaVersions j)\<rparr>"
  have wf: "joined_wf ?j" using assms by (simp add: joined_wf_def)
  note js = joinStages [OF order_refl wf, of ?r]
  have st: "joinedStage ?j s = joinedStage j s" by (simp add: joinedStage_def)
  show "joined_wf (joinInto j d)"
    using js by (simp add: joinInto_def Let_def joined_wf_def joinSteps_frame)
  show "joinedStage (joinInto j d) s
      = (if snd (recStage ?r s) then recStage ?r s else joinedStage j s)" if "Valid s"
  proof -
    have "joinedStage (joinInto j d) s = joinedStage (foldl (joinStage ?r) ?j AllStages) s"
      by (simp add: joinInto_def Let_def joinedStage_def joinSteps_frame)
    then show ?thesis using js that st by (simp add: Valid_AllStages)
  qed
  show "jStageEmitter (joinInto j d) ! unat s
      = (if snd (recStage ?r s) then rEmitter ?r else jStageEmitter j ! unat s)" if "Valid s"
  proof -
    have "jStageEmitter (joinInto j d) = jStageEmitter (foldl (joinStage ?r) ?j AllStages)"
      by (simp add: joinInto_def Let_def joinSteps_frame)
    then show ?thesis using js that by (simp add: Valid_AllStages)
  qed
qed

lemma jStatus_joinInto:
  "jStatus (joinInto j d) = (if statusRank (jStatus j) < statusRank (rStatus (dRecord d))
     then rStatus (dRecord d) else jStatus j)"
proof -
  have "jStatus (joinStatus r k) = (if statusRank (jStatus k) < statusRank (rStatus r) then rStatus r else jStatus k)"
    for r k by (simp add: joinStatus_def Let_def statusRank_def)
  then show ?thesis by (simp add: joinInto_def Let_def joinSteps_frame joinStages_frame)
qed

text \<open>All the records of a request.\<close>

lemma joined_sets:
  "jRequest (foldl joinInto j ds) = jRequest j"
  "set (jDomains (foldl joinInto j ds)) = set (jDomains j) \<union> (\<lambda>d. hClockDomain (dHeader d)) ` set ds"
  "set (jSchemaVersions (foldl joinInto j ds)) = set (jSchemaVersions j) \<union> dSchemaVersion ` set ds"
  "emitterCount (foldl joinInto j ds) e
     = emitterCount j e + length (filter (\<lambda>d. rEmitter (dRecord d) = e) ds)"
  by (induction ds arbitrary: j) (auto simp: joinInto_frame emitterCount_joinInto)

lemma distinct_joinInto:
  assumes "distinct (jDomains j)" "distinct (jSchemaVersions j)" "distinct (map fst (jEmitters j))"
  shows "distinct (jDomains (foldl joinInto j ds))" "distinct (jSchemaVersions (foldl joinInto j ds))"
    "distinct (map fst (jEmitters (foldl joinInto j ds)))"
  using assms by (induction ds arbitrary: j) (simp_all add: joinInto_frame distinct_update)

lemma joined_stage_fold:
  assumes "joined_wf j"
  shows "joined_wf (foldl joinInto j ds)"
    and "Valid s \<Longrightarrow> snd (joinedStage (foldl joinInto j ds) s)
           \<longleftrightarrow> snd (joinedStage j s) \<or> (\<exists>d \<in> set ds. snd (recStage (dRecord d) s))"
  using assms by (induction ds arbitrary: j) (auto simp: joinInto_stage)

lemma snd_joinedStage: "Valid s \<Longrightarrow> snd (joinedStage j s) \<longleftrightarrow> mask_Has (jPresence j) s"
  by (simp add: joinedStage_def)

text \<open>The resolved status is the most diagnostic one any record carries.\<close>

definition resolves :: "Decoded list \<Rightarrow> Status \<Rightarrow> bool" where
  "resolves ds st \<longleftrightarrow> (\<forall>d \<in> set ds. statusRank (rStatus (dRecord d)) \<le> statusRank st)
     \<and> (st = StatusUnspecified \<or> 0 < statusRank st \<and> (\<exists>d \<in> set ds. rStatus (dRecord d) = st))"

lemma resolves_snoc:
  assumes "resolves ds a" and "rStatus (dRecord d) = b"
  shows "resolves (ds @ [d]) (if statusRank a < statusRank b then b else a)"
proof (cases "statusRank a < statusRank b")
  case True
  then have "statusRank (rStatus (dRecord e)) \<le> statusRank b" if "e \<in> set ds" for e
    using assms(1) that unfolding resolves_def by (meson less_imp_le order_trans)
  then show ?thesis using True assms(2) unfolding resolves_def by simp
next
  case False
  then show ?thesis using assms unfolding resolves_def by auto
qed

lemma jStatus_resolves: "resolves ds (jStatus (foldl joinInto (newJoined req) ds))"
proof (induction ds rule: rev_induct)
  case Nil
  show ?case by (simp add: resolves_def newJoined_def)
next
  case (snoc d ds)
  have e: "foldl joinInto (newJoined req) (ds @ [d]) = joinInto (foldl joinInto (newJoined req) ds) d" by simp
  show ?case unfolding e jStatus_joinInto by (rule resolves_snoc [OF snoc refl])
qed

lemma statusRank_inj:
  assumes "statusRank a = statusRank b" and "0 < statusRank a"
  shows "a = b"
proof -
  have "x = of_nat (statusRank x)" if "0 < statusRank x" for x
    using that by (cases "x = StatusTimeout"; cases "x = StatusError"; cases "x = StatusOK"; simp add: statusRank_def)
  then show ?thesis using assms by metis
qed

lemma resolves_unique:
  assumes "resolves ds a" and "resolves ds b"
  shows "a = b"
proof -
  have le: "statusRank x \<le> statusRank y" if x: "resolves ds x" and y: "resolves ds y" for x y
  proof (cases "x = StatusUnspecified")
    case True
    then show ?thesis by (simp add: statusRank_def)
  next
    case False
    then obtain d where "d \<in> set ds" "rStatus (dRecord d) = x" using x unfolding resolves_def by blast
    with y show ?thesis unfolding resolves_def by blast
  qed
  have eq: "statusRank a = statusRank b" using le [OF assms] le [OF assms(2,1)] by (rule le_antisym)
  show ?thesis
  proof (cases "0 < statusRank a")
    case True
    with eq show ?thesis by (rule statusRank_inj)
  next
    case False
    with eq assms show ?thesis by (simp add: resolves_def)
  qed
qed

lemma resolves_cong: "set ds = set es \<Longrightarrow> resolves ds st = resolves es st"
  by (simp add: resolves_def)

text \<open>The status the records of a request settle on, spelled out.\<close>

definition mostDiagnostic :: "Status list \<Rightarrow> Status" where
  "mostDiagnostic carried = (if StatusTimeout \<in> set carried then StatusTimeout
     else if StatusError \<in> set carried then StatusError
     else if StatusOK \<in> set carried then StatusOK else StatusUnspecified)"

lemma resolves_mostDiagnostic: "resolves ds (mostDiagnostic (map (rStatus \<circ> dRecord) ds))"
proof -
  have "statusRank st \<le> 3" for st by (simp add: statusRank_def)
  then show ?thesis by (force simp: resolves_def mostDiagnostic_def statusRank_def)
qed

text \<open>What is joined for a request, read off its records.\<close>

definition joinOf :: "Decoded list \<Rightarrow> Joined \<Rightarrow> bool" where
  "joinOf rs j \<longleftrightarrow> rs \<noteq> [] \<and> jStatus j = mostDiagnostic (map (rStatus \<circ> dRecord) rs)
     \<and> list_all (\<lambda>s. mask_Has (jPresence j) s = list_ex (\<lambda>d. snd (recStage (dRecord d) s)) rs) AllStages
     \<and> set (jDomains j) = (\<lambda>d. hClockDomain (dHeader d)) ` set rs \<and> set (jSchemaVersions j) = dSchemaVersion ` set rs
     \<and> emitterCount j = (\<lambda>e. length (filter (\<lambda>d. rEmitter (dRecord d) = e) rs))"

lemma joinOf_Join: "case map_of (Join records) req of None \<Rightarrow> of_request req records = [] | Some j \<Rightarrow> joinOf (of_request req records) j"
proof -
  let ?ds = "of_request req records"
  have "joinOf ?ds (foldl joinInto (newJoined req) ?ds)" if "?ds \<noteq> []"
    unfolding joinOf_def
  proof (intro conjI)
    show "jStatus (foldl joinInto (newJoined req) ?ds) = mostDiagnostic (map (rStatus \<circ> dRecord) ?ds)"
      by (rule resolves_unique [OF jStatus_resolves resolves_mostDiagnostic])
    have "mask_Has (jPresence (foldl joinInto (newJoined req) ?ds)) s \<longleftrightarrow> (\<exists>d \<in> set ?ds. snd (recStage (dRecord d) s))"
      if "Valid s" for s
      using joined_stage_fold(2) [OF joined_wf_new that, of req ?ds]
      by (simp add: snd_joinedStage that) (simp add: newJoined_def mask_Has_def)
    then show "list_all (\<lambda>s. mask_Has (jPresence (foldl joinInto (newJoined req) ?ds)) s
        = list_ex (\<lambda>d. snd (recStage (dRecord d) s)) ?ds) AllStages"
      by (simp add: list_all_iff list_ex_iff Valid_AllStages [symmetric])
  qed (use that in \<open>simp_all add: joined_sets fun_eq_iff, simp_all add: newJoined_def emitterCount_def\<close>)
  then show ?thesis by (simp add: Join_lookup)
qed

text \<open>
  C14. Joining does not depend on the order the records are read in: for the same records in
  any order a request is joined or not alike, with the same presence mask, the same
  resolved status, the same clock domains and schema versions, and the same number of records
  per emitter. And what they are is read off the request's own records: it is joined when it has one;
  its status is a timeout where one is carried, else an error, else OK, else none; it carries
  the stages some record carries; its clock domains and schema versions are the records', and
  each emitter is counted as often as it wrote. (A stage's timestamp and emitter, and the
  membership, are the last record's and do depend on the order where two records disagree;
  nothing is claimed of them here.)
\<close>

theorem Join_order_independent:
  assumes "mset records = mset records'"
  shows "map_option (\<lambda>j. (jPresence j, jStatus j, set (jDomains j), set (jSchemaVersions j),
           emitterCount j)) (map_of (Join records) req)
       = map_option (\<lambda>j. (jPresence j, jStatus j, set (jDomains j), set (jSchemaVersions j),
           emitterCount j)) (map_of (Join records') req)
    \<and> (let rs = filter (\<lambda>d. recRequest (dRecord d) = req) records; carried = map (\<lambda>d. rStatus (dRecord d)) rs in
       case map_of (Join records) req of None \<Rightarrow> rs = []
       | Some j \<Rightarrow> rs \<noteq> []
         \<and> jStatus j = (if StatusTimeout \<in> set carried then StatusTimeout
             else if StatusError \<in> set carried then StatusError
             else if StatusOK \<in> set carried then StatusOK else StatusUnspecified)
         \<and> list_all (\<lambda>s. mask_Has (jPresence j) s = list_ex (\<lambda>d. snd (recStage (dRecord d) s)) rs) AllStages
         \<and> set (jDomains j) = (\<lambda>d. hClockDomain (dHeader d)) ` set rs
         \<and> set (jSchemaVersions j) = dSchemaVersion ` set rs
         \<and> emitterCount j = (\<lambda>e. length (filter (\<lambda>d. rEmitter (dRecord d) = e) rs)))"
proof (rule conjI)
  let ?ds = "of_request req records" and ?es = "of_request req records'"
  have m: "mset ?ds = mset ?es" using assms by (simp add: of_request_def)
  then have s: "set ?ds = set ?es" by (rule mset_eq_setD)
  let ?J = "foldl joinInto (newJoined req) ?ds" and ?K = "foldl joinInto (newJoined req) ?es"
  have "jPresence ?J = jPresence ?K"
  proof (rule mask_eqI)
    fix t assume t: "Valid t"
    show "mask_Has (jPresence ?J) t = mask_Has (jPresence ?K) t"
      using joined_stage_fold(2) [OF joined_wf_new t] s t by (simp flip: snd_joinedStage)
  qed (use joined_stage_fold(1) [OF joined_wf_new] in \<open>simp_all add: joined_wf_def\<close>)
  moreover have "jStatus ?J = jStatus ?K"
    using jStatus_resolves [of ?ds req] jStatus_resolves [of ?es req] resolves_cong [OF s] resolves_unique
    by blast
  moreover have "emitterCount ?J = emitterCount ?K"
  proof
    fix e
    have "mset (filter (\<lambda>d. rEmitter (dRecord d) = e) ?ds) = mset (filter (\<lambda>d. rEmitter (dRecord d) = e) ?es)"
      using m by simp
    then show "emitterCount ?J e = emitterCount ?K e" by (simp add: joined_sets mset_eq_length)
  qed
  moreover have "?ds = [] \<longleftrightarrow> ?es = []" using s by (metis set_empty)
  ultimately show "map_option (\<lambda>j. (jPresence j, jStatus j, set (jDomains j), set (jSchemaVersions j),
           emitterCount j)) (map_of (Join records) req)
       = map_option (\<lambda>j. (jPresence j, jStatus j, set (jDomains j), set (jSchemaVersions j),
           emitterCount j)) (map_of (Join records') req)"
    by (simp add: Join_lookup joined_sets s)
qed (use joinOf_Join [where records = records and req = req] in
  \<open>simp add: Let_def joinOf_def of_request_def mostDiagnostic_def comp_def split: option.splits\<close>)

definition sampleDecoded :: "Emitter \<Rightarrow> Status \<Rightarrow> Decoded" where
  "sampleDecoded e st = \<lparr>dSchemaVersion = 2, dHeader = \<lparr>hExperiment = ''e'', hSession = ''s'', hRun = ''r'',
     hCell = CellF00, hClockDomain = ''clk'', hWriterID = 1\<rparr>,
     dRecord = zeroRecord\<lparr>rEmitter := e, rStatus := st, rCohort := 4\<rparr>\<rparr>"

theorem Join_order_independent_witness:
  "map_option jStatus (map_of (Join [sampleDecoded 1 StatusTimeout, sampleDecoded 3 StatusError]) (LogicalRequest 4 0)) = Some StatusTimeout
   \<and> map_option jStatus (map_of (Join [sampleDecoded 3 StatusError, sampleDecoded 1 StatusTimeout]) (LogicalRequest 4 0)) = Some StatusTimeout"
  using Join_order_independent [of "[sampleDecoded 1 StatusTimeout, sampleDecoded 3 StatusError]"
      "[sampleDecoded 3 StatusError, sampleDecoded 1 StatusTimeout]" "LogicalRequest 4 0"]
  by (auto simp: map_option_case sampleDecoded_def recRequest_def zeroRecord_def Let_def split: option.splits)

end
