(* ===== verification/Chain.thy ===== *)
theory Chain
  imports Schema
begin

text \<open>
  \<^verbatim>\<open>internal/validate/chain.go\<close>: the cycle model's stage vocabulary and each cell's timestamps
  in the order the path visits them, paired into named spans. An unknown cell is an error
  (\<open>Inl\<close>, with the cell).
\<close>

abbreviation (input) StageWForm :: string where "StageWForm \<equiv> ''W_form''"
abbreviation (input) StageAPack :: string where "StageAPack \<equiv> ''A_pack''"
abbreviation (input) StageXReq :: string where "StageXReq \<equiv> ''X_req''"
abbreviation (input) StageXReqHop1 :: string where "StageXReqHop1 \<equiv> ''X_req_hop1''"
abbreviation (input) StageXReqHop2 :: string where "StageXReqHop2 \<equiv> ''X_req_hop2''"
abbreviation (input) StageXReqHop3 :: string where "StageXReqHop3 \<equiv> ''X_req_hop3''"
abbreviation (input) StageQBackend :: string where "StageQBackend \<equiv> ''Q_backend''"
abbreviation (input) StageSComp :: string where "StageSComp \<equiv> ''S_comp''"
abbreviation (input) StageXResp :: string where "StageXResp \<equiv> ''X_resp''"
abbreviation (input) StageXRespHop1 :: string where "StageXRespHop1 \<equiv> ''X_resp_hop1''"
abbreviation (input) StageXRespHop2 :: string where "StageXRespHop2 \<equiv> ''X_resp_hop2''"
abbreviation (input) StageXRespHop3 :: string where "StageXRespHop3 \<equiv> ''X_resp_hop3''"
abbreviation (input) StageFFanout :: string where "StageFFanout \<equiv> ''F_fanout''"
abbreviation (input) StageBarrierWait :: string where "StageBarrierWait \<equiv> ''barrier_wait''"
abbreviation (input) StageReleaseToSend :: string where "StageReleaseToSend \<equiv> ''release_to_send''"
abbreviation (input) StageAdapterUnpack :: string where "StageAdapterUnpack \<equiv> ''adapter_unpack''"
abbreviation (input) StageResponsePack :: string where "StageResponsePack \<equiv> ''response_pack''"

datatype Span = Span (spName: string) (spStart: Stage) (spEnd: Stage) (spAccounted: bool)

definition sharedPathTail :: "Span list" where
  "sharedPathTail =
     [Span StageXReqHop2 StageProxySend StageAdapterRecv True,
      Span StageAdapterUnpack StageAdapterRecv StageAdapterDispatch False,
      Span StageXReqHop3 StageAdapterDispatch StageQueueStart True,
      Span StageQBackend StageQueueStart StageComputeStart True,
      Span StageSComp StageComputeStart StageComputeEnd True,
      Span StageXRespHop1 StageComputeEnd StageAdapterResult True,
      Span StageResponsePack StageAdapterResult StageAdapterSend False,
      Span StageXRespHop2 StageAdapterSend StageProxyRespRecv True,
      Span StageFFanout StageProxyRespRecv StageProxyFanout True,
      Span StageXRespHop3 StageProxyFanout StageClientRecv True]"

definition Chain :: "Cell \<Rightarrow> string + Span list" where
  "Chain cell =
     (if cell = CellD0
      then Inr [Span StageBarrierWait StageSched StageCohortSeal False,
                Span StageReleaseToSend StageCohortSeal StageClientSend False,
                Span StageXReq StageClientSend StageQueueStart True,
                Span StageQBackend StageQueueStart StageComputeStart True,
                Span StageSComp StageComputeStart StageComputeEnd True,
                Span StageXResp StageComputeEnd StageClientRecv True]
      else if cell \<in> {CellF00, CellF01, CellF00Seq}
      then Inr ([Span StageBarrierWait StageSched StageCohortSeal False,
                 Span StageReleaseToSend StageCohortSeal StageClientSend False,
                 Span StageXReqHop1 StageClientSend StageProxyRecv True,
                 Span StageAPack StageProxyRecv StageProxySend True] @ sharedPathTail)
      else if cell \<in> {CellF10, CellF11D, CellF11P}
      then Inr ([Span StageReleaseToSend StageSched StageClientSend False,
                 Span StageXReqHop1 StageClientSend StageProxyRecv True,
                 Span StageWForm StageProxyRecv StageCohortSeal True,
                 Span StageAPack StageCohortSeal StageProxySend True] @ sharedPathTail)
      else Inl cell)"

definition EnvelopeStages :: StageMask where
  "EnvelopeStages = MaskOf [StageCohortSeal, StageProxySend, StageAdapterRecv, StageAdapterSend,
     StageProxyRespRecv]"

definition ConservedSpan :: "Stage \<times> Stage" where
  "ConservedSpan = (StageClientSend, StageClientRecv)"

definition PreCycle :: "Span list \<Rightarrow> nat \<Rightarrow> bool" where
  "PreCycle spans i \<longleftrightarrow>
     \<not> list_ex (\<lambda>s. spStart s = fst ConservedSpan) (take (i + 1) spans)"

definition ChainStages :: "Span list \<Rightarrow> Stage list" where
  "ChainStages spans = (if length spans = 0 then [] else spStart (spans ! 0) # map spEnd spans)"

definition AdditiveConservation :: "Cell \<Rightarrow> bool" where
  "AdditiveConservation cell \<longleftrightarrow> cell = CellF11P \<or> cell = CellF11D"

section \<open>Shape of a chain\<close>

text \<open>Each span starts where the one before it ended.\<close>

definition consecutive :: "Span list \<Rightarrow> bool" where
  "consecutive spans \<longleftrightarrow> map spStart (tl spans) = map spEnd (butlast spans)"

lemma cell_cases:
  assumes "c \<in> set AllCells"
  obtains "c = CellD0" | "c \<in> {CellF00, CellF01, CellF00Seq}" | "c \<in> {CellF10, CellF11D, CellF11P}"
  using assms by (auto simp: AllCells_def)

lemma Chain_Inl_iff: "(\<exists>e. Chain c = Inl e) \<longleftrightarrow> c \<notin> set AllCells"
  by (auto simp: Chain_def AllCells_def)

lemma Chain_consecutive:
  assumes "Chain c = Inr spans"
  shows "consecutive spans \<and> spans \<noteq> []"
proof -
  have "c \<in> set AllCells" using assms Chain_Inl_iff by force
  then have "case Chain c of Inl _ \<Rightarrow> False | Inr ss \<Rightarrow> consecutive ss \<and> ss \<noteq> []"
    by (cases rule: cell_cases) (auto simp: Chain_def consecutive_def sharedPathTail_def)
  with assms show ?thesis by simp
qed

lemma Chain_walk:
  "case TopologyMask c of
     Inl e \<Rightarrow> Chain c = Inl e
   | Inr topology \<Rightarrow> (case Chain c of Inl _ \<Rightarrow> False
       | Inr spans \<Rightarrow> map spStart (tl spans) = map spEnd (butlast spans)
           \<and> distinct (ChainStages spans) \<and> MaskOf (ChainStages spans) = topology
           \<and> hd (ChainStages spans) = StageSched \<and> last (ChainStages spans) = StageClientRecv
           \<and> (let k = length (filter (PreCycle spans) [0 ..< length spans])
              in filter (PreCycle spans) [0 ..< length spans] = [0 ..< k]
                \<and> ChainStages spans ! k = StageClientSend))"
proof (cases "c \<in> set AllCells")
  case True
  then show ?thesis
    by (cases rule: cell_cases)
      (auto simp: TopologyMask_def Chain_def sharedPathTail_def ChainStages_def stage_group_code
        MaskOf_def mask_With_def stage_bit_def PreCycle_def ConservedSpan_def upt_rec)
next
  case False
  then show ?thesis by (auto simp: TopologyMask_def Chain_def AllCells_def)
qed

text \<open>A nondecreasing walk is one whose every span is.\<close>

lemma spans_sorted:
  fixes f :: "Stage \<Rightarrow> 'a :: linorder"
  assumes "consecutive spans" and "spans \<noteq> []"
  shows "(\<forall>sp \<in> set spans. f (spStart sp) \<le> f (spEnd sp)) \<longleftrightarrow> sorted (map f (ChainStages spans))"

  using assms
proof (induction spans)
  case (Cons sp spans)
  show ?case
  proof (cases spans)
    case Nil
    then show ?thesis by (simp add: ChainStages_def)
  next
    case (Cons sp' rest)
    then have c: "consecutive spans" "spStart sp' = spEnd sp" using Cons.prems by (simp_all add: consecutive_def)
    then have "ChainStages (sp # spans) = spStart sp # ChainStages spans"
      "ChainStages spans = spEnd sp # map spEnd spans"
      using Cons by (simp_all add: ChainStages_def)
    then have "sorted (map f (ChainStages (sp # spans)))
        \<longleftrightarrow> f (spStart sp) \<le> f (spEnd sp) \<and> sorted (map f (ChainStages spans))"
      by (auto simp del: map_map)
    then show ?thesis using Cons.IH [OF c(1)] Cons by simp
  qed
qed simp

lemma Chain_topology:
  assumes "Chain c = Inr spans"
  shows "TopologyMask c = Inr (MaskOf (ChainStages spans))" and "Valid ` set (ChainStages spans) \<subseteq> {True}"
proof -
  have "c \<in> set AllCells" using assms Chain_Inl_iff by force
  then have "case Chain c of Inl _ \<Rightarrow> False
      | Inr ss \<Rightarrow> TopologyMask c = Inr (MaskOf (ChainStages ss)) \<and> list_all Valid (ChainStages ss)"
    by (cases rule: cell_cases)
       (auto simp: TopologyMask_def Chain_def sharedPathTail_def ChainStages_def stage_group_code
         MaskOf_def mask_With_def stage_bit_def Valid_def StageCount_def)
  with assms show "TopologyMask c = Inr (MaskOf (ChainStages spans))" "Valid ` set (ChainStages spans) \<subseteq> {True}"
    by (auto simp: list_all_iff)
qed

text \<open>
  Every cell's chain walks its topology: \<^verbatim>\<open>Chain\<close> is defined for exactly the cells
  \<^verbatim>\<open>TopologyMask\<close> is, each of its spans starts where the one before it ended, it visits
  every stage of the topology once and no other, from the schedule to the client's
  receive, and the pre-cycle spans are those that come before the client send.
\<close>

theorem Chain_walks_topology:
  "case TopologyMask c of
     Inl e \<Rightarrow> Chain c = Inl e
   | Inr topology \<Rightarrow> (case Chain c of Inl _ \<Rightarrow> False
       | Inr spans \<Rightarrow> map spStart (tl spans) = map spEnd (butlast spans)
           \<and> distinct (ChainStages spans) \<and> MaskOf (ChainStages spans) = topology
           \<and> hd (ChainStages spans) = StageSched \<and> last (ChainStages spans) = StageClientRecv
           \<and> (let k = length (filter (PreCycle spans) [0 ..< length spans])
              in filter (PreCycle spans) [0 ..< length spans] = [0 ..< k]
                \<and> ChainStages spans ! k = StageClientSend))"
  by (rule Chain_walk)

end
