(* ===== verification/RunChecks.thy ===== *)
theory RunChecks
  imports Joining Chain
begin

text \<open>
  The checks of \<^verbatim>\<open>internal/validate/validate.go\<close>: record integrity, clock domain, presence,
  stage ownership, ordering, membership and contamination, each as the list of defects the
  code collects, and what it means that a check passes. A cell without a topology or a
  chain refuses the check with no defect.
\<close>

section \<open>Integrity and clock domain\<close>

definition integrityDefects :: "joined_map \<Rightarrow> LogicalRequest \<Rightarrow> Defect list" where
  "integrityDefects joined req =
     (case map_of joined req of None \<Rightarrow> [requestDefect DefectMissingRequest req]
      | Some j \<Rightarrow>
          concat (map (\<lambda>(emitter, n). if 1 < n then [requestDefect DefectDuplicateRecord req] else [])
            (jEmitters j))
          @ (if 1 < length (jSchemaVersions j) then [requestDefect DefectSchemaVersion req] else [])
          @ (if jStatus j \<noteq> StatusOK then [requestDefect DefectRequestFailed req] else []))"

definition checkRecordIntegrity :: "RunExpectation \<Rightarrow> joined_map \<Rightarrow> Check" where
  "checkRecordIntegrity xp joined = fail ''record_integrity''
     ((if 0 < exDroppedRecords xp then [runDefect DefectDroppedRecords] else [])
      @ concat (map (integrityDefects joined) (Requests xp))
      @ map (requestDefect DefectDuplicateRecord)
          (filter (\<lambda>req. req \<notin> set (Requests xp)) (map fst joined)))"

definition domainDefects :: "RunExpectation \<Rightarrow> LogicalRequest \<times> Joined \<Rightarrow> Defect list" where
  "domainDefects xp = (\<lambda>(req, j).
     if 1 < length (jDomains j) then [requestDefect DefectCrossClockDomain req]
     else if exClockDomain xp = [] then []
     else map (\<lambda>domain. requestDefect DefectCrossClockDomain req)
            (filter (\<lambda>domain. domain \<noteq> exClockDomain xp) (jDomains j)))"

definition checkClockDomain :: "RunExpectation \<Rightarrow> joined_map \<Rightarrow> Check" where
  "checkClockDomain xp joined =
     fail ''clock_domain'' (concat (map (domainDefects xp) (entries joined)))"

section \<open>Presence, ownership and ordering\<close>

definition presenceDefects :: "StageMask \<Rightarrow> LogicalRequest \<times> Joined \<Rightarrow> Defect list" where
  "presenceDefects topology = (\<lambda>(req, j).
     (let missing = topology AND NOT (jPresence j) in
      if missing \<noteq> 0
      then map (\<lambda>s. stageDefect DefectMissingTimestamp req (stageName s)) (mask_Stages missing) else [])
     @ (let extra = jPresence j AND NOT topology in
        if extra \<noteq> 0
        then map (\<lambda>s. stageDefect DefectUnexpectedStage req (stageName s)) (mask_Stages extra) else []))"

definition checkPresence :: "RunExpectation \<Rightarrow> joined_map \<Rightarrow> Check" where
  "checkPresence xp joined =
     (case TopologyMask (exCell xp) of Inl _ \<Rightarrow> refused ''presence_mask''
      | Inr topology \<Rightarrow>
          fail ''presence_mask'' (concat (map (presenceDefects topology) (entries joined))))"

definition ownershipDefects :: "Cell \<Rightarrow> LogicalRequest \<times> Joined \<Rightarrow> Defect list" where
  "ownershipDefects cell = (\<lambda>(req, j). concat (map (\<lambda>s.
     if mask_Has (OwnedStages cell (jStageEmitter j ! unat s)) s then []
     else [stageDefect DefectStageOwnership req (stageName s)]) (mask_Stages (jPresence j))))"

definition checkStageOwnership :: "RunExpectation \<Rightarrow> joined_map \<Rightarrow> Check" where
  "checkStageOwnership xp joined =
     fail ''stage_ownership'' (concat (map (ownershipDefects (exCell xp)) (entries joined)))"

definition orderingDefects :: "Span list \<Rightarrow> LogicalRequest \<times> Joined \<Rightarrow> Defect list" where
  "orderingDefects spans = (\<lambda>(req, j). concat (map (\<lambda>span.
     let (start, okStart) = joinedStage j (spStart span);
         (finish, okEnd) = joinedStage j (spEnd span) in
     if \<not> okStart \<or> \<not> okEnd then []
     else if finish <s start then [stageDefect DefectNonMonotonic req (spName span)] else []) spans))"

definition checkOrdering :: "RunExpectation \<Rightarrow> joined_map \<Rightarrow> Check" where
  "checkOrdering xp joined =
     (case Chain (exCell xp) of Inl _ \<Rightarrow> refused ''ordering''
      | Inr spans \<Rightarrow> fail ''ordering'' (concat (map (orderingDefects spans) (entries joined))))"

section \<open>Membership\<close>

text \<open>\<^verbatim>\<open>sameUIDSet\<close> counts one list up and the other down and stops at a negative count.\<close>

definition uidCount :: "(UID \<times> int) list \<Rightarrow> UID \<Rightarrow> int" where
  "uidCount counts uid = (case map_of counts uid of None \<Rightarrow> 0 | Some n \<Rightarrow> n)"

fun countDown :: "(UID \<times> int) list \<Rightarrow> UID list \<Rightarrow> bool" where
  "countDown counts [] = True"
| "countDown counts (uid # uids) =
     (let counts = AList.update uid (uidCount counts uid - 1) counts in
      if uidCount counts uid < 0 then False else countDown counts uids)"

definition sameUIDSet :: "UID list \<Rightarrow> UID list \<Rightarrow> bool" where
  "sameUIDSet a b =
     (if length a \<noteq> length b then False
      else countDown (foldl (\<lambda>counts uid. AList.update uid (uidCount counts uid + 1) counts) [] a) b)"

text \<open>The first pair of sources, in the order of their emitters, whose sets differ.\<close>

definition disagreeingSources :: "(Emitter \<times> UID list) list
    \<Rightarrow> ((Emitter \<times> UID list) \<times> (Emitter \<times> UID list)) option" where
  "disagreeingSources bySource =
     (let emitters = sort (map fst bySource);
          uids = (\<lambda>i. the (map_of bySource (emitters ! i)));
          pairs = concat (map (\<lambda>i. map (\<lambda>j. (i, j)) [i + 1 ..< length emitters]) [0 ..< length emitters])
      in case find (\<lambda>(i, j). \<not> sameUIDSet (uids i) (uids j)) pairs of
           Some (i, j) \<Rightarrow> Some ((emitters ! i, uids i), (emitters ! j, uids j))
         | None \<Rightarrow> None)"

definition attestedDefects :: "RunExpectation \<Rightarrow> LogicalRequest \<Rightarrow> UID \<Rightarrow> Defect list" where
  "attestedDefects xp req uid =
     (let member = uidLogicalRequest uid in
      if Cohort member \<noteq> Cohort req then [requestDefect DefectMembershipMismatch req]
      else if exCohortSize xp \<le> int (unat (Ordinal member))
      then [requestDefect DefectMembershipMismatch req] else [])"

definition membershipDefects :: "RunExpectation \<Rightarrow> LogicalRequest \<times> Joined \<Rightarrow> Defect list" where
  "membershipDefects xp = (\<lambda>(req, j).
     (if 1 < length (jMembershipBySource j) \<and> disagreeingSources (jMembershipBySource j) \<noteq> None
      then [requestDefect DefectMembershipDisagree req] else [])
     @ (if length (jMembership j) = 0 then [requestDefect DefectMembershipMismatch req]
        else
          (if unat (jMembershipCount j) \<noteq> length (jMembership j)
           then [requestDefect DefectTruncatedEvidence req] else [])
          @ (let containsSelf = list_ex (\<lambda>uid. uid = UID req) (jMembership j) in
             (if \<not> containsSelf then [requestDefect DefectMembershipMismatch req] else [])
             @ (if int (length (jMembership j)) \<noteq> exBatchSize xp
                then [requestDefect
                       (if 1 < exBatchSize xp \<and> length (jMembership j) = 1 \<and> containsSelf
                        then DefectOwnUIDEcho else DefectMembershipMismatch) req]
                else
                  (if int (unat (jBatchSize j)) \<noteq> exBatchSize xp
                   then [requestDefect DefectMembershipMismatch req] else [])
                  @ concat (map (attestedDefects xp req) (jMembership j))))))"

definition checkMembership :: "RunExpectation \<Rightarrow> joined_map \<Rightarrow> Check" where
  "checkMembership xp joined =
     fail ''membership'' (concat (map (membershipDefects xp) (entries joined)))"

section \<open>Contamination\<close>

definition checkContamination :: "RunExpectation \<Rightarrow> Check" where
  "checkContamination xp = fail ''contamination''
     ((if exExecutionCountDelta xp \<noteq> of_int (exExecutions xp)
       then [runDefect DefectExecutionCount] else [])
      @ (if exInferenceCountDelta xp \<noteq> of_int (exCohortCount xp * exCohortSize xp)
         then [runDefect DefectExecutionCount] else [])
      @ concat (map (\<lambda>(sz, count).
           if sz \<noteq> of_int (exBatchSize xp) then [runDefect DefectCoalescedSingles] else [])
          (exBatchSizeHistogram xp))
      @ (if length (exBatchSizeHistogram xp) = 0 \<and> 0 < exExecutions xp
         then [runDefect DefectExecutionCount] else []))"

section \<open>When a check passes\<close>

lemma concat_map_Nil: "concat (map f xs) = [] \<longleftrightarrow> list_all (\<lambda>x. f x = []) xs"
  by (induction xs) simp_all

text \<open>A check over the entries of a joined map passes when no entry has a defect.\<close>

lemma entries_check:
  "distinct (map fst joined) \<Longrightarrow>
   ckPassed (fail n (concat (map f (entries joined)))) \<longleftrightarrow> list_all (\<lambda>x. f x = []) joined"
  by (simp add: concat_eq_Nil_conv entries_set list_all_iff)

lemma list_all_pairs:
  "(\<And>a b. (a, b) \<in> set xs \<Longrightarrow> P (a, b) \<longleftrightarrow> Q a b) \<Longrightarrow> list_all P xs \<longleftrightarrow> list_all (\<lambda>(a, b). Q a b) xs"
  by (induction xs) auto

lemmas Join_check = entries_check [OF distinct_Join]

text \<open>A check over groups, in ascending order of their keys, passes when no group has a defect.\<close>

lemma groups_check:
  "concat (map (\<lambda>k. f k (group_get (group_by key val xs) k)) (sort (map fst (group_by key val xs)))) = []
   \<longleftrightarrow> (\<forall>x \<in> set xs. f (key x) (map val (filter (\<lambda>y. key y = key x) xs)) = [])"
  unfolding concat_map_Nil list_all_iff set_sort keys_group_by group_get_by by blast

lemma countDown_iff:
  "countDown m b \<longleftrightarrow> (\<forall>u \<in> set b. int (count (mset b) u) \<le> uidCount m u)"
proof (induction m b rule: countDown.induct)
  case (1 counts)
  show ?case by simp
next
  case (2 m u us)
  let ?m = "AList.update u (uidCount m u - 1) m"
  have c: "uidCount ?m v = (if v = u then uidCount m u - 1 else uidCount m v)" for v
    by (simp add: uidCount_def update_conv')
  show ?case
  proof (cases "uidCount ?m u < 0")
    case True
    then have "uidCount m u < int (count (mset (u # us)) u)" by (simp add: c)
    then show ?thesis using True by (auto simp: Let_def)
  next
    case False
    then have "countDown m (u # us) \<longleftrightarrow> (\<forall>v \<in> set us. int (count (mset us) v) \<le> uidCount ?m v)"
      using 2 [OF refl False] by (simp add: Let_def)
    also have "\<dots> \<longleftrightarrow> (\<forall>v \<in> set (u # us). int (count (mset (u # us)) v) \<le> uidCount m v)"
    proof (intro iffI ballI)
      fix v assume a: "\<forall>v \<in> set us. int (count (mset us) v) \<le> uidCount ?m v" and v: "v \<in> set (u # us)"
      show "int (count (mset (u # us)) v) \<le> uidCount m v"
      proof (cases "v \<in> set us")
        case True
        then have "int (count (mset us) v) \<le> uidCount ?m v" using a by blast
        then show ?thesis unfolding c by (cases "v = u") simp_all
      next
        case False
        then have vu: "v = u" and "count (mset us) u = 0" using v by (simp_all add: count_eq_zero_iff)
        moreover have "int (count (mset (u # us)) u) = 1 + int (count (mset us) u)" by simp
        moreover have "1 \<le> uidCount m u" using \<open>\<not> uidCount ?m u < 0\<close> unfolding c by simp
        ultimately show ?thesis unfolding vu by linarith
      qed
    next
      fix v assume a: "\<forall>v \<in> set (u # us). int (count (mset (u # us)) v) \<le> uidCount m v" and v: "v \<in> set us"
      then have "int (count (mset (u # us)) v) \<le> uidCount m v" by simp
      then show "int (count (mset us) v) \<le> uidCount ?m v" unfolding c by (cases "v = u") simp_all
    qed
    finally show ?thesis .
  qed
qed

lemma uidCount_up:
  "uidCount (foldl (\<lambda>m u. AList.update u (uidCount m u + 1) m) m0 a) v = uidCount m0 v + int (count (mset a) v)"
  by (induction a arbitrary: m0) (simp_all add: uidCount_def update_conv')

text \<open>
  \<^verbatim>\<open>sameUIDSet\<close> compares attestations as multisets: counting one list up and the other
  down accepts exactly the permutations.
\<close>

lemma sameUIDSet_mset:
  "sameUIDSet a b \<longleftrightarrow> mset a = mset b"
proof -
  have z: "uidCount [] v = 0" for v by (simp add: uidCount_def)
  have "sameUIDSet a b \<longleftrightarrow> length a = length b \<and> mset b \<subseteq># mset a"
    unfolding sameUIDSet_def
    by (auto simp: countDown_iff uidCount_up z subseteq_mset_def)
       (metis count_eq_zero_iff le0 set_mset_mset)
  also have "\<dots> \<longleftrightarrow> mset a = mset b"
    by (metis mset_eq_length mset_subset_size size_mset subset_mset.dual_order.refl
        subset_mset.less_le nat_neq_iff)
  finally show ?thesis .
qed

section \<open>Sources\<close>

lemma distinct_sources:
  "distinct (map fst (jMembershipBySource j)) \<Longrightarrow>
   distinct (map fst (jMembershipBySource (foldl joinInto j ds)))"
  "distinct (map fst (jDispatchBySource j)) \<Longrightarrow>
   distinct (map fst (jDispatchBySource (foldl joinInto j ds)))"
proof -
  have "distinct (map fst (jMembershipBySource (joinInto k d)))" if "distinct (map fst (jMembershipBySource k))" for k d
    using that by (simp add: joinInto_def Let_def joinRest_def joinMembership_def joinStatus_def
        joinStages_frame distinct_update)
  then show "distinct (map fst (jMembershipBySource j)) \<Longrightarrow>
      distinct (map fst (jMembershipBySource (foldl joinInto j ds)))"
    by (induction ds arbitrary: j) simp_all
  have "distinct (map fst (jDispatchBySource (joinInto k d)))" if "distinct (map fst (jDispatchBySource k))" for k d
    using that by (simp add: joinInto_def Let_def joinRest_def joinMembership_def joinStatus_def
        joinStages_frame distinct_update)
  then show "distinct (map fst (jDispatchBySource j)) \<Longrightarrow>
      distinct (map fst (jDispatchBySource (foldl joinInto j ds)))"
    by (induction ds arbitrary: j) simp_all
qed

text \<open>An entry of \<^verbatim>\<open>Join\<close>'s result is the fold over the request's records.\<close>

lemma Join_entry:
  assumes "(req, j) \<in> set (Join records)"
  shows "j = foldl joinInto (newJoined req) (of_request req records)" and "of_request req records \<noteq> []"
proof -
  have "map_of (Join records) req = Some j" using assms distinct_Join by simp
  then show "j = foldl joinInto (newJoined req) (of_request req records)" "of_request req records \<noteq> []"
    by (simp_all add: Join_lookup split: if_splits)
qed

lemma Join_entry_sources:
  assumes "(req, j) \<in> set (Join records)"
  shows "distinct (map fst (jMembershipBySource j))" "distinct (map fst (jDispatchBySource j))"
  using distinct_sources [of "newJoined req"] Join_entry(1) [OF assms] by (simp_all add: newJoined_def)

lemma find_None_all: "find P xs = None \<longleftrightarrow> (\<forall>x \<in> set xs. \<not> P x)"
  by (auto simp: find_None_iff)

lemma set_ordered_pairs:
  "set (concat (map (\<lambda>i. map (\<lambda>j. (i, j)) [i + 1 ..< n]) [0 ..< n])) = {(i, j). i < j \<and> j < n}"
  by (force simp: image_iff)

lemma disagreeingSources_None:
  assumes "distinct (map fst bs)"
  shows "disagreeingSources bs = None \<longleftrightarrow> (\<forall>(e, a) \<in> set bs. \<forall>(e', b) \<in> set bs. mset a = mset b)"
proof -
  let ?es = "sort (map fst bs)" and ?u = "\<lambda>e. the (map_of bs e)"
  have "disagreeingSources bs = None \<longleftrightarrow>
      (\<forall>i < length ?es. \<forall>j < length ?es. i < j \<longrightarrow> mset (?u (?es ! i)) = mset (?u (?es ! j)))"
  proof -
    have none: "(case find P ps of Some (i, j) \<Rightarrow> Some (f i j) | None \<Rightarrow> None) = None \<longleftrightarrow> (\<forall>p \<in> set ps. \<not> P p)"
      for P ps and f :: "nat \<Rightarrow> nat \<Rightarrow> 'x"
      using find_None_all [of P ps] by (auto split: option.splits)
    show ?thesis
      unfolding disagreeingSources_def Let_def none set_ordered_pairs by (auto simp: sameUIDSet_mset)
  qed
  also have "\<dots> \<longleftrightarrow> (\<forall>i < length ?es. \<forall>j < length ?es. mset (?u (?es ! i)) = mset (?u (?es ! j)))"
    by (metis nat_neq_iff)
  also have "\<dots> \<longleftrightarrow> (\<forall>e \<in> set ?es. \<forall>e' \<in> set ?es. mset (?u e) = mset (?u e'))"
    by (metis in_set_conv_nth)
  also have "\<dots> \<longleftrightarrow> (\<forall>(e, a) \<in> set bs. \<forall>(e', b) \<in> set bs. mset a = mset b)"
    using assms by force
  finally show ?thesis .
qed

text \<open>
  What the membership check accepts: for every request the sources that attested it
  agree as multisets, the attestation is not empty and not truncated, contains the
  request's own UID, has exactly the cell's batch size as the record reports it too, and
  resolves to members of the request's own cohort with ordinals below the cohort size.
\<close>

theorem checkMembership_accepts:
  "ckPassed (checkMembership xp (Join records)) \<longleftrightarrow>
     list_all (\<lambda>(req, j).
       list_all (\<lambda>(_, a). list_all (\<lambda>(_, b). mset a = mset b) (jMembershipBySource j)) (jMembershipBySource j)
       \<and> jMembership j \<noteq> [] \<and> unat (jMembershipCount j) = length (jMembership j)
       \<and> UID req \<in> set (jMembership j) \<and> int (length (jMembership j)) = exBatchSize xp
       \<and> int (unat (jBatchSize j)) = exBatchSize xp
       \<and> list_all (\<lambda>uid. Cohort (uidLogicalRequest uid) = Cohort req
            \<and> int (unat (Ordinal (uidLogicalRequest uid))) < exCohortSize xp) (jMembership j)) (Join records)"
proof -
  have src: "1 < length (jMembershipBySource j) \<and> disagreeingSources (jMembershipBySource j) \<noteq> None
      \<longleftrightarrow> \<not> list_all (\<lambda>(_, a). list_all (\<lambda>(_, b). mset a = mset b) (jMembershipBySource j)) (jMembershipBySource j)"
    if e: "(req, j) \<in> set (Join records)" for req j
  proof -
    have "\<forall>(_, a) \<in> set bs. \<forall>(_, b) \<in> set bs. mset a = mset b" if "\<not> 1 < length bs" for bs :: "(Emitter \<times> UID list) list"
      using that by (cases bs) auto
    then show ?thesis
      using disagreeingSources_None [OF Join_entry_sources(1) [OF e]]
      unfolding list_all_iff by (cases "1 < length (jMembershipBySource j)") simp_all
  qed
  have att: "concat (map (attestedDefects xp req) uids) = [] \<longleftrightarrow>
      list_all (\<lambda>uid. Cohort (uidLogicalRequest uid) = Cohort req
        \<and> int (unat (Ordinal (uidLogicalRequest uid))) < exCohortSize xp) uids" for req uids
    unfolding concat_map_Nil by (auto simp: attestedDefects_def Let_def list_all_iff)
  have defects: "membershipDefects xp (req, j) = [] \<longleftrightarrow>
      \<not> (1 < length (jMembershipBySource j) \<and> disagreeingSources (jMembershipBySource j) \<noteq> None)
      \<and> jMembership j \<noteq> [] \<and> unat (jMembershipCount j) = length (jMembership j)
      \<and> UID req \<in> set (jMembership j) \<and> int (length (jMembership j)) = exBatchSize xp
      \<and> int (unat (jBatchSize j)) = exBatchSize xp
      \<and> list_all (\<lambda>uid. Cohort (uidLogicalRequest uid) = Cohort req
           \<and> int (unat (Ordinal (uidLogicalRequest uid))) < exCohortSize xp) (jMembership j)" for req j
    unfolding membershipDefects_def
    by (auto simp: Let_def att list_ex_iff split: if_splits simp del: concat_eq_Nil_conv)
  show ?thesis
    unfolding checkMembership_def Join_check
  proof (rule list.pred_cong [OF refl])
    fix x assume x: "x \<in> set (Join records)"
    obtain req j where "x = (req, j)" by (cases x)
    with src [of req j] x show "membershipDefects xp x = [] \<longleftrightarrow> (case x of (req, j) \<Rightarrow>
       list_all (\<lambda>(_, a). list_all (\<lambda>(_, b). mset a = mset b) (jMembershipBySource j)) (jMembershipBySource j)
       \<and> jMembership j \<noteq> [] \<and> unat (jMembershipCount j) = length (jMembership j)
       \<and> UID req \<in> set (jMembership j) \<and> int (length (jMembership j)) = exBatchSize xp
       \<and> int (unat (jBatchSize j)) = exBatchSize xp
       \<and> list_all (\<lambda>uid. Cohort (uidLogicalRequest uid) = Cohort req
            \<and> int (unat (Ordinal (uidLogicalRequest uid))) < exCohortSize xp) (jMembership j))"
      by (simp only: defects prod.case simp_thms)
  qed
qed

section \<open>Integrity and ownership of the raw records\<close>

lemma filter_length_count: "length (filter (\<lambda>x. f x = a) xs) = count (mset (map f xs)) a"
  by (induction xs) auto

lemma sources_once:
  "(\<forall>e. length (filter (\<lambda>d. f d = e) ds) \<le> 1) \<longleftrightarrow> distinct (map f ds)"
  unfolding filter_length_count distinct_count_atmost_1
  by (metis One_nat_def count_mset_0_iff le_SucE le_zero_eq order_refl zero_le)

lemma emitters_once:
  assumes "distinct (map fst (jEmitters j))"
  shows "concat (map (\<lambda>(e, n). if 1 < n then [requestDefect k req] else []) (jEmitters j)) = []
     \<longleftrightarrow> (\<forall>e. emitterCount j e \<le> 1)"
proof -
  have "concat (map (\<lambda>(e, n). if 1 < n then [requestDefect k req] else []) (jEmitters j)) = []
      \<longleftrightarrow> (\<forall>(e, n) \<in> set (jEmitters j). n \<le> 1)"
    unfolding concat_map_Nil list_all_iff by (auto split: if_splits)
  also have "\<dots> \<longleftrightarrow> (\<forall>e n. map_of (jEmitters j) e = Some n \<longrightarrow> n \<le> 1)"
    using assms by auto
  also have "\<dots> \<longleftrightarrow> (\<forall>e. emitterCount j e \<le> 1)"
    by (auto simp: emitterCount_def split: option.splits)
  finally show ?thesis .
qed

lemma distinct_one_set:
  "distinct xs \<Longrightarrow> length xs \<le> 1 \<longleftrightarrow> (\<forall>x \<in> set xs. \<forall>y \<in> set xs. x = y)"
  by (cases xs; cases "tl xs") auto

lemma jStatus_OK:
  "jStatus (foldl joinInto (newJoined req) ds) = StatusOK \<longleftrightarrow>
     StatusOK \<in> (\<lambda>d. rStatus (dRecord d)) ` set ds
     \<and> StatusError \<notin> (\<lambda>d. rStatus (dRecord d)) ` set ds \<and> StatusTimeout \<notin> (\<lambda>d. rStatus (dRecord d)) ` set ds"
proof -
  have "jStatus (foldl joinInto (newJoined req) ds) = StatusOK \<longleftrightarrow> resolves ds StatusOK"
    using jStatus_resolves resolves_unique by metis
  also have "\<dots> \<longleftrightarrow> (\<exists>d \<in> set ds. rStatus (dRecord d) = StatusOK)
      \<and> (\<forall>d \<in> set ds. rStatus (dRecord d) \<noteq> StatusError \<and> rStatus (dRecord d) \<noteq> StatusTimeout)"
  proof -
    have "statusRank s \<le> statusRank StatusOK \<longleftrightarrow> s \<noteq> StatusError \<and> s \<noteq> StatusTimeout" for s
      by (simp add: statusRank_def)
    moreover have "0 < statusRank StatusOK" by (simp add: statusRank_def)
    ultimately show ?thesis unfolding resolves_def by auto
  qed
  finally show ?thesis by (auto simp: image_iff)
qed

definition one_value :: "('a \<Rightarrow> 'b) \<Rightarrow> 'a list \<Rightarrow> bool" where
  "one_value f xs \<longleftrightarrow> list_all (\<lambda>x. f x = f (hd xs)) xs"

lemma one_value_iff: "one_value f xs \<longleftrightarrow> (\<forall>x \<in> set xs. \<forall>y \<in> set xs. f x = f y)"
  unfolding one_value_def list_all_iff by (cases xs) auto

lemma integrityDefects_iff:
  "integrityDefects (Join records) req = [] \<longleftrightarrow>
     of_request req records \<noteq> []
     \<and> distinct (map (\<lambda>d. rEmitter (dRecord d)) (of_request req records))
     \<and> one_value dSchemaVersion (of_request req records)
     \<and> StatusOK \<in> (\<lambda>d. rStatus (dRecord d)) ` set (of_request req records)
     \<and> StatusError \<notin> (\<lambda>d. rStatus (dRecord d)) ` set (of_request req records)
     \<and> StatusTimeout \<notin> (\<lambda>d. rStatus (dRecord d)) ` set (of_request req records)"
proof (cases "of_request req records = []")
  case True
  then show ?thesis by (simp add: integrityDefects_def Join_lookup)
next
  case False
  let ?ds = "of_request req records"
  let ?j = "foldl joinInto (newJoined req) ?ds"
  have d: "distinct (jSchemaVersions ?j)" "distinct (map fst (jEmitters ?j))"
    using distinct_joinInto [of "newJoined req" ?ds] by (simp_all add: newJoined_def)
  have "\<not> 1 < length (jSchemaVersions ?j) \<longleftrightarrow> one_value dSchemaVersion ?ds"
    using distinct_one_set [OF d(1)] by (auto simp: joined_sets newJoined_def one_value_iff not_less)
  moreover have "(\<forall>e. emitterCount ?j e \<le> 1) \<longleftrightarrow> distinct (map (\<lambda>d. rEmitter (dRecord d)) ?ds)"
  proof -
    have "emitterCount (newJoined req) e = 0" for e by (simp add: emitterCount_def newJoined_def)
    then show ?thesis
      using sources_once [of "\<lambda>d. rEmitter (dRecord d)" ?ds] by (simp add: joined_sets)
  qed
  ultimately show ?thesis
    using False emitters_once [OF d(2), of DefectDuplicateRecord req] jStatus_OK [of req ?ds]
    by (auto simp: integrityDefects_def Join_lookup simp del: concat_eq_Nil_conv)
qed

text \<open>
  A run whose record integrity passes is complete and clean: no record was dropped, the
  requests recorded are exactly the scheduled ones, and of each request no emitter wrote two
  records, all records carry one schema version, some record says ok and none says error or
  timeout.
\<close>

theorem checkRecordIntegrity_accepts:
  "ckPassed (checkRecordIntegrity xp (Join records)) \<longleftrightarrow>
     exDroppedRecords xp = 0
     \<and> set (map (\<lambda>d. recRequest (dRecord d)) records) = set (Requests xp)
     \<and> list_all (\<lambda>req. let ds = filter (\<lambda>d. recRequest (dRecord d) = req) records in
          distinct (map (\<lambda>d. rEmitter (dRecord d)) ds)
          \<and> list_all (\<lambda>d. dSchemaVersion d = dSchemaVersion (hd ds)) ds
          \<and> StatusOK \<in> set (map (\<lambda>d. rStatus (dRecord d)) ds)
          \<and> StatusError \<notin> set (map (\<lambda>d. rStatus (dRecord d)) ds)
          \<and> StatusTimeout \<notin> set (map (\<lambda>d. rStatus (dRecord d)) ds)) (Requests xp)"
proof -
  have recorded: "of_request req records \<noteq> [] \<longleftrightarrow> req \<in> set (map (\<lambda>d. recRequest (dRecord d)) records)" for req
    by (auto simp: of_request_def filter_empty_conv)
  have stray: "filter (\<lambda>req. req \<notin> set (Requests xp)) (map fst (Join records)) = []
      \<longleftrightarrow> set (map (\<lambda>d. recRequest (dRecord d)) records) \<subseteq> set (Requests xp)"
    using keys_Join [of records] by (auto simp: filter_empty_conv)
  have "ckPassed (checkRecordIntegrity xp (Join records)) \<longleftrightarrow> exDroppedRecords xp = 0
      \<and> (\<forall>req \<in> set (Requests xp). integrityDefects (Join records) req = [])
      \<and> set (map (\<lambda>d. recRequest (dRecord d)) records) \<subseteq> set (Requests xp)"
    unfolding checkRecordIntegrity_def stray [symmetric]
    by (cases "exDroppedRecords xp = 0")
       (auto simp: concat_map_Nil list_all_iff word_neq_0_conv [symmetric] simp del: concat_eq_Nil_conv)
  also have "\<dots> \<longleftrightarrow> exDroppedRecords xp = 0
     \<and> set (map (\<lambda>d. recRequest (dRecord d)) records) = set (Requests xp)
     \<and> (\<forall>req \<in> set (Requests xp). distinct (map (\<lambda>d. rEmitter (dRecord d)) (of_request req records))
          \<and> one_value dSchemaVersion (of_request req records)
          \<and> StatusOK \<in> (\<lambda>d. rStatus (dRecord d)) ` set (of_request req records)
          \<and> StatusError \<notin> (\<lambda>d. rStatus (dRecord d)) ` set (of_request req records)
          \<and> StatusTimeout \<notin> (\<lambda>d. rStatus (dRecord d)) ` set (of_request req records))"
    unfolding integrityDefects_iff recorded by blast
  finally show ?thesis by (simp add: list_all_iff Let_def of_request_def one_value_def)
qed

section \<open>Who wrote a stage\<close>

text \<open>The process that owns a stage, as the architecture assigns it.\<close>

definition stageOwner :: "Cell \<Rightarrow> Stage \<Rightarrow> Emitter" where
  "stageOwner cell s =
     (if s = StageCohortSeal then SealOwner cell
      else if s \<in> {StageSched, StageClientSend, StageClientRecv} then EmitterLoadGen
      else if s \<in> {StageProxyRecv, StageProxySend, StageProxyRespRecv, StageProxyFanout} then EmitterProxy
      else if s \<in> {StageAdapterRecv, StageAdapterDispatch, StageAdapterResult, StageAdapterSend}
      then EmitterAdapter else EmitterTriton)"

lemma mask_Has_groups:
  assumes "Valid s"
  shows "mask_Has loadGenStages s \<longleftrightarrow> s \<in> {1, 2, 15}" "mask_Has proxyStages s \<longleftrightarrow> s \<in> {3, 5, 13, 14}"
    "mask_Has adapterStages s \<longleftrightarrow> s \<in> {6, 7, 11, 12}" "mask_Has tritonStages s \<longleftrightarrow> s \<in> {8, 9, 10}"
  using assms
  by (simp_all add: loadGenStages_def proxyStages_def adapterStages_def tritonStages_def
      mask_Has_MaskOf Valid_def StageCount_def)

lemma OwnedStages_owner:
  assumes "Valid s"
  shows "mask_Has (OwnedStages cell e) s \<longleftrightarrow>
    (case TopologyMask cell of Inl _ \<Rightarrow> False | Inr t \<Rightarrow> mask_Has t s \<and> e = stageOwner cell s)"
proof (cases "TopologyMask cell")
  case (Inl c)
  then show ?thesis by (auto simp: OwnedStages_def Let_def split: option.splits)
next
  case (Inr t)
  have seal: "SealOwner cell \<in> {EmitterLoadGen, EmitterProxy}" by (simp add: SealOwner_def)
  have v: "Valid 4" by (simp add: Valid_def StageCount_def)
  have "s \<in> {1, 2, 3, 4, 5, 6, 7, 8, 9, 10, 11, 12, 13, 14, 15}"
    using assms by (simp add: Valid_AllStages AllStages_code)
  moreover have "mask_Has (OwnedStages cell e) s \<longleftrightarrow> mask_Has t s \<and>
      (case emitterStages e of None \<Rightarrow> False
       | Some m \<Rightarrow> (SealOwner cell = e \<and> s = 4) \<or> mask_Has m s)"
    using Inr assms v
    by (auto simp: OwnedStages_def Let_def mask_Has_and mask_Has_With split: option.splits)
  moreover have "(case emitterStages e of None \<Rightarrow> False
       | Some m \<Rightarrow> (SealOwner cell = e \<and> s = 4) \<or> mask_Has m s) \<longleftrightarrow> e = stageOwner cell s"
  proof -
    have g: "(case emitterStages e of None \<Rightarrow> False | Some m \<Rightarrow> (SealOwner cell = e \<and> s = 4) \<or> mask_Has m s) \<longleftrightarrow>
        (e = 1 \<and> (SealOwner cell = e \<and> s = 4 \<or> s \<in> {1, 2, 15})) \<or> (e = 2 \<and> (SealOwner cell = e \<and> s = 4 \<or> s \<in> {3, 5, 13, 14}))
        \<or> (e = 3 \<and> (SealOwner cell = e \<and> s = 4 \<or> s \<in> {6, 7, 11, 12})) \<or> (e = 4 \<and> (SealOwner cell = e \<and> s = 4 \<or> s \<in> {8, 9, 10}))"
      by (simp add: emitterStages_def mask_Has_groups [OF assms])
    show ?thesis
      unfolding g using \<open>s \<in> {1, 2, 3, 4, 5, 6, 7, 8, 9, 10, 11, 12, 13, 14, 15}\<close> seal
      by (elim insertE emptyE; simp add: stageOwner_def; metis)
  qed
  ultimately show ?thesis unfolding Inr sum.case by blast
qed

lemma stage_writer:
  assumes "joined_wf j" and "Valid s"
  shows "jStageEmitter (foldl joinInto j ds) ! unat s =
    (let cs = filter (\<lambda>d. snd (recStage (dRecord d) s)) ds in
     if cs = [] then jStageEmitter j ! unat s else rEmitter (dRecord (last cs)))"
  using assms by (induction ds arbitrary: j) (auto simp: joinInto_stage Let_def)

text \<open>
  Stage ownership passes exactly when, for every request and every stage some of its
  records carry, the stage is in the cell's topology and the last record carrying it is
  from the stage's owner: the proxy owns the seal where it aggregates and the load
  generator elsewhere. Earlier carriers of the same stage are not looked at.
\<close>

theorem checkStageOwnership_accepts:
  "ckPassed (checkStageOwnership xp (Join records)) \<longleftrightarrow>
     list_all (\<lambda>req. list_all (\<lambda>s.
       let carriers = filter (\<lambda>d. recRequest (dRecord d) = req \<and> snd (recStage (dRecord d) s)) records
       in if carriers = [] then True
          else (case TopologyMask (exCell xp) of Inl _ \<Rightarrow> False
            | Inr t \<Rightarrow> mask_Has t s \<and> rEmitter (dRecord (last carriers)) = stageOwner (exCell xp) s))
       AllStages) (map (\<lambda>d. recRequest (dRecord d)) records)"
proof -
  let ?ok = "\<lambda>req s. let carriers = filter (\<lambda>d. snd (recStage (dRecord d) s)) (of_request req records)
       in if carriers = [] then True
          else (case TopologyMask (exCell xp) of Inl _ \<Rightarrow> False
            | Inr t \<Rightarrow> mask_Has t s \<and> rEmitter (dRecord (last carriers)) = stageOwner (exCell xp) s)"
  have "ownershipDefects (exCell xp) (req, j) = [] \<longleftrightarrow> list_all (?ok req) AllStages"
    if e: "(req, j) \<in> set (Join records)" for req j
  proof -
    have j: "j = foldl joinInto (newJoined req) (of_request req records)" by (rule Join_entry(1) [OF e])
    have "ownershipDefects (exCell xp) (req, j) = [] \<longleftrightarrow> (\<forall>s. Valid s \<and> mask_Has (jPresence j) s \<longrightarrow>
        mask_Has (OwnedStages (exCell xp) (jStageEmitter j ! unat s)) s)"
      unfolding ownershipDefects_def prod.case concat_map_Nil list_all_iff set_mask_Stages by auto
    also have "\<dots> \<longleftrightarrow> (\<forall>s. Valid s \<longrightarrow> ?ok req s)"
    proof (rule iff_allI)
      fix s
      show "(Valid s \<and> mask_Has (jPresence j) s \<longrightarrow>
          mask_Has (OwnedStages (exCell xp) (jStageEmitter j ! unat s)) s) \<longleftrightarrow> (Valid s \<longrightarrow> ?ok req s)"
      proof (cases "Valid s")
        case v: True
        have "mask_Has (jPresence j) s \<longleftrightarrow> filter (\<lambda>d. snd (recStage (dRecord d) s)) (of_request req records) \<noteq> []"
          using joined_stage_fold(2) [OF joined_wf_new v, of req "of_request req records"] v
          by (simp add: j snd_joinedStage filter_empty_conv newJoined_def)
        then show ?thesis
          using v stage_writer [OF joined_wf_new v, of req "of_request req records"]
          by (auto simp: j Let_def OwnedStages_owner split: sum.splits)
      qed simp
    qed
    finally show ?thesis unfolding list_all_iff Ball_def Valid_AllStages .
  qed
  then have "ckPassed (checkStageOwnership xp (Join records))
      \<longleftrightarrow> list_all (\<lambda>(req, j). list_all (?ok req) AllStages) (Join records)"
    unfolding checkStageOwnership_def Join_check by (rule list_all_pairs)
  also have "\<dots> \<longleftrightarrow> list_all (\<lambda>req. list_all (?ok req) AllStages) (map fst (Join records))"
    by (simp add: list_all_iff split_beta)
  also have "\<dots> \<longleftrightarrow> list_all (\<lambda>req. list_all (?ok req) AllStages) (map (\<lambda>d. recRequest (dRecord d)) records)"
  proof -
    have "set (map fst (Join records)) = set (map (\<lambda>d. recRequest (dRecord d)) records)"
      using keys_Join [of records] by simp
    then show ?thesis by (simp only: list_all_iff)
  qed
  finally show ?thesis by (simp add: of_request_def conj_commute)
qed

section \<open>Paths\<close>

lemma mask_Stages_Nil:
  "(if m \<noteq> 0 then map f (mask_Stages m) else []) = [] \<longleftrightarrow> (\<forall>s. Valid s \<longrightarrow> \<not> mask_Has m s)"
proof -
  have "mask_Stages m = [] \<longleftrightarrow> (\<forall>s. Valid s \<longrightarrow> \<not> mask_Has m s)"
    using set_mask_Stages [of m] by (metis (mono_tags, lifting) Collect_empty_eq set_empty)
  then show ?thesis by auto
qed

lemma presenceDefects_Nil:
  "presenceDefects t (req, j) = [] \<longleftrightarrow> (\<forall>s. Valid s \<longrightarrow> mask_Has (jPresence j) s = mask_Has t s)"
proof -
  have not: "mask_Has (NOT m) s \<longleftrightarrow> \<not> mask_Has m s" if "Valid s" for m :: StageMask and s
    using Valid_unat_minus1(3) [OF that] by (simp add: mask_Has_bit bit_simps)
  show ?thesis
    unfolding presenceDefects_def prod.case Let_def append_is_Nil_conv mask_Stages_Nil
    using not by (auto simp: mask_Has_and)
qed

lemma orderingDefects_Nil:
  assumes "\<forall>sp \<in> set spans. snd (joinedStage j (spStart sp)) \<and> snd (joinedStage j (spEnd sp))"
  shows "orderingDefects spans (req, j) = [] \<longleftrightarrow>
    (\<forall>sp \<in> set spans. sint (fst (joinedStage j (spStart sp))) \<le> sint (fst (joinedStage j (spEnd sp))))"
  unfolding orderingDefects_def prod.case concat_map_Nil list_all_iff
  using assms by (intro ball_cong refl) (auto simp: split_beta clock_simps)

lemma Chain_span_stages:
  assumes "Chain cell = Inr spans" and "sp \<in> set spans"
  shows "spStart sp \<in> set (ChainStages spans)" "spEnd sp \<in> set (ChainStages spans)"
proof -
  note con = Chain_consecutive [OF assms(1)]
  show "spEnd sp \<in> set (ChainStages spans)" using assms(2) con by (auto simp: ChainStages_def)
  have "spStart sp = spStart (hd spans) \<or> spStart sp \<in> set (map spStart (tl spans))"
    using assms(2) by (cases spans) auto
  moreover have "set (map spStart (tl spans)) \<subseteq> spEnd ` set spans"
    using con by (auto simp: consecutive_def dest: in_set_butlastD)
  ultimately show "spStart sp \<in> set (ChainStages spans)"
    using con by (auto simp: ChainStages_def hd_conv_nth)
qed

text \<open>A request without a presence or an ordering defect walks the whole chain in order.\<close>

lemma path_defects_Nil:
  assumes "Chain cell = Inr spans"
  shows "presenceDefects (MaskOf (ChainStages spans)) (req, j) = [] \<and> orderingDefects spans (req, j) = [] \<longleftrightarrow>
      list_all (\<lambda>s. snd (joinedStage j s) = (s \<in> set (ChainStages spans))) AllStages
      \<and> sorted (map (\<lambda>s. sint (fst (joinedStage j s))) (ChainStages spans))"
proof -
  note top = Chain_topology [OF assms]
  have has: "mask_Has (MaskOf (ChainStages spans)) s \<longleftrightarrow> s \<in> set (ChainStages spans)" if "Valid s" for s
    using top(2) that by (intro mask_Has_MaskOf) auto
  have p: "presenceDefects (MaskOf (ChainStages spans)) (req, j) = [] \<longleftrightarrow>
      list_all (\<lambda>s. snd (joinedStage j s) = (s \<in> set (ChainStages spans))) AllStages"
    unfolding presenceDefects_Nil list_all_iff Valid_AllStages [symmetric]
    using has by (auto simp: snd_joinedStage Valid_AllStages [symmetric])
  have "orderingDefects spans (req, j) = [] \<longleftrightarrow> sorted (map (\<lambda>s. sint (fst (joinedStage j s))) (ChainStages spans))"
    if "list_all (\<lambda>s. snd (joinedStage j s) = (s \<in> set (ChainStages spans))) AllStages"
  proof -
    have "snd (joinedStage j s)" if "s \<in> set (ChainStages spans)" for s
      using that top(2) \<open>list_all _ AllStages\<close> by (auto simp: list_all_iff Valid_AllStages [symmetric])
    then show ?thesis
      using orderingDefects_Nil [of spans j req] Chain_span_stages [OF assms]
        spans_sorted [of spans "\<lambda>s. sint (fst (joinedStage j s))"] Chain_consecutive [OF assms]
      by blast
  qed
  with p show ?thesis by blast
qed

text \<open>
  C15. A run passes its presence and ordering checks exactly when it walked its cell's chain: every request
  carries each stage of the chain and no other, and its timestamps never go backwards along
  the walk (compared as signed nanoseconds). A cell without a chain fails both checks, whatever
  its records are.
\<close>

theorem path_complete_and_ordered:
  "case Chain (exCell xp) of
     Inl _ \<Rightarrow> ckPassed (checkPresence xp (Join records)) = False
         \<and> ckPassed (checkOrdering xp (Join records)) = False
   | Inr spans \<Rightarrow>
       (ckPassed (checkPresence xp (Join records)) \<and> ckPassed (checkOrdering xp (Join records))) =
       list_all (\<lambda>(req, j).
          list_all (\<lambda>s. snd (joinedStage j s) = (s \<in> set (ChainStages spans))) AllStages
          \<and> sorted (map (\<lambda>s. sint (fst (joinedStage j s))) (ChainStages spans))) (Join records)"
proof (cases "Chain (exCell xp)")
  case (Inl e)
  then obtain e' where "TopologyMask (exCell xp) = Inl e'"
    using Chain_walk [of "exCell xp"] by (auto split: sum.splits)
  with Inl show ?thesis by (simp add: checkPresence_def checkOrdering_def)
next
  case (Inr spans)
  have "ckPassed (checkPresence xp (Join records)) \<and> ckPassed (checkOrdering xp (Join records)) \<longleftrightarrow>
      list_all (\<lambda>x. presenceDefects (MaskOf (ChainStages spans)) x = []) (Join records)
      \<and> list_all (\<lambda>x. orderingDefects spans x = []) (Join records)"
    by (simp only: checkPresence_def checkOrdering_def Inr Chain_topology(1) [OF Inr] sum.case Join_check)
  also have "\<dots> \<longleftrightarrow> list_all (\<lambda>(req, j).
          list_all (\<lambda>s. snd (joinedStage j s) = (s \<in> set (ChainStages spans))) AllStages
          \<and> sorted (map (\<lambda>s. sint (fst (joinedStage j s))) (ChainStages spans))) (Join records)"
  proof -
    have both: "list_all P xs \<and> list_all Q xs \<longleftrightarrow> list_all (\<lambda>x. P x \<and> Q x) xs" for P Q and xs :: joined_map
      by (induction xs) auto
    show ?thesis unfolding both by (rule list_all_pairs) (rule path_defects_Nil [OF Inr])
  qed
  finally show ?thesis by (simp add: Inr)
qed

text \<open>Concrete records for the witnesses: one process's record with the given stamps.\<close>

definition stamped :: "Emitter \<Rightarrow> CohortID \<Rightarrow> Ordinal \<Rightarrow> (Stage \<times> int64) list \<Rightarrow> Decoded" where
  "stamped e c ord stamps = (sampleDecoded e StatusOK)\<lparr>dRecord := foldl (\<lambda>r (s, ts). SetStage s ts r)
     (zeroRecord\<lparr>rEmitter := e, rStatus := StatusOK, rCohort := c, rOrdinal := ord\<rparr>) stamps\<rparr>"

definition sampleExpectation :: "Cell \<Rightarrow> RunExpectation" where
  "sampleExpectation cell = \<lparr>exRun = ''r'', exCell = cell, exClockDomain = ''clk'', exCohortSize = 2,
     exCohortCount = 1, exFirstCohortID = 4, exExecutionsPerCohort = 2, exBatchSize = 1, exExecutions = 2,
     exToleranceFraction = 1 / 4, exMaxAdapterDispatchWaitNanos = 0, exMaxDispatchSkewNanos = 1000,
     exExecutionCountDelta = 2, exInferenceCountDelta = 2, exBatchSizeHistogram = [(1, 2)],
     exDroppedRecords = 0\<rparr>"

text \<open>The stamps the members of a group carry at one stage.\<close>

definition stampsAt :: "Stage \<Rightarrow> Joined list \<Rightarrow> int list" where
  "stampsAt stage members = map (\<lambda>m. sint (fst (joinedStage m stage))) (filter (\<lambda>m. snd (joinedStage m stage)) members)"

end
