(* ===== verification/FanOut.thy ===== *)
theory FanOut
  imports RunChecks
begin

text \<open>
  \<^verbatim>\<open>internal/validate/dispatch.go\<close>: that the adapter did not wait at A=off, what its releases
  looked like, and the refusal to compare its CPU numbers across a Factor A level.
\<close>

section \<open>Spread\<close>

definition spreadStep :: "Stage \<Rightarrow> int64 \<times> int64 \<times> bool \<Rightarrow> Joined \<Rightarrow> int64 \<times> int64 \<times> bool" where
  "spreadStep stage = (\<lambda>(lo, hi, seen) m.
     let (ts, ok) = joinedStage m stage in
     if \<not> ok then (lo, hi, seen)
     else if \<not> seen then (ts, ts, True)
     else (if ts <s lo then ts else lo, if hi <s ts then ts else hi, True))"

definition spread :: "Joined list \<Rightarrow> Stage \<Rightarrow> int64" where
  "spread members stage =
     (let (lo, hi, seen) = foldl (spreadStep stage) (0, 0, False) members in
      if \<not> seen then 0 else hi - lo)"

section \<open>Dispatch on arrival\<close>

definition minArrivalSpreadNanos :: int64 where "minArrivalSpreadNanos = 20000"
definition collapsedSpreadFraction :: rat where "collapsedSpreadFraction = 1 / 4"

record CohortDispatch =
  cdCohort :: CohortID
  cdArrivalSpreadNanos :: int64
  cdDispatchSpreadNanos :: int64
  cdMaxWaitNanos :: int64

definition waitOf :: "Joined \<Rightarrow> int64" where
  "waitOf j = fst (joinedStage j StageAdapterDispatch) - fst (joinedStage j StageAdapterRecv)"

text \<open>The members that both arrived at the adapter and left it.\<close>

definition dispatched :: "joined_map \<Rightarrow> (LogicalRequest \<times> Joined) list" where
  "dispatched joined = filter (\<lambda>(req, j). snd (joinedStage j StageAdapterRecv)
     \<and> snd (joinedStage j StageAdapterDispatch)) (entries joined)"

definition cohortDispatch :: "CohortID \<Rightarrow> Joined list \<Rightarrow> CohortDispatch" where
  "cohortDispatch cohort members = \<lparr>cdCohort = cohort,
     cdArrivalSpreadNanos = spread members StageAdapterRecv,
     cdDispatchSpreadNanos = spread members StageAdapterDispatch,
     cdMaxWaitNanos = foldl (\<lambda>w m. if w <s waitOf m then waitOf m else w) 0 members\<rparr>"

definition collapsed :: "CohortDispatch \<Rightarrow> bool" where
  "collapsed cd \<longleftrightarrow> f64_of_int64 (cdDispatchSpreadNanos cd)
     < f64 (collapsedSpreadFraction * f64_of_int64 (cdArrivalSpreadNanos cd))"

definition cohortDispatchDefects :: "CohortID \<Rightarrow> Joined list \<Rightarrow> Defect list" where
  "cohortDispatchDefects cohort members =
     (if length members < 2 then []
      else let cd = cohortDispatch cohort members in
        if cdArrivalSpreadNanos cd <s minArrivalSpreadNanos then []
        else if collapsed cd then [runDefect DefectAdapterWaiting] else [])"

definition checkAdapterDispatch :: "RunExpectation \<Rightarrow> joined_map \<Rightarrow> Check" where
  "checkAdapterDispatch xp joined =
     (case TopologyMask (exCell xp) of Inl _ \<Rightarrow> refused ''adapter_dispatch_on_arrival''
      | Inr topology \<Rightarrow>
          if \<not> mask_Has topology StageAdapterRecv then pass ''adapter_dispatch_on_arrival''
          else if AggregatesEnvelopes (exCell xp) then pass ''adapter_dispatch_on_arrival''
          else
            let byCohort = group_by (\<lambda>(req, j). Cohort req) snd (dispatched joined);
                late = concat (map (\<lambda>(req, j).
                  if 0 <s exMaxAdapterDispatchWaitNanos xp \<and> exMaxAdapterDispatchWaitNanos xp <s waitOf j
                  then [requestDefect DefectAdapterWaiting req] else []) (dispatched joined));
                joint = concat (map (\<lambda>c. cohortDispatchDefects c (group_get byCohort c))
                  (sort (map fst byCohort)))
            in fail ''adapter_dispatch_on_arrival'' (late @ joint))"

section \<open>Releases\<close>

record Release =
  rlEnvelope :: EnvelopeID
  rlMembers :: nat
  rlObservedSkewNanos :: int64
  rlReportedSkewNanos :: int64
  rlDeclaredMembers :: uint32
  rlOverlapped :: bool
  rlCPUScope :: string
  rlCPUNanos :: int64

record FanOutReport =
  foReleases :: "Release list"
  foMaxSkewNanos :: int64
  foBoundNanos :: int64

definition submissionWindows :: "Joined list \<Rightarrow> (int64 \<times> int64) list" where
  "submissionWindows members = List.map_filter (\<lambda>m.
     let (start, okStart) = joinedStage m StageAdapterDispatch;
         (finish, okEnd) = joinedStage m StageAdapterResult
     in if \<not> okStart \<or> \<not> okEnd then None else Some (start, finish)) members"

definition submissionsOverlapped :: "Joined list \<Rightarrow> bool" where
  "submissionsOverlapped members =
     (let windows = submissionWindows members in
      if length windows < 2 then True
      else
        let windows = sort_key (\<lambda>(start, finish). sint start) windows in
        \<not> list_ex (\<lambda>i. snd (windows ! (i - 1)) \<le>s fst (windows ! i)) [1 ..< length windows])"

text \<open>\<^verbatim>\<open>CPUScope.String\<close> of an unknown scope is \<^verbatim>\<open>CPUScope(n)\<close>, which no parse accepts.\<close>

definition cpuScopeString :: "CPUScope \<Rightarrow> string" where
  "cpuScopeString s = (case map_of cpuScopeNames s of Some n \<Rightarrow> n
     | None \<Rightarrow> ''CPUScope('' @ AppendUint (unat s) @ '')'')"

definition releaseEvidence :: "Joined list \<Rightarrow> DispatchEvidence option" where
  "releaseEvidence members =
     (case List.map_filter (\<lambda>m. map_of (jDispatchBySource m) EmitterAdapter) members of
        [] \<Rightarrow> None | e # _ \<Rightarrow> Some e)"

definition releaseOf :: "EnvelopeID \<Rightarrow> Joined list \<Rightarrow> Release" where
  "releaseOf i members =
     (let rel = \<lparr>rlEnvelope = i, rlMembers = length members,
            rlObservedSkewNanos = spread members StageAdapterDispatch, rlReportedSkewNanos = 0,
            rlDeclaredMembers = 0, rlOverlapped = submissionsOverlapped members, rlCPUScope = [],
            rlCPUNanos = 0\<rparr>
      in case releaseEvidence members of None \<Rightarrow> rel
         | Some e \<Rightarrow> rel\<lparr>rlReportedSkewNanos := SkewNanos e, rlDeclaredMembers := Dispatched e,
                         rlCPUNanos := CPUNanos e, rlCPUScope := cpuScopeString (CPUScope e)\<rparr>)"

definition judgeRelease :: "RunExpectation \<Rightarrow> EnvelopeID \<Rightarrow> Joined list \<Rightarrow> Release \<times> Defect list" where
  "judgeRelease xp i members =
     (let rel = releaseOf i members in
      (rel,
       if releaseEvidence members = None then [runDefect DefectDispatchEvidence]
       else
         (if unat (rlDeclaredMembers rel) \<noteq> length members then [runDefect DefectDispatchEvidence] else [])
         @ (if rlReportedSkewNanos rel \<noteq> rlObservedSkewNanos rel
            then [runDefect DefectDispatchEvidence] else [])
         @ (if 0 <s exMaxDispatchSkewNanos xp \<and> exMaxDispatchSkewNanos xp <s rlObservedSkewNanos rel
            then [runDefect DefectDispatchSkew] else [])
         @ (if 1 < length members \<and> \<not> rlOverlapped rel then [runDefect DefectFanOutSerial] else [])))"

definition foreignEvidence :: "LogicalRequest \<times> Joined \<Rightarrow> Defect list" where
  "foreignEvidence = (\<lambda>(req, j). concat (map (\<lambda>(emitter, _).
     if emitter \<noteq> EmitterAdapter then [requestDefect DefectDispatchEvidence req] else [])
     (jDispatchBySource j)))"

definition checkFanOut :: "RunExpectation \<Rightarrow> joined_map \<Rightarrow> FanOutReport \<times> Check" where
  "checkFanOut xp joined =
     (let report = \<lparr>foReleases = [], foMaxSkewNanos = 0, foBoundNanos = exMaxDispatchSkewNanos xp\<rparr> in
      case TopologyMask (exCell xp) of Inl _ \<Rightarrow> (report, refused ''fan_out'')
      | Inr topology \<Rightarrow>
          if \<not> mask_Has topology StageAdapterDispatch then (report, pass ''fan_out'')
          else if AggregatesEnvelopes (exCell xp) \<and> exMaxDispatchSkewNanos xp \<le>s 0
          then (report, fail ''fan_out'' [runDefect DefectDispatchSkew])
          else
            let carried = filter (\<lambda>(req, j). jEnvelopeID j \<noteq> 0) (entries joined);
                byEnvelope = group_by (\<lambda>(req, j). jEnvelopeID j) snd carried;
                judged = map (\<lambda>i. judgeRelease xp i (group_get byEnvelope i)) (sort (map fst byEnvelope));
                widest = foldl (\<lambda>w rel. if w <s rlObservedSkewNanos rel then rlObservedSkewNanos rel else w)
                           0 (map fst judged)
            in (report\<lparr>foReleases := map fst judged, foMaxSkewNanos := widest\<rparr>,
                fail ''fan_out'' (concat (map foreignEvidence carried) @ concat (map snd judged))))"

section \<open>Adapter CPU across Factor A\<close>

datatype scope_error = UnknownScope string | MixedScopes CPUScope CPUScope | NoScope
  | NotComparable CPUScope

fun scopeOf_loop :: "CPUScope option \<Rightarrow> Release list \<Rightarrow> scope_error + CPUScope" where
  "scopeOf_loop found [] = (case found of None \<Rightarrow> Inl NoScope | Some s \<Rightarrow> Inr s)"
| "scopeOf_loop found (rel # rels) =
     (case ParseCPUScope (rlCPUScope rel) of Inl e \<Rightarrow> Inl (UnknownScope e)
      | Inr scope \<Rightarrow>
          (case found of
             Some f \<Rightarrow> if scope \<noteq> f then Inl (MixedScopes f scope) else scopeOf_loop (Some scope) rels
           | None \<Rightarrow> scopeOf_loop (Some scope) rels))"

definition scopeOf :: "FanOutReport \<Rightarrow> scope_error + CPUScope" where
  "scopeOf r = scopeOf_loop None (foReleases r)"

definition totalCPU :: "FanOutReport \<Rightarrow> int64" where
  "totalCPU r = sum_list (map rlCPUNanos (foReleases r))"

definition AdapterCPUAcrossFactorA :: "FanOutReport \<Rightarrow> FanOutReport \<Rightarrow> scope_error + int64" where
  "AdapterCPUAcrossFactorA a b =
     (case scopeOf a of Inl e \<Rightarrow> Inl e
      | Inr scopeA \<Rightarrow>
          (case scopeOf b of Inl e \<Rightarrow> Inl e
           | Inr scopeB \<Rightarrow>
               (case find (\<lambda>s. \<not> ComparableAcrossFactorA s) [scopeA, scopeB] of
                  Some s \<Rightarrow> Inl (NotComparable s)
                | None \<Rightarrow> Inr (totalCPU a - totalCPU b))))"

section \<open>What a spread is\<close>

text \<open>The width of a list of stamps.\<close>

definition width :: "int list \<Rightarrow> int" where
  "width xs = (if xs = [] then 0 else Max (set xs) - Min (set xs))"

lemma spread_fold:
  assumes "foldl (spreadStep stage) (0, 0, False) members = (lo, hi, seen)"
  shows "seen \<longleftrightarrow> stampsAt stage members \<noteq> []"
    and "seen \<Longrightarrow> sint lo = Min (set (stampsAt stage members)) \<and> sint hi = Max (set (stampsAt stage members))"
  using assms
proof (induction members arbitrary: lo hi seen rule: rev_induct)
  case Nil
  { case 1 then show ?case by (simp add: stampsAt_def) }
  { case 2 then show ?case by simp }
next
  case (snoc m members)
  obtain lo0 hi0 seen0 where f: "foldl (spreadStep stage) (0, 0, False) members = (lo0, hi0, seen0)"
    by (metis prod_cases3)
  have step: "spreadStep stage (lo0, hi0, seen0) m = (lo, hi, seen)" if "foldl (spreadStep stage) (0, 0, False) (members @ [m]) = (lo, hi, seen)" for lo hi seen
    using that f by simp
  have app: "stampsAt stage (members @ [m]) = stampsAt stage members
      @ (if snd (joinedStage m stage) then [sint (fst (joinedStage m stage))] else [])"
    by (simp add: stampsAt_def)
  note ih = snoc.IH(1) [OF f] snoc.IH(2) [OF _ f]
  { case 1
    show ?case
      using step [OF "1.prems"] ih(1) by (auto simp: app spreadStep_def split_beta Let_def split: if_splits) }
  { case 2
    show ?case
    proof (cases "snd (joinedStage m stage) \<and> seen0")
      case True
      then have ne: "set (stampsAt stage members) \<noteq> {}" using ih(1) by simp
      let ?t = "sint (fst (joinedStage m stage))"
      have b: "sint lo0 = Min (set (stampsAt stage members))" "sint hi0 = Max (set (stampsAt stage members))"
        using ih(2) True by blast+
      have "sint lo = min ?t (sint lo0)" "sint hi = max ?t (sint hi0)"
        using step [OF "2.prems"(2)] True
        by (auto simp: spreadStep_def split_beta Let_def clock_simps split: if_splits)
      then show ?thesis using ne True by (simp add: app b)
    next
      case False
      then show ?thesis
        using step [OF "2.prems"(2)] ih "2.prems"(1) by (auto simp: app spreadStep_def split_beta Let_def split: if_splits)
    qed }
qed

lemma width_nonneg: "0 \<le> width xs"
proof (cases "xs = []")
  case False
  then have "Min (set xs) \<le> Max (set xs)" by (metis List.finite_set Max_ge Min_in set_empty)
  then show ?thesis using False by (simp add: width_def)
qed (simp add: width_def)

lemma width_bound: "x \<in> set xs \<Longrightarrow> y \<in> set xs \<Longrightarrow> \<bar>x - y\<bar> \<le> width xs"
proof -
  assume "x \<in> set xs" "y \<in> set xs"
  then have "Min (set xs) \<le> x" "x \<le> Max (set xs)" "Min (set xs) \<le> y" "y \<le> Max (set xs)" "xs \<noteq> []"
    by (auto intro: Max_ge Min_le)
  then show ?thesis by (simp add: width_def abs_le_iff)
qed

lemma spread_width:
  assumes "list_all (\<lambda>x. 0 \<le> x) (stampsAt stage members)"
  shows "sint (spread members stage) = width (stampsAt stage members)"
proof -
  obtain lo hi seen where f: "foldl (spreadStep stage) (0, 0, False) members = (lo, hi, seen)"
    by (metis prod_cases3)
  note s = spread_fold [OF f]
  show ?thesis
  proof (cases seen)
    case True
    then have ne: "stampsAt stage members \<noteq> []" using s(1) by simp
    then have "Min (set (stampsAt stage members)) \<in> set (stampsAt stage members)"
      "Max (set (stampsAt stage members)) \<in> set (stampsAt stage members)" by simp_all
    then have "nonneg64 lo" "nonneg64 hi" using s(2) [OF True] assms by (auto simp: nonneg64_def list_all_iff)
    then show ?thesis using s(2) [OF True] ne True by (simp add: spread_def f width_def sint_diff_nonneg)
  next
    case False
    then show ?thesis using s(1) by (simp add: spread_def f width_def)
  qed
qed

section \<open>Small binary64 values are exact\<close>

lemma f64_scale_exact:
  assumes "x = of_int m / 2 ^ j" and "0 < m" and "m < 2 ^ 53" and "2 ^ 52 \<le> x * 2 ^ n"
  shows "f64_scale n x = x"
  using assms
proof (induction n arbitrary: x j m)
  case 0
  have j: "j = 0"
  proof (rule ccontr)
    assume "j \<noteq> 0"
    then have "(2 :: rat) \<le> 2 ^ j" using power_increasing [of 1 j "2 :: rat"] by simp
    then have "x \<le> of_int m / 2" unfolding 0(1) using 0(2) by (intro divide_left_mono) simp_all
    moreover have "of_int m < (2 :: rat) ^ 53" using 0(3) by (metis of_int_less_iff of_int_numeral of_int_power)
    ultimately show False using 0(4) by simp
  qed
  then show ?case using 0 by (simp add: half_even_def)
next
  case (Suc n)
  have m: "of_int m < (2 :: rat) ^ 53" using Suc.prems(3) by (metis of_int_less_iff of_int_numeral of_int_power)
  have "x \<le> of_int m" using Suc.prems(1,2) by (simp add: divide_le_eq mult_le_cancel_left1 one_le_power)
  then have small: "x < 2 ^ 53" using m by linarith
  show ?case
  proof (cases "x < 2 ^ 52")
    case True
    have big: "2 ^ 52 \<le> 2 * x * 2 ^ n" using Suc.prems(4) by (simp add: mult.commute mult.left_commute)
    have "f64_scale n (2 * x) = 2 * x"
    proof (cases j)
      case 0
      then have "of_int m < (2 :: rat) ^ 52" using True Suc.prems(1) by simp
      then have "2 * m < 2 ^ 53" by simp
      then show ?thesis
        using Suc.IH [of "2 * x" "2 * m" 0, OF _ _ _ big] 0 Suc.prems(1,2) by simp
    next
      case (Suc i)
      then have "2 * x = of_int m / 2 ^ i" using \<open>x = of_int m / 2 ^ j\<close> by simp
      then show ?thesis using Suc.IH [of "2 * x" m i] big Suc.prems(2,3) by blast
    qed
    then show ?thesis using True small by simp
  next
    case False
    have "j = 0"
    proof (rule ccontr)
      assume "j \<noteq> 0"
      then have "(2 :: rat) \<le> 2 ^ j" using power_increasing [of 1 j "2 :: rat"] by simp
      then have "x \<le> of_int m / 2" unfolding Suc.prems(1) using Suc.prems(2) by (intro divide_left_mono) simp_all
      then show False using m False by simp
    qed
    then show ?thesis using False small Suc.prems(1) by (simp add: half_even_def)
  qed
qed

lemma f64_exact:
  assumes "\<bar>m\<bar> < 2 ^ 53" and "j \<le> 100"
  shows "f64 (of_int m / 2 ^ j) = of_int m / 2 ^ j"
proof -
  have pos: "f64_scale 240 (of_int k / 2 ^ j) = of_int k / 2 ^ j" if "0 < k" "k < 2 ^ 53" for k
  proof (rule f64_scale_exact [OF refl that])
    have two: "(2 :: rat) ^ n = 2 ^ j * 2 ^ (n - j)" if "j \<le> n" for n using that by (simp flip: power_add)
    have "j \<le> 240" using assms(2) by simp
    then have "of_int k / 2 ^ j * 2 ^ 240 = of_int k * (2 :: rat) ^ (240 - j)"
      by (simp only: two [of 240]) simp
    moreover have "(2 :: rat) ^ 52 \<le> 2 ^ (240 - j)" using assms(2) by (intro power_increasing) simp_all
    moreover have "(1 :: rat) \<le> of_int k" using that(1) by simp
    ultimately show "(2 :: rat) ^ 52 \<le> of_int k / 2 ^ j * 2 ^ 240"
      using mult_mono [of 1 "of_int k :: rat" "2 ^ 52" "2 ^ (240 - j)"] by (simp only: mult_1) simp
  qed
  consider "m = 0" | "0 < m" | "m < 0" by linarith
  then show ?thesis
  proof cases
    case 2
    then have "\<not> of_int m / (2 :: rat) ^ j < 0" by (simp add: not_less)
    then show ?thesis using pos [of m] assms(1) 2 by (simp add: f64_def)
  next
    case 3
    then have "of_int m / (2 :: rat) ^ j < 0" by (simp add: divide_neg_pos)
    then show ?thesis using pos [of "- m"] assms(1) 3 by (simp add: f64_def)
  qed simp
qed

lemma collapsed_iff:
  assumes "\<bar>sint (cdArrivalSpreadNanos cd)\<bar> < 2 ^ 53" and "\<bar>sint (cdDispatchSpreadNanos cd)\<bar> < 2 ^ 53"
  shows "collapsed cd \<longleftrightarrow> 4 * sint (cdDispatchSpreadNanos cd) < sint (cdArrivalSpreadNanos cd)"
proof -
  have d: "f64_of_int64 (cdDispatchSpreadNanos cd) = of_int (sint (cdDispatchSpreadNanos cd))"
    and a: "f64_of_int64 (cdArrivalSpreadNanos cd) = of_int (sint (cdArrivalSpreadNanos cd))"
    unfolding f64_of_int64_def using f64_exact [of _ 0, simplified power_0 div_by_1] assms by blast+
  have "f64 (collapsedSpreadFraction * of_int (sint (cdArrivalSpreadNanos cd))) = of_int (sint (cdArrivalSpreadNanos cd)) / 4"
    using f64_exact [of _ 2, OF assms(1)] by (simp add: collapsedSpreadFraction_def)
  moreover have "of_int x < (of_int y :: rat) / 4 \<longleftrightarrow> 4 * x < y" for x y
    by (metis less_divide_eq_numeral1(1) mult.commute of_int_less_iff of_int_mult of_int_numeral)
  ultimately show ?thesis unfolding collapsed_def d a by (simp only:)
qed

section \<open>What the dispatch check decides\<close>

lemma spread_of_clock:
  assumes "\<forall>m \<in> set members. 0 \<le> sint (fst (joinedStage m stage)) \<and> sint (fst (joinedStage m stage)) < 2 ^ 53"
  shows "sint (spread members stage) = width (stampsAt stage members)"
    and "0 \<le> width (stampsAt stage members) \<and> width (stampsAt stage members) < 2 ^ 53"
proof -
  show "sint (spread members stage) = width (stampsAt stage members)"
    using assms by (intro spread_width) (auto simp: stampsAt_def list_all_iff)
  show "0 \<le> width (stampsAt stage members) \<and> width (stampsAt stage members) < 2 ^ 53"
  proof (cases "stampsAt stage members = []")
    case False
    then have "Min (set (stampsAt stage members)) \<in> set (stampsAt stage members)"
      "Max (set (stampsAt stage members)) \<in> set (stampsAt stage members)" by simp_all
    moreover have "\<forall>x \<in> set (stampsAt stage members). 0 \<le> x \<and> x < 2 ^ 53"
      using assms by (simp add: stampsAt_def)
    ultimately have "0 \<le> Min (set (stampsAt stage members))" "Max (set (stampsAt stage members)) < 2 ^ 53"
      by blast+
    moreover have "width (stampsAt stage members) = Max (set (stampsAt stage members)) - Min (set (stampsAt stage members))"
      using False by (simp add: width_def)
    ultimately show ?thesis using width_nonneg [of "stampsAt stage members"] by linarith
  qed (simp add: width_def)
qed

lemma cohortDispatchDefects_Nil:
  assumes "\<forall>m \<in> set members. \<forall>s \<in> {StageAdapterRecv, StageAdapterDispatch}.
      0 \<le> sint (fst (joinedStage m s)) \<and> sint (fst (joinedStage m s)) < 2 ^ 53"
  shows "cohortDispatchDefects c members = [] \<longleftrightarrow> length members < 2
     \<or> width (stampsAt StageAdapterRecv members) < 20000
     \<or> width (stampsAt StageAdapterRecv members) \<le> 4 * width (stampsAt StageAdapterDispatch members)"
proof -
  let ?cd = "cohortDispatch c members"
  have a: "sint (cdArrivalSpreadNanos ?cd) = width (stampsAt StageAdapterRecv members)"
      "\<bar>width (stampsAt StageAdapterRecv members)\<bar> < 2 ^ 53"
    using spread_of_clock [of members StageAdapterRecv] assms by (simp_all add: cohortDispatch_def)
  have d: "sint (cdDispatchSpreadNanos ?cd) = width (stampsAt StageAdapterDispatch members)"
      "\<bar>width (stampsAt StageAdapterDispatch members)\<bar> < 2 ^ 53"
    using spread_of_clock [of members StageAdapterDispatch] assms by (simp_all add: cohortDispatch_def)
  have "collapsed ?cd \<longleftrightarrow>
      4 * width (stampsAt StageAdapterDispatch members) < width (stampsAt StageAdapterRecv members)"
    using collapsed_iff [of ?cd] a d by simp
  moreover have "cdArrivalSpreadNanos ?cd <s minArrivalSpreadNanos \<longleftrightarrow> width (stampsAt StageAdapterRecv members) < 20000"
    using a(1) by (simp add: clock_simps minArrivalSpreadNanos_def)
  ultimately show ?thesis by (auto simp: cohortDispatchDefects_def Let_def)
qed

text \<open>
  Dispatch on arrival. On clocks below \<open>2^53\<close> nanoseconds (where binary64 is exact), the
  check passes at a cell with an adapter and without aggregation exactly when no member waited
  longer than a positive bound between arriving at the adapter and leaving it, and no cohort of
  at least two members that arrived over 20000 nanoseconds or more left within less than a
  quarter of that; cells without an adapter and aggregating cells pass, a cell without a
  topology does not.
\<close>

theorem checkAdapterDispatch_accepts:
  assumes "list_all (\<lambda>(req, j). list_all (\<lambda>s. 0 \<le> sint (fst (joinedStage j s))
      \<and> sint (fst (joinedStage j s)) < 2 ^ 53) [StageAdapterRecv, StageAdapterDispatch]) (Join records)"
  shows "ckPassed (checkAdapterDispatch xp (Join records)) \<longleftrightarrow>
    (case TopologyMask (exCell xp) of Inl _ \<Rightarrow> False
     | Inr topology \<Rightarrow> \<not> mask_Has topology StageAdapterRecv \<or> AggregatesEnvelopes (exCell xp)
         \<or> list_all (\<lambda>(req, j).
             (sint (exMaxAdapterDispatchWaitNanos xp) \<le> 0
              \<or> sint (fst (joinedStage j StageAdapterDispatch)) - sint (fst (joinedStage j StageAdapterRecv))
                  \<le> sint (exMaxAdapterDispatchWaitNanos xp))
             \<and> (let members = map snd (filter (\<lambda>(r, k). Cohort r = Cohort req) (dispatched (Join records))) in
                length members < 2 \<or> width (stampsAt StageAdapterRecv members) < 20000
                \<or> width (stampsAt StageAdapterRecv members) \<le> 4 * width (stampsAt StageAdapterDispatch members)))
             (dispatched (Join records)))"
proof -
  let ?D = "dispatched (Join records)"
  let ?ms = "\<lambda>req. map snd (filter (\<lambda>(r, k). Cohort r = Cohort req) ?D)"
  have clock: "\<forall>s \<in> {StageAdapterRecv, StageAdapterDispatch}. 0 \<le> sint (fst (joinedStage (snd x) s))
      \<and> sint (fst (joinedStage (snd x) s)) < 2 ^ 53" if "x \<in> set ?D" for x
    using that assms entries_set [OF distinct_Join] by (auto simp: dispatched_def list_all_iff)
  have joint: "cohortDispatchDefects (Cohort req) (?ms req) = [] \<longleftrightarrow>
      length (?ms req) < 2 \<or> width (stampsAt StageAdapterRecv (?ms req)) < 20000
      \<or> width (stampsAt StageAdapterRecv (?ms req)) \<le> 4 * width (stampsAt StageAdapterDispatch (?ms req))" for req
    by (rule cohortDispatchDefects_Nil) (use clock in auto)
  have wait: "sint (waitOf (snd x)) = sint (fst (joinedStage (snd x) StageAdapterDispatch))
      - sint (fst (joinedStage (snd x) StageAdapterRecv))" if "x \<in> set ?D" for x
    unfolding waitOf_def using clock [OF that] by (intro sint_diff_nonneg) (auto simp: nonneg64_def)
  show ?thesis
  proof (cases "TopologyMask (exCell xp)")
    case (Inl e)
    then show ?thesis by (simp add: checkAdapterDispatch_def)
  next
    case (Inr topology)
    show ?thesis
    proof (cases "\<not> mask_Has topology StageAdapterRecv \<or> AggregatesEnvelopes (exCell xp)")
      case True
      then show ?thesis by (auto simp: checkAdapterDispatch_def Inr)
    next
      case False
      let ?G = "group_by (\<lambda>(req, j). Cohort req) snd ?D"
      have g: "concat (map (\<lambda>c. cohortDispatchDefects c (group_get ?G c)) (sort (map fst ?G))) = [] \<longleftrightarrow>
          (\<forall>x \<in> set ?D. cohortDispatchDefects (Cohort (fst x)) (?ms (fst x)) = [])"
        unfolding groups_check by (simp add: case_prod_unfold)
      have w: "concat (map (\<lambda>(req, j).
              if 0 <s exMaxAdapterDispatchWaitNanos xp \<and> exMaxAdapterDispatchWaitNanos xp <s waitOf j
              then [requestDefect DefectAdapterWaiting req] else []) ?D) = [] \<longleftrightarrow>
          (\<forall>x \<in> set ?D. \<not> (0 <s exMaxAdapterDispatchWaitNanos xp \<and> exMaxAdapterDispatchWaitNanos xp <s waitOf (snd x)))"
        unfolding concat_map_Nil by (simp add: list_all_iff split_beta)
      have "ckPassed (checkAdapterDispatch xp (Join records)) \<longleftrightarrow>
          (\<forall>x \<in> set ?D. \<not> (0 <s exMaxAdapterDispatchWaitNanos xp \<and> exMaxAdapterDispatchWaitNanos xp <s waitOf (snd x)))
          \<and> (\<forall>x \<in> set ?D. cohortDispatchDefects (Cohort (fst x)) (?ms (fst x)) = [])"
        using False
        by (simp only: checkAdapterDispatch_def Inr sum.case Let_def if_False de_Morgan_disj not_not simp_thms
          check_fields append_is_Nil_conv g w)
      also have "\<dots> \<longleftrightarrow> (\<forall>x \<in> set ?D.
            (sint (exMaxAdapterDispatchWaitNanos xp) \<le> 0
              \<or> sint (fst (joinedStage (snd x) StageAdapterDispatch)) - sint (fst (joinedStage (snd x) StageAdapterRecv))
                  \<le> sint (exMaxAdapterDispatchWaitNanos xp))
            \<and> (length (?ms (fst x)) < 2 \<or> width (stampsAt StageAdapterRecv (?ms (fst x))) < 20000
               \<or> width (stampsAt StageAdapterRecv (?ms (fst x))) \<le> 4 * width (stampsAt StageAdapterDispatch (?ms (fst x)))))"
        unfolding joint using wait by (force simp: clock_simps)
      finally show ?thesis using False by (simp add: Inr list_all_iff split_beta Let_def)
    qed
  qed
qed

theorem checkAdapterDispatch_accepts_witness:
  "ckPassed (checkAdapterDispatch (sampleExpectation CellF00) (Join
     [stamped EmitterAdapter 4 0 [(StageAdapterRecv, 100), (StageAdapterDispatch, 110)],
      stamped EmitterAdapter 4 1 [(StageAdapterRecv, 50000), (StageAdapterDispatch, 50100)]]))"
  by (rule iffD2 [OF checkAdapterDispatch_accepts]) code_simp+

section \<open>What a release is judged on\<close>

text \<open>The members of one envelope, in the order of their requests.\<close>

definition releaseMembers :: "joined_map \<Rightarrow> EnvelopeID \<Rightarrow> Joined list" where
  "releaseMembers joined i = map snd (filter (\<lambda>(r, k). jEnvelopeID k = i) (entries joined))"

lemma judgeRelease_Nil:
  assumes "0 <s exMaxDispatchSkewNanos xp"
    and "\<forall>m \<in> set members. 0 \<le> sint (fst (joinedStage m StageAdapterDispatch))"
  shows "snd (judgeRelease xp i members) = [] \<longleftrightarrow>
    (case releaseEvidence members of None \<Rightarrow> False
     | Some e \<Rightarrow> unat (Dispatched e) = length members
         \<and> sint (SkewNanos e) = width (stampsAt StageAdapterDispatch members)
         \<and> width (stampsAt StageAdapterDispatch members) \<le> sint (exMaxDispatchSkewNanos xp)
         \<and> (length members \<le> 1 \<or> submissionsOverlapped members))"
proof (cases "releaseEvidence members")
  case None
  then show ?thesis by (simp add: judgeRelease_def Let_def)
next
  case (Some e)
  have w: "sint (spread members StageAdapterDispatch) = width (stampsAt StageAdapterDispatch members)"
    using assms(2) by (intro spread_width) (auto simp: stampsAt_def list_all_iff)
  have "SkewNanos e = spread members StageAdapterDispatch \<longleftrightarrow>
      sint (SkewNanos e) = width (stampsAt StageAdapterDispatch members)"
    unfolding w [symmetric] by (metis signed_word_eqI)
  then show ?thesis
    using assms(1) w
    by (auto simp: judgeRelease_def releaseOf_def Let_def Some clock_simps not_less)
qed

lemma checkFanOut_judged:
  assumes "TopologyMask (exCell xp) = Inr topology" and "mask_Has topology StageAdapterDispatch"
    and "0 <s exMaxDispatchSkewNanos xp"
  shows "ckPassed (snd (checkFanOut xp (Join records))) \<longleftrightarrow>
    (\<forall>(req, j) \<in> set (Join records). jEnvelopeID j \<noteq> 0 \<longrightarrow>
       foreignEvidence (req, j) = [] \<and> snd (judgeRelease xp (jEnvelopeID j) (releaseMembers (Join records) (jEnvelopeID j))) = [])"
proof -
  let ?C = "filter (\<lambda>(req, j). jEnvelopeID j \<noteq> 0) (entries (Join records))"
  let ?G = "group_by (\<lambda>(req, j). jEnvelopeID j) snd ?C"
  have ms: "map snd (filter (\<lambda>y. jEnvelopeID (snd y) = jEnvelopeID (snd x)) ?C) = releaseMembers (Join records) (jEnvelopeID (snd x))"
    if "x \<in> set ?C" for x
    using that by (auto simp: releaseMembers_def case_prod_unfold intro!: arg_cong [of _ _ "map snd"] filter_cong)
  have "concat (map (\<lambda>i. snd (judgeRelease xp i (group_get ?G i))) (sort (map fst ?G))) = [] \<longleftrightarrow>
      (\<forall>x \<in> set ?C. snd (judgeRelease xp (jEnvelopeID (snd x)) (releaseMembers (Join records) (jEnvelopeID (snd x)))) = [])"
    unfolding groups_check [of "\<lambda>i ms. snd (judgeRelease xp i ms)"] using ms by (simp add: case_prod_unfold)
  moreover have "concat (map foreignEvidence ?C) = [] \<longleftrightarrow> (\<forall>x \<in> set ?C. foreignEvidence x = [])"
    unfolding concat_map_Nil list_all_iff ..
  moreover have "\<not> exMaxDispatchSkewNanos xp \<le>s 0" using assms(3) by (simp add: clock_simps)
  ultimately have "ckPassed (snd (checkFanOut xp (Join records))) \<longleftrightarrow> (\<forall>x \<in> set ?C. foreignEvidence x = []
      \<and> snd (judgeRelease xp (jEnvelopeID (snd x)) (releaseMembers (Join records) (jEnvelopeID (snd x)))) = [])"
    using assms(1,2)
    by (simp only: checkFanOut_def assms(1) sum.case Let_def not_True_eq_False if_False simp_thms snd_conv
        check_fields append_is_Nil_conv map_map o_def ball_conj_distrib)
  then show ?thesis by (auto simp: entries_set [OF distinct_Join])
qed

text \<open>
  The fan-out check accepts exactly the evidence it describes: at a cell with an adapter
  and a positive bound, and on clocks that do not go negative, a run passes exactly when, for
  every request that travelled in an envelope, only the adapter claims a fan-out, and the
  adapter's account of that envelope declares as many members as carry it, reports as skew
  exactly the width of their submission instants, which is within the bound, and members of a
  release of two or more overlapped.
\<close>

theorem checkFanOut_accepts:
  assumes "case TopologyMask (exCell xp) of Inl _ \<Rightarrow> False | Inr topology \<Rightarrow> mask_Has topology StageAdapterDispatch"
    and "0 < sint (exMaxDispatchSkewNanos xp)"
    and "list_all (\<lambda>(req, j). 0 \<le> sint (fst (joinedStage j StageAdapterDispatch))) (Join records)"
  shows "ckPassed (snd (checkFanOut xp (Join records))) \<longleftrightarrow>
    list_all (\<lambda>(req, j). jEnvelopeID j = 0 \<or>
      list_all (\<lambda>(emitter, _). emitter = EmitterAdapter) (jDispatchBySource j)
      \<and> (let members = releaseMembers (Join records) (jEnvelopeID j);
             instants = stampsAt StageAdapterDispatch members
         in case releaseEvidence members of None \<Rightarrow> False
            | Some e \<Rightarrow> unat (Dispatched e) = length members \<and> sint (SkewNanos e) = width instants
                \<and> width instants \<le> sint (exMaxDispatchSkewNanos xp)
                \<and> (length members \<le> 1 \<or> submissionsOverlapped members))) (Join records)"
proof -
  obtain topology where t: "TopologyMask (exCell xp) = Inr topology" "mask_Has topology StageAdapterDispatch"
    using assms(1) by (auto split: sum.splits)
  have b: "0 <s exMaxDispatchSkewNanos xp" using assms(2) by (simp add: clock_simps)
  have m: "\<forall>m \<in> set (releaseMembers (Join records) i). 0 \<le> sint (fst (joinedStage m StageAdapterDispatch))" for i
    using assms(3) by (auto simp: releaseMembers_def entries_set [OF distinct_Join] list_all_iff)
  have f: "foreignEvidence (req, j) = [] \<longleftrightarrow> list_all (\<lambda>(emitter, _). emitter = EmitterAdapter) (jDispatchBySource j)" for req j
    unfolding foreignEvidence_def prod.case concat_map_Nil by (simp add: list_all_iff case_prod_unfold)
  show ?thesis
    unfolding checkFanOut_judged [OF t b] judgeRelease_Nil [OF b m] f by (auto simp: list_all_iff Let_def)
qed

text \<open>A record of one member of a release of two, submitted 40 nanoseconds apart.\<close>

definition released :: "Ordinal \<Rightarrow> int64 \<Rightarrow> int64 \<Rightarrow> Decoded" where
  "released ord start finish =
     (let d = stamped EmitterAdapter 4 ord [(StageAdapterDispatch, start), (StageAdapterResult, finish)]
      in d\<lparr>dRecord := SetDispatch \<lparr>Dispatched = 2, SkewNanos = 40, CPUNanos = 900, CPUScope = CPUScopeProcess\<rparr>
             ((dRecord d)\<lparr>rEnvelopeID := 7\<rparr>)\<rparr>)"

theorem checkFanOut_accepts_witness:
  "ckPassed (snd (checkFanOut (sampleExpectation CellF10) (Join [released 0 100 600, released 1 140 700])))"
  by (rule iffD2 [OF checkFanOut_accepts]) code_simp+

section \<open>A release is continuously in flight\<close>

lemma chain_in_flight:
  fixes ws :: "(int64 \<times> int64) list"
  assumes "\<forall>i. Suc i < length ws \<longrightarrow> sint (fst (ws ! Suc i)) < sint (snd (ws ! i))"
    and "ws \<noteq> []" and "sint (fst (hd ws)) \<le> t" and "\<exists>w \<in> set ws. t < sint (snd w)"
  shows "\<exists>w \<in> set ws. sint (fst w) \<le> t \<and> t < sint (snd w)"
  using assms
proof (induction ws)
  case (Cons v ws)
  show ?case
  proof (cases "t < sint (snd v)")
    case False
    then obtain w where w: "w \<in> set ws" "t < sint (snd w)" using Cons.prems(4) by auto
    then have ne: "ws \<noteq> []" by auto
    have "sint (fst (hd ws)) < sint (snd v)" using Cons.prems(1) ne by (auto simp: hd_conv_nth dest: spec [of _ 0])
    then have "sint (fst (hd ws)) \<le> t" using False by simp
    moreover have "\<forall>i. Suc i < length ws \<longrightarrow> sint (fst (ws ! Suc i)) < sint (snd (ws ! i))"
      using Cons.prems(1) by fastforce
    ultimately show ?thesis using Cons.IH ne w by auto
  qed (use Cons.prems in auto)
qed simp

lemma submissionWindows_set:
  "w \<in> set (submissionWindows members) \<longleftrightarrow> (\<exists>m \<in> set members.
     snd (joinedStage m StageAdapterDispatch) \<and> snd (joinedStage m StageAdapterResult)
     \<and> w = (fst (joinedStage m StageAdapterDispatch), fst (joinedStage m StageAdapterResult)))"
  unfolding submissionWindows_def
  by (induction members) (auto simp: map_filter_simps Let_def split_beta split: option.splits if_splits)

lemma submissionsOverlapped_flight:
  assumes "submissionsOverlapped members" and "v \<in> set (submissionWindows members)"
    and "u \<in> set (submissionWindows members)" and "sint (fst v) \<le> t" and "t < sint (snd u)"
  shows "\<exists>w \<in> set (submissionWindows members). sint (fst w) \<le> t \<and> t < sint (snd w)"
proof (cases "length (submissionWindows members) < 2")
  case True
  then have "u = v" using assms(2,3) by (cases "submissionWindows members") (auto simp: less_Suc_eq)
  then show ?thesis using assms by blast
next
  case False
  let ?ws = "sort_key (\<lambda>(start, finish). sint start) (submissionWindows members)"
  have len: "length ?ws = length (submissionWindows members)" and set: "set ?ws = set (submissionWindows members)" by simp_all
  have over: "\<forall>i. Suc i < length ?ws \<longrightarrow> sint (fst (?ws ! Suc i)) < sint (snd (?ws ! i))"
  proof (intro allI impI)
    fix i assume "Suc i < length ?ws"
    then have m: "Suc i \<in> set [1 ..< length ?ws]" by simp
    have "\<not> list_ex (\<lambda>i. snd (?ws ! (i - 1)) \<le>s fst (?ws ! i)) [1 ..< length ?ws]"
      using assms(1) False unfolding submissionsOverlapped_def Let_def by simp
    then have "\<not> snd (?ws ! (Suc i - 1)) \<le>s fst (?ws ! Suc i)"
      using m unfolding list_ex_iff by blast
    then show "sint (fst (?ws ! Suc i)) < sint (snd (?ws ! i))" by (simp add: clock_simps not_le)
  qed
  have ne: "?ws \<noteq> []" using assms(2) set by (metis empty_iff list.set(1))
  have "sint (fst (hd ?ws)) \<le> sint (fst v)"
  proof -
    have "sorted (map (\<lambda>(start, finish). sint start) ?ws)" by (rule sorted_map_sort_key)
    then have "\<forall>x \<in> set ?ws. sint (fst (hd ?ws)) \<le> sint (fst x)"
      using ne by (cases ?ws) (auto simp: split_beta)
    then show ?thesis using assms(2) set by blast
  qed
  then show ?thesis using chain_in_flight [OF over ne, of t] assms set by auto
qed

text \<open>
  C17. Members released together were together: in a run that passes the fan-out check at a cell
  with an adapter and a positive bound, take two members of one envelope whose records carry
  both their submission and their result. At every instant from the submission of the one
  until the result of the other, some member of the envelope is in flight, submitted and not
  yet returned.
\<close>

theorem release_in_flight:
  assumes "case TopologyMask (exCell xp) of Inl _ \<Rightarrow> False | Inr topology \<Rightarrow> mask_Has topology StageAdapterDispatch"
    and "0 < sint (exMaxDispatchSkewNanos xp)"
    and "ckPassed (snd (checkFanOut xp (Join records)))"
    and "i \<noteq> 0" and "m \<in> set (releaseMembers (Join records) i)" and "n \<in> set (releaseMembers (Join records) i)"
    and "list_all (\<lambda>k. snd (joinedStage k StageAdapterDispatch) \<and> snd (joinedStage k StageAdapterResult)) [m, n]"
    and "sint (fst (joinedStage m StageAdapterDispatch)) \<le> t" and "t < sint (fst (joinedStage n StageAdapterResult))"
  shows "list_ex (\<lambda>k. snd (joinedStage k StageAdapterDispatch) \<and> snd (joinedStage k StageAdapterResult)
      \<and> sint (fst (joinedStage k StageAdapterDispatch)) \<le> t \<and> t < sint (fst (joinedStage k StageAdapterResult)))
    (releaseMembers (Join records) i)"
proof -
  let ?M = "releaseMembers (Join records) i"
  obtain topology where t: "TopologyMask (exCell xp) = Inr topology" "mask_Has topology StageAdapterDispatch"
    using assms(1) by (auto split: sum.splits)
  have b: "0 <s exMaxDispatchSkewNanos xp" using assms(2) by (simp add: clock_simps)
  obtain req j where rj: "(req, j) \<in> set (Join records)" "jEnvelopeID j = i"
    using assms(5) by (auto simp: releaseMembers_def entries_set [OF distinct_Join])
  then have "snd (judgeRelease xp i ?M) = []"
    using assms(3,4) checkFanOut_judged [OF t b] by auto
  then have over: "length ?M \<le> 1 \<or> submissionsOverlapped ?M"
    by (auto simp: judgeRelease_def releaseOf_def Let_def split: option.splits if_splits)
  have win: "(fst (joinedStage k StageAdapterDispatch), fst (joinedStage k StageAdapterResult)) \<in> set (submissionWindows ?M)"
    if "k \<in> {m, n}" for k
    unfolding submissionWindows_set using that assms(5-7) by auto
  have "submissionsOverlapped ?M"
  proof (cases "length ?M \<le> 1")
    case True
    have "length (submissionWindows ?M) \<le> length ?M"
      unfolding submissionWindows_def by (simp add: List.map_filter_def)
    then show ?thesis using True by (simp add: submissionsOverlapped_def)
  qed (use over in simp)
  then have "\<exists>w \<in> set (submissionWindows ?M). sint (fst w) \<le> t \<and> t < sint (snd w)"
    using submissionsOverlapped_flight [of ?M _ _ t] win [of m] win [of n] assms(8,9) by auto
  then obtain w where "w \<in> set (submissionWindows ?M)" "sint (fst w) \<le> t" "t < sint (snd w)" by blast
  then show ?thesis by (auto simp: list_ex_iff submissionWindows_set)
qed

theorem release_in_flight_witness:
  "list_ex (\<lambda>k. snd (joinedStage k StageAdapterDispatch) \<and> snd (joinedStage k StageAdapterResult)
      \<and> sint (fst (joinedStage k StageAdapterDispatch)) \<le> 650 \<and> 650 < sint (fst (joinedStage k StageAdapterResult)))
    (releaseMembers (Join [released 0 100 600, released 1 140 700]) 7)"
  by (rule release_in_flight [where xp = "sampleExpectation CellF10"
        and m = "releaseMembers (Join [released 0 100 600, released 1 140 700]) 7 ! 0"
        and n = "releaseMembers (Join [released 0 100 600, released 1 140 700]) 7 ! 1"]) code_simp+

section \<open>What the CPU comparison refuses\<close>

lemma ParseCPUScope_names: "ParseCPUScope s = Inr c \<longleftrightarrow> (c, s) \<in> set cpuScopeNames"
  by (auto simp: ParseCPUScope_def cpuScopeNames_def split: if_splits)

lemma scopeOf_loop_Inr:
  "scopeOf_loop found rels = Inr c \<longleftrightarrow>
     (found = None \<longrightarrow> rels \<noteq> []) \<and> (\<forall>f. found = Some f \<longrightarrow> f = c)
     \<and> (\<forall>rel \<in> set rels. ParseCPUScope (rlCPUScope rel) = Inr c)"
  by (induction found rels rule: scopeOf_loop.induct) (auto split: sum.splits option.splits if_splits)

text \<open>
  The adapter's CPU numbers cross a Factor A level only at the dispatch scope: the
  comparison yields a number exactly when both reports have a release and every release of
  either counted one dispatch, and the number is then the difference of the totals (which
  wraps as Go's 64-bit sum does). At the process scope, at mixed scopes, or without evidence,
  it is an error.
\<close>

theorem AdapterCPUAcrossFactorA_refuses:
  "AdapterCPUAcrossFactorA a b = Inr d \<longleftrightarrow>
     foReleases a \<noteq> [] \<and> foReleases b \<noteq> []
     \<and> list_all (\<lambda>rel. rlCPUScope rel = ''dispatch'') (foReleases a @ foReleases b)
     \<and> d = totalCPU a - totalCPU b"
proof -
  have p: "ParseCPUScope s = Inr CPUScopeDispatch \<longleftrightarrow> s = ''dispatch''" for s
    by (auto simp: ParseCPUScope_names cpuScopeNames_def)
  have "AdapterCPUAcrossFactorA a b = Inr d \<longleftrightarrow>
      scopeOf a = Inr CPUScopeDispatch \<and> scopeOf b = Inr CPUScopeDispatch \<and> d = totalCPU a - totalCPU b"
    by (auto simp: AdapterCPUAcrossFactorA_def ComparableAcrossFactorA_def split: sum.splits if_splits)
  then show ?thesis by (auto simp: scopeOf_def scopeOf_loop_Inr p list_all_iff)
qed

end
