(* ===== verification/Executor.thy ===== *)
theory Executor
  imports FanOut
begin

text \<open>
  \<^verbatim>\<open>internal/executor\<close>: what an executor is given and returns, which executor a cell needs,
  and the individual executor (\<^verbatim>\<open>individual.go\<close>), whose goroutines, one per member, are the
  steps of a relation: any goroutine may take its next step, at any clock reading not before
  the last. The submission engine is the environment: it may answer a submission with any
  outcome. \<^verbatim>\<open>getrusage\<close> is the pair of readings around the release. Error prose is not
  modelled, except an engine's own error, which is passed on.
\<close>

section \<open>What an executor is given and returns\<close>

record Dispatch =
  dpModel :: string
  dpMembers :: "LogicalRequest list"

record MemberResult =
  mrMember :: LogicalRequest
  mrMembership :: "UID list"
  mrBatchSize :: int
  mrDataOutBytes :: int
  mrDispatchedAt :: int64
  mrResultAt :: int64
  mrErr :: "string option"

type_synonym ExecResult = "MemberResult list"

definition Failed :: "ExecResult \<Rightarrow> (LogicalRequest \<times> string) option" where
  "Failed r = (case find (\<lambda>m. mrErr m \<noteq> None) r of
     None \<Rightarrow> None | Some m \<Rightarrow> Some (mrMember m, the (mrErr m)))"

section \<open>Which executor a cell needs\<close>

type_synonym Kind = string

abbreviation (input) KindIndividual :: Kind where "KindIndividual \<equiv> ''individual''"
abbreviation (input) KindDynamic :: Kind where "KindDynamic \<equiv> ''dynamic''"
abbreviation (input) KindPreformed :: Kind where "KindPreformed \<equiv> ''preformed''"

definition implementedKinds :: "(Kind \<times> bool) list" where
  "implementedKinds = [(KindIndividual, True)]"

definition Implemented :: "Kind \<Rightarrow> bool" where
  "Implemented k = (case map_of implementedKinds k of None \<Rightarrow> False | Some b \<Rightarrow> b)"

definition SelectKind :: "Cell \<Rightarrow> (Cell \<times> Kind) + Kind" where
  "SelectKind cell =
     (let kind = (if \<not> VectorizesCompute cell then KindIndividual
                  else if PreformsBatch cell then KindPreformed else KindDynamic)
      in if \<not> Implemented kind then Inl (cell, kind) else Inr kind)"

section \<open>The individual executor\<close>

text \<open>What the submission engine answers for one member.\<close>

record SubmitResult =
  srMembership :: "UID list"
  srBatchSize :: int
  srDataOutBytes :: int

datatype goroutine =
    Ready
  | Submitted int64
  | Answered int64 "string + SubmitResult"
  | Finished

record fanout_state =
  fsNow :: int64
  fsGo :: "goroutine list"
  fsResults :: ExecResult

datatype execute_error = NoMembers | NoModel

definition zeroMemberResult :: MemberResult where
  "zeroMemberResult = \<lparr>mrMember = LogicalRequest 0 0, mrMembership = [], mrBatchSize = 0, mrDataOutBytes = 0,
     mrDispatchedAt = 0, mrResultAt = 0, mrErr = None\<rparr>"

text \<open>\<^verbatim>\<open>Execute\<close> up to the goroutines: the guards and the empty results.\<close>

definition executeBegin :: "Dispatch \<Rightarrow> int64 \<Rightarrow> execute_error + fanout_state" where
  "executeBegin d now =
     (if length (dpMembers d) = 0 then Inl NoMembers
      else if dpModel d = [] then Inl NoModel
      else Inr \<lparr>fsNow = now, fsGo = replicate (length (dpMembers d)) Ready,
                fsResults = replicate (length (dpMembers d)) zeroMemberResult\<rparr>)"

definition memberOutcome :: "LogicalRequest \<Rightarrow> int64 \<Rightarrow> int64 \<Rightarrow> string + SubmitResult \<Rightarrow> MemberResult" where
  "memberOutcome member dispatchedAt resultAt answer =
     (let res = zeroMemberResult\<lparr>mrMember := member, mrDispatchedAt := dispatchedAt, mrResultAt := resultAt\<rparr> in
      case answer of
        Inl err \<Rightarrow> res\<lparr>mrErr := Some err\<rparr>
      | Inr out \<Rightarrow> res\<lparr>mrMembership := srMembership out, mrBatchSize := srBatchSize out,
                       mrDataOutBytes := srDataOutBytes out\<rparr>)"

inductive fanout_step :: "LogicalRequest list \<Rightarrow> fanout_state \<Rightarrow> fanout_state \<Rightarrow> bool" for members where
  submit: "i < length (fsGo s) \<Longrightarrow> fsGo s ! i = Ready \<Longrightarrow> fsNow s \<le>s t \<Longrightarrow>
     fanout_step members s (s\<lparr>fsNow := t, fsGo := (fsGo s)[i := Submitted t]\<rparr>)"
| answer: "i < length (fsGo s) \<Longrightarrow> fsGo s ! i = Submitted t \<Longrightarrow>
     fanout_step members s (s\<lparr>fsGo := (fsGo s)[i := Answered t outcome]\<rparr>)"
| finish: "i < length (fsGo s) \<Longrightarrow> fsGo s ! i = Answered t outcome \<Longrightarrow> fsNow s \<le>s t' \<Longrightarrow>
     fanout_step members s (s\<lparr>fsNow := t', fsGo := (fsGo s)[i := Finished],
       fsResults := (fsResults s)[i := memberOutcome (members ! i) t t' outcome]\<rparr>)"

text \<open>\<^verbatim>\<open>wg.Wait\<close> returns when every goroutine is done.\<close>

definition waited :: "fanout_state \<Rightarrow> bool" where
  "waited s \<longleftrightarrow> list_all (\<lambda>g. g = Finished) (fsGo s)"

definition skewStep :: "int64 \<times> int64 \<Rightarrow> MemberResult \<Rightarrow> int64 \<times> int64" where
  "skewStep = (\<lambda>(first, final) r.
     (if mrDispatchedAt r <s first then mrDispatchedAt r else first,
      if final <s mrDispatchedAt r then mrDispatchedAt r else final))"

definition dispatchSkew :: "ExecResult \<Rightarrow> int64" where
  "dispatchSkew results =
     (if length results < 2 then 0
      else
        let (first, final) = foldl skewStep
              (mrDispatchedAt (results ! 0), mrDispatchedAt (results ! 0)) (drop 1 results)
        in final - first)"

definition executeEnd :: "Dispatch \<Rightarrow> int64 \<Rightarrow> int64 \<Rightarrow> fanout_state \<Rightarrow> ExecResult \<times> DispatchEvidence" where
  "executeEnd d cpuStart cpuEnd s =
     (fsResults s, \<lparr>Dispatched = of_nat (length (dpMembers d)), SkewNanos = dispatchSkew (fsResults s),
        CPUNanos = cpuEnd - cpuStart, CPUScope = CPUScopeProcess\<rparr>)"

text \<open>\<^verbatim>\<open>timevalNanos\<close>, int64 arithmetic.\<close>

definition timevalNanos :: "int64 \<Rightarrow> int64 \<Rightarrow> int64" where
  "timevalNanos sec usec = sec * 1000000000 + usec * 1000"

text \<open>A run of the fan-out: from the guards to a state in which every goroutine is done.\<close>

definition fanout_run :: "Dispatch \<Rightarrow> int64 \<Rightarrow> fanout_state \<Rightarrow> bool" where
  "fanout_run d now s \<longleftrightarrow> (case executeBegin d now of Inl _ \<Rightarrow> False
     | Inr s0 \<Rightarrow> (fanout_step (dpMembers d))\<^sup>*\<^sup>* s0 s)"

section \<open>Whatever the goroutines' order\<close>

inductive_cases fanout_stepE: "fanout_step members s s'"

text \<open>A goroutine's progress and the clock agree, and a finished one left its member's result.\<close>

definition goroutine_ok :: "int64 \<Rightarrow> int64 \<Rightarrow> LogicalRequest \<Rightarrow> goroutine \<Rightarrow> MemberResult \<Rightarrow> bool" where
  "goroutine_ok start now member g r =
     (case g of Ready \<Rightarrow> True
      | Submitted t \<Rightarrow> start \<le>s t \<and> t \<le>s now
      | Answered t _ \<Rightarrow> start \<le>s t \<and> t \<le>s now
      | Finished \<Rightarrow> mrMember r = member \<and> start \<le>s mrDispatchedAt r \<and> mrDispatchedAt r \<le>s mrResultAt r
          \<and> mrResultAt r \<le>s now \<and> (mrErr r \<noteq> None \<longrightarrow> mrMembership r = []))"

definition fanout_inv :: "int64 \<Rightarrow> LogicalRequest list \<Rightarrow> fanout_state \<Rightarrow> bool" where
  "fanout_inv start members s \<longleftrightarrow>
     length (fsGo s) = length members \<and> length (fsResults s) = length members \<and> start \<le>s fsNow s
     \<and> (\<forall>i < length members. goroutine_ok start (fsNow s) (members ! i) (fsGo s ! i) (fsResults s ! i))"

lemma sle_trans64: "a \<le>s b \<Longrightarrow> b \<le>s c \<Longrightarrow> a \<le>s (c :: int64)"
  by (simp add: clock_simps)

lemma goroutine_ok_later:
  "goroutine_ok start now member g r \<Longrightarrow> now \<le>s t \<Longrightarrow> goroutine_ok start t member g r"
  by (auto simp: goroutine_ok_def clock_simps split: goroutine.splits)

lemma memberOutcome_fields [simp]:
  "mrMember (memberOutcome m t t' a) = m" "mrDispatchedAt (memberOutcome m t t' a) = t"
  "mrResultAt (memberOutcome m t t' a) = t'"
  "mrErr (memberOutcome m t t' a) \<noteq> None \<longrightarrow> mrMembership (memberOutcome m t t' a) = []"
  by (simp_all add: memberOutcome_def zeroMemberResult_def Let_def split: sum.splits)

lemma fanout_step_inv:
  assumes "fanout_step members s s'" and "fanout_inv start members s"
  shows "fanout_inv start members s'"
  using assms
proof (cases rule: fanout_step.cases)
  case (submit i t)
  then show ?thesis
    using assms(2) goroutine_ok_later sle_trans64
    by (auto simp: fanout_inv_def nth_list_update goroutine_ok_def [of start t _ "Submitted t"] clock_simps)
next
  case (answer i t outcome)
  then show ?thesis
    using assms(2) by (auto simp: fanout_inv_def nth_list_update goroutine_ok_def dest!: spec [of _ i])
next
  case (finish i t outcome t')
  then have "goroutine_ok start (fsNow s) (members ! i) (Answered t outcome) (fsResults s ! i)"
    using assms(2) by (metis fanout_inv_def)
  then have "goroutine_ok start t' (members ! i) Finished (memberOutcome (members ! i) t t' outcome)"
    using finish by (simp add: goroutine_ok_def clock_simps)
  then show ?thesis
    using finish assms(2) goroutine_ok_later [of start "fsNow s"] sle_trans64 [of start "fsNow s" t']
    by (auto simp: fanout_inv_def nth_list_update)
qed

lemma executeBegin_inv: "executeBegin d now = Inr s \<Longrightarrow> fanout_inv now (dpMembers d) s"
  by (auto simp: executeBegin_def fanout_inv_def goroutine_ok_def clock_simps split: if_splits)

interpretation fanout: step_invariant "\<lambda>s. executeBegin d now = Inr s" "fanout_step (dpMembers d)" "fanout_inv now (dpMembers d)" for d now
  by unfold_locales (auto intro: executeBegin_inv fanout_step_inv)

lemma fanout_run_inv:
  assumes "fanout_run d now s"
  shows "fanout_inv now (dpMembers d) s" and "dpMembers d \<noteq> []"
  using assms by (auto simp: fanout_run_def executeBegin_def split: sum.splits if_splits
      intro: fanout.steps_inv [OF _ executeBegin_inv])

text \<open>Once it is done there is one result per member, in the order the members were given.\<close>

lemma fanout_members:
  assumes "fanout_run d now s" and "waited s"
  shows "map mrMember (fsResults s) = dpMembers d"
  using fanout_run_inv(1) [OF assms(1)] assms(2)
  by (intro nth_equalityI) (auto simp: fanout_inv_def goroutine_ok_def waited_def list_all_length)

text \<open>
  The fan-out ends: every step brings it closer, from \<open>3\<close> steps a goroutine to none, and while a
  goroutine is not done some step is possible.
\<close>

fun remaining :: "goroutine \<Rightarrow> nat" where
  "remaining Ready = 3"
| "remaining (Submitted _) = 2"
| "remaining (Answered _ _) = 1"
| "remaining Finished = 0"

definition pending :: "fanout_state \<Rightarrow> nat" where
  "pending s = sum_list (map remaining (fsGo s))"

lemma pending_update:
  assumes "i < length gs"
  shows "sum_list (map remaining (gs[i := g])) + remaining (gs ! i) = sum_list (map remaining gs) + remaining g"
  using assms by (induction gs arbitrary: i) (auto simp: nth_Cons split: nat.splits)

lemma fanout_step_decreases: "fanout_step members s s' \<Longrightarrow> pending s' < pending s"
proof (induction rule: fanout_step.induct)
  case (submit i s t)
  then show ?case using pending_update [of i "fsGo s" "Submitted t"] by (simp add: pending_def)
next
  case (answer i s t outcome)
  then show ?case using pending_update [of i "fsGo s" "Answered t outcome"] by (simp add: pending_def)
next
  case (finish i s t outcome t')
  then show ?case using pending_update [of i "fsGo s" Finished] by (simp add: pending_def)
qed

lemma fanout_progress:
  assumes "\<not> waited s"
  shows "\<exists>s'. fanout_step members s s'"
proof -
  obtain i where i: "i < length (fsGo s)" "fsGo s ! i \<noteq> Finished"
    using assms by (auto simp: waited_def list_all_length)
  then show ?thesis
  proof (cases "fsGo s ! i")
    case Ready
    then show ?thesis using fanout_step.submit [OF i(1) Ready, of "fsNow s"] by (auto simp: clock_simps)
  next
    case (Submitted t)
    then show ?thesis using fanout_step.answer [OF i(1) Submitted] by blast
  next
    case (Answered t outcome)
    then show ?thesis using fanout_step.finish [OF i(1) Answered, of "fsNow s"] by (auto simp: clock_simps)
  qed simp
qed

interpretation fanout_ends: step_terminates "fanout_step members" pending waited for members
  by unfold_locales (auto intro: fanout_step_decreases fanout_progress)

text \<open>The skew is the width of the submission instants.\<close>

lemma skew_fold:
  assumes "foldl skewStep (a, b) rs = (first, final)"
  shows "sint first = Min (insert (sint a) (set (map (\<lambda>r. sint (mrDispatchedAt r)) rs)))
    \<and> sint final = Max (insert (sint b) (set (map (\<lambda>r. sint (mrDispatchedAt r)) rs)))"
  using assms
proof (induction rs arbitrary: first final rule: rev_induct)
  case (snoc r rs)
  obtain f0 l0 where f: "foldl skewStep (a, b) rs = (f0, l0)"
    by (cases "foldl skewStep (a, b) rs")
  let ?D = "set (map (\<lambda>r. sint (mrDispatchedAt r)) rs)" and ?t = "sint (mrDispatchedAt r)"
  have "sint first = min ?t (sint f0)" "sint final = max ?t (sint l0)"
    using snoc.prems f by (auto simp: skewStep_def clock_simps)
  moreover have "Min (insert (sint a) (insert ?t ?D)) = min ?t (Min (insert (sint a) ?D))"
    "Max (insert (sint b) (insert ?t ?D)) = max ?t (Max (insert (sint b) ?D))"
    unfolding insert_commute [of _ ?t] by (rule Min_insert Max_insert; simp)+
  ultimately show ?case using snoc.IH [OF f] by (simp del: Min_insert Max_insert)
qed simp

lemma dispatchSkew_width:
  assumes "\<forall>r \<in> set results. 0 \<le> sint (mrDispatchedAt r)"
  shows "sint (dispatchSkew results) = width (map (\<lambda>r. sint (mrDispatchedAt r)) results)"
proof -
  consider "results = []" | r where "results = [r]" | r r' rs where "results = r # r' # rs"
    by (metis list.exhaust)
  then show ?thesis
  proof cases
    case 3
    let ?x = "sint (mrDispatchedAt r)" and ?D = "set (map (\<lambda>r. sint (mrDispatchedAt r)) (r' # rs))"
    obtain first final where f: "foldl skewStep
              (mrDispatchedAt r, mrDispatchedAt r) (r' # rs) = (first, final)"
      by (cases "foldl skewStep (mrDispatchedAt r, mrDispatchedAt r) (r' # rs)")
    note s = skew_fold [OF f]
    have "Min (insert ?x ?D) \<in> insert ?x ?D" "Max (insert ?x ?D) \<in> insert ?x ?D"
      by (simp_all only: Min_in Max_in finite_insert List.finite_set insert_not_empty not_False_eq_True)
    then have "nonneg64 first" "nonneg64 final" using s assms 3 by (auto simp: nonneg64_def)
    moreover have "dispatchSkew results = final - first" using f 3 by (simp add: dispatchSkew_def)
    ultimately show ?thesis using s 3 by (simp add: sint_diff_nonneg width_def)
  qed (simp_all add: dispatchSkew_def width_def)
qed

text \<open>
  C25. The individual executor's answer does not depend on its goroutines' order: in whatever
  order the members are submitted and answered, once all are done there is one result per
  member, in the order the members were given, each submitted after the release began and
  returned after it was submitted, a failed one without membership; and the evidence counts
  the members, reports the width of the submission instants as the skew, within the time the
  release took, and is scoped to the process.
\<close>

theorem fanout_results_and_evidence:
  assumes "fanout_run d now s" and "waited s" and "0 \<le> sint now"
  shows "case executeEnd d cpuStart cpuEnd s of (results, evidence) \<Rightarrow>
    map mrMember results = dpMembers d
    \<and> list_all (\<lambda>r. sint now \<le> sint (mrDispatchedAt r) \<and> sint (mrDispatchedAt r) \<le> sint (mrResultAt r)
        \<and> sint (mrResultAt r) \<le> sint (fsNow s) \<and> (mrErr r = None \<or> mrMembership r = [])) results
    \<and> Dispatched evidence = of_nat (length (dpMembers d))
    \<and> sint (SkewNanos evidence) = width (map (\<lambda>r. sint (mrDispatchedAt r)) results)
    \<and> sint (SkewNanos evidence) \<le> sint (fsNow s) - sint now
    \<and> CPUScope evidence = CPUScopeProcess"
proof -
  let ?r = "fsResults s"
  have inv: "fanout_inv now (dpMembers d) s" by (rule fanout_run_inv(1) [OF assms(1)])
  have each: "mrMember (?r ! i) = dpMembers d ! i \<and> sint now \<le> sint (mrDispatchedAt (?r ! i))
      \<and> sint (mrDispatchedAt (?r ! i)) \<le> sint (mrResultAt (?r ! i)) \<and> sint (mrResultAt (?r ! i)) \<le> sint (fsNow s)
      \<and> (mrErr (?r ! i) = None \<or> mrMembership (?r ! i) = [])" if "i < length (dpMembers d)" for i
    using inv assms(2) that by (auto simp: fanout_inv_def goroutine_ok_def waited_def list_all_length clock_simps)
  have len: "length ?r = length (dpMembers d)" using inv by (simp add: fanout_inv_def)
  have all: "\<forall>r \<in> set ?r. sint now \<le> sint (mrDispatchedAt r) \<and> sint (mrDispatchedAt r) \<le> sint (mrResultAt r)
        \<and> sint (mrResultAt r) \<le> sint (fsNow s) \<and> (mrErr r = None \<or> mrMembership r = [])"
    using each len by (metis in_set_conv_nth)
  note members = fanout_members [OF assms(1,2)]
  have skew: "sint (dispatchSkew ?r) = width (map (\<lambda>r. sint (mrDispatchedAt r)) ?r)"
    using all assms(3) by (intro dispatchSkew_width) force
  have "?r \<noteq> []" using len fanout_run_inv(2) [OF assms(1)] by auto
  let ?D = "set (map (\<lambda>r. sint (mrDispatchedAt r)) ?r)"
  have "Min ?D \<in> ?D" "Max ?D \<in> ?D" using \<open>?r \<noteq> []\<close> by (auto intro!: Min_in Max_in)
  then have "sint now \<le> Min ?D" "Max ?D \<le> sint (fsNow s)" using all by fastforce+
  then have "width (map (\<lambda>r. sint (mrDispatchedAt r)) ?r) \<le> sint (fsNow s) - sint now"
    using \<open>?r \<noteq> []\<close> unfolding width_def map_is_Nil_conv by (simp only: if_False)
  then show ?thesis using members skew all by (simp add: executeEnd_def list_all_iff)
qed

text \<open>A release of two whose second member is submitted, and answered, first.\<close>

definition sampleDispatch :: Dispatch where
  "sampleDispatch = \<lparr>dpModel = ''m'', dpMembers = [LogicalRequest 4 0, LogicalRequest 4 1]\<rparr>"

definition sampleAnswer :: "string + SubmitResult" where
  "sampleAnswer = Inr \<lparr>srMembership = [], srBatchSize = 1, srDataOutBytes = 8\<rparr>"

definition sampleDone :: fanout_state where
  "sampleDone = \<lparr>fsNow = 90, fsGo = [Finished, Finished],
     fsResults = [memberOutcome (LogicalRequest 4 0) 20 90 sampleAnswer, memberOutcome (LogicalRequest 4 1) 10 50 sampleAnswer]\<rparr>"

lemma sampleDone_run: "fanout_run sampleDispatch 5 sampleDone"
proof -
  let ?step = "fanout_step (dpMembers sampleDispatch)" and ?z = zeroMemberResult
  define s where "s now g0 g1 r0 r1 = \<lparr>fsNow = now, fsGo = [g0, g1], fsResults = [r0, r1]\<rparr>"
    for now :: int64 and g0 g1 r0 r1
  note mem = sampleDispatch_def
  have "?step (s 5 Ready Ready ?z ?z) (s 10 Ready (Submitted 10) ?z ?z)"
    using fanout_step.submit [of 1 "s 5 Ready Ready ?z ?z" 10] by (simp add: s_def clock_simps)
  moreover have "?step (s 10 Ready (Submitted 10) ?z ?z) (s 20 (Submitted 20) (Submitted 10) ?z ?z)"
    using fanout_step.submit [of 0 "s 10 Ready (Submitted 10) ?z ?z" 20] by (simp add: s_def clock_simps)
  moreover have "?step (s 20 (Submitted 20) (Submitted 10) ?z ?z) (s 20 (Submitted 20) (Answered 10 sampleAnswer) ?z ?z)"
    using fanout_step.answer [of 1 "s 20 (Submitted 20) (Submitted 10) ?z ?z" 10] by (simp add: s_def)
  moreover have "?step (s 20 (Submitted 20) (Answered 10 sampleAnswer) ?z ?z)
      (s 50 (Submitted 20) Finished ?z (memberOutcome (LogicalRequest 4 1) 10 50 sampleAnswer))"
    using fanout_step.finish [of 1 "s 20 (Submitted 20) (Answered 10 sampleAnswer) ?z ?z" 10 sampleAnswer 50 "dpMembers sampleDispatch"]
    by (simp add: s_def clock_simps mem)
  moreover have "?step (s 50 (Submitted 20) Finished ?z (memberOutcome (LogicalRequest 4 1) 10 50 sampleAnswer))
      (s 50 (Answered 20 sampleAnswer) Finished ?z (memberOutcome (LogicalRequest 4 1) 10 50 sampleAnswer))"
    using fanout_step.answer [of 0 "s 50 (Submitted 20) Finished ?z (memberOutcome (LogicalRequest 4 1) 10 50 sampleAnswer)" 20]
    by (simp add: s_def)
  moreover have "?step (s 50 (Answered 20 sampleAnswer) Finished ?z (memberOutcome (LogicalRequest 4 1) 10 50 sampleAnswer)) sampleDone"
    using fanout_step.finish [of 0 "s 50 (Answered 20 sampleAnswer) Finished ?z (memberOutcome (LogicalRequest 4 1) 10 50 sampleAnswer)" 20 sampleAnswer 90 "dpMembers sampleDispatch"]
    by (simp add: s_def clock_simps mem sampleDone_def)
  ultimately have "?step\<^sup>*\<^sup>* (s 5 Ready Ready ?z ?z) sampleDone"
    by (meson converse_rtranclp_into_rtranclp rtranclp.rtrancl_refl)
  moreover have "executeBegin sampleDispatch 5 = Inr (s 5 Ready Ready ?z ?z)"
    by (simp add: executeBegin_def s_def mem numeral_2_eq_2)
  ultimately show ?thesis by (simp add: fanout_run_def)
qed

theorem fanout_results_and_evidence_witness:
  "sint (SkewNanos (snd (executeEnd sampleDispatch 0 0 sampleDone))) = 10
   \<and> map mrMember (fst (executeEnd sampleDispatch 0 0 sampleDone)) = dpMembers sampleDispatch"
proof -
  have "waited sampleDone" by (simp add: waited_def sampleDone_def)
  from fanout_results_and_evidence [OF sampleDone_run this, of 0 0]
  have e: "sint (SkewNanos (snd (executeEnd sampleDispatch 0 0 sampleDone)))
      = width (map (\<lambda>r. sint (mrDispatchedAt r)) (fst (executeEnd sampleDispatch 0 0 sampleDone)))"
    "map mrMember (fst (executeEnd sampleDispatch 0 0 sampleDone)) = dpMembers sampleDispatch"
    by (simp_all add: split_beta)
  have "width (map (\<lambda>r. sint (mrDispatchedAt r)) (fst (executeEnd sampleDispatch 0 0 sampleDone))) = 10"
    by (simp add: executeEnd_def sampleDone_def width_def)
  with e show ?thesis by simp
qed

end
