(* ===== verification/Envelope.thy ===== *)
theory Envelope
  imports CodecProofs
begin

text \<open>
  \<^verbatim>\<open>internal/envelope/envelope.go\<close>: the transport message between proxy and adapter, its
  construction, its validation and its byte accounting. \<^verbatim>\<open>proto.Size\<close> is protobuf's and a
  parameter (\<open>psize\<close>); the locale \<open>proto_size\<close> states what the accounting relies on. The
  message types are \<^verbatim>\<open>api/envelope/v1/envelope.proto\<close>. The marshal buffer pool is not
  modelled.
\<close>

section \<open>Messages\<close>

record PbRequest =
  qCohortId :: uint32
  qOrdinal :: uint32
  qUid :: int64
  qPayload :: "byte list"

record RequestEnvelope =
  eSchemaVersion :: uint32
  eExperimentId :: string
  eSessionId :: string
  eRunId :: string
  eCell :: Cell
  eClockDomainId :: string
  eCohortId :: uint32
  eEnvelopeId :: uint64
  eAggregate :: bool
  eVectorize :: bool
  eTargetB :: uint32
  eExpectedMembers :: uint32
  eRequests :: "PbRequest list"
  eTProxySend :: int64
  eTCohortSeal :: "int64 option"
  eLogicalBytes :: uint64
  eAuxiliaryBytes :: uint64

definition envSchemaVersion :: uint32 where "envSchemaVersion = 1"

section \<open>Building\<close>

record Config =
  cfgExperiment :: string
  cfgSession :: string
  cfgRun :: string
  cfgCell :: Cell
  cfgClockDomain :: string
  cfgTargetB :: int

datatype config_error = ConfigNeedsRun | ConfigNeedsCell | ConfigNeedsClockDomain
  | ConfigNeedsTargetB int

definition Config_Validate :: "Config \<Rightarrow> config_error option" where
  "Config_Validate c =
     (if cfgRun c = '''' then Some ConfigNeedsRun
      else if cfgCell c = '''' then Some ConfigNeedsCell
      else if cfgClockDomain c = '''' then Some ConfigNeedsClockDomain
      else if cfgTargetB c \<le> 0 then Some (ConfigNeedsTargetB (cfgTargetB c))
      else None)"

record Builder =
  bldCfg :: Config
  bldNextID :: uint64

definition NewBuilder :: "Config \<Rightarrow> config_error + Builder" where
  "NewBuilder cfg = (case Config_Validate cfg of Some e \<Rightarrow> Inl e
     | None \<Rightarrow> Inr \<lparr>bldCfg = cfg, bldNextID = 0\<rparr>)"

definition base :: "Builder \<Rightarrow> RequestEnvelope \<times> Builder" where
  "base b =
     (let i = bldNextID b + 1 in
      (\<lparr>eSchemaVersion = envSchemaVersion, eExperimentId = cfgExperiment (bldCfg b),
        eSessionId = cfgSession (bldCfg b), eRunId = cfgRun (bldCfg b), eCell = cfgCell (bldCfg b),
        eClockDomainId = cfgClockDomain (bldCfg b), eCohortId = 0, eEnvelopeId = i,
        eAggregate = False, eVectorize = VectorizesCompute (cfgCell (bldCfg b)),
        eTargetB = of_int (cfgTargetB (bldCfg b)), eExpectedMembers = 0, eRequests = [],
        eTProxySend = 0, eTCohortSeal = None, eLogicalBytes = 0, eAuxiliaryBytes = 0\<rparr>,
       b\<lparr>bldNextID := i\<rparr>))"

text \<open>
  The measuring loop need not end for an arbitrary \<open>psize\<close>: not returning is \<open>None\<close>.
\<close>

partial_function (option) accountBytes_loop ::
    "(RequestEnvelope \<Rightarrow> nat) \<Rightarrow> uint64 \<Rightarrow> RequestEnvelope \<Rightarrow> RequestEnvelope option" where
  "accountBytes_loop psize logical env =
     (let auxiliary = of_nat (psize env) - logical in
      if auxiliary = eAuxiliaryBytes env then Some env
      else accountBytes_loop psize logical (env\<lparr>eAuxiliaryBytes := auxiliary\<rparr>))"

definition accountBytes ::
    "(RequestEnvelope \<Rightarrow> nat) \<Rightarrow> uint64 \<Rightarrow> RequestEnvelope \<Rightarrow> RequestEnvelope option" where
  "accountBytes psize logical env =
     accountBytes_loop psize logical (env\<lparr>eLogicalBytes := logical, eAuxiliaryBytes := 0\<rparr>)"

definition pbRequest :: "LogicalRequest \<Rightarrow> byte list \<Rightarrow> PbRequest" where
  "pbRequest m payload = \<lparr>qCohortId = Cohort m, qOrdinal = Ordinal m, qUid = UID m,
     qPayload = payload\<rparr>"

definition Independent :: "(RequestEnvelope \<Rightarrow> nat) \<Rightarrow> Builder \<Rightarrow> LogicalRequest \<Rightarrow> byte list
    \<Rightarrow> int64 \<Rightarrow> (RequestEnvelope \<times> Builder) option" where
  "Independent psize b member payload sentAt =
     (let (env, b') = base b;
          env = env\<lparr>eCohortId := Cohort member, eExpectedMembers := 1, eAggregate := False,
                    eTProxySend := sentAt, eRequests := [pbRequest member payload]\<rparr>
      in map_option (\<lambda>e. (e, b')) (accountBytes psize (of_nat (length payload)) env))"

text \<open>\<^verbatim>\<open>sort.Slice\<close> is not stable; members with equal ordinals are refused afterwards.\<close>

definition canonicalOrder :: "LogicalRequest list \<Rightarrow> nat list" where
  "canonicalOrder members = sort_key (\<lambda>i. Ordinal (members ! i)) [0 ..< length members]"

datatype env_error =
    NilEnvelope
  | WrongSchema uint32
  | WrongRun string
  | WrongCell Cell
  | WrongClockDomain string
  | WrongTargetB uint32
  | WrongAggregate bool
  | WrongVectorize bool
  | MemberCount nat uint32
  | AggregateCount nat
  | AggregateUnsealed
  | IndependentCount nat
  | IndependentSealed
  | WrongUID LogicalRequest
  | OutsideCohort LogicalRequest
  | NoPayload LogicalRequest
  | NotACohort uint32 int "nat list" "nat list" "uint32 list"
  | NotCanonical uint32 uint32
  | PayloadCount nat nat
  | NoMembers
  | MixedCohorts uint32 uint32

definition countOrdinal :: "int \<Rightarrow> nat list \<times> uint32 list \<Rightarrow> PbRequest \<Rightarrow> nat list \<times> uint32 list" where
  "countOrdinal targetB = (\<lambda>(seen, strays) m.
     let ord = qOrdinal m in
     if targetB \<le> int (unat ord) then (seen, strays @ [ord])
     else (seen[unat ord := seen ! unat ord + 1], strays))"

definition checkCohortMembership :: "PbRequest list \<Rightarrow> uint32 \<Rightarrow> int \<Rightarrow> env_error option" where
  "checkCohortMembership members cohort targetB =
     (let (seen, strays) = foldl (countOrdinal targetB) (replicate (nat targetB) 0, []) members;
          missing = filter (\<lambda>ord. seen ! ord = 0) [0 ..< length seen];
          repeated = filter (\<lambda>ord. 1 < seen ! ord) [0 ..< length seen]
      in if repeated = [] \<and> missing = [] \<and> strays = [] then None
         else Some (NotACohort cohort targetB repeated missing strays))"

fun addMembers :: "CohortID \<Rightarrow> LogicalRequest list \<Rightarrow> byte list list \<Rightarrow> PbRequest list \<Rightarrow> uint64
    \<Rightarrow> nat list \<Rightarrow> env_error + PbRequest list \<times> uint64" where
  "addMembers cohort members payloads requests logical [] = Inr (requests, logical)"
| "addMembers cohort members payloads requests logical (i # is) =
     (let m = members ! i in
      if Cohort m \<noteq> cohort then Inl (MixedCohorts cohort (Cohort m))
      else addMembers cohort members payloads (requests @ [pbRequest m (payloads ! i)])
             (logical + of_nat (length (payloads ! i))) is)"

text \<open>The refusals before \<^verbatim>\<open>base\<close> consume no envelope id; the later ones do.\<close>

definition Aggregate :: "(RequestEnvelope \<Rightarrow> nat) \<Rightarrow> Builder \<Rightarrow> LogicalRequest list \<Rightarrow> byte list list
    \<Rightarrow> int64 \<Rightarrow> int64 \<Rightarrow> ((env_error + RequestEnvelope) \<times> Builder) option" where
  "Aggregate psize b members payloads seal sentAt =
     (if length members \<noteq> length payloads
      then Some (Inl (PayloadCount (length members) (length payloads)), b)
      else if length members = 0 then Some (Inl NoMembers, b)
      else
        let cohort = Cohort (members ! 0);
            (env, b') = base b;
            env = env\<lparr>eCohortId := cohort, eExpectedMembers := of_nat (length members),
                      eAggregate := True, eTProxySend := sentAt, eTCohortSeal := Some seal\<rparr>
        in case addMembers cohort members payloads [] 0 (canonicalOrder members) of
             Inl e \<Rightarrow> Some (Inl e, b')
           | Inr (requests, logical) \<Rightarrow>
               let env = env\<lparr>eRequests := requests\<rparr> in
               (case checkCohortMembership requests (eCohortId env) (cfgTargetB (bldCfg b)) of
                  Some e \<Rightarrow> Some (Inl e, b')
                | None \<Rightarrow> map_option (\<lambda>e. (Inr e, b')) (accountBytes psize logical env)))"

section \<open>Validation\<close>

record Expectation =
  xpRun :: string
  xpCell :: Cell
  xpClockDomain :: string
  xpTargetB :: int

definition memberRequest :: "PbRequest \<Rightarrow> LogicalRequest" where
  "memberRequest m = LogicalRequest (qCohortId m) (qOrdinal m)"

fun checkMembers :: "uint32 \<Rightarrow> PbRequest list \<Rightarrow> env_error option" where
  "checkMembers cohort [] = None"
| "checkMembers cohort (m # ms) =
     (let req = memberRequest m in
      if qUid m \<noteq> UID req then Some (WrongUID req)
      else if qCohortId m \<noteq> cohort then Some (OutsideCohort req)
      else if length (qPayload m) = 0 then Some (NoPayload req)
      else checkMembers cohort ms)"

fun checkCanonicalOrder :: "PbRequest list \<Rightarrow> env_error option" where
  "checkCanonicalOrder (p # m # ms) =
     (if qOrdinal m \<le> qOrdinal p then Some (NotCanonical (qOrdinal m) (qOrdinal p))
      else checkCanonicalOrder (m # ms))"
| "checkCanonicalOrder ms = None"

definition checkShape :: "RequestEnvelope \<Rightarrow> Expectation \<Rightarrow> env_error option" where
  "checkShape env xp =
     (let members = eRequests env in
      if length members \<noteq> unat (eExpectedMembers env)
      then Some (MemberCount (length members) (eExpectedMembers env))
      else if eAggregate env
      then if int (length members) \<noteq> xpTargetB xp then Some (AggregateCount (length members))
           else if eTCohortSeal env = None then Some AggregateUnsealed
           else None
      else if length members \<noteq> 1 then Some (IndependentCount (length members))
      else if eTCohortSeal env \<noteq> None then Some IndependentSealed
      else None)"

definition Validate :: "RequestEnvelope option \<Rightarrow> Expectation \<Rightarrow> env_error option" where
  "Validate env0 xp =
     (case env0 of None \<Rightarrow> Some NilEnvelope
      | Some env \<Rightarrow>
          if eSchemaVersion env \<noteq> envSchemaVersion then Some (WrongSchema (eSchemaVersion env))
          else if eRunId env \<noteq> xpRun xp then Some (WrongRun (eRunId env))
          else if eCell env \<noteq> xpCell xp then Some (WrongCell (eCell env))
          else if eClockDomainId env \<noteq> xpClockDomain xp then Some (WrongClockDomain (eClockDomainId env))
          else if int (unat (eTargetB env)) \<noteq> xpTargetB xp then Some (WrongTargetB (eTargetB env))
          else if eAggregate env \<noteq> AggregatesEnvelopes (xpCell xp) then Some (WrongAggregate (eAggregate env))
          else if eVectorize env \<noteq> VectorizesCompute (xpCell xp) then Some (WrongVectorize (eVectorize env))
          else case checkShape env xp of Some e \<Rightarrow> Some e
          | None \<Rightarrow>
              (case checkMembers (eCohortId env) (eRequests env) of Some e \<Rightarrow> Some e
               | None \<Rightarrow>
                   (case (if eAggregate env
                          then checkCohortMembership (eRequests env) (eCohortId env) (xpTargetB xp)
                          else None) of
                      Some e \<Rightarrow> Some e
                    | None \<Rightarrow> checkCanonicalOrder (eRequests env))))"

definition Members :: "RequestEnvelope \<Rightarrow> LogicalRequest list" where
  "Members env = map memberRequest (eRequests env)"

definition WireBytes :: "(RequestEnvelope \<Rightarrow> nat) \<Rightarrow> RequestEnvelope \<Rightarrow> nat" where
  "WireBytes psize env = psize env"

section \<open>The size interface\<close>

text \<open>
  What the accounting relies on in \<^verbatim>\<open>proto.Size\<close>, all of it protobuf's wire format: the
  counter's own field costs a two-byte tag and a varint, and nothing when it is 0, and
  the payload bytes are part of the message.
\<close>

definition counter_size :: "uint64 \<Rightarrow> nat" where
  "counter_size a = (if a = 0 then 0 else 2 + varintLen a)"

definition payload_bytes :: "PbRequest list \<Rightarrow> nat" where
  "payload_bytes ms = sum_list (map (length \<circ> qPayload) ms)"

lemma counter_size_le: "counter_size a \<le> 12"
  using length_varint_le_10 [of a] by (simp add: counter_size_def varintLen_eq)

lemma varint_mono: "a \<le> b \<Longrightarrow> length (varint a) \<le> length (varint b)"
proof (induction a arbitrary: b rule: varint_induct)
  case (1 a)
  show ?case
  proof (cases "0x80 \<le> a")
    case True
    with 1 have "0x80 \<le> b" by (meson order_trans)
    moreover have "drop_bit 7 a \<le> drop_bit 7 b"
      using 1(2) by (simp add: word_le_nat_alt unat_drop_bit7 div_le_mono)
    ultimately show ?thesis
      using 1(1) [OF True] True by (subst (1 2) varint_rec) simp
  next
    case False
    have "length (varint a) = 1" by (subst varint_rec) (simp add: False)
    moreover have "0 < length (varint b)" by simp
    ultimately show ?thesis by linarith
  qed
qed

lemma counter_size_mono: "(a :: uint64) \<le> b \<Longrightarrow> counter_size a \<le> counter_size b"
  using varint_mono [of a b] by (auto simp: counter_size_def varintLen_eq word_le_nat_alt word_unat_eq_iff)

locale proto_size =
  fixes psize :: "RequestEnvelope \<Rightarrow> nat"
  assumes counter: "psize (env\<lparr>eAuxiliaryBytes := a\<rparr>)
      = psize (env\<lparr>eAuxiliaryBytes := 0\<rparr>) + counter_size a"
    and payloads: "payload_bytes (eRequests env) \<le> psize (env\<lparr>eAuxiliaryBytes := 0\<rparr>)"
begin

text \<open>
  The loop only ever raises the counter, and only to \<open>k\<close> plus the at most twelve bytes the
  counter itself costs.
\<close>

lemma loop_terminates:
  assumes l: "unat logical \<le> psize (env\<lparr>eAuxiliaryBytes := 0\<rparr>)"
    and small: "psize (env\<lparr>eAuxiliaryBytes := 0\<rparr>) < 2 ^ 62"
    and up: "unat a \<le> psize (env\<lparr>eAuxiliaryBytes := 0\<rparr>) - unat logical + counter_size a"
  shows "\<exists>a'. accountBytes_loop psize logical (env\<lparr>eAuxiliaryBytes := a\<rparr>)
        = Some (env\<lparr>eAuxiliaryBytes := a'\<rparr>)
     \<and> unat logical + unat a' = psize (env\<lparr>eAuxiliaryBytes := a'\<rparr>)"
  using up
proof (induction "psize (env\<lparr>eAuxiliaryBytes := 0\<rparr>) - unat logical + 12 - unat a"
    arbitrary: a rule: less_induct)
  case less
  let ?k = "psize (env\<lparr>eAuxiliaryBytes := 0\<rparr>) - unat logical"
  let ?aux = "of_nat (psize (env\<lparr>eAuxiliaryBytes := a\<rparr>)) - logical"
  have cs: "counter_size a \<le> 12" by (rule counter_size_le)
  have "unat (of_nat (psize (env\<lparr>eAuxiliaryBytes := a\<rparr>)) :: uint64) = psize (env\<lparr>eAuxiliaryBytes := a\<rparr>)"
    unfolding counter [of a env] using small cs by (intro unat_of_nat64) simp
  then have aux: "unat ?aux = ?k + counter_size a"
    using l by (subst unat_sub) (simp_all add: word_le_nat_alt counter [of a env])
  show ?case
  proof (cases "?aux = a")
    case True
    then have "accountBytes_loop psize logical (env\<lparr>eAuxiliaryBytes := a\<rparr>)
        = Some (env\<lparr>eAuxiliaryBytes := a\<rparr>)"
      by (subst accountBytes_loop.simps) (simp add: Let_def)
    moreover have "unat logical + unat a = psize (env\<lparr>eAuxiliaryBytes := a\<rparr>)"
      using aux True l by (simp add: counter [of a env])
    ultimately show ?thesis by blast
  next
    case False
    then have "unat ?aux \<noteq> unat a" by (simp add: word_unat_eq_iff)
    then have grow: "unat a < unat ?aux" using less.prems aux by simp
    then have "counter_size a \<le> counter_size ?aux"
      by (intro counter_size_mono) (simp add: word_le_nat_alt)
    with aux have up': "unat ?aux \<le> ?k + counter_size ?aux" by simp
    have dec: "?k + 12 - unat ?aux < ?k + 12 - unat a" using grow aux cs by linarith
    have "accountBytes_loop psize logical (env\<lparr>eAuxiliaryBytes := a\<rparr>)
        = accountBytes_loop psize logical (env\<lparr>eAuxiliaryBytes := ?aux\<rparr>)"
      by (subst accountBytes_loop.simps) (use False in \<open>simp add: Let_def\<close>)
    with less.hyps [OF dec up'] show ?thesis by simp
  qed
qed

lemma accountBytes_partition:
  assumes "logical = of_nat (payload_bytes (eRequests env))"
    and "psize (env\<lparr>eLogicalBytes := logical, eAuxiliaryBytes := 0\<rparr>) < 2 ^ 62"
  shows "\<exists>a. accountBytes psize logical env
        = Some (env\<lparr>eLogicalBytes := logical, eAuxiliaryBytes := a\<rparr>)
     \<and> unat logical = payload_bytes (eRequests env)
     \<and> unat logical + unat a = psize (env\<lparr>eLogicalBytes := logical, eAuxiliaryBytes := a\<rparr>)"
proof -
  let ?e = "env\<lparr>eLogicalBytes := logical\<rparr>"
  have p: "payload_bytes (eRequests env) \<le> psize (?e\<lparr>eAuxiliaryBytes := 0\<rparr>)"
    using payloads [of ?e] by simp
  then have u: "unat logical = payload_bytes (eRequests env)"
    using assms by (simp add: unat_of_nat take_bit_nat_eq_self_iff)
  show ?thesis
    using loop_terminates [of logical ?e 0] p u assms(2) by (auto simp: accountBytes_def)
qed

end

text \<open>
  A size function that meets the interface: protobuf's encoding of this message, field by
  field (a field at its zero value is absent, an optional one is present when set).
\<close>

definition wire_varint :: "nat \<Rightarrow> uint64 \<Rightarrow> nat" where
  "wire_varint field v = (if v = 0 then 0 else varintLen (of_nat (8 * field)) + varintLen v)"

definition wire_bytes :: "nat \<Rightarrow> nat \<Rightarrow> nat" where
  "wire_bytes field n = (if n = 0 then 0 else varintLen (of_nat (8 * field)) + varintLen (of_nat n) + n)"

definition wire_request :: "PbRequest \<Rightarrow> nat" where
  "wire_request m = wire_varint 1 (ucast (qCohortId m)) + wire_varint 2 (ucast (qOrdinal m))
     + wire_varint 3 (qUid m) + wire_bytes 4 (length (qPayload m))"

definition wire_size :: "RequestEnvelope \<Rightarrow> nat" where
  "wire_size e = wire_varint 1 (ucast (eSchemaVersion e))
     + wire_bytes 2 (length (eExperimentId e)) + wire_bytes 3 (length (eSessionId e))
     + wire_bytes 4 (length (eRunId e)) + wire_bytes 5 (length (eCell e))
     + wire_bytes 6 (length (eClockDomainId e)) + wire_varint 7 (ucast (eCohortId e))
     + wire_varint 8 (eEnvelopeId e) + wire_varint 9 (of_bool (eAggregate e))
     + wire_varint 10 (of_bool (eVectorize e)) + wire_varint 11 (ucast (eTargetB e))
     + wire_varint 12 (ucast (eExpectedMembers e))
     + sum_list (map (\<lambda>m. 1 + varintLen (of_nat (wire_request m)) + wire_request m) (eRequests e))
     + wire_varint 14 (eTProxySend e)
     + (case eTCohortSeal e of None \<Rightarrow> 0 | Some t \<Rightarrow> 1 + varintLen t)
     + wire_varint 16 (eLogicalBytes e) + wire_varint 17 (eAuxiliaryBytes e)"

lemma varintLen_136: "varintLen 136 = 2"
  by (simp add: varintLen_def varintLen_loop.simps word_le_nat_alt)

lemma payload_le_wire: "payload_bytes ms
    \<le> sum_list (map (\<lambda>m. 1 + varintLen (of_nat (wire_request m)) + wire_request m) ms)"
  by (induction ms) (auto simp: payload_bytes_def wire_request_def wire_bytes_def)

interpretation wire: proto_size wire_size
proof
  fix env :: RequestEnvelope and a :: uint64
  show "wire_size (env\<lparr>eAuxiliaryBytes := a\<rparr>)
      = wire_size (env\<lparr>eAuxiliaryBytes := 0\<rparr>) + counter_size a"
    by (simp add: wire_size_def wire_varint_def [of 17] counter_size_def varintLen_136)
  show "payload_bytes (eRequests env) \<le> wire_size (env\<lparr>eAuxiliaryBytes := 0\<rparr>)"
    using payload_le_wire [of "eRequests env"] by (simp add: wire_size_def)
qed

section \<open>Membership and order\<close>

definition ordinals :: "PbRequest list \<Rightarrow> nat list" where
  "ordinals ms = map (unat \<circ> qOrdinal) ms"

lemma count_ordinals:
  "count (mset (ordinals ms)) k = length (filter (\<lambda>m. unat (qOrdinal m) = k) ms)"
  by (induction ms) (auto simp: ordinals_def)

lemma stray_iff: "(B \<le> int (unat (w :: uint32))) = (nat B \<le> unat w)"
  by (simp add: nat_le_iff)

lemma countOrdinal_fold:
  "foldl (countOrdinal B) (replicate (nat B) 0, []) ms =
     (map (\<lambda>k. count (mset (ordinals ms)) k) [0 ..< nat B],
      map qOrdinal (filter (\<lambda>m. nat B \<le> unat (qOrdinal m)) ms))"
proof (induction ms rule: rev_induct)
  case Nil
  show ?case by (simp add: ordinals_def map_replicate_trivial)
next
  case (snoc m ms)
  let ?o = "unat (qOrdinal m)"
  have "(map (count (mset (ordinals ms))) [0 ..< nat B])[?o := Suc (count (mset (ordinals ms)) ?o)]
      = map (count (mset (ordinals (ms @ [m])))) [0 ..< nat B]" if "\<not> nat B \<le> ?o"
    using that by (intro nth_equalityI) (auto simp: nth_list_update ordinals_def)
  moreover have "map (count (mset (ordinals ms))) [0 ..< nat B]
      = map (count (mset (ordinals (ms @ [m])))) [0 ..< nat B]" if "nat B \<le> ?o"
    using that by (auto simp: ordinals_def)
  ultimately show ?case
    using snoc unfolding countOrdinal_def stray_iff by (simp add: Let_def)
qed

text \<open>Membership is what the code says it is: each ordinal below \<open>B\<close> exactly once.\<close>

lemma checkCohortMembership_None_iff:
  "checkCohortMembership ms c B = None \<longleftrightarrow> mset (ordinals ms) = mset [0 ..< nat B]"
proof -
  have "checkCohortMembership ms c B = None \<longleftrightarrow>
      (\<forall>k < nat B. \<not> 1 < count (mset (ordinals ms)) k)
      \<and> (\<forall>k < nat B. count (mset (ordinals ms)) k \<noteq> 0)
      \<and> (\<forall>m \<in> set ms. unat (qOrdinal m) < nat B)"
    unfolding checkCohortMembership_def countOrdinal_fold
    by (simp add: filter_empty_conv not_le Ball_def del: count_mset_0_iff count_eq_zero_iff)
  also have "\<dots> \<longleftrightarrow> (\<forall>k < nat B. count (mset (ordinals ms)) k = 1)
      \<and> (\<forall>m \<in> set ms. unat (qOrdinal m) < nat B)"
  proof -
    have "c = 1 \<longleftrightarrow> \<not> 1 < c \<and> c \<noteq> 0" for c :: nat by linarith
    then show ?thesis by blast
  qed
  also have "\<dots> \<longleftrightarrow> mset (ordinals ms) = mset [0 ..< nat B]"
  proof
    assume a: "(\<forall>k < nat B. count (mset (ordinals ms)) k = 1)
      \<and> (\<forall>m \<in> set ms. unat (qOrdinal m) < nat B)"
    show "mset (ordinals ms) = mset [0 ..< nat B]"
    proof (rule multiset_eqI)
      fix k
      show "count (mset (ordinals ms)) k = count (mset [0 ..< nat B]) k"
      proof (cases "k < nat B")
        case True
        then show ?thesis using a by (simp add: count_mset_0_iff distinct_count_atmost_1)
      next
        case False
        then have "k \<notin> set (ordinals ms)" using a by (auto simp: ordinals_def)
        then show ?thesis using False by (simp add: count_mset_0_iff)
      qed
    qed
  next
    assume e: "mset (ordinals ms) = mset [0 ..< nat B]"
    then have "set (ordinals ms) = {0 ..< nat B}" by (metis set_mset_mset set_upt)
    then have "\<forall>m \<in> set ms. unat (qOrdinal m) < nat B" by (auto simp: ordinals_def)
    moreover have "\<forall>k < nat B. count (mset (ordinals ms)) k = 1"
      unfolding e by (simp add: distinct_count_atmost_1)
    ultimately show "(\<forall>k < nat B. count (mset (ordinals ms)) k = 1)
      \<and> (\<forall>m \<in> set ms. unat (qOrdinal m) < nat B)" by blast
  qed
  finally show ?thesis .
qed

lemma checkCanonicalOrder_None_iff:
  "checkCanonicalOrder ms = None \<longleftrightarrow> sorted_wrt (<) (ordinals ms)"
proof (induction ms rule: checkCanonicalOrder.induct)
  case (1 p m ms)
  then show ?case by (auto simp: ordinals_def word_le_nat_alt not_le)
qed (simp_all add: ordinals_def)

lemma canonical_cohort:
  "mset (ordinals ms) = mset [0 ..< n] \<and> sorted_wrt (<) (ordinals ms) \<longleftrightarrow> ordinals ms = [0 ..< n]"
proof
  assume a: "mset (ordinals ms) = mset [0 ..< n] \<and> sorted_wrt (<) (ordinals ms)"
  then have "sorted (ordinals ms)" by (simp add: strict_sorted_iff)
  then show "ordinals ms = [0 ..< n]"
    using a by (metis properties_for_sort sorted_upt sorted_sort_id)
qed simp

lemma checkMembers_None_iff:
  "checkMembers c ms = None \<longleftrightarrow>
     (\<forall>m \<in> set ms. qUid m = UID (memberRequest m) \<and> qCohortId m = c \<and> qPayload m \<noteq> [])"
  by (induction ms) (auto simp: Let_def)

text \<open>The contract an accepted envelope meets, in the order the code checks it.\<close>

definition env_contract :: "RequestEnvelope \<Rightarrow> Expectation \<Rightarrow> bool" where
  "env_contract env xp \<longleftrightarrow>
     eSchemaVersion env = envSchemaVersion \<and> eRunId env = xpRun xp \<and> eCell env = xpCell xp
     \<and> eClockDomainId env = xpClockDomain xp \<and> int (unat (eTargetB env)) = xpTargetB xp
     \<and> eAggregate env = AggregatesEnvelopes (xpCell xp)
     \<and> eVectorize env = VectorizesCompute (xpCell xp)
     \<and> unat (eExpectedMembers env) = length (eRequests env)
     \<and> (\<forall>m \<in> set (eRequests env). qUid m = UID (memberRequest m)
          \<and> qCohortId m = eCohortId env \<and> qPayload m \<noteq> [])
     \<and> (if eAggregate env
        then eTCohortSeal env \<noteq> None \<and> ordinals (eRequests env) = [0 ..< nat (xpTargetB xp)]
        else eTCohortSeal env = None \<and> length (eRequests env) = 1)"

lemma Validate_None_iff: "Validate (Some env) xp = None \<longleftrightarrow> env_contract env xp"
proof -
  have len: "ordinals (eRequests env) = [0 ..< nat (xpTargetB xp)] \<Longrightarrow>
      length (eRequests env) = nat (xpTargetB xp)"
    by (metis length_map length_upt minus_nat.diff_0 ordinals_def)
  have one: "length (eRequests env) = 1 \<Longrightarrow> checkCanonicalOrder (eRequests env) = None"
    by (cases "eRequests env" rule: checkCanonicalOrder.cases) auto
  have membership: "checkCohortMembership (eRequests env) (eCohortId env) (xpTargetB xp) = None
      \<and> checkCanonicalOrder (eRequests env) = None
      \<longleftrightarrow> ordinals (eRequests env) = [0 ..< nat (xpTargetB xp)]"
    using canonical_cohort [of "eRequests env" "nat (xpTargetB xp)"]
    by (simp only: checkCohortMembership_None_iff checkCanonicalOrder_None_iff)
  have agree: "int (length (eRequests env)) = xpTargetB xp"
    if "ordinals (eRequests env) = [0 ..< nat (xpTargetB xp)]" "int (unat (eTargetB env)) = xpTargetB xp"
    using len [OF that(1)] that(2) of_nat_0_le_iff [of "unat (eTargetB env)", where 'a = int]
    by linarith
  have shape: "checkShape env xp = None \<longleftrightarrow> length (eRequests env) = unat (eExpectedMembers env)
      \<and> (if eAggregate env then int (length (eRequests env)) = xpTargetB xp \<and> eTCohortSeal env \<noteq> None
         else length (eRequests env) = 1 \<and> eTCohortSeal env = None)"
    by (simp add: checkShape_def Let_def)
  have "Validate (Some env) xp = None \<longleftrightarrow>
      eSchemaVersion env = envSchemaVersion \<and> eRunId env = xpRun xp \<and> eCell env = xpCell xp
      \<and> eClockDomainId env = xpClockDomain xp \<and> int (unat (eTargetB env)) = xpTargetB xp
      \<and> eAggregate env = AggregatesEnvelopes (xpCell xp)
      \<and> eVectorize env = VectorizesCompute (xpCell xp) \<and> checkShape env xp = None
      \<and> checkMembers (eCohortId env) (eRequests env) = None
      \<and> (eAggregate env \<longrightarrow> checkCohortMembership (eRequests env) (eCohortId env) (xpTargetB xp) = None)
      \<and> checkCanonicalOrder (eRequests env) = None"
    unfolding Validate_def option.case by (simp only: check_simps not_not)
  then show ?thesis
    unfolding env_contract_def shape checkMembers_None_iff
    using one membership agree by (cases "eAggregate env") (simp_all, metis+)
qed

section \<open>What the builder produces\<close>

lemma insort_key_map:
  "insort_key f (g x) (map g xs) = map g (insort_key (\<lambda>x. f (g x)) x xs)"
  by (induction xs) auto

lemma sort_key_map: "sort_key f (map g xs) = map g (sort_key (\<lambda>x. f (g x)) xs)"
  by (induction xs) (simp_all add: insort_key_map)

lemma map_canonicalOrder:
  "map ((!) members) (canonicalOrder members) = sort_key Ordinal members"
proof -
  have "sort_key Ordinal members = sort_key Ordinal (map ((!) members) [0 ..< length members])"
    by (simp add: map_nth)
  also have "\<dots> = map ((!) members) (canonicalOrder members)"
    unfolding sort_key_map canonicalOrder_def by (simp add: o_def)
  finally show ?thesis ..
qed

lemma set_canonicalOrder: "set (canonicalOrder members) = {0 ..< length members}"
  by (simp add: canonicalOrder_def)

lemma mset_canonicalOrder: "mset (canonicalOrder members) = mset [0 ..< length members]"
  by (simp add: canonicalOrder_def)

definition canonicalRequests :: "LogicalRequest list \<Rightarrow> byte list list \<Rightarrow> PbRequest list" where
  "canonicalRequests members payloads =
     map (\<lambda>i. pbRequest (members ! i) (payloads ! i)) (canonicalOrder members)"

lemma addMembers_eq:
  "\<forall>i \<in> set is. Cohort (members ! i) = c \<Longrightarrow>
   addMembers c members payloads reqs l is =
     Inr (reqs @ map (\<lambda>i. pbRequest (members ! i) (payloads ! i)) is,
          l + of_nat (sum_list (map (\<lambda>i. length (payloads ! i)) is)))"
  by (induction "is" arbitrary: reqs l) (simp_all add: Let_def)

lemma ordinals_canonicalRequests:
  "ordinals (canonicalRequests members payloads) = map (unat \<circ> Ordinal) (sort_key Ordinal members)"
  by (simp add: ordinals_def canonicalRequests_def pbRequest_def flip: map_canonicalOrder)

lemma pbRequest_fields [simp]:
  "memberRequest (pbRequest m p) = m" "qUid (pbRequest m p) = UID m"
  "qCohortId (pbRequest m p) = Cohort m" "qOrdinal (pbRequest m p) = Ordinal m"
  "qPayload (pbRequest m p) = p"
  by (simp_all add: memberRequest_def pbRequest_def)

lemma payload_bytes_canonical:
  assumes "length members = length payloads"
  shows "payload_bytes (canonicalRequests members payloads) = sum_list (map length payloads)"
proof -
  have "payload_bytes (canonicalRequests members payloads)
      = sum_list (map (\<lambda>i. length (payloads ! i)) (canonicalOrder members))"
    by (simp add: payload_bytes_def canonicalRequests_def pbRequest_def o_def)
  also have "\<dots> = sum_list (map (\<lambda>i. length (payloads ! i)) [0 ..< length payloads])"
    by (simp only: sum_mset_sum_list [symmetric] mset_map mset_canonicalOrder assms)
  also have "\<dots> = sum_list (map length payloads)"
    by (rule arg_cong [where f = sum_list], rule nth_equalityI) auto
  finally show ?thesis .
qed

text \<open>The envelope before its counters are filled.\<close>

definition sealedEnvelope :: "Builder \<Rightarrow> LogicalRequest list \<Rightarrow> byte list list \<Rightarrow> int64 \<Rightarrow> int64
    \<Rightarrow> RequestEnvelope" where
  "sealedEnvelope b members payloads seal sentAt = (fst (base b))\<lparr>
     eCohortId := Cohort (members ! 0), eExpectedMembers := of_nat (length members),
     eAggregate := True, eTProxySend := sentAt, eTCohortSeal := Some seal,
     eRequests := canonicalRequests members payloads,
     eLogicalBytes := of_nat (sum_list (map length payloads))\<rparr>"

definition expectationOf :: "Config \<Rightarrow> Expectation" where
  "expectationOf c = \<lparr>xpRun = cfgRun c, xpCell = cfgCell c, xpClockDomain = cfgClockDomain c,
     xpTargetB = cfgTargetB c\<rparr>"

definition cohort_of :: "int \<Rightarrow> LogicalRequest list \<Rightarrow> bool" where
  "cohort_of B ms \<longleftrightarrow> (\<forall>m \<in> set ms. Cohort m = Cohort (ms ! 0))
     \<and> mset (map (unat \<circ> Ordinal) ms) = mset [0 ..< nat B]"

lemma length_cohort_of: "cohort_of B ms \<Longrightarrow> length ms = nat B"
  unfolding cohort_of_def by (metis length_map length_upt minus_nat.diff_0 size_mset)

lemma sorted_cohort:
  assumes "cohort_of B ms"
  shows "map (unat \<circ> Ordinal) (sort_key Ordinal ms) = [0 ..< nat B]"
proof -
  have "sorted (map Ordinal (sort_key Ordinal ms))" by simp
  then have "sorted (map (unat \<circ> Ordinal) (sort_key Ordinal ms))"
    by (simp add: sorted_wrt_map word_le_nat_alt)
  moreover have "mset (map (unat \<circ> Ordinal) (sort_key Ordinal ms)) = mset [0 ..< nat B]"
    using assms by (simp add: cohort_of_def)
  ultimately show ?thesis by (metis properties_for_sort sorted_upt sorted_sort_id)
qed

text \<open>Every outcome of \<^verbatim>\<open>Aggregate\<close> on as many payloads as members.\<close>

lemma Aggregate_cohort:
  assumes "proto_size psize" and "length members = length payloads" and "members \<noteq> []"
    and "cohort_of (cfgTargetB (bldCfg b)) members"
    and "psize ((sealedEnvelope b members payloads seal sentAt)\<lparr>eAuxiliaryBytes := 0\<rparr>) < 2 ^ 62"
  shows "\<exists>a. Aggregate psize b members payloads seal sentAt
      = Some (Inr ((sealedEnvelope b members payloads seal sentAt)\<lparr>eAuxiliaryBytes := a\<rparr>), snd (base b))
    \<and> unat (of_nat (sum_list (map length payloads)) :: uint64) = sum_list (map length payloads)
    \<and> sum_list (map length payloads) + unat a
      = psize ((sealedEnvelope b members payloads seal sentAt)\<lparr>eAuxiliaryBytes := a\<rparr>)"
proof -
  let ?B = "cfgTargetB (bldCfg b)"
  let ?l = "of_nat (sum_list (map length payloads)) :: uint64"
  let ?env = "(fst (base b))\<lparr>eCohortId := Cohort (members ! 0),
     eExpectedMembers := of_nat (length members), eAggregate := True, eTProxySend := sentAt,
     eTCohortSeal := Some seal, eRequests := canonicalRequests members payloads\<rparr>"
  have sealed: "?env\<lparr>eLogicalBytes := ?l, eAuxiliaryBytes := a\<rparr>
      = (sealedEnvelope b members payloads seal sentAt)\<lparr>eAuxiliaryBytes := a\<rparr>" for a
    by (simp add: sealedEnvelope_def)
  have pb: "payload_bytes (eRequests ?env) = sum_list (map length payloads)"
    using payload_bytes_canonical [OF assms(2)] by simp
  have "\<forall>i \<in> set (canonicalOrder members). Cohort (members ! i) = Cohort (members ! 0)"
    using assms(4) by (auto simp: set_canonicalOrder cohort_of_def)
  moreover have "sum_list (map (\<lambda>i. length (payloads ! i)) (canonicalOrder members))
      = sum_list (map length payloads)"
    using payload_bytes_canonical [OF assms(2)]
    by (simp add: payload_bytes_def canonicalRequests_def pbRequest_def o_def)
  ultimately have add: "addMembers (Cohort (members ! 0)) members payloads [] 0 (canonicalOrder members)
      = Inr (canonicalRequests members payloads, ?l)"
    by (simp only: addMembers_eq) (simp add: canonicalRequests_def)
  have mem: "checkCohortMembership (canonicalRequests members payloads) c ?B = None" for c
    unfolding checkCohortMembership_None_iff ordinals_canonicalRequests sorted_cohort [OF assms(4)] ..
  obtain a where a: "accountBytes psize ?l ?env = Some (?env\<lparr>eLogicalBytes := ?l, eAuxiliaryBytes := a\<rparr>)"
    and "unat ?l = payload_bytes (eRequests ?env)"
      "unat ?l + unat a = psize (?env\<lparr>eLogicalBytes := ?l, eAuxiliaryBytes := a\<rparr>)"
    using proto_size.accountBytes_partition [OF assms(1), of ?l ?env] assms(5) pb
    unfolding sealed by metis
  moreover have "Aggregate psize b members payloads seal sentAt
      = map_option (\<lambda>e. (Inr e, snd (base b))) (accountBytes psize ?l ?env)"
    using assms(2,3) add mem by (cases "payloads = []") (simp_all add: Aggregate_def Let_def split_beta)
  ultimately show ?thesis unfolding sealed pb by (intro exI [of _ a]) simp
qed

lemma targetB_roundtrip:
  assumes "0 \<le> B" and "B < 2 ^ 32"
  shows "int (unat (of_int B :: uint32)) = B"
proof -
  have "(of_int B :: uint32) = of_nat (nat B)" using assms(1) by simp
  moreover have "unat (of_nat (nat B) :: uint32) = nat B"
    using assms by (intro unat_of_nat32) (simp add: nat_less_iff)
  ultimately show ?thesis using assms(1) by (simp only: int_nat_eq if_True)
qed

lemma sealed_contract:
  assumes "Config_Validate cfg = None" and "cfgTargetB cfg < 2 ^ 32" and "bldCfg b = cfg"
    and "AggregatesEnvelopes (cfgCell cfg)" and "cohort_of (cfgTargetB cfg) members"
    and "length members = length payloads" and "\<forall>p \<in> set payloads. p \<noteq> []"
  shows "env_contract ((sealedEnvelope b members payloads seal sentAt)\<lparr>eAuxiliaryBytes := a\<rparr>)
           (expectationOf cfg)"
proof -
  have B: "0 < cfgTargetB cfg" using assms(1) by (simp add: Config_Validate_def split: if_splits)
  have len: "length members = nat (cfgTargetB cfg)" by (rule length_cohort_of [OF assms(5)])
  then have m: "unat (of_nat (length members) :: uint32) = length members"
    using assms(2) B by (intro unat_of_nat32) (simp add: nat_less_iff)
  have t: "int (unat (of_int (cfgTargetB cfg) :: uint32)) = cfgTargetB cfg"
    using B assms(2) by (intro targetB_roundtrip) simp_all
  have "\<forall>i \<in> set (canonicalOrder members). Cohort (members ! i) = Cohort (members ! 0)
      \<and> payloads ! i \<noteq> []"
    using assms(5-7) by (auto simp: set_canonicalOrder cohort_of_def)
  then have "\<forall>q \<in> set (canonicalRequests members payloads). qUid q = UID (memberRequest q)
      \<and> qCohortId q = Cohort (members ! 0) \<and> qPayload q \<noteq> []"
    by (auto simp: canonicalRequests_def)
  moreover have "length (canonicalRequests members payloads) = length members"
    by (simp add: canonicalRequests_def canonicalOrder_def)
  ultimately show ?thesis
    using t m assms(3,4) ordinals_canonicalRequests [of members payloads] sorted_cohort [OF assms(5)]
    by (simp add: env_contract_def sealedEnvelope_def base_def Let_def expectationOf_def)
qed

lemma addMembers_Inl:
  "\<exists>i \<in> set is. Cohort (members ! i) \<noteq> c \<Longrightarrow> \<exists>e. addMembers c members payloads reqs l is = Inl e"
  by (induction "is" arbitrary: reqs l) (auto simp: Let_def)

lemma Aggregate_not_cohort:
  assumes "\<not> cohort_of (cfgTargetB (bldCfg b)) members"
  shows "\<exists>e b'. Aggregate psize b members payloads seal sentAt = Some (Inl e, b')"
proof (cases "length members = length payloads \<and> members \<noteq> []
    \<and> (\<forall>i \<in> set (canonicalOrder members). Cohort (members ! i) = Cohort (members ! 0))")
  case False
  then consider "length members \<noteq> length payloads" | "members = []" "length members = length payloads"
    | "members \<noteq> []" "length members = length payloads"
      "\<exists>i \<in> set (canonicalOrder members). Cohort (members ! i) \<noteq> Cohort (members ! 0)" by blast
  then show ?thesis
  proof cases
    case 3
    from addMembers_Inl [OF 3(3), of payloads "[]" 0] 3(1,2) show ?thesis
      by (auto simp: Aggregate_def Let_def split_beta)
  qed (simp_all add: Aggregate_def)
next
  case True
  then have "\<forall>m \<in> set members. Cohort m = Cohort (members ! 0)"
    by (auto simp: set_canonicalOrder in_set_conv_nth)
  with assms have "mset (map (unat \<circ> Ordinal) members) \<noteq> mset [0 ..< nat (cfgTargetB (bldCfg b))]"
    by (simp add: cohort_of_def)
  then have "mset (ordinals (canonicalRequests members payloads))
      \<noteq> mset [0 ..< nat (cfgTargetB (bldCfg b))]"
    by (simp add: ordinals_canonicalRequests)
  then have "checkCohortMembership (canonicalRequests members payloads) c (cfgTargetB (bldCfg b)) \<noteq> None" for c
    by (simp only: checkCohortMembership_None_iff not_False_eq_True)
  then obtain e where "checkCohortMembership (canonicalRequests members payloads)
      (Cohort (members ! 0)) (cfgTargetB (bldCfg b)) = Some e" by blast
  moreover from True have "addMembers (Cohort (members ! 0)) members payloads [] 0 (canonicalOrder members)
      = Inr (canonicalRequests members payloads,
          of_nat (sum_list (map (\<lambda>i. length (payloads ! i)) (canonicalOrder members))))"
    by (subst addMembers_eq) (simp_all add: canonicalRequests_def)
  ultimately show ?thesis using True by (auto simp: Aggregate_def Let_def split_beta)
qed

section \<open>Properties\<close>

text \<open>
  C6. What the proxy seals, the adapter accepts. For a valid configuration of an aggregating
  cell and a whole cohort in any arrival order, each member with a payload, \<^verbatim>\<open>Aggregate\<close>
  returns an envelope that \<^verbatim>\<open>Validate\<close> passes under the same run; it carries the members in
  ordinal order, each with its own payload, and its two byte counters add up to the
  message's size, the first being the payload bytes.
\<close>

theorem Aggregate_Validate:
  assumes "proto_size psize" and "NewBuilder cfg = Inr b" and "cfgTargetB cfg < 2 ^ 32"
    and "AggregatesEnvelopes (cfgCell cfg)" and "cohort_of (cfgTargetB cfg) members"
    and "length members = length payloads" and "\<forall>p \<in> set payloads. p \<noteq> []"
    and "psize ((sealedEnvelope b members payloads seal sentAt)\<lparr>eAuxiliaryBytes := 0\<rparr>) < 2 ^ 62"
  shows "\<exists>env b'. Aggregate psize b members payloads seal sentAt = Some (Inr env, b')
    \<and> Validate (Some env) (expectationOf cfg) = None
    \<and> map (unat \<circ> Ordinal) (Members env) = [0 ..< nat (cfgTargetB cfg)]
    \<and> mset (zip (Members env) (map qPayload (eRequests env))) = mset (zip members payloads)
    \<and> unat (eLogicalBytes env) = sum_list (map length payloads)
    \<and> unat (eLogicalBytes env) + unat (eAuxiliaryBytes env) = WireBytes psize env
    \<and> bldNextID b' = bldNextID b + 1 \<and> eEnvelopeId env = bldNextID b'"
proof -
  have cfg: "Config_Validate cfg = None" "bldCfg b = cfg"
    using assms(2) by (auto simp: NewBuilder_def split: option.splits)
  have ne: "members \<noteq> []"
    using length_cohort_of [OF assms(5)] cfg(1) by (auto simp: Config_Validate_def split: if_splits)
  obtain a where ag: "Aggregate psize b members payloads seal sentAt
      = Some (Inr ((sealedEnvelope b members payloads seal sentAt)\<lparr>eAuxiliaryBytes := a\<rparr>), snd (base b))"
    and l: "unat (of_nat (sum_list (map length payloads)) :: uint64) = sum_list (map length payloads)"
    and p: "sum_list (map length payloads) + unat a
      = psize ((sealedEnvelope b members payloads seal sentAt)\<lparr>eAuxiliaryBytes := a\<rparr>)"
    using Aggregate_cohort [OF assms(1,6) ne _ assms(8)] assms(5) cfg(2) by blast
  let ?env = "(sealedEnvelope b members payloads seal sentAt)\<lparr>eAuxiliaryBytes := a\<rparr>"
  have "Validate (Some ?env) (expectationOf cfg) = None"
    unfolding Validate_None_iff by (rule sealed_contract [OF cfg(1) assms(3) cfg(2) assms(4-7)])
  moreover have mem: "Members ?env = sort_key Ordinal members"
    by (simp add: Members_def sealedEnvelope_def canonicalRequests_def o_def flip: map_canonicalOrder)
  moreover have "mset (zip (Members ?env) (map qPayload (eRequests ?env))) = mset (zip members payloads)"
  proof -
    have "zip (Members ?env) (map qPayload (eRequests ?env))
        = map (\<lambda>i. (members ! i, payloads ! i)) (canonicalOrder members)"
      by (simp add: Members_def sealedEnvelope_def canonicalRequests_def zip_map_map zip_same_conv_map o_def)
    also have "mset \<dots> = mset (map (\<lambda>i. (members ! i, payloads ! i)) [0 ..< length members])"
      by (simp only: mset_map mset_canonicalOrder)
    also have "map (\<lambda>i. (members ! i, payloads ! i)) [0 ..< length members] = zip members payloads"
      by (rule nth_equalityI) (simp_all add: assms(6))
    finally show ?thesis .
  qed
  moreover have "eLogicalBytes ?env = of_nat (sum_list (map length payloads))"
    "eAuxiliaryBytes ?env = a" "eEnvelopeId ?env = bldNextID (snd (base b))"
    "bldNextID (snd (base b)) = bldNextID b + 1"
    by (simp_all add: sealedEnvelope_def base_def Let_def)
  moreover note sorted_cohort [OF assms(5)]
  ultimately show ?thesis
    using ag l p
    by (intro exI [of _ ?env] exI [of _ "snd (base b)"] conjI) (simp_all only: WireBytes_def)
qed

text \<open>
  Acceptance is the whole contract. \<^verbatim>\<open>Validate\<close> passes an envelope exactly when its
  identity is the run's, its factor levels are the cell's, its members are as many as it
  declares, each carrying its own UID, the envelope's cohort and a payload, and at A=on a
  proxy seal and the ordinals 0 to B-1 each once in order, at A=off no seal and one member.
\<close>

theorem Validate_contract:
  "Validate (Some env) xp = None \<longleftrightarrow>
     eSchemaVersion env = envSchemaVersion \<and> eRunId env = xpRun xp \<and> eCell env = xpCell xp
     \<and> eClockDomainId env = xpClockDomain xp \<and> int (unat (eTargetB env)) = xpTargetB xp
     \<and> eAggregate env = AggregatesEnvelopes (xpCell xp)
     \<and> eVectorize env = VectorizesCompute (xpCell xp)
     \<and> unat (eExpectedMembers env) = length (eRequests env)
     \<and> list_all (\<lambda>m. qUid m = UID (memberRequest m) \<and> qCohortId m = eCohortId env \<and> qPayload m \<noteq> [])
         (eRequests env)
     \<and> (if eAggregate env
        then eTCohortSeal env \<noteq> None \<and> map (unat \<circ> Ordinal) (Members env) = [0 ..< nat (xpTargetB xp)]
        else eTCohortSeal env = None \<and> length (eRequests env) = 1)"
proof -
  have "map (unat \<circ> Ordinal) (Members env) = ordinals (eRequests env)"
    by (simp add: Members_def ordinals_def memberRequest_def o_def)
  then show ?thesis unfolding Validate_None_iff env_contract_def by (simp add: list_all_iff)
qed

text \<open>
  The proxy refuses what is not a cohort: members of another cohort, a repeated, a
  missing or a stray ordinal make \<^verbatim>\<open>Aggregate\<close> return an error, so no such envelope is sent.
\<close>

theorem Aggregate_refuses:
  assumes "\<not> cohort_of (cfgTargetB (bldCfg b)) members"
  shows "\<exists>e b'. Aggregate psize b members payloads seal sentAt = Some (Inl e, b')"
  by (rule Aggregate_not_cohort [OF assms])

text \<open>
  C7. The byte accounting ends and partitions the message: for any size function that
  charges the counter its field and contains the payloads, the measuring loop returns, the
  logical counter is the payload bytes, and logical plus auxiliary is the size of the
  message with both counters in it.
\<close>

theorem accountBytes_partitions:
  assumes "proto_size psize" and "logical = of_nat (payload_bytes (eRequests env))"
    and "psize (env\<lparr>eLogicalBytes := logical, eAuxiliaryBytes := 0\<rparr>) < 2 ^ 62"
  shows "\<exists>e. accountBytes psize logical env = Some e
    \<and> unat (eLogicalBytes e) = payload_bytes (eRequests env)
    \<and> unat (eLogicalBytes e) + unat (eAuxiliaryBytes e) = WireBytes psize e
    \<and> eRequests e = eRequests env"
  using proto_size.accountBytes_partition [OF assms] by (auto simp: WireBytes_def)

lemma Independent_ok:
  assumes "proto_size psize" and "Config_Validate cfg = None" and "bldCfg b = cfg" and "cfgTargetB cfg < 2 ^ 32"
    and "\<not> AggregatesEnvelopes (cfgCell cfg)" and "payload \<noteq> []"
    and "psize ((fst (base b))\<lparr>eCohortId := Cohort m, eExpectedMembers := 1, eAggregate := False,
           eTProxySend := sentAt, eRequests := [pbRequest m payload],
           eLogicalBytes := of_nat (length payload), eAuxiliaryBytes := 0\<rparr>) < 2 ^ 62"
  shows "\<exists>env b'. Independent psize b m payload sentAt = Some (env, b')
    \<and> Validate (Some env) (expectationOf cfg) = None \<and> eRequests env = [pbRequest m payload]
    \<and> unat (eLogicalBytes env) = length payload
    \<and> unat (eLogicalBytes env) + unat (eAuxiliaryBytes env) = WireBytes psize env
    \<and> b' = b\<lparr>bldNextID := bldNextID b + 1\<rparr> \<and> eEnvelopeId env = bldNextID b'"
proof -
  let ?env = "(fst (base b))\<lparr>eCohortId := Cohort m, eExpectedMembers := 1, eAggregate := False,
     eTProxySend := sentAt, eRequests := [pbRequest m payload]\<rparr>"
  have cfg: "bldCfg b = cfg" "0 < cfgTargetB cfg"
    using assms(2,3) by (auto simp: Config_Validate_def split: if_splits)
  have pb: "payload_bytes (eRequests ?env) = length payload" by (simp add: payload_bytes_def)
  obtain a where a: "accountBytes psize (of_nat (length payload)) ?env
      = Some (?env\<lparr>eLogicalBytes := of_nat (length payload), eAuxiliaryBytes := a\<rparr>)"
    and l: "unat (of_nat (length payload) :: uint64) = length payload"
    and p: "unat (of_nat (length payload) :: uint64) + unat a
      = psize (?env\<lparr>eLogicalBytes := of_nat (length payload), eAuxiliaryBytes := a\<rparr>)"
    using proto_size.accountBytes_partition [OF assms(1), of "of_nat (length payload)" ?env,
        unfolded pb, OF refl assms(7)]
    by blast
  have t: "int (unat (of_int (cfgTargetB cfg) :: uint32)) = cfgTargetB cfg"
    using cfg assms(4) by (intro targetB_roundtrip) simp_all
  have "Validate (Some (?env\<lparr>eLogicalBytes := of_nat (length payload), eAuxiliaryBytes := a\<rparr>))
      (expectationOf cfg) = None"
    unfolding Validate_None_iff using t assms(5,6) cfg
    by (simp add: env_contract_def base_def Let_def expectationOf_def)
  moreover have "Independent psize b m payload sentAt
      = Some (?env\<lparr>eLogicalBytes := of_nat (length payload), eAuxiliaryBytes := a\<rparr>, snd (base b))"
    using a by (simp add: Independent_def Let_def split_beta)
  moreover have "eEnvelopeId ?env = bldNextID (snd (base b))" "snd (base b) = b\<lparr>bldNextID := bldNextID b + 1\<rparr>"
    by (simp_all add: base_def Let_def)
  ultimately show ?thesis
    using l p
    by (intro exI [of _ "?env\<lparr>eLogicalBytes := of_nat (length payload), eAuxiliaryBytes := a\<rparr>"]
        exI [of _ "snd (base b)"] conjI) (simp_all add: WireBytes_def)
qed

text \<open>
  The A=off envelope is accepted too: one member with a payload, built by
  \<^verbatim>\<open>Independent\<close> for a cell that does not aggregate, passes \<^verbatim>\<open>Validate\<close> and its counters
  partition its size.
\<close>

theorem Independent_Validate:
  assumes "proto_size psize" and "Config_Validate cfg = None" and "bldCfg b = cfg" and "cfgTargetB cfg < 2 ^ 32"
    and "\<not> AggregatesEnvelopes (cfgCell cfg)" and "payload \<noteq> []"
    and "psize ((fst (base b))\<lparr>eCohortId := Cohort m, eExpectedMembers := 1, eAggregate := False,
           eTProxySend := sentAt, eRequests := [pbRequest m payload],
           eLogicalBytes := of_nat (length payload), eAuxiliaryBytes := 0\<rparr>) < 2 ^ 62"
  shows "\<exists>env b'. Independent psize b m payload sentAt = Some (env, b')
    \<and> Validate (Some env) (expectationOf cfg) = None \<and> Members env = [m]
    \<and> unat (eLogicalBytes env) = length payload
    \<and> unat (eLogicalBytes env) + unat (eAuxiliaryBytes env) = WireBytes psize env
    \<and> bldNextID b' = bldNextID b + 1 \<and> eEnvelopeId env = bldNextID b'"
  using Independent_ok [OF assms] by (auto simp: Members_def)

section \<open>Witnesses\<close>

definition sampleConfig :: "Cell \<Rightarrow> Config" where
  "sampleConfig c = \<lparr>cfgExperiment = ''e'', cfgSession = ''s'', cfgRun = ''r'', cfgCell = c,
     cfgClockDomain = ''clk'', cfgTargetB = 2\<rparr>"

definition sampleBuilder :: "Cell \<Rightarrow> Builder" where
  "sampleBuilder c = \<lparr>bldCfg = sampleConfig c, bldNextID = 0\<rparr>"

definition sampleMembers :: "LogicalRequest list" where
  "sampleMembers = [LogicalRequest 4 1, LogicalRequest 4 0]"

lemma NewBuilder_sample: "c \<noteq> '''' \<Longrightarrow> NewBuilder (sampleConfig c) = Inr (sampleBuilder c)"
  by (simp add: NewBuilder_def Config_Validate_def sampleConfig_def sampleBuilder_def)

lemma cohort_of_sample: "cohort_of 2 sampleMembers"
  by (simp add: cohort_of_def sampleMembers_def upt_rec numeral_2_eq_2)

lemma varintLen_le: "varintLen v \<le> 10"
  using length_varint_le_10 [of v] by (simp add: varintLen_eq)

lemma wire_varint_le: "wire_varint f v \<le> 20"
  using varintLen_le [of v] varintLen_le [of "of_nat (8 * f)"] by (simp add: wire_varint_def)

lemma wire_bytes_le: "wire_bytes f n \<le> 20 + n"
  using varintLen_le [of "of_nat n"] varintLen_le [of "of_nat (8 * f)"] by (simp add: wire_bytes_def)

lemma wire_request_le: "1 + varintLen x + wire_request m \<le> 100 + length (qPayload m)"
  using varintLen_le [of x] wire_varint_le [of 1 "ucast (qCohortId m)"]
    wire_varint_le [of 2 "ucast (qOrdinal m)"] wire_varint_le [of 3 "qUid m"]
    wire_bytes_le [of 4 "length (qPayload m)"]
  unfolding wire_request_def by linarith

lemma wire_requests_le: "sum_list (map (\<lambda>m. 1 + varintLen (of_nat (wire_request m)) + wire_request m) ms)
    \<le> 100 * length ms + payload_bytes ms"
proof (induction ms)
  case (Cons m ms)
  then show ?case using wire_request_le [of "of_nat (wire_request m)" m]
    by (simp add: payload_bytes_def)
qed (simp add: payload_bytes_def)

lemma wire_size_le:
  "wire_size e \<le> 400 + length (eExperimentId e) + length (eSessionId e) + length (eRunId e)
     + length (eCell e) + length (eClockDomainId e) + 100 * length (eRequests e)
     + payload_bytes (eRequests e)"
proof -
  have "(case eTCohortSeal e of None \<Rightarrow> 0 | Some t \<Rightarrow> 1 + varintLen t) \<le> 20"
    using varintLen_le by (auto split: option.splits intro: order_trans [OF varintLen_le])
  then show ?thesis
    unfolding wire_size_def
    using wire_varint_le [of 1 "ucast (eSchemaVersion e)"] wire_bytes_le [of 2 "length (eExperimentId e)"]
      wire_bytes_le [of 3 "length (eSessionId e)"] wire_bytes_le [of 4 "length (eRunId e)"]
      wire_bytes_le [of 5 "length (eCell e)"] wire_bytes_le [of 6 "length (eClockDomainId e)"]
      wire_varint_le [of 7 "ucast (eCohortId e)"] wire_varint_le [of 8 "eEnvelopeId e"]
      wire_varint_le [of 9 "of_bool (eAggregate e)"] wire_varint_le [of 10 "of_bool (eVectorize e)"]
      wire_varint_le [of 11 "ucast (eTargetB e)"] wire_varint_le [of 12 "ucast (eExpectedMembers e)"]
      wire_varint_le [of 14 "eTProxySend e"] wire_varint_le [of 16 "eLogicalBytes e"]
      wire_varint_le [of 17 "eAuxiliaryBytes e"] wire_requests_le [of "eRequests e"]
    by linarith
qed

theorem Aggregate_Validate_witness:
  "\<exists>env b'. Aggregate wire_size (sampleBuilder CellF10) sampleMembers [[7], [8, 9]] 10 20 = Some (Inr env, b')
    \<and> Validate (Some env) (expectationOf (sampleConfig CellF10)) = None
    \<and> map (unat \<circ> Ordinal) (Members env) = [0, 1] \<and> unat (eLogicalBytes env) = 3"
proof -
  have small: "wire_size ((sealedEnvelope (sampleBuilder CellF10) sampleMembers [[7], [8, 9]] 10 20)
      \<lparr>eAuxiliaryBytes := 0\<rparr>) < 2 ^ 62"
    using payload_bytes_canonical [of sampleMembers "[[7], [8, 9]]"]
    by (intro le_less_trans [OF wire_size_le])
       (simp add: sealedEnvelope_def base_def sampleBuilder_def sampleConfig_def Let_def
         canonicalRequests_def canonicalOrder_def sampleMembers_def)
  have "NewBuilder (sampleConfig CellF10) = Inr (sampleBuilder CellF10)" by (rule NewBuilder_sample) simp
  from Aggregate_Validate [OF wire.proto_size_axioms this _ _ _ _ _ small] show ?thesis
    using cohort_of_sample
    by (auto simp: sampleConfig_def AggregatesEnvelopes_def upt_rec numeral_2_eq_2) (auto simp: sampleMembers_def)
qed

theorem Aggregate_refuses_witness:
  "\<exists>e b'. Aggregate wire_size (sampleBuilder CellF10)
      [LogicalRequest 4 1, LogicalRequest 4 1] [[7], [8]] 10 20 = Some (Inl e, b')"
proof -
  have "\<not> cohort_of 2 [LogicalRequest 4 1, LogicalRequest 4 1]"
    by (simp add: cohort_of_def upt_rec numeral_2_eq_2)
  then show ?thesis
    by (intro Aggregate_refuses) (simp add: sampleBuilder_def sampleConfig_def)
qed

definition sampleEnvelope :: RequestEnvelope where
  "sampleEnvelope = (fst (base (sampleBuilder CellF00)))\<lparr>
     eRequests := [pbRequest (LogicalRequest 4 1) [7, 8, 9]]\<rparr>"

lemma wire_size_sample:
  "wire_size (sampleEnvelope\<lparr>eLogicalBytes := l, eAuxiliaryBytes := 0\<rparr>) < 2 ^ 62"
  by (intro le_less_trans [OF wire_size_le])
     (simp add: sampleEnvelope_def base_def sampleBuilder_def sampleConfig_def Let_def payload_bytes_def)

theorem accountBytes_partitions_witness:
  "\<exists>e. accountBytes wire_size 3 sampleEnvelope = Some e \<and> unat (eLogicalBytes e) = 3
     \<and> unat (eLogicalBytes e) + unat (eAuxiliaryBytes e) = WireBytes wire_size e"
proof -
  have p: "payload_bytes (eRequests sampleEnvelope) = 3"
    by (simp add: sampleEnvelope_def payload_bytes_def)
  have "(3 :: uint64) = of_nat (payload_bytes (eRequests sampleEnvelope))" by (simp add: p)
  from accountBytes_partitions [OF wire.proto_size_axioms this wire_size_sample] show ?thesis
    unfolding p by blast
qed

theorem Independent_Validate_witness:
  "\<exists>env b'. Independent wire_size (sampleBuilder CellF00) (LogicalRequest 4 1) [7, 8, 9] 20 = Some (env, b')
     \<and> Validate (Some env) (expectationOf (sampleConfig CellF00)) = None"
proof -
  have small: "wire_size ((fst (base (sampleBuilder CellF00)))\<lparr>eCohortId := Cohort (LogicalRequest 4 1),
      eExpectedMembers := 1, eAggregate := False, eTProxySend := 20,
      eRequests := [pbRequest (LogicalRequest 4 1) [7, 8, 9]],
      eLogicalBytes := of_nat (length [7, 8, 9 :: byte]), eAuxiliaryBytes := 0\<rparr>) < 2 ^ 62"
    by (intro le_less_trans [OF wire_size_le])
       (simp add: base_def sampleBuilder_def sampleConfig_def Let_def payload_bytes_def)
  have "NewBuilder (sampleConfig CellF00) = Inr (sampleBuilder CellF00)" by (rule NewBuilder_sample) simp
  then have "bldCfg (sampleBuilder CellF00) = sampleConfig CellF00" "Config_Validate (sampleConfig CellF00) = None"
    by (simp_all add: NewBuilder_def sampleBuilder_def split: option.splits)
  from Independent_Validate [OF wire.proto_size_axioms this(2,1) _ _ _ small] show ?thesis
    by (auto simp: sampleConfig_def AggregatesEnvelopes_def)
qed

end
