(* ===== verification/Messages.thy ===== *)
theory Messages
  imports Envelope Schema
begin

text \<open>
  The remaining messages of \<^verbatim>\<open>api/envelope/v1/envelope.proto\<close>: what the adapter returns to
  the proxy and what the client and the proxy exchange. A status is the number the enum
  carries on the wire, which \<^verbatim>\<open>events.Status\<close> shares. Getters on a nil message return the
  zero value, so a message the code may hold as nil is an option here.
\<close>

type_synonym PbStatus = "32 word"

abbreviation (input) STATUS_OK :: PbStatus where "STATUS_OK \<equiv> 1"
abbreviation (input) STATUS_ERROR :: PbStatus where "STATUS_ERROR \<equiv> 2"

record LogicalResult =
  lrCohortId :: uint32
  lrOrdinal :: uint32
  lrStatus :: PbStatus
  lrError :: string
  lrMembershipUids :: "int64 list"
  lrBatchSize :: uint32
  lrDataOutBytes :: uint64

record AdapterEvidence =
  aeDispatched :: uint32
  aeDispatchSkewNanos :: int64
  aeCpuNanos :: int64
  aeCpuScope :: string

record ResponseEnvelope =
  reSchemaVersion :: uint32
  reRunId :: string
  reCohortId :: uint32
  reEnvelopeId :: uint64
  reResults :: "LogicalResult list"
  reEvidence :: "AdapterEvidence option"
  reTAdapterRecv :: int64
  reTAdapterSend :: int64

record ClientRequest =
  crRunId :: string
  crCohortId :: uint32
  crOrdinal :: uint32
  crUid :: int64
  crPayload :: "byte list"

record ClientResponse =
  csCohortId :: uint32
  csOrdinal :: uint32
  csStatus :: PbStatus
  csError :: string
  csMembershipUids :: "int64 list"
  csBatchSize :: uint32
  csDataOutBytes :: uint64

definition requestMember :: "ClientRequest \<Rightarrow> LogicalRequest" where
  "requestMember req = LogicalRequest (crCohortId req) (crOrdinal req)"

end
