(* ===== verification/Proxy.thy ===== *)
theory Proxy
  imports Messages
begin

text \<open>
  \<^verbatim>\<open>internal/proxy/proxy.go\<close> and \<^verbatim>\<open>internal/proxy/cohort.go\<close>: cohort formation and the
  two paths of \<^verbatim>\<open>Submit\<close>. Formations are shared by the goroutines that wait on them, so
  they live in a store (\<open>svHeap\<close>) and the registry holds addresses. Each critical section
  is one function. \<open>None\<close> is a run that does not return: a panic (an index out of range,
  closing a closed channel) or the accounting loop of the builder not ending. Clock
  readings and what the backend answers are arguments. A deadline is a timer that may fire
  at any moment; contexts end at any moment.
\<close>

section \<open>State\<close>

datatype form_error =
    ShuttingDown CohortID
  | OrdinalOutside CohortID Ordinal int
  | OrdinalTwice CohortID Ordinal int int int
  | NotAssembled CohortID "nat list"
  | ShutdownWhileForming CohortID "nat list"
  | SealedAlready CohortID int
  | BuilderRefused CohortID env_error

record slot =
  slPayload :: "byte list"
  slAdmitted :: bool

record formation =
  fmCohort :: CohortID
  fmTargetB :: int
  fmDone :: bool
  fmSlots :: "slot list"
  fmArrived :: int
  fmSealAt :: int64
  fmSealed :: bool
  fmDeadline :: bool
  fmTerminal :: "form_error option"
  fmEnv :: "RequestEnvelope option"
  fmEnvelopeBytes :: uint32
  fmSendAt :: int64
  fmRespRecvAt :: int64
  fmResp :: "ResponseEnvelope option"
  fmSendErr :: "(uint64 \<times> string) option"

record ProxyConfig =
  pcCell :: Cell
  pcRun :: string
  pcTargetB :: int
  pcFormationDeadline :: int

datatype proxy_config_error = ProxyNeedsRun | ProxyNeedsCell | ProxyNeedsTargetB int
  | NeedsFormationDeadline Cell | MustNotFormCohorts Cell int

definition ProxyConfig_Validate :: "ProxyConfig \<Rightarrow> proxy_config_error option" where
  "ProxyConfig_Validate c =
     (if pcRun c = '''' then Some ProxyNeedsRun
      else if pcCell c = '''' then Some ProxyNeedsCell
      else if pcTargetB c \<le> 0 then Some (ProxyNeedsTargetB (pcTargetB c))
      else if AggregatesEnvelopes (pcCell c) \<and> pcFormationDeadline c \<le> 0
      then Some (NeedsFormationDeadline (pcCell c))
      else if \<not> AggregatesEnvelopes (pcCell c) \<and> pcFormationDeadline c \<noteq> 0
      then Some (MustNotFormCohorts (pcCell c) (pcFormationDeadline c))
      else None)"

record Service =
  svCfg :: ProxyConfig
  svBuilder :: Builder
  svHeap :: "formation list"
  svForming :: "(CohortID \<times> nat) list"
  svClosed :: bool

datatype new_error = NeedsDependency | BadProxyConfig proxy_config_error

definition NewService :: "ProxyConfig \<Rightarrow> Builder option \<Rightarrow> bool \<Rightarrow> new_error + Service" where
  "NewService cfg builder others =
     (case builder of None \<Rightarrow> Inl NeedsDependency
      | Some b \<Rightarrow>
          if \<not> others then Inl NeedsDependency
          else case ProxyConfig_Validate cfg of Some e \<Rightarrow> Inl (BadProxyConfig e)
          | None \<Rightarrow> Inr \<lparr>svCfg = cfg, svBuilder = b, svHeap = [], svForming = [], svClosed = False\<rparr>)"

section \<open>Formation\<close>

definition newFormation :: "CohortID \<Rightarrow> int \<Rightarrow> formation" where
  "newFormation cohort targetB = \<lparr>fmCohort = cohort, fmTargetB = targetB, fmDone = False,
     fmSlots = replicate (nat targetB) \<lparr>slPayload = [], slAdmitted = False\<rparr>, fmArrived = 0,
     fmSealAt = 0, fmSealed = False, fmDeadline = False, fmTerminal = None, fmEnv = None,
     fmEnvelopeBytes = 0, fmSendAt = 0, fmRespRecvAt = 0, fmResp = None, fmSendErr = None\<rparr>"

definition sealedAlready :: "CohortID \<Rightarrow> int \<Rightarrow> formation" where
  "sealedAlready cohort targetB = (newFormation cohort targetB)\<lparr>fmSlots := [], fmDone := True,
     fmTerminal := Some (SealedAlready cohort targetB)\<rparr>"

definition put :: "nat \<Rightarrow> formation \<Rightarrow> Service \<Rightarrow> Service" where
  "put fid f s = s\<lparr>svHeap := (svHeap s)[fid := f]\<rparr>"

definition absent :: "formation \<Rightarrow> nat list" where
  "absent f = filter (\<lambda>ord. \<not> slAdmitted (fmSlots f ! ord)) [0 ..< length (fmSlots f)]"

definition closeDone :: "formation \<Rightarrow> formation option" where
  "closeDone f = (if fmDone f then None else Some (f\<lparr>fmDone := True\<rparr>))"

definition failLocked :: "form_error \<Rightarrow> formation \<Rightarrow> formation option" where
  "failLocked cause f = closeDone (f\<lparr>fmTerminal := Some cause, fmSlots := []\<rparr>)"

definition openFormation :: "CohortID \<Rightarrow> Service \<Rightarrow> nat \<times> Service" where
  "openFormation cohort s =
     (let fid = length (svHeap s);
          f = (newFormation cohort (pcTargetB (svCfg s)))\<lparr>fmDeadline := True\<rparr>
      in (fid, s\<lparr>svHeap := svHeap s @ [f], svForming := AList.update cohort fid (svForming s)\<rparr>))"

definition joinFailed :: "nat \<Rightarrow> form_error \<Rightarrow> Service
    \<Rightarrow> ((form_error + nat \<times> bool) \<times> Service) option" where
  "joinFailed fid cause s =
     (case failLocked cause (svHeap s ! fid) of None \<Rightarrow> None
      | Some f \<Rightarrow> Some (Inl cause, put fid f s))"

text \<open>\<^verbatim>\<open>join\<close> once it has the formation, and the whole of it.\<close>

definition admitMember :: "int64 \<Rightarrow> LogicalRequest \<Rightarrow> byte list \<Rightarrow> nat \<Rightarrow> Service
    \<Rightarrow> ((form_error + nat \<times> bool) \<times> Service) option" where
  "admitMember now member payload fid s =
     (let f = svHeap s ! fid; ord = unat (Ordinal member) in
      case fmTerminal f of Some e \<Rightarrow> Some (Inl e, s)
      | None \<Rightarrow>
          if fmTargetB f \<le> int ord
          then joinFailed fid (OrdinalOutside (fmCohort f) (Ordinal member) (fmTargetB f)) s
          else if length (fmSlots f) \<le> ord then None
          else if slAdmitted (fmSlots f ! ord)
          then joinFailed fid (OrdinalTwice (fmCohort f) (Ordinal member) (fmArrived f + 1)
                 (fmArrived f) (fmTargetB f)) s
          else
            let f = f\<lparr>fmSlots := (fmSlots f)[ord := \<lparr>slPayload = payload, slAdmitted = True\<rparr>],
                      fmArrived := fmArrived f + 1\<rparr>
            in if fmArrived f < fmTargetB f then Some (Inr (fid, False), put fid f s)
               else
                 let s = put fid (f\<lparr>fmSealAt := now, fmSealed := True\<rparr>) s;
                     s = s\<lparr>svHeap := svHeap s @ [sealedAlready (fmCohort f) (fmTargetB f)],
                           svForming := AList.update (fmCohort f) (length (svHeap s)) (svForming s)\<rparr>
                 in Some (Inr (fid, True), s))"

definition join :: "int64 \<Rightarrow> LogicalRequest \<Rightarrow> byte list \<Rightarrow> Service
    \<Rightarrow> ((form_error + nat \<times> bool) \<times> Service) option" where
  "join now member payload s =
     (if svClosed s then Some (Inl (ShuttingDown (Cohort member)), s)
      else case map_of (svForming s) (Cohort member) of
             Some fid \<Rightarrow> admitMember now member payload fid s
           | None \<Rightarrow> (let (fid, s) = openFormation (Cohort member) s
                      in admitMember now member payload fid s))"

definition expire :: "nat \<Rightarrow> Service \<Rightarrow> Service option" where
  "expire fid s =
     (let f = svHeap s ! fid in
      if fmSealed f \<or> fmTerminal f \<noteq> None then Some s
      else case failLocked (NotAssembled (fmCohort f) (absent f)) f of None \<Rightarrow> None
           | Some f \<Rightarrow> Some (put fid f s))"

fun closeAll :: "nat list \<Rightarrow> Service \<Rightarrow> Service option" where
  "closeAll [] s = Some s"
| "closeAll (fid # fids) s =
     (let f = svHeap s ! fid in
      if fmSealed f \<or> fmTerminal f \<noteq> None then closeAll fids s
      else case failLocked (ShutdownWhileForming (fmCohort f) (absent f)) f of None \<Rightarrow> None
           | Some f \<Rightarrow> closeAll fids (put fid f s))"

definition CloseService :: "Service \<Rightarrow> Service option" where
  "CloseService s = closeAll (map snd (svForming s)) (s\<lparr>svClosed := True\<rparr>)"

section \<open>Sealing\<close>

definition assembled :: "formation \<Rightarrow> LogicalRequest list \<times> byte list list" where
  "assembled f =
     (map (\<lambda>ord. if ord < length (fmSlots f) then LogicalRequest (fmCohort f) (of_nat ord)
                 else LogicalRequest 0 0) [0 ..< nat (fmTargetB f)],
      map (\<lambda>ord. if ord < length (fmSlots f) then slPayload (fmSlots f ! ord) else [])
        [0 ..< nat (fmTargetB f)])"

text \<open>
  \<^verbatim>\<open>sealAndSend\<close> up to the call of the backend (\<open>True\<close>: the envelope was sent), and from
  its return on.
\<close>

definition sealBegin :: "(RequestEnvelope \<Rightarrow> nat) \<Rightarrow> int64 \<Rightarrow> nat \<Rightarrow> Service
    \<Rightarrow> (bool \<times> Service) option" where
  "sealBegin psize sendAt fid s =
     (let (members, payloads) = assembled (svHeap s ! fid);
          f = (svHeap s ! fid)\<lparr>fmSendAt := sendAt\<rparr>
      in case Aggregate psize (svBuilder s) members payloads (fmSealAt f) sendAt of
           None \<Rightarrow> None
         | Some (Inl e, b) \<Rightarrow>
             (case failLocked (BuilderRefused (fmCohort f) e) f of None \<Rightarrow> None
              | Some f \<Rightarrow> Some (False, put fid f (s\<lparr>svBuilder := b\<rparr>)))
         | Some (Inr env, b) \<Rightarrow>
             Some (True, put fid (f\<lparr>fmEnv := Some env\<rparr>) (s\<lparr>svBuilder := b\<rparr>)))"

definition sealEnd :: "(RequestEnvelope \<Rightarrow> nat) \<Rightarrow> string + ResponseEnvelope \<Rightarrow> int64 \<Rightarrow> nat
    \<Rightarrow> Service \<Rightarrow> Service option" where
  "sealEnd psize outcome respRecvAt fid s =
     (let f = svHeap s ! fid in
      case fmEnv f of None \<Rightarrow> None
      | Some env \<Rightarrow>
          let f = f\<lparr>fmRespRecvAt := respRecvAt,
                    fmResp := (case outcome of Inr r \<Rightarrow> Some r | Inl _ \<Rightarrow> None),
                    fmEnvelopeBytes := of_nat (WireBytes psize env),
                    fmSendErr := (case outcome of Inl e \<Rightarrow> Some (eEnvelopeId env, e) | Inr _ \<Rightarrow> None)\<rparr>
          in case closeDone f of None \<Rightarrow> None | Some f \<Rightarrow> Some (put fid f s))"

section \<open>Answers and records\<close>

datatype ctx_error = DeadlineExceeded | Canceled

datatype submit_error =
    BadUID LogicalRequest
  | WrongRunID string
  | CohortRefused LogicalRequest form_error
  | LeftCohort LogicalRequest ctx_error
  | BackendRejected uint64 string
  | NoResult uint64 LogicalRequest

definition departureStatus :: "ctx_error \<Rightarrow> Status" where
  "departureStatus e = (if e = DeadlineExceeded then StatusTimeout else StatusError)"

definition memberResult :: "ResponseEnvelope option \<Rightarrow> LogicalRequest
    \<Rightarrow> submit_error + LogicalResult" where
  "memberResult resp member =
     (case find (\<lambda>r. lrCohortId r = Cohort member \<and> lrOrdinal r = Ordinal member)
             (case resp of None \<Rightarrow> [] | Some re \<Rightarrow> reResults re) of
        Some r \<Rightarrow> Inr r
      | None \<Rightarrow> Inl (NoResult (case resp of None \<Rightarrow> 0 | Some re \<Rightarrow> reEnvelopeId re) member))"

definition clientResponse :: "LogicalRequest \<Rightarrow> LogicalResult \<Rightarrow> ClientResponse" where
  "clientResponse member result = \<lparr>csCohortId = Cohort member, csOrdinal = Ordinal member,
     csStatus = lrStatus result, csError = lrError result,
     csMembershipUids = lrMembershipUids result, csBatchSize = lrBatchSize result,
     csDataOutBytes = lrDataOutBytes result\<rparr>"

definition resultStatus :: "LogicalResult \<Rightarrow> Status" where
  "resultStatus result = (if lrStatus result \<noteq> STATUS_OK then StatusError else StatusOK)"

text \<open>The record handed to the stream.\<close>

definition writeRec :: "Record \<Rightarrow> LogicalRequest \<Rightarrow> byte list \<Rightarrow> Status \<Rightarrow> Record" where
  "writeRec rec member payload status = rec\<lparr>rEmitter := EmitterProxy, rCohort := Cohort member,
     rOrdinal := Ordinal member, rLogicalBytes := of_nat (length payload), rStatus := status\<rparr>"

definition recordArrival :: "LogicalRequest \<Rightarrow> byte list \<Rightarrow> int64 \<Rightarrow> Status \<Rightarrow> Record" where
  "recordArrival member payload recvAt status =
     writeRec (SetStage StageProxyRecv recvAt zeroRecord) member payload status"

definition memberRecord :: "formation \<Rightarrow> LogicalRequest \<Rightarrow> byte list \<Rightarrow> int64 \<Rightarrow> int64 \<Rightarrow> Status
    \<Rightarrow> Record" where
  "memberRecord f member payload recvAt fanoutAt status =
     (let rec = zeroRecord\<lparr>
            rEnvelopeID := (case fmEnv f of None \<Rightarrow> 0 | Some env \<Rightarrow> eEnvelopeId env),
            rEnvelopeBytes := fmEnvelopeBytes f\<rparr>;
          rec = SetStage StageProxyRecv recvAt rec;
          rec = SetStage StageCohortSeal (fmSealAt f) rec;
          rec = SetStage StageProxySend (fmSendAt f) rec;
          rec = SetStage StageProxyRespRecv (fmRespRecvAt f) rec;
          rec = SetStage StageProxyFanout fanoutAt rec
      in writeRec rec member payload status)"

text \<open>\<^verbatim>\<open>aggregate\<close> after \<^verbatim>\<open>await\<close> returned nil: the answer and the one record written.\<close>

definition finishMember :: "formation \<Rightarrow> LogicalRequest \<Rightarrow> byte list \<Rightarrow> int64 \<Rightarrow> int64
    \<Rightarrow> (submit_error + ClientResponse) \<times> Record" where
  "finishMember f member payload recvAt fanoutAt =
     (case fmTerminal f of
        Some cause \<Rightarrow>
          (Inl (CohortRefused member cause), recordArrival member payload recvAt StatusError)
      | None \<Rightarrow>
          let rec = memberRecord f member payload recvAt fanoutAt in
          (case fmSendErr f of
             Some (i, e) \<Rightarrow> (Inl (BackendRejected i e), rec StatusError)
           | None \<Rightarrow>
               (case memberResult (fmResp f) member of
                  Inl e \<Rightarrow> (Inl e, rec StatusError)
                | Inr result \<Rightarrow> (Inr (clientResponse member result), rec (resultStatus result)))))"

text \<open>
  The A=off path: \<open>backend\<close> is what the adapter answers to the envelope it is sent.
\<close>

definition forward :: "(RequestEnvelope \<Rightarrow> nat) \<Rightarrow> (RequestEnvelope \<Rightarrow> string + ResponseEnvelope)
    \<Rightarrow> Builder \<Rightarrow> LogicalRequest \<Rightarrow> byte list \<Rightarrow> int64 \<Rightarrow> int64 \<Rightarrow> int64 \<Rightarrow> int64
    \<Rightarrow> ((submit_error + ClientResponse) \<times> Record \<times> Builder) option" where
  "forward psize backend builder member payload recvAt sendAt respRecvAt fanoutAt =
     (case Independent psize builder member payload sendAt of None \<Rightarrow> None
      | Some (env, b) \<Rightarrow>
          let rec = zeroRecord\<lparr>rEnvelopeID := eEnvelopeId env,
                rEnvelopeBytes := of_nat (WireBytes psize env)\<rparr>;
              rec = SetStage StageProxyRecv recvAt rec;
              rec = SetStage StageProxySend sendAt rec;
              rec = SetStage StageProxyRespRecv respRecvAt rec;
              rec = SetStage StageProxyFanout fanoutAt rec;
              record = writeRec rec member payload
          in Some (case backend env of
               Inl e \<Rightarrow> (Inl (BackendRejected (eEnvelopeId env) e), record StatusError, b)
             | Inr resp \<Rightarrow>
                 (case memberResult (Some resp) member of
                    Inl e \<Rightarrow> (Inl e, record StatusError, b)
                  | Inr result \<Rightarrow>
                      (Inr (clientResponse member result), record (resultStatus result), b))))"

text \<open>The checks \<^verbatim>\<open>Submit\<close> makes before it picks a path; \<open>True\<close> is the A=on path.\<close>

definition SubmitCheck :: "ProxyConfig \<Rightarrow> ClientRequest \<Rightarrow> submit_error + bool" where
  "SubmitCheck cfg req =
     (let member = requestMember req in
      if crUid req \<noteq> UID member then Inl (BadUID member)
      else if crRunId req \<noteq> pcRun cfg then Inl (WrongRunID (crRunId req))
      else Inr (AggregatesEnvelopes (pcCell cfg)))"

section \<open>Goroutines\<close>

text \<open>
  One goroutine per request: \<^verbatim>\<open>Submit\<close> reads the clock and checks the request, which refuses it
  or picks its path. On the A=on path it joins; the one that completes the cohort
  seals and sends; then it waits, and either is woken or leaves with its context. The A=off path
  shares nothing with the others but the builder's counter, so \<^verbatim>\<open>forward\<close> is one step. Beside
  the requests the deadline timers and \<^verbatim>\<open>Close\<close> run.
\<close>

datatype phase =
    Submitting
  | Forwarding
  | Arriving
  | Sealing nat
  | Sending nat
  | Waiting nat
  | Finished "submit_error + ClientResponse"

record caller =
  caRequest :: ClientRequest
  caRecvAt :: int64
  caPhase :: phase
  caRecords :: "Record list"

definition caMember :: "caller \<Rightarrow> LogicalRequest" where
  "caMember c = requestMember (caRequest c)"

definition caPayload :: "caller \<Rightarrow> byte list" where
  "caPayload c = crPayload (caRequest c)"

type_synonym proxy_state = "Service \<times> caller list"

definition finishes :: "caller \<Rightarrow> (submit_error + ClientResponse) \<times> Record \<Rightarrow> caller" where
  "finishes c = (\<lambda>(answer, rec). c\<lparr>caPhase := Finished answer, caRecords := caRecords c @ [rec]\<rparr>)"

definition afterCheck :: "int64 \<Rightarrow> submit_error + bool \<Rightarrow> caller \<Rightarrow> caller" where
  "afterCheck recvAt r c = c\<lparr>caRecvAt := recvAt, caPhase := (case r of Inl e \<Rightarrow> Finished (Inl e)
     | Inr aggregates \<Rightarrow> if aggregates then Arriving else Forwarding)\<rparr>"

definition afterJoin :: "caller \<Rightarrow> form_error + nat \<times> bool \<Rightarrow> caller" where
  "afterJoin c = (\<lambda>Inl e \<Rightarrow> finishes c (Inl (CohortRefused (caMember c) e),
                     recordArrival (caMember c) (caPayload c) (caRecvAt c) StatusError)
     | Inr (fid, full) \<Rightarrow> c\<lparr>caPhase := (if full then Sealing fid else Waiting fid)\<rparr>)"

inductive proxy_step :: "(RequestEnvelope \<Rightarrow> nat) \<Rightarrow> proxy_state \<Rightarrow> proxy_state \<Rightarrow> bool"
  for psize :: "RequestEnvelope \<Rightarrow> nat" where
  submits: "i < length cs \<Longrightarrow> caPhase (cs ! i) = Submitting \<Longrightarrow>
     proxy_step psize (s, cs)
       (s, cs[i := afterCheck recvAt (SubmitCheck (svCfg s) (caRequest (cs ! i))) (cs ! i)])"
| forwards: "i < length cs \<Longrightarrow> caPhase (cs ! i) = Forwarding \<Longrightarrow>
     forward psize backend (svBuilder s) (caMember (cs ! i)) (caPayload (cs ! i)) (caRecvAt (cs ! i))
       sendAt respRecvAt fanoutAt = Some (answer, rec, b) \<Longrightarrow>
     proxy_step psize (s, cs) (s\<lparr>svBuilder := b\<rparr>, cs[i := finishes (cs ! i) (answer, rec)])"
| joins: "i < length cs \<Longrightarrow> caPhase (cs ! i) = Arriving \<Longrightarrow>
     join now (caMember (cs ! i)) (caPayload (cs ! i)) s = Some (r, s') \<Longrightarrow>
     proxy_step psize (s, cs) (s', cs[i := afterJoin (cs ! i) r])"
| seals: "i < length cs \<Longrightarrow> caPhase (cs ! i) = Sealing fid \<Longrightarrow>
     sealBegin psize sendAt fid s = Some (sent, s') \<Longrightarrow>
     proxy_step psize (s, cs)
       (s', cs[i := (cs ! i)\<lparr>caPhase := (if sent then Sending fid else Waiting fid)\<rparr>])"
| answered: "i < length cs \<Longrightarrow> caPhase (cs ! i) = Sending fid \<Longrightarrow>
     sealEnd psize outcome respRecvAt fid s = Some s' \<Longrightarrow>
     proxy_step psize (s, cs) (s', cs[i := (cs ! i)\<lparr>caPhase := Waiting fid\<rparr>])"
| wakes: "i < length cs \<Longrightarrow> caPhase (cs ! i) = Waiting fid \<Longrightarrow> fmDone (svHeap s ! fid) \<Longrightarrow>
     proxy_step psize (s, cs) (s, cs[i := finishes (cs ! i)
       (finishMember (svHeap s ! fid) (caMember (cs ! i)) (caPayload (cs ! i)) (caRecvAt (cs ! i)) fanoutAt)])"
| leaves: "i < length cs \<Longrightarrow> caPhase (cs ! i) = Waiting fid \<Longrightarrow> \<not> fmDone (svHeap s ! fid) \<Longrightarrow>
     proxy_step psize (s, cs) (s, cs[i := finishes (cs ! i) (Inl (LeftCohort (caMember (cs ! i)) e),
       recordArrival (caMember (cs ! i)) (caPayload (cs ! i)) (caRecvAt (cs ! i)) (departureStatus e))])"
| expires: "fid < length (svHeap s) \<Longrightarrow> fmDeadline (svHeap s ! fid) \<Longrightarrow> expire fid s = Some s' \<Longrightarrow>
     proxy_step psize (s, cs) (s', cs)"
| closes: "CloseService s = Some s' \<Longrightarrow> proxy_step psize (s, cs) (s', cs)"

end
