(* ===== verification/Adapter.thy ===== *)
theory Adapter
  imports Executor Proxy
begin

text \<open>
  \<^verbatim>\<open>internal/adapter/adapter.go\<close>: the service that terminates an envelope and hands its members
  to an executor. The executor is the interface the code declares, a function of the dispatch;
  the two clock readings are arguments; the records handed to the event writer are returned in
  order, beside the answer, because the code writes a member's record before it looks at the
  next result. \<open>psize\<close> is \<^verbatim>\<open>proto.Size\<close>.
\<close>

record AdapterConfig =
  acExpectation :: Expectation
  acModel :: string

datatype adapter_config_error = NeedsExecutor | NeedsWriter | NeedsClock | NeedsModel

text \<open>Which of the service's parts are given, in the order \<^verbatim>\<open>New\<close> checks them.\<close>

definition NewAdapter :: "AdapterConfig \<Rightarrow> bool \<Rightarrow> bool \<Rightarrow> bool \<Rightarrow> adapter_config_error option" where
  "NewAdapter cfg hasExec hasWriter hasClock =
     (if \<not> hasExec then Some NeedsExecutor
      else if \<not> hasWriter then Some NeedsWriter
      else if \<not> hasClock then Some NeedsClock
      else if acModel cfg = [] then Some NeedsModel
      else None)"

datatype adapter_error =
    Refused env_error
  | ExecutorFailed string
  | ForeignResult LogicalRequest uint64

definition payloadBytesByMember :: "RequestEnvelope \<Rightarrow> (LogicalRequest \<times> uint32) list" where
  "payloadBytesByMember env =
     foldl (\<lambda>out r. AList.update (memberRequest r) (of_nat (length (qPayload r))) out) [] (eRequests env)"

definition logicalResult :: "MemberResult \<Rightarrow> LogicalResult" where
  "logicalResult m =
     (let out = \<lparr>lrCohortId = Cohort (mrMember m), lrOrdinal = Ordinal (mrMember m), lrStatus = STATUS_OK,
            lrError = [], lrMembershipUids = [], lrBatchSize = of_int (mrBatchSize m),
            lrDataOutBytes = of_int (mrDataOutBytes m)\<rparr>
      in case mrErr m of
           Some err \<Rightarrow> out\<lparr>lrStatus := STATUS_ERROR, lrError := err\<rparr>
         | None \<Rightarrow> out\<lparr>lrMembershipUids := mrMembership m\<rparr>)"

definition adapterRecord :: "RequestEnvelope \<Rightarrow> MemberResult \<Rightarrow> DispatchEvidence \<Rightarrow> int64 \<Rightarrow> int64
    \<Rightarrow> uint32 \<Rightarrow> uint32 \<Rightarrow> Record" where
  "adapterRecord env m evidence recvAt sendAt envelopeBytes logicalBytes =
     (let rec = zeroRecord\<lparr>rEmitter := EmitterAdapter, rCohort := Cohort (mrMember m),
            rOrdinal := Ordinal (mrMember m), rEnvelopeID := eEnvelopeId env,
            rEnvelopeBytes := envelopeBytes, rLogicalBytes := logicalBytes\<rparr>;
          rec = SetDispatch evidence rec;
          rec = SetStage StageAdapterRecv recvAt rec;
          rec = SetStage StageAdapterDispatch (mrDispatchedAt m) rec;
          rec = SetStage StageAdapterResult (mrResultAt m) rec;
          rec = SetStage StageAdapterSend sendAt rec
      in case mrErr m of
           Some err \<Rightarrow> rec\<lparr>rStatus := StatusError\<rparr>
         | None \<Rightarrow> (SetMembership (mrMembership m) (rec\<lparr>rStatus := StatusOK\<rparr>))\<lparr>rBatchSize := of_int (mrBatchSize m)\<rparr>)"

text \<open>The loop over the executor's results: what was recorded, and the results or the failure.\<close>

fun packResults :: "(MemberResult \<Rightarrow> uint32 \<Rightarrow> Record) \<Rightarrow> (LogicalRequest \<times> uint32) list \<Rightarrow> uint64
    \<Rightarrow> MemberResult list \<Rightarrow> Record list \<times> (adapter_error + LogicalResult list)" where
  "packResults record payloads i [] = ([], Inr [])"
| "packResults record payloads i (m # ms) =
     (case map_of payloads (mrMember m) of
        None \<Rightarrow> ([], Inl (ForeignResult (mrMember m) i))
      | Some logicalBytes \<Rightarrow>
          (let (records, rest) = packResults record payloads i ms in
           (record m logicalBytes # records,
            case rest of Inl e \<Rightarrow> Inl e | Inr results \<Rightarrow> Inr (logicalResult m # results))))"

definition adapterExecute :: "(RequestEnvelope \<Rightarrow> nat) \<Rightarrow> AdapterConfig
    \<Rightarrow> (Dispatch \<Rightarrow> string + (ExecResult \<times> DispatchEvidence)) \<Rightarrow> int64 \<Rightarrow> int64 \<Rightarrow> RequestEnvelope option
    \<Rightarrow> Record list \<times> (adapter_error + ResponseEnvelope)" where
  "adapterExecute psize cfg exec recvAt sendAt request =
     (case Envelope.Validate request (acExpectation cfg) of
        Some err \<Rightarrow> ([], Inl (Refused err))
      | None \<Rightarrow>
          let env = the request in
          case exec \<lparr>dpModel = acModel cfg, dpMembers = Members env\<rparr> of
            Inl err \<Rightarrow> ([], Inl (ExecutorFailed err))
          | Inr (results, evidence) \<Rightarrow>
              let resp = \<lparr>reSchemaVersion = envSchemaVersion, reRunId = eRunId env, reCohortId = eCohortId env,
                    reEnvelopeId = eEnvelopeId env, reResults = [],
                    reEvidence = Some \<lparr>aeDispatched = Dispatched evidence, aeDispatchSkewNanos = SkewNanos evidence,
                      aeCpuNanos = CPUNanos evidence, aeCpuScope = cpuScopeString (CPUScope evidence)\<rparr>,
                    reTAdapterRecv = recvAt, reTAdapterSend = sendAt\<rparr>;
                  envelopeBytes = of_nat (WireBytes psize env);
                  (records, packed) = packResults
                    (\<lambda>m logicalBytes. adapterRecord env m evidence recvAt sendAt envelopeBytes logicalBytes)
                    (payloadBytesByMember env) (eEnvelopeId env) results
              in (records, case packed of Inl e \<Rightarrow> Inl e | Inr rs \<Rightarrow> Inr (resp\<lparr>reResults := rs\<rparr>)))"

section \<open>Payload sizes by identity\<close>

lemma env_members_distinct:
  assumes "env_contract env xp"
  shows "distinct (Members env)"
proof (cases "eAggregate env")
  case True
  then have "ordinals (eRequests env) = [0 ..< nat (xpTargetB xp)]" using assms by (simp add: env_contract_def)
  then have "distinct (ordinals (eRequests env))" by simp
  then have "distinct (map (\<lambda>m. unat (qOrdinal m)) (eRequests env))" by (simp only: ordinals_def comp_def)
  then show ?thesis by (auto simp: Members_def memberRequest_def distinct_map inj_on_def)
next
  case False
  then have "length (eRequests env) = 1" using assms by (simp add: env_contract_def)
  then show ?thesis by (cases "eRequests env") (simp_all add: Members_def)
qed

lemma payloads_fold:
  fixes out :: "(LogicalRequest \<times> uint32) list"
  defines "f \<equiv> \<lambda>out r. AList.update (memberRequest r) (of_nat (length (qPayload r))) out"
  shows "k \<notin> memberRequest ` set rs \<Longrightarrow> map_of (foldl f out rs) k = map_of out k"
    and "distinct (map memberRequest rs) \<Longrightarrow> r \<in> set rs \<Longrightarrow>
      map_of (foldl f out rs) (memberRequest r) = Some (of_nat (length (qPayload r)))"
proof -
  show other: "k \<notin> memberRequest ` set rs \<Longrightarrow> map_of (foldl f out rs) k = map_of out k" for out k rs
    by (induction rs arbitrary: out) (auto simp: f_def update_conv')
  show "distinct (map memberRequest rs) \<Longrightarrow> r \<in> set rs \<Longrightarrow>
      map_of (foldl f out rs) (memberRequest r) = Some (of_nat (length (qPayload r)))"
  proof (induction rs arbitrary: out)
    case (Cons a rs)
    then show ?case by (cases "r = a") (auto simp: other, simp add: f_def update_conv')
  qed simp
qed

lemma packResults_known:
  assumes "\<forall>m \<in> set ms. \<exists>n. map_of payloads (mrMember m) = Some n"
  shows "packResults record payloads i ms
    = (map (\<lambda>m. record m (the (map_of payloads (mrMember m)))) ms, Inr (map logicalResult ms))"
  using assms by (induction ms) auto

lemma adapterRecord_fields:
  fixes env m evidence recvAt sendAt envelopeBytes logicalBytes
  defines "r \<equiv> adapterRecord env m evidence recvAt sendAt envelopeBytes logicalBytes"
  shows "recRequest r = mrMember m" "rEmitter r = EmitterAdapter" "rEnvelopeID r = eEnvelopeId env"
    "rLogicalBytes r = logicalBytes" "rHasDispatch r" "rDispatch r = evidence"
    "rStatus r = (if mrErr m = None then StatusOK else StatusError)"
    "recStage r s = (if s = StageAdapterRecv then (recvAt, True) else if s = StageAdapterDispatch then (mrDispatchedAt m, True)
       else if s = StageAdapterResult then (mrResultAt m, True) else if s = StageAdapterSend then (sendAt, True) else (0, False))"
proof -
  have frame: "rEmitter (SetStage s t q) = rEmitter q" "rCohort (SetStage s t q) = rCohort q"
    "rOrdinal (SetStage s t q) = rOrdinal q" "rEnvelopeID (SetStage s t q) = rEnvelopeID q"
    "rLogicalBytes (SetStage s t q) = rLogicalBytes q" "rHasDispatch (SetStage s t q) = rHasDispatch q"
    "rDispatch (SetStage s t q) = rDispatch q" "rStatus (SetStage s t q) = rStatus q" for s t q
    by (simp_all add: SetStage_def)
  show "recRequest r = mrMember m" "rEmitter r = EmitterAdapter" "rEnvelopeID r = eEnvelopeId env"
    "rLogicalBytes r = logicalBytes" "rHasDispatch r" "rDispatch r = evidence"
    "rStatus r = (if mrErr m = None then StatusOK else StatusError)"
    by (simp_all add: r_def adapterRecord_def Let_def recRequest_def frame SetDispatch_def SetMembership_def split: option.splits)
  define z where "z = SetDispatch evidence (zeroRecord\<lparr>rEmitter := EmitterAdapter, rCohort := Cohort (mrMember m),
            rOrdinal := Ordinal (mrMember m), rEnvelopeID := eEnvelopeId env,
            rEnvelopeBytes := envelopeBytes, rLogicalBytes := logicalBytes\<rparr>)"
  have z: "record_wf z" "recStage z s = (0, False)" for s
    by (simp_all add: z_def SetDispatch_def record_wf_def zeroRecord_def recStage_def)
  have same: "recStage r s = recStage (SetStage StageAdapterSend sendAt (SetStage StageAdapterResult (mrResultAt m)
      (SetStage StageAdapterDispatch (mrDispatchedAt m) (SetStage StageAdapterRecv recvAt z)))) s"
    by (simp add: r_def adapterRecord_def z_def Let_def recStage_def SetMembership_def split: option.splits)
  show "recStage r s = (if s = StageAdapterRecv then (recvAt, True) else if s = StageAdapterDispatch then (mrDispatchedAt m, True)
       else if s = StageAdapterResult then (mrResultAt m, True) else if s = StageAdapterSend then (sendAt, True) else (0, False))"
    unfolding same by (simp add: recStage_SetStage record_wf_setters z Valid_def StageCount_def)
qed


section \<open>What a valid envelope gets back\<close>

lemma payloadBytes_of:
  assumes "env_contract env xp" and "q \<in> set (eRequests env)"
  shows "map_of (payloadBytesByMember env) (memberRequest q) = Some (of_nat (length (qPayload q)))"
  using payloads_fold(2) [of "eRequests env" q "[]"] env_members_distinct [OF assms(1)] assms(2)
  by (simp add: payloadBytesByMember_def Members_def)

lemma payloadBytes_keys: "map_of (payloadBytesByMember env) k \<noteq> None \<Longrightarrow> k \<in> set (Members env)"
  using payloads_fold(1) [of k "eRequests env" "[]"]
  by (cases "k \<in> memberRequest ` set (eRequests env)") (simp_all add: payloadBytesByMember_def Members_def)

lemma packResults_foreign:
  "(\<exists>rs. snd (packResults record payloads i ms) = Inr rs) \<longleftrightarrow>
     list_all (\<lambda>m. map_of payloads (mrMember m) \<noteq> None) ms"
  by (induction ms) (auto simp: split_beta split: option.splits sum.splits)

text \<open>The records of a dispatch, member by member, and the answer that carries its results.\<close>

definition adapterRecords :: "(RequestEnvelope \<Rightarrow> nat) \<Rightarrow> RequestEnvelope \<Rightarrow> ExecResult \<Rightarrow> DispatchEvidence
    \<Rightarrow> int64 \<Rightarrow> int64 \<Rightarrow> Record list" where
  "adapterRecords psize env results evidence recvAt sendAt =
     map (\<lambda>m. adapterRecord env m evidence recvAt sendAt (of_nat (WireBytes psize env))
       (the (map_of (payloadBytesByMember env) (mrMember m)))) results"

lemma adapterExecute_ok:
  assumes "env_contract env (acExpectation cfg)"
    and "exec \<lparr>dpModel = acModel cfg, dpMembers = Members env\<rparr> = Inr (results, evidence)"
    and "mrMember ` set results \<subseteq> set (Members env)"
  shows "\<exists>resp. adapterExecute psize cfg exec recvAt sendAt (Some env)
      = (adapterRecords psize env results evidence recvAt sendAt, Inr resp)
    \<and> reRunId resp = eRunId env \<and> reCohortId resp = eCohortId env \<and> reEnvelopeId resp = eEnvelopeId env
    \<and> reResults resp = map logicalResult results"
proof -
  have "\<forall>m \<in> set results. \<exists>n. map_of (payloadBytesByMember env) (mrMember m) = Some n"
    using assms(3) payloadBytes_of [OF assms(1)] by (fastforce simp: Members_def)
  note packed = packResults_known [OF this]
  have "Envelope.Validate (Some env) (acExpectation cfg) = None" using assms(1) by (simp add: Validate_None_iff)
  then show ?thesis
    by (simp add: adapterExecute_def assms(2) packed adapterRecords_def)
qed

lemma logicalResult_of: "lrCohortId (logicalResult m) = Cohort (mrMember m)" "lrOrdinal (logicalResult m) = Ordinal (mrMember m)"
  by (simp_all add: logicalResult_def Let_def split: option.splits)

text \<open>The proxy finds every member's own result in the answer.\<close>

lemma find_own_result:
  assumes "distinct (map mrMember results)" and "m \<in> set results" and "reResults resp = map logicalResult results"
  shows "memberResult (Some resp) (mrMember m) = Inr (logicalResult m)"
proof -
  have "find (\<lambda>r. lrCohortId r = Cohort (mrMember m) \<and> lrOrdinal r = Ordinal (mrMember m)) (map logicalResult results)
      = Some (logicalResult m)"
    using assms(1,2)
  proof (induction results)
    case (Cons a results)
    have eq: "Cohort (mrMember a) = Cohort (mrMember m) \<and> Ordinal (mrMember a) = Ordinal (mrMember m)
        \<longleftrightarrow> mrMember a = mrMember m"
      by (cases "mrMember a"; cases "mrMember m") auto
    show ?case using Cons by (auto simp: logicalResult_of eq)
  qed simp
  then show ?thesis by (simp add: memberResult_def assms(3))
qed

text \<open>
  What the adapter relies on in an executor: that it answers one result per member, in the order
  of the dispatch. The individual executor's completed fan-outs do.
\<close>

locale executor_contract =
  fixes answers :: "Dispatch \<Rightarrow> ExecResult \<times> DispatchEvidence \<Rightarrow> bool"
  assumes per_member: "answers d out \<Longrightarrow> map mrMember (fst out) = dpMembers d"
begin

lemma adapter_answer:
  assumes "env_contract env (acExpectation cfg)"
    and "answers \<lparr>dpModel = acModel cfg, dpMembers = Members env\<rparr> out"
    and "exec \<lparr>dpModel = acModel cfg, dpMembers = Members env\<rparr> = Inr out"
  shows "\<exists>resp. adapterExecute psize cfg exec recvAt sendAt (Some env)
      = (adapterRecords psize env (fst out) (snd out) recvAt sendAt, Inr resp)
    \<and> reRunId resp = eRunId env \<and> reCohortId resp = eCohortId env \<and> reEnvelopeId resp = eEnvelopeId env
    \<and> list_all (\<lambda>m. memberResult (Some resp) (mrMember m) = Inr (logicalResult m)) (fst out)"
proof -
  have members: "map mrMember (fst out) = Members env" using per_member [OF assms(2)] by simp
  then have "mrMember ` set (fst out) \<subseteq> set (Members env)" by (metis list.set_map order_refl)
  moreover have "distinct (map mrMember (fst out))" by (simp add: members env_members_distinct [OF assms(1)])
  ultimately show ?thesis
    using adapterExecute_ok [where exec = exec and results = "fst out" and evidence = "snd out", OF assms(1)] assms(3) find_own_result
    unfolding list_all_iff by (metis prod.collapse)
qed

lemma adapter_aligned:
  assumes "answers \<lparr>dpModel = mdl, dpMembers = Members env\<rparr> out"
  shows "length (fst out) = length (eRequests env)"
    and "i < length (eRequests env) \<Longrightarrow> mrMember (fst out ! i) = memberRequest (eRequests env ! i)"
proof -
  have members: "map mrMember (fst out) = Members env" using per_member [OF assms] by simp
  then show len: "length (fst out) = length (eRequests env)" by (metis Members_def length_map)
  show "i < length (eRequests env) \<Longrightarrow> mrMember (fst out ! i) = memberRequest (eRequests env ! i)"
    using len members by (metis Members_def nth_map)
qed

end

text \<open>A completed run of the individual executor, and what it returned.\<close>

definition individualAnswers :: "Dispatch \<Rightarrow> ExecResult \<times> DispatchEvidence \<Rightarrow> bool" where
  "individualAnswers d out \<longleftrightarrow> (\<exists>now cpuStart cpuEnd s. fanout_run d now s \<and> waited s \<and> out = executeEnd d cpuStart cpuEnd s)"

interpretation individual: executor_contract individualAnswers
  by unfold_locales (auto simp: individualAnswers_def executeEnd_def intro: fanout_members)

text \<open>
  C26. Every member of a valid envelope is answered and recorded once, as itself, whatever the
  order of the executor's goroutines: once the individual executor's fan-out of the envelope's
  members is done, the adapter's response is for that run, cohort and envelope, the proxy finds
  in it each member's own result, and the adapter's records are one per member in the
  envelope's order, each with the member's own payload size, the envelope's id, the dispatch's
  evidence, the adapter's four stages at the instants of its own result and no other, and the
  status of that result.
\<close>

theorem adapter_answers_members:
  assumes "Envelope.Validate (Some env) (acExpectation cfg) = None"
    and "fanout_run \<lparr>dpModel = acModel cfg, dpMembers = Members env\<rparr> now s" and "waited s"
    and "executeEnd \<lparr>dpModel = acModel cfg, dpMembers = Members env\<rparr> cpuStart cpuEnd s = (results, evidence)"
    and "exec \<lparr>dpModel = acModel cfg, dpMembers = Members env\<rparr> = Inr (results, evidence)"
  shows "case adapterExecute psize cfg exec recvAt sendAt (Some env) of (records, answer) \<Rightarrow>
    (case answer of Inl _ \<Rightarrow> False
     | Inr resp \<Rightarrow> reRunId resp = eRunId env \<and> reCohortId resp = eCohortId env \<and> reEnvelopeId resp = eEnvelopeId env
         \<and> list_all (\<lambda>m. memberResult (Some resp) (mrMember m) = Inr (logicalResult m)) results)
    \<and> length records = length (eRequests env)
    \<and> list_all (\<lambda>(q, m, r). recRequest r = memberRequest q \<and> rEmitter r = EmitterAdapter
        \<and> rLogicalBytes r = of_nat (length (qPayload q)) \<and> rEnvelopeID r = eEnvelopeId env
        \<and> rHasDispatch r \<and> rDispatch r = evidence \<and> rStatus r = (if mrErr m = None then StatusOK else StatusError)
        \<and> map (recStage r) AllStages = map (\<lambda>s. if s = StageAdapterRecv then (recvAt, True)
            else if s = StageAdapterDispatch then (mrDispatchedAt m, True)
            else if s = StageAdapterResult then (mrResultAt m, True)
            else if s = StageAdapterSend then (sendAt, True) else (0, False)) AllStages)
      (zip (eRequests env) (zip results records))"
proof -
  have contract: "env_contract env (acExpectation cfg)" using assms(1) by (simp add: Validate_None_iff)
  have answered: "individualAnswers \<lparr>dpModel = acModel cfg, dpMembers = Members env\<rparr> (results, evidence)"
    unfolding individualAnswers_def using assms(2,3) assms(4) [symmetric] by blast
  obtain resp where
    run: "adapterExecute psize cfg exec recvAt sendAt (Some env)
        = (adapterRecords psize env results evidence recvAt sendAt, Inr resp)"
    and ids: "reRunId resp = eRunId env" "reCohortId resp = eCohortId env" "reEnvelopeId resp = eEnvelopeId env"
      "list_all (\<lambda>m. memberResult (Some resp) (mrMember m) = Inr (logicalResult m)) results"
    using individual.adapter_answer [where exec = exec and psize = psize and recvAt = recvAt and sendAt = sendAt,
        OF contract answered assms(5)] by auto
  note len = individual.adapter_aligned(1) [OF answered, simplified] and at = individual.adapter_aligned(2) [OF answered, simplified]
  have "memberResult (Some resp) (memberRequest (eRequests env ! i)) = Inr (logicalResult (results ! i))"
    if "i < length (eRequests env)" for i
    using ids(4) that by (simp add: list_all_length len at)
  then show ?thesis
    by (simp add: run ids(1-3) list_all_length adapterRecords_def len at adapterRecord_fields payloadBytes_of [OF contract])
qed


text \<open>An envelope of two members, whose fan-out is the sample run of the executor.\<close>

definition sampleConfigA :: AdapterConfig where
  "sampleConfigA = \<lparr>acExpectation = \<lparr>xpRun = ''r'', xpCell = CellF10, xpClockDomain = ''clk'', xpTargetB = 2\<rparr>, acModel = ''m''\<rparr>"

definition sampleEnvelopeA :: RequestEnvelope where
  "sampleEnvelopeA = (fst (base (sampleBuilder CellF10)))\<lparr>eCohortId := 4, eExpectedMembers := 2, eAggregate := True,
     eTCohortSeal := Some 10, eRequests := [pbRequest (LogicalRequest 4 0) [7], pbRequest (LogicalRequest 4 1) [8, 9]]\<rparr>"

lemma sampleEnvelopeA_valid: "Envelope.Validate (Some sampleEnvelopeA) (acExpectation sampleConfigA) = None"
  unfolding Validate_None_iff
  by (simp add: env_contract_def sampleEnvelopeA_def sampleConfigA_def base_def sampleBuilder_def sampleConfig_def
      AggregatesEnvelopes_def VectorizesCompute_def ordinals_def memberRequest_def pbRequest_def upt_rec)

theorem adapter_answers_members_witness:
  "case adapterExecute wire_size sampleConfigA (\<lambda>d. Inr (executeEnd sampleDispatch 0 0 sampleDone)) 5 99 (Some sampleEnvelopeA) of
     (records, answer) \<Rightarrow> length records = 2 \<and> (case answer of Inl _ \<Rightarrow> False
       | Inr resp \<Rightarrow> memberResult (Some resp) (LogicalRequest 4 1) = Inr (logicalResult (fsResults sampleDone ! 1)))"
proof -
  obtain results evidence where e: "executeEnd sampleDispatch 0 0 sampleDone = (results, evidence)"
    by (cases "executeEnd sampleDispatch 0 0 sampleDone")
  then have r: "results = fsResults sampleDone" by (simp add: executeEnd_def)
  have d: "\<lparr>dpModel = acModel sampleConfigA, dpMembers = Members sampleEnvelopeA\<rparr> = sampleDispatch"
    by (simp add: sampleConfigA_def sampleDispatch_def Members_def sampleEnvelopeA_def memberRequest_def)
  have waits: "waited sampleDone" by (simp add: waited_def sampleDone_def)
  let ?run = "adapterExecute wire_size sampleConfigA (\<lambda>d. Inr (results, evidence)) 5 99 (Some sampleEnvelopeA)"
  note t = adapter_answers_members [where exec = "\<lambda>d. Inr (results, evidence)" and cfg = sampleConfigA and env = sampleEnvelopeA
      and recvAt = 5 and sendAt = 99 and psize = wire_size, OF sampleEnvelopeA_valid, unfolded d, OF sampleDone_run waits e refl]
  have n: "length (fst ?run) = 2" using t by (simp add: split_beta) (simp add: sampleEnvelopeA_def)
  obtain resp where resp: "snd ?run = Inr resp" "list_all (\<lambda>m. memberResult (Some resp) (mrMember m) = Inr (logicalResult m)) results"
    using t by (auto simp: split_beta split: sum.splits)
  have "memberResult (Some resp) (LogicalRequest 4 1) = Inr (logicalResult (fsResults sampleDone ! 1))"
    using resp(2) by (simp add: r sampleDone_def)
  then show ?thesis using n resp(1) by (simp add: e split_beta)
qed

end
