(* ===== verification/Submission.thy ===== *)
theory Submission
  imports Executor CodecProofs
begin

text \<open>
  \<^verbatim>\<open>internal/triton/submit.go\<close> and the tensor codecs of \<^verbatim>\<open>gateway.go\<close>: building one inference
  request from members, and reading the evidence out of the response. The gRPC call is a
  function from the request to its error or its response. A \<^verbatim>\<open>float32\<close> is its 32 bits, which is
  what \<^verbatim>\<open>math.Float32bits\<close> returns. \<open>None\<close> is a Go panic.
\<close>

abbreviation (input) InputData :: string where "InputData \<equiv> ''data''"
abbreviation (input) InputPadding :: string where "InputPadding \<equiv> ''padding''"
abbreviation (input) InputUID :: string where "InputUID \<equiv> ''uid''"
abbreviation (input) OutputData :: string where "OutputData \<equiv> ''data_out''"
abbreviation (input) OutputUIDSet :: string where "OutputUIDSet \<equiv> ''uid_set''"

section \<open>Tensors as bytes\<close>

type_synonym float32 = "32 word"

definition AppendUint32 :: "byte list \<Rightarrow> uint32 \<Rightarrow> byte list" where
  "AppendUint32 dst v = dst @ map (\<lambda>i. ucast (drop_bit (8 * i) v)) [0 ..< 4]"

definition AppendUint64 :: "byte list \<Rightarrow> uint64 \<Rightarrow> byte list" where
  "AppendUint64 dst v = dst @ map (\<lambda>i. ucast (drop_bit (8 * i) v)) [0 ..< 8]"

definition Uint64 :: "byte list \<Rightarrow> uint64" where
  "Uint64 b = fold (\<lambda>i acc. acc OR push_bit (8 * i) (ucast (b ! i))) [0 ..< 8] 0"

definition float32SliceToBytes :: "byte list \<Rightarrow> float32 list \<Rightarrow> byte list" where
  "float32SliceToBytes dst src = foldl AppendUint32 dst src"

definition int64SliceToBytes :: "byte list \<Rightarrow> int64 list \<Rightarrow> byte list" where
  "int64SliceToBytes dst src = foldl AppendUint64 dst src"

definition bytesToInt64Slice :: "byte list \<Rightarrow> nat + int64 list" where
  "bytesToInt64Slice b =
     (if length b mod 8 \<noteq> 0 then Inl (length b)
      else Inr (map (\<lambda>i. Uint64 (drop (i * 8) b)) [0 ..< length b div 8]))"

section \<open>The submission engine\<close>

record Submitter =
  sbFeatureWidth :: int
  sbPayloadFloats :: int
  sbData :: "byte list"
  sbPadding :: "byte list"

datatype submitter_error = FeatureWidthNotPositive int | PayloadEmpty int

definition featureValue :: float32 where "featureValue = 0x3C23D70A"
definition padValue :: float32 where "padValue = 0x3F800000"

definition NewSubmitter :: "int \<Rightarrow> int \<Rightarrow> submitter_error + Submitter" where
  "NewSubmitter featureWidth payloadFloats =
     (if featureWidth \<le> 0 then Inl (FeatureWidthNotPositive featureWidth)
      else if payloadFloats \<le> 0 then Inl (PayloadEmpty payloadFloats)
      else Inr \<lparr>sbFeatureWidth = featureWidth, sbPayloadFloats = payloadFloats,
             sbData = float32SliceToBytes [] (replicate (nat featureWidth) featureValue),
             sbPadding = float32SliceToBytes [] (replicate (nat payloadFloats) padValue)\<rparr>)"

definition LogicalBytes :: "Submitter \<Rightarrow> int" where
  "LogicalBytes s = int (length (sbData s)) + int (length (sbPadding s)) + 8"

record InferInput =
  inName :: string
  inDatatype :: string
  inShape :: "int64 list"

record ModelInferRequest =
  irModel :: string
  irId :: string
  irInputs :: "InferInput list"
  irOutputs :: "string list"
  irRaw :: "byte list list"

record InferOutput =
  outName :: string
  outShape :: "int64 list"

record ModelInferResponse =
  ioOutputs :: "InferOutput list"
  ioRaw :: "byte list list"

record TritonResult = SubmitResult +
  srMembers :: "LogicalRequest list"

datatype infer_error =
    SubmitsNothing
  | InferFailed string string string
  | DescriptorCount nat nat
  | NotTwoDimensions "int64 list"
  | RowCount int64 nat
  | NotWholeElements nat
  | ValueCount nat "int64 list"
  | RowsDisagree nat nat
  | NoUIDSet

definition repeat :: "byte list \<Rightarrow> nat \<Rightarrow> byte list" where
  "repeat b n = concat (replicate n b)"

definition inferRequest :: "Submitter \<Rightarrow> string \<Rightarrow> LogicalRequest list \<Rightarrow> ModelInferRequest" where
  "inferRequest s model members =
     (let n = length members;
          uidBuf = int64SliceToBytes [] (map UID members);
          payload = (if 1 < n then repeat (sbData s) n else sbData s);
          padding = (if 1 < n then repeat (sbPadding s) n else sbPadding s)
      in \<lparr>irModel = model, irId = TritonRequestID (members ! 0),
          irInputs = [\<lparr>inName = InputData, inDatatype = ''FP32'', inShape = [of_nat n, of_int (sbFeatureWidth s)]\<rparr>,
                      \<lparr>inName = InputPadding, inDatatype = ''FP32'', inShape = [of_nat n, of_int (sbPayloadFloats s)]\<rparr>,
                      \<lparr>inName = InputUID, inDatatype = ''INT64'', inShape = [of_nat n, 1]\<rparr>],
          irOutputs = [OutputData, OutputUIDSet], irRaw = [payload, padding, uidBuf]\<rparr>)"

text \<open>
  The rows of the attested set, compared with the first. The walk stops at the first pair of
  cells that differ or that lies outside the values, which is an index panic; so the indices
  it computes before it stops never reach the end of a Go \<^verbatim>\<open>int\<close>.
\<close>

definition rowsStop :: "int64 list \<Rightarrow> nat \<Rightarrow> nat \<Rightarrow> (nat \<times> nat) option" where
  "rowsStop values n cols =
     find (\<lambda>(row, col). length values \<le> row * cols + col \<or> values ! (row * cols + col) \<noteq> values ! col)
       (concat (map (\<lambda>row. map (Pair row) [0 ..< cols]) [1 ..< n]))"

definition uidSet :: "int64 list \<Rightarrow> byte list \<Rightarrow> nat \<Rightarrow> (infer_error + UID list \<times> int) option" where
  "uidSet shape raw n =
     (if length shape \<noteq> 2 then Some (Inl (NotTwoDimensions shape))
      else if shape ! 0 \<noteq> of_nat n then Some (Inl (RowCount (shape ! 0) n))
      else case bytesToInt64Slice raw of Inl len \<Rightarrow> Some (Inl (NotWholeElements len))
      | Inr vals \<Rightarrow>
          if of_nat (length vals) \<noteq> shape ! 0 * shape ! 1 then Some (Inl (ValueCount (length vals) shape))
          else
            let cols = sint (shape ! 1) in
            case rowsStop vals n (nat cols) of
              Some (row, col) \<Rightarrow>
                if length vals \<le> row * nat cols + col then None else Some (Inl (RowsDisagree row col))
            | None \<Rightarrow> if cols < 0 \<or> length vals < nat cols then None
                      else Some (Inr (take (nat cols) vals, cols)))"

fun parseOutputs :: "(InferOutput \<times> byte list) list \<Rightarrow> nat \<Rightarrow> TritonResult \<Rightarrow> bool
    \<Rightarrow> (infer_error + TritonResult \<times> bool) option" where
  "parseOutputs [] n res sawUIDSet = Some (Inr (res, sawUIDSet))"
| "parseOutputs ((out, raw) # outs) n res sawUIDSet =
     (if outName out = OutputData
      then parseOutputs outs n (res\<lparr>srDataOutBytes := int (length raw)\<rparr>) sawUIDSet
      else if outName out = OutputUIDSet
      then (case uidSet (outShape out) raw n of
              None \<Rightarrow> None
            | Some (Inl e) \<Rightarrow> Some (Inl e)
            | Some (Inr (membership, cols)) \<Rightarrow>
                parseOutputs outs n (res\<lparr>srMembership := membership, srBatchSize := cols\<rparr>) True)
      else parseOutputs outs n res sawUIDSet)"

definition parseResponse :: "ModelInferResponse \<Rightarrow> LogicalRequest list \<Rightarrow> (infer_error + TritonResult) option" where
  "parseResponse resp members =
     (let outputs = ioOutputs resp; raw = ioRaw resp in
      if length outputs \<noteq> length raw then Some (Inl (DescriptorCount (length outputs) (length raw)))
      else case parseOutputs (zip outputs raw) (length members)
             \<lparr>srMembership = [], srBatchSize = 0, srDataOutBytes = 0, srMembers = members\<rparr> False of
             None \<Rightarrow> None
           | Some (Inl e) \<Rightarrow> Some (Inl e)
           | Some (Inr (res, sawUIDSet)) \<Rightarrow> if \<not> sawUIDSet then Some (Inl NoUIDSet) else Some (Inr res))"

definition Submit :: "(ModelInferRequest \<Rightarrow> string + ModelInferResponse) \<Rightarrow> Submitter \<Rightarrow> string
    \<Rightarrow> LogicalRequest list \<Rightarrow> (infer_error + TritonResult) option" where
  "Submit infer s model members =
     (if length members = 0 then Some (Inl SubmitsNothing)
      else let req = inferRequest s model members in
        case infer req of
          Inl e \<Rightarrow> Some (Inl (InferFailed model (irId req) e))
        | Inr resp \<Rightarrow> parseResponse resp members)"

section \<open>Tensor round trips\<close>

lemma bit_fold_or:
  "bit (fold (\<lambda>i acc. acc OR push_bit (8 * i) (ucast (b ! i))) is acc :: uint64) k \<longleftrightarrow>
     bit acc k \<or> (\<exists>i \<in> set is. bit (push_bit (8 * i) (ucast (b ! i)) :: uint64) k)"
  by (induction "is" arbitrary: acc) (auto simp: bit_or_iff)

lemma Uint64_AppendUint64: "Uint64 (AppendUint64 [] v @ rest) = v"
proof (rule bit_word_eqI)
  fix k assume "k < LENGTH(64)"
  then have k: "k < 64" by simp
  let ?b = "AppendUint64 [] v @ rest"
  have at: "?b ! i = ucast (drop_bit (8 * i) v)" if "i < 8" for i
    using that by (simp add: AppendUint64_def nth_append)
  have "bit (Uint64 ?b) k \<longleftrightarrow> (\<exists>i < 8. bit (push_bit (8 * i) (ucast (ucast (drop_bit (8 * i) v) :: byte)) :: uint64) k)"
    by (auto simp: Uint64_def bit_fold_or at)
  also have "\<dots> \<longleftrightarrow> (\<exists>i < 8. 8 * i \<le> k \<and> k - 8 * i < 8 \<and> bit v k)"
    using k by (auto simp: bit_push_bit_iff bit_ucast_iff bit_drop_bit_eq)
  also have "\<dots> \<longleftrightarrow> bit v k"
  proof
    assume "bit v k"
    moreover have "k div 8 < 8" "8 * (k div 8) \<le> k" "k - 8 * (k div 8) < 8" using k by auto
    ultimately show "\<exists>i < 8. 8 * i \<le> k \<and> k - 8 * i < 8 \<and> bit v k" by blast
  qed auto
  finally show "bit (Uint64 ?b) k = bit v k" .
qed

lemma foldl_AppendUint64: "foldl AppendUint64 dst xs = dst @ concat (map (AppendUint64 []) xs)"
  by (induction xs arbitrary: dst) (simp_all add: AppendUint64_def)

lemma foldl_AppendUint32: "foldl AppendUint32 dst xs = dst @ concat (map (AppendUint32 []) xs)"
  by (induction xs arbitrary: dst) (simp_all add: AppendUint32_def)

lemma length_AppendUint64 [simp]: "length (AppendUint64 [] v) = 8" by (simp add: AppendUint64_def)

lemma length_int64Slice [simp]: "length (int64SliceToBytes [] xs) = 8 * length xs"
  by (induction xs) (simp_all add: int64SliceToBytes_def foldl_AppendUint64)

lemma length_float32Slice [simp]: "length (float32SliceToBytes [] xs) = 4 * length xs"
  by (induction xs) (simp_all add: float32SliceToBytes_def foldl_AppendUint32, simp add: AppendUint32_def)

lemma drop_int64Slice: "i \<le> length xs \<Longrightarrow> drop (i * 8) (int64SliceToBytes [] xs) = int64SliceToBytes [] (drop i xs)"
proof (induction xs arbitrary: i)
  case (Cons x xs)
  then show ?case by (cases i) (simp_all add: int64SliceToBytes_def foldl_AppendUint64)
qed (simp add: int64SliceToBytes_def)

lemma bytesToInt64Slice_inverse [simp]: "bytesToInt64Slice (int64SliceToBytes [] xs) = Inr xs"
proof -
  have "Uint64 (drop (i * 8) (int64SliceToBytes [] xs)) = xs ! i" if "i < length xs" for i
  proof -
    have "drop i xs = xs ! i # drop (Suc i) xs" using that by (simp add: Cons_nth_drop_Suc)
    then show ?thesis
      using that by (simp only: drop_int64Slice less_imp_le)
        (simp add: int64SliceToBytes_def foldl_AppendUint64 Uint64_AppendUint64)
  qed
  then show ?thesis by (auto simp: bytesToInt64Slice_def intro: nth_equalityI)
qed


section \<open>Reading the evidence\<close>

lemma sint_of_nat64: "n < 2 ^ 63 \<Longrightarrow> sint (of_nat n :: int64) = int n"
  using sint_sbintrunc' [where 'a = 64, of "int n"] wrap64_id [of "int n"] by (simp add: wrap64_def)

lemma rows_agree:
  assumes "length row = cols"
  shows "rowsStop (concat (replicate n row)) n cols = None"
proof -
  have at: "i < n \<Longrightarrow> col < cols \<Longrightarrow> concat (replicate n row) ! (i * cols + col) = row ! col" for i col
  proof (induction n arbitrary: i)
    case (Suc n)
    then show ?case using assms by (cases i) (simp_all add: nth_append algebra_simps)
  qed simp
  have len: "length (concat (replicate n row)) = n * cols" using assms by (induction n) simp_all
  have bound: "i < n \<Longrightarrow> col < cols \<Longrightarrow> i * cols + col < n * cols" for i col
  proof -
    assume "i < n" "col < cols"
    then have "i * cols + col < Suc i * cols" by simp
    also have "\<dots> \<le> n * cols" using \<open>i < n\<close> by (simp only: mult_le_mono1 Suc_leI)
    finally show ?thesis .
  qed
  show ?thesis
    unfolding rowsStop_def find_None_iff
  proof
    assume "\<exists>x. x \<in> set (concat (map (\<lambda>row. map (Pair row) [0..<cols]) [1..<n]))
      \<and> (case x of (i, col) \<Rightarrow> length (concat (replicate n row)) \<le> i * cols + col
        \<or> concat (replicate n row) ! (i * cols + col) \<noteq> concat (replicate n row) ! col)"
    then obtain i col where i: "1 \<le> i" "i < n" "col < cols"
      and bad: "length (concat (replicate n row)) \<le> i * cols + col
        \<or> concat (replicate n row) ! (i * cols + col) \<noteq> concat (replicate n row) ! col" by auto
    moreover have "concat (replicate n row) ! col = row ! col" using at [of 0 col] i by simp
    ultimately show False using bad at [of i col] bound [of i col] len by simp
  qed
qed

lemma uidSet_rows:
  assumes "length row < 2 ^ 31" and "0 < n" and "n < 2 ^ 31"
  shows "uidSet [of_nat n, of_nat (length row)] (int64SliceToBytes [] (concat (replicate n row))) n
    = Some (Inr (row, int (length row)))"
proof -
  have len: "length (concat (replicate n row)) = n * length row" by (induction n) simp_all
  have "take (length row) (concat (replicate n row)) = row" using assms(2) by (cases n) simp_all
  moreover have "sint (of_nat (length row) :: int64) = int (length row)" using assms(1) by (intro sint_of_nat64) simp
  moreover have "row = [] \<or> 0 < n" using assms(2) by simp
  ultimately show ?thesis
    by (simp add: uidSet_def Let_def len rows_agree [OF refl])
qed

text \<open>
  A response that attests, as a self-attesting model does: to every member, a row with the
  whole set of identities the request carried, beside a data tensor of any size.
\<close>

definition attests :: "ModelInferRequest \<Rightarrow> ModelInferResponse \<Rightarrow> bool" where
  "attests req resp \<longleftrightarrow>
     (case bytesToInt64Slice (irRaw req ! 2) of Inl _ \<Rightarrow> False
      | Inr uids \<Rightarrow> map outName (ioOutputs resp) = [OutputData, OutputUIDSet] \<and> length (ioRaw resp) = 2
          \<and> outShape (ioOutputs resp ! 1) = [of_nat (length uids), of_nat (length uids)]
          \<and> ioRaw resp ! 1 = int64SliceToBytes [] (concat (replicate (length uids) uids)))"

lemma attests_parses:
  assumes "attests req resp" and "bytesToInt64Slice (irRaw req ! 2) = Inr uids"
    and "length uids = length members" and "members \<noteq> []" and "length members < 2 ^ 31"
  shows "\<exists>k. parseResponse resp members
    = Some (Inr \<lparr>srMembership = uids, srBatchSize = int (length members), srDataOutBytes = k, srMembers = members\<rparr>)"
proof -
  obtain o1 o2 where outs: "ioOutputs resp = [o1, o2]" and names: "outName o1 = OutputData" "outName o2 = OutputUIDSet"
    and shape: "outShape o2 = [of_nat (length uids), of_nat (length uids)]"
    using assms(1,2) by (auto simp: attests_def)
  obtain b1 where raw: "ioRaw resp = [b1, int64SliceToBytes [] (concat (replicate (length uids) uids))]"
    using assms(1,2) by (cases "ioRaw resp" rule: remdups_adj.cases) (auto simp: attests_def)
  have "0 < length members" using assms(4) by simp
  with assms(3,5) show ?thesis
    using uidSet_rows [of uids "length members"] by (auto simp: parseResponse_def outs raw names shape)
qed

text \<open>
  C27. A submission comes back as what was submitted: when the model attests the set of
  identities the request carried, a submission of members is never refused nor does it panic,
  its membership is the members' UIDs and unpacks to the members themselves, its batch size is
  their number, and the id the request was traced under parses back to the first member.
\<close>

theorem submission_roundtrip:
  assumes "members \<noteq> []" and "length members < 2 ^ 31"
    and "infer (inferRequest s model members) = Inr resp" and "attests (inferRequest s model members) resp"
    and "list_all (\<lambda>m. unat (Ordinal m) \<le> MaxOrdinal) members"
  shows "case Submit infer s model members of
     Some (Inr res) \<Rightarrow> srMembership res = map UID members \<and> map uidLogicalRequest (srMembership res) = members
       \<and> srBatchSize res = int (length members) \<and> srMembers res = members
       \<and> ParseTritonRequestID (irId (inferRequest s model members)) = Inr (members ! 0)
   | _ \<Rightarrow> False"
proof -
  have "bytesToInt64Slice (irRaw (inferRequest s model members) ! 2) = Inr (map UID members)"
    by (simp add: inferRequest_def Let_def numeral_2_eq_2)
  from attests_parses [OF assms(4) this _ assms(1,2)] obtain k where
    "parseResponse resp members = Some (Inr \<lparr>srMembership = map UID members, srBatchSize = int (length members),
       srDataOutBytes = k, srMembers = members\<rparr>)" by auto
  moreover have "map uidLogicalRequest (map UID members) = members"
    using assms(5) by (induction members) (auto simp: UID_roundtrip_iff)
  moreover have "ParseTritonRequestID (irId (inferRequest s model members)) = Inr (members ! 0)"
    by (simp add: inferRequest_def Let_def ParseTritonRequestID_inverse)
  ultimately show ?thesis using assms(1,3) by (simp add: Submit_def Let_def)
qed


definition one_row :: "InferOutput \<times> byte list \<Rightarrow> bool" where
  "one_row = (\<lambda>(out, raw). outShape out = [1, of_nat (length raw div 8)] \<and> length raw mod 8 = 0)"

lemma uidSet_one:
  assumes "length raw < 2 ^ 63"
  shows "if one_row (out, raw)
    then \<exists>vals. bytesToInt64Slice raw = Inr vals \<and> uidSet (outShape out) raw 1 = Some (Inr (vals, int (length vals)))
    else \<exists>e. uidSet (outShape out) raw 1 = Some (Inl e)"
proof -
  have none: "rowsStop vals (Suc 0) c = None" for vals c by (simp add: rowsStop_def)
  have small: "length raw div 8 < 2 ^ 63" using assms by simp
  note width = sint_of_nat64 [OF this]
  show ?thesis
  proof (cases "outShape out" rule: remdups_adj.cases)
    case (3 r c rest)
    show ?thesis
    proof (cases "rest = [] \<and> r = 1 \<and> length raw mod 8 = 0 \<and> of_nat (length raw div 8) = c")
      case True
      then show ?thesis
        using 3 width by (auto simp: one_row_def uidSet_def bytesToInt64Slice_def Let_def none)
    next
      case False
      then show ?thesis using 3 by (auto simp: one_row_def uidSet_def bytesToInt64Slice_def Let_def)
    qed
  qed (auto simp: one_row_def uidSet_def)
qed

lemma parseOutputs_one:
  assumes "list_all (\<lambda>(out, raw). length raw < 2 ^ 63) outs"
  shows "let sets = filter (\<lambda>(out, raw). outName out = OutputUIDSet) outs in
    if list_all one_row sets
    then \<exists>res'. parseOutputs outs 1 res saw = Some (Inr (res', saw \<or> sets \<noteq> [])) \<and> srMembers res' = srMembers res
      \<and> (if sets = [] then srMembership res' = srMembership res \<and> srBatchSize res' = srBatchSize res
         else bytesToInt64Slice (snd (last sets)) = Inr (srMembership res')
           \<and> srBatchSize res' = int (length (srMembership res')))
    else \<exists>e. parseOutputs outs 1 res saw = Some (Inl e)"
  using assms
proof (induction outs arbitrary: res saw)
  case (Cons a outs)
  obtain out raw where a: "a = (out, raw)" by force
  show ?case
  proof (cases "outName out = OutputUIDSet")
    case False
    have "list_all (\<lambda>(out, raw). length raw < 2 ^ 63) outs" using Cons.prems by simp
    note IH = Cons.IH [OF this]
    show ?thesis
      using IH [of "res\<lparr>srDataOutBytes := int (length raw)\<rparr>" saw] IH [of res saw] False
      by (auto simp add: a Let_def split: if_splits)
  next
    case True
    show ?thesis
    proof (cases "one_row (out, raw)")
      case True
      with uidSet_one [of raw out] Cons.prems a obtain vals where
        vals: "bytesToInt64Slice raw = Inr vals" "uidSet (outShape out) raw 1 = Some (Inr (vals, int (length vals)))"
        by auto
      show ?thesis
        using Cons.IH [of "res\<lparr>srMembership := vals, srBatchSize := int (length vals)\<rparr>" True] Cons.prems True vals
          \<open>outName out = OutputUIDSet\<close>
        by (auto simp add: a Let_def split: if_splits)
    next
      case False
      then show ?thesis using uidSet_one [of raw out] Cons.prems True by (auto simp: a Let_def)
    qed
  qed
qed simp

text \<open>
  One member at a time is safe to read: when the payloads are of sizes a slice can have,
  reading any response to a submission of one member never panics, and it is accepted exactly
  when there is one payload per output, some output is the attested set, and every output of
  that name has the shape of one row and as many whole values as the row is wide; the
  membership is then what the last of them carries and the batch size is its number.
\<close>

theorem single_submission_contract:
  assumes "list_all (\<lambda>b. length b < 2 ^ 63) (ioRaw resp)"
  shows "let outs = zip (ioOutputs resp) (ioRaw resp);
      sets = filter (\<lambda>(out, raw). outName out = OutputUIDSet) outs;
      accepted = length (ioOutputs resp) = length (ioRaw resp) \<and> sets \<noteq> []
        \<and> list_all (\<lambda>(out, raw). outShape out = [1, of_nat (length raw div 8)] \<and> length raw mod 8 = 0) sets
    in case parseResponse resp [m] of
         None \<Rightarrow> False
       | Some (Inl e) \<Rightarrow> \<not> accepted
       | Some (Inr res) \<Rightarrow> accepted \<and> bytesToInt64Slice (snd (last sets)) = Inr (srMembership res)
           \<and> srBatchSize res = int (length (srMembership res)) \<and> srMembers res = [m]"
proof (cases "length (ioOutputs resp) = length (ioRaw resp)")
  case True
  have "list_all (\<lambda>(out, raw). length raw < 2 ^ 63) (zip (ioOutputs resp) (ioRaw resp))"
    using assms by (auto simp: list_all_iff dest: set_zip_rightD)
  from parseOutputs_one [OF this, of "\<lparr>srMembership = [], srBatchSize = 0, srDataOutBytes = 0, srMembers = [m]\<rparr>" False] True
  show ?thesis by (auto simp: parseResponse_def Let_def one_row_def split: if_splits)
qed (simp add: parseResponse_def Let_def)

text \<open>The response of a model that attests one member, and one that attests two.\<close>

definition sampleMembers2 :: "LogicalRequest list" where
  "sampleMembers2 = [LogicalRequest 4 0, LogicalRequest 4 1]"

definition sampleSubmitter :: Submitter where
  "sampleSubmitter = \<lparr>sbFeatureWidth = 1, sbPayloadFloats = 1,
     sbData = float32SliceToBytes [] [featureValue], sbPadding = float32SliceToBytes [] [padValue]\<rparr>"

definition sampleResponse :: ModelInferResponse where
  "sampleResponse = \<lparr>ioOutputs = [\<lparr>outName = OutputData, outShape = [2, 1]\<rparr>, \<lparr>outName = OutputUIDSet, outShape = [2, 2]\<rparr>],
     ioRaw = [[0, 0], int64SliceToBytes [] (concat (replicate 2 (map UID sampleMembers2)))]\<rparr>"

theorem submission_roundtrip_witness:
  "case Submit (\<lambda>req. Inr sampleResponse) sampleSubmitter ''m'' sampleMembers2 of
     Some (Inr res) \<Rightarrow> map uidLogicalRequest (srMembership res) = sampleMembers2 \<and> srBatchSize res = 2
   | _ \<Rightarrow> False"
proof -
  have uids: "bytesToInt64Slice (irRaw (inferRequest sampleSubmitter ''m'' sampleMembers2) ! 2) = Inr (map UID sampleMembers2)"
    by (simp add: inferRequest_def Let_def numeral_2_eq_2)
  have "attests (inferRequest sampleSubmitter ''m'' sampleMembers2) sampleResponse"
    by (simp add: attests_def uids) (simp add: sampleResponse_def sampleMembers2_def numeral_2_eq_2)
  moreover have "list_all (\<lambda>m. unat (Ordinal m) \<le> MaxOrdinal) sampleMembers2"
    by (simp add: sampleMembers2_def MaxOrdinal_def)
  moreover have "sampleMembers2 \<noteq> []" "length sampleMembers2 = 2" by (simp_all add: sampleMembers2_def)
  ultimately show ?thesis
    using submission_roundtrip [of sampleMembers2 "\<lambda>req. Inr sampleResponse" sampleSubmitter "''m''" sampleResponse]
    by (auto split: option.splits sum.splits)
qed


definition soloResponse :: ModelInferResponse where
  "soloResponse = \<lparr>ioOutputs = [\<lparr>outName = OutputUIDSet, outShape = [1, 2]\<rparr>],
     ioRaw = [int64SliceToBytes [] [5, 6]]\<rparr>"

theorem single_submission_contract_witness:
  "case parseResponse soloResponse [LogicalRequest 4 0] of
     Some (Inr res) \<Rightarrow> bytesToInt64Slice (int64SliceToBytes [] [5, 6]) = Inr (srMembership res) \<and> srBatchSize res = 2
   | _ \<Rightarrow> False"
proof -
  have "list_all (\<lambda>b. length b < 2 ^ 63) (ioRaw soloResponse)" by (simp add: soloResponse_def)
  from single_submission_contract [OF this, of "LogicalRequest 4 0"] show ?thesis
    by (auto simp: soloResponse_def Let_def split: option.splits sum.splits dest!: sym [of "[5, 6]"])
qed

text \<open>
  With several members the shape's product is taken modulo \<open>2 ^ 64\<close>: a response of no values
  that claims \<open>2 ^ 62\<close> columns for four members passes the count and the walk over its rows
  then indexes out of range.
\<close>

lemma overflowing_shape_panics:
  assumes "length members = 4"
  shows "parseResponse \<lparr>ioOutputs = [\<lparr>outName = OutputUIDSet, outShape = [4, 2 ^ 62]\<rparr>], ioRaw = [[]]\<rparr> members = None"
proof -
  have none: "bytesToInt64Slice [] = Inr []" by (simp add: bytesToInt64Slice_def)
  have cols: "sint (2 ^ 62 :: int64) = 2 ^ 62" using sint_of_nat64 [of "2 ^ 62"] by simp
  have "[0 ..< 2 ^ 62] = 0 # [1 ..< 2 ^ 62 :: nat]" by (subst upt_conv_Cons) simp_all
  moreover have "[1 ..< 4 :: nat] = 1 # [2, 3]" by (simp add: upt_rec)
  ultimately have stop: "rowsStop [] 4 (2 ^ 62) = Some (1, 0)" unfolding rowsStop_def by simp
  have product: "(4 :: int64) * 2 ^ 62 = 0" by simp
  have "uidSet [4, 2 ^ 62] [] 4 = None"
    unfolding uidSet_def Let_def none using product cols stop by (simp del: One_nat_def)
  then show ?thesis by (simp add: parseResponse_def assms)
qed

end
