(* ===== verification/Manifest.thy ===== *)
theory Manifest
  imports Identity
begin

text \<open>
  \<^verbatim>\<open>internal/manifest/manifest.go\<close>: a run's declared configuration and the checks it must pass
  before anything is started. Go \<^verbatim>\<open>int\<close>s are integers, with the one product the code takes
  wrapped to 64 bits; a JSON \<^verbatim>\<open>float64\<close> is a rational (it cannot be a NaN or infinite). Reading
  and decoding the file is left to the caller; the refusal of unknown keys is the decoder's.
\<close>

section \<open>The configuration\<close>

type_synonym EntryKind = string

abbreviation (input) EntryUnbatched :: EntryKind where "EntryUnbatched \<equiv> ''unbatched''"
abbreviation (input) EntryDynamic :: EntryKind where "EntryDynamic \<equiv> ''dynamic''"
abbreviation (input) EntryExplicit :: EntryKind where "EntryExplicit \<equiv> ''explicit''"

definition EntryName :: "string \<Rightarrow> EntryKind \<Rightarrow> string" where
  "EntryName artifactID kind = artifactID @ ''_'' @ kind"

abbreviation (input) ReleaseFixedCohort :: string where "ReleaseFixedCohort \<equiv> ''fixed-cohort''"
abbreviation (input) ReleaseSequential :: string where "ReleaseSequential \<equiv> ''sequential''"

record MCohort =
  mcSize :: int
  mcCount :: int
  mcWarmupCount :: int
  mcFormationDeadlineMillis :: int

record MModel =
  mmCatalog :: string
  mmArtifactDir :: string
  mmRuntimeDir :: string
  mmArtifactID :: string
  mmEntry :: EntryKind
  mmExpectedDigest :: string

record MWorkload =
  mwSeed :: int
  mwReleaseMode :: string
  mwInterCohortGapMillis :: int
  mwRequestTimeoutMillis :: int

record MTransport =
  mtTritonEndpoint :: string
  mtProxyEndpoint :: string
  mtAdapterEndpoint :: string
  mtMaxMessageBytes :: int
  mtInitialWindowSize :: int
  mtInitialConnWindowSize :: int

record MGC =
  mgGOGC :: int
  mgGOMEMLIMIT :: int
  mgSampleMillis :: int

record MTracing =
  mtMode :: string
  mtTraceDir :: string

record MExpectedEvidence =
  meExecutions :: int
  meExecutionsPerCohort :: int
  meBatchSize :: int
  meMaxAdapterDispatchWaitNanos :: int64
  meMaxDispatchSkewNanos :: int64

record Manifest =
  mnSchemaVersion :: int
  mnDescription :: string
  mnExperiment :: string
  mnSession :: string
  mnRun :: string
  mnCell :: Cell
  mnEnvironment :: string
  mnCohort :: MCohort
  mnModel :: MModel
  mnWorkload :: MWorkload
  mnTransport :: MTransport
  mnGC :: MGC
  mnTracing :: MTracing
  mnBundleDir :: string
  mnExpectedEvidence :: MExpectedEvidence
  mnToleranceFraction :: rat

definition manifestSchemaVersion :: int where "manifestSchemaVersion = 1"

definition millis :: "int \<Rightarrow> int" where "millis n = wrap64 (n * 1000000)"

definition FormationDeadline :: "MCohort \<Rightarrow> int" where
  "FormationDeadline c = millis (mcFormationDeadlineMillis c)"

definition RequestTimeout :: "Manifest \<Rightarrow> int" where
  "RequestTimeout m = millis (mwRequestTimeoutMillis (mnWorkload m))"

definition InterCohortGap :: "Manifest \<Rightarrow> int" where
  "InterCohortGap m = millis (mwInterCohortGapMillis (mnWorkload m))"

definition TotalCohorts :: "Manifest \<Rightarrow> int" where
  "TotalCohorts m = wrap64 (mcWarmupCount (mnCohort m) + mcCount (mnCohort m))"

definition ModelEntryName :: "Manifest \<Rightarrow> string" where
  "ModelEntryName m = EntryName (mmArtifactID (mnModel m)) (mmEntry (mnModel m))"

section \<open>Validation\<close>

datatype manifest_error =
    ManifestSchema int
  | FieldRequired string
  | ManifestCell cell_error
  | NeedsProxyEndpoint Cell
  | MustNotNameProxy Cell
  | CohortSizeNotPositive int
  | CohortSizeExceedsOrdinal int
  | CohortCountNotPositive int
  | NegativeWarmup int
  | SequentialRelease
  | UnknownReleaseMode string
  | NeedsFormationDeadline Cell
  | MustNotDeclareDeadline Cell
  | NoRequestTimeout
  | DeadlineNotShorter int int
  | UnbatchedVectorized Cell
  | BatchedNotVectorized Cell EntryKind
  | EntryOutsideSlice EntryKind
  | UnknownEntry EntryKind
  | NoMaxMessageBytes
  | NoGOGC
  | NoMemoryLimit
  | NoTraceDir
  | ExecutionsMismatch int int int
  | NeedsDispatchSkew Cell
  | VectorizedExecutions Cell int
  | VectorizedBatchSize Cell int int
  | SinglesExecutions Cell int int
  | SinglesBatchSize Cell int
  | NeedsDispatchWait Cell
  | ToleranceOutside rat

definition requiredFields :: "Manifest \<Rightarrow> (string \<times> string) list" where
  "requiredFields m =
     [(''experiment_id'', mnExperiment m), (''session_id'', mnSession m), (''run_id'', mnRun m),
      (''environment'', mnEnvironment m), (''model.catalog'', mmCatalog (mnModel m)),
      (''model.artifact_id'', mmArtifactID (mnModel m)), (''model.runtime_dir'', mmRuntimeDir (mnModel m)),
      (''transport.triton_endpoint'', mtTritonEndpoint (mnTransport m)), (''output.bundle_dir'', mnBundleDir m)]"

definition checkFields :: "Manifest \<Rightarrow> manifest_error option" where
  "checkFields m = (case find (\<lambda>(name, value). value = []) (requiredFields m) of
     None \<Rightarrow> None | Some (name, _) \<Rightarrow> Some (FieldRequired name))"

definition checkCell :: "Manifest \<Rightarrow> manifest_error option" where
  "checkCell m =
     (case ParseCell (mnCell m) of Inl e \<Rightarrow> Some (ManifestCell e)
      | Inr cell \<Rightarrow>
          (case CheckImplemented cell of Some e \<Rightarrow> Some (ManifestCell e)
           | None \<Rightarrow>
               if UsesProxy cell \<and> mtProxyEndpoint (mnTransport m) = [] then Some (NeedsProxyEndpoint cell)
               else if \<not> UsesProxy cell \<and> mtProxyEndpoint (mnTransport m) \<noteq> [] then Some (MustNotNameProxy cell)
               else None))"

definition checkCohort :: "Manifest \<Rightarrow> manifest_error option" where
  "checkCohort m =
     (let c = mnCohort m in
      if mcSize c \<le> 0 then Some (CohortSizeNotPositive (mcSize c))
      else if int MaxOrdinal < mcSize c then Some (CohortSizeExceedsOrdinal (mcSize c))
      else if mcCount c \<le> 0 then Some (CohortCountNotPositive (mcCount c))
      else if mcWarmupCount c < 0 then Some (NegativeWarmup (mcWarmupCount c))
      else None)"

definition checkRelease :: "Manifest \<Rightarrow> manifest_error option" where
  "checkRelease m =
     (let mode = mwReleaseMode (mnWorkload m) in
      if mode = ReleaseFixedCohort then None
      else if mode = ReleaseSequential then Some SequentialRelease
      else Some (UnknownReleaseMode mode))"

definition checkDeadlines :: "Manifest \<Rightarrow> Cell \<Rightarrow> manifest_error option" where
  "checkDeadlines m cell =
     (let deadline = mcFormationDeadlineMillis (mnCohort m); timeout = mwRequestTimeoutMillis (mnWorkload m) in
      if AggregatesEnvelopes cell \<and> deadline \<le> 0 then Some (NeedsFormationDeadline cell)
      else if \<not> AggregatesEnvelopes cell \<and> deadline \<noteq> 0 then Some (MustNotDeclareDeadline cell)
      else if timeout \<le> 0 then Some NoRequestTimeout
      else if AggregatesEnvelopes cell \<and> timeout \<le> deadline then Some (DeadlineNotShorter deadline timeout)
      else None)"

definition checkEntry :: "Manifest \<Rightarrow> Cell \<Rightarrow> manifest_error option" where
  "checkEntry m cell =
     (let entry = mmEntry (mnModel m) in
      if entry = EntryUnbatched then (if VectorizesCompute cell then Some (UnbatchedVectorized cell) else None)
      else if entry = EntryDynamic \<or> entry = EntryExplicit
      then (if \<not> VectorizesCompute cell then Some (BatchedNotVectorized cell entry) else Some (EntryOutsideSlice entry))
      else Some (UnknownEntry entry))"

definition checkPinned :: "Manifest \<Rightarrow> manifest_error option" where
  "checkPinned m =
     (if mtMaxMessageBytes (mnTransport m) \<le> 0 then Some NoMaxMessageBytes
      else if mgGOGC (mnGC m) \<le> 0 then Some NoGOGC
      else if mgGOMEMLIMIT (mnGC m) \<le> 0 then Some NoMemoryLimit
      else if mtTraceDir (mnTracing m) = [] then Some NoTraceDir
      else None)"

definition validateExpectedEvidence :: "Manifest \<Rightarrow> Cell \<Rightarrow> manifest_error option" where
  "validateExpectedEvidence m cell =
     (let e = mnExpectedEvidence m; sz = mcSize (mnCohort m); count = mcCount (mnCohort m) in
      if meExecutions e \<noteq> wrap64 (count * meExecutionsPerCohort e)
      then Some (ExecutionsMismatch (meExecutions e) count (meExecutionsPerCohort e))
      else if AggregatesEnvelopes cell \<and> meMaxDispatchSkewNanos e \<le>s 0 then Some (NeedsDispatchSkew cell)
      else if VectorizesCompute cell
      then (if meExecutionsPerCohort e \<noteq> 1 then Some (VectorizedExecutions cell (meExecutionsPerCohort e))
            else if meBatchSize e \<noteq> sz then Some (VectorizedBatchSize cell sz (meBatchSize e))
            else None)
      else if meExecutionsPerCohort e \<noteq> sz then Some (SinglesExecutions cell sz (meExecutionsPerCohort e))
      else if meBatchSize e \<noteq> 1 then Some (SinglesBatchSize cell (meBatchSize e))
      else if UsesProxy cell \<and> meMaxAdapterDispatchWaitNanos e \<le>s 0 then Some (NeedsDispatchWait cell)
      else None)"

definition checkTolerance :: "Manifest \<Rightarrow> manifest_error option" where
  "checkTolerance m = (if mnToleranceFraction m \<le> 0 \<or> 1 \<le> mnToleranceFraction m
     then Some (ToleranceOutside (mnToleranceFraction m)) else None)"

text \<open>The first check that refuses decides the error.\<close>

definition first_error :: "manifest_error option list \<Rightarrow> manifest_error option" where
  "first_error es = (case find (\<lambda>e. e \<noteq> None) es of None \<Rightarrow> None | Some e \<Rightarrow> e)"

definition Manifest_Validate :: "Manifest \<Rightarrow> manifest_error option" where
  "Manifest_Validate m =
     (if mnSchemaVersion m \<noteq> manifestSchemaVersion then Some (ManifestSchema (mnSchemaVersion m))
      else let cell = mnCell m in
        first_error [checkFields m, checkCell m, checkCohort m, checkRelease m, checkDeadlines m cell,
          checkEntry m cell, checkPinned m, validateExpectedEvidence m cell, checkTolerance m])"

section \<open>What a valid manifest declares\<close>

lemma first_error_None [check_simps]: "first_error es = None \<longleftrightarrow> list_all (\<lambda>e. e = None) es"
  by (induction es) (auto simp: first_error_def)

lemma checkFields_None: "checkFields m = None \<longleftrightarrow> list_all (\<lambda>(name, value). value \<noteq> []) (requiredFields m)"
proof -
  have "(case find (\<lambda>(name, value). value = []) xs of None \<Rightarrow> None | Some (name, _) \<Rightarrow> Some (FieldRequired name)) = None
      \<longleftrightarrow> list_all (\<lambda>(name, value). value \<noteq> []) xs" for xs :: "(string \<times> string) list"
    by (induction xs) auto
  then show ?thesis by (simp add: checkFields_def)
qed

lemma checkCell_None:
  "checkCell m = None \<longleftrightarrow> Implemented (mnCell m) \<and> (UsesProxy (mnCell m) \<longleftrightarrow> mtProxyEndpoint (mnTransport m) \<noteq> [])"
proof (cases "ParseCell (mnCell m)")
  case (Inl e)
  then have "\<not> Implemented (mnCell m)"
    using Implemented_AllCells ParseCell_Inr_iff [of "mnCell m" "mnCell m"] by auto
  with Inl show ?thesis by (simp add: checkCell_def)
next
  case (Inr cell)
  then have cell: "cell = mnCell m" using ParseCell_Inr_iff by metis
  show ?thesis
  proof (cases "CheckImplemented (mnCell m)")
    case None
    moreover from None have "Implemented (mnCell m)" by simp
    ultimately show ?thesis using Inr by (simp add: checkCell_def cell del: CheckImplemented_None_iff)
  next
    case (Some e)
    moreover from Some have "\<not> Implemented (mnCell m)" by (metis CheckImplemented_None_iff option.distinct(1))
    ultimately show ?thesis using Inr by (simp add: checkCell_def cell del: CheckImplemented_None_iff)
  qed
qed

lemma Manifest_Validate_None:
  "Manifest_Validate m = None \<longleftrightarrow>
     (let cell = mnCell m; c = mnCohort m; e = mnExpectedEvidence m; w = mnWorkload m in
      mnSchemaVersion m = 1 \<and> list_all (\<lambda>(name, value). value \<noteq> []) (requiredFields m)
      \<and> Implemented cell \<and> (UsesProxy cell \<longleftrightarrow> mtProxyEndpoint (mnTransport m) \<noteq> [])
      \<and> 1 \<le> mcSize c \<and> mcSize c \<le> int MaxOrdinal \<and> 1 \<le> mcCount c \<and> 0 \<le> mcWarmupCount c
      \<and> mwReleaseMode w = ReleaseFixedCohort \<and> 1 \<le> mwRequestTimeoutMillis w
      \<and> (if AggregatesEnvelopes cell
         then 1 \<le> mcFormationDeadlineMillis c \<and> mcFormationDeadlineMillis c < mwRequestTimeoutMillis w
         else mcFormationDeadlineMillis c = 0)
      \<and> mmEntry (mnModel m) = EntryUnbatched \<and> \<not> VectorizesCompute cell
      \<and> 1 \<le> mtMaxMessageBytes (mnTransport m) \<and> 1 \<le> mgGOGC (mnGC m) \<and> 1 \<le> mgGOMEMLIMIT (mnGC m)
      \<and> mtTraceDir (mnTracing m) \<noteq> []
      \<and> meExecutionsPerCohort e = mcSize c \<and> meBatchSize e = 1 \<and> meExecutions e = wrap64 (mcCount c * mcSize c)
      \<and> (if AggregatesEnvelopes cell then 0 < sint (meMaxDispatchSkewNanos e) else True)
      \<and> (if UsesProxy cell then 0 < sint (meMaxAdapterDispatchWaitNanos e) else True)
      \<and> 0 < mnToleranceFraction m \<and> mnToleranceFraction m < 1)"
proof -
  have parts: "checkCohort m = None \<longleftrightarrow> 1 \<le> mcSize (mnCohort m) \<and> mcSize (mnCohort m) \<le> int MaxOrdinal
      \<and> 1 \<le> mcCount (mnCohort m) \<and> 0 \<le> mcWarmupCount (mnCohort m)"
    "checkRelease m = None \<longleftrightarrow> mwReleaseMode (mnWorkload m) = ReleaseFixedCohort"
    "checkPinned m = None \<longleftrightarrow> 1 \<le> mtMaxMessageBytes (mnTransport m) \<and> 1 \<le> mgGOGC (mnGC m)
      \<and> 1 \<le> mgGOMEMLIMIT (mnGC m) \<and> mtTraceDir (mnTracing m) \<noteq> []"
    "checkTolerance m = None \<longleftrightarrow> 0 < mnToleranceFraction m \<and> mnToleranceFraction m < 1"
    by (auto simp: checkCohort_def checkRelease_def checkPinned_def checkTolerance_def Let_def)
  have cell: "checkDeadlines m c = None \<longleftrightarrow> 1 \<le> mwRequestTimeoutMillis (mnWorkload m)
      \<and> (if AggregatesEnvelopes c then 1 \<le> mcFormationDeadlineMillis (mnCohort m)
           \<and> mcFormationDeadlineMillis (mnCohort m) < mwRequestTimeoutMillis (mnWorkload m)
         else mcFormationDeadlineMillis (mnCohort m) = 0)"
    "checkEntry m c = None \<longleftrightarrow> mmEntry (mnModel m) = EntryUnbatched \<and> \<not> VectorizesCompute c" for c
    by (auto simp: checkDeadlines_def checkEntry_def Let_def)
  have evidence: "\<not> VectorizesCompute c \<Longrightarrow> validateExpectedEvidence m c = None \<longleftrightarrow>
      meExecutionsPerCohort (mnExpectedEvidence m) = mcSize (mnCohort m) \<and> meBatchSize (mnExpectedEvidence m) = 1
      \<and> meExecutions (mnExpectedEvidence m) = wrap64 (mcCount (mnCohort m) * mcSize (mnCohort m))
      \<and> (if AggregatesEnvelopes c then 0 < sint (meMaxDispatchSkewNanos (mnExpectedEvidence m)) else True)
      \<and> (if UsesProxy c then 0 < sint (meMaxAdapterDispatchWaitNanos (mnExpectedEvidence m)) else True)" for c
    by (auto simp: validateExpectedEvidence_def Let_def clock_simps)
  show ?thesis
  proof (cases "VectorizesCompute (mnCell m)")
    case False
    note simps = first_error_None checkFields_None checkCell_None parts cell evidence [OF False] manifestSchemaVersion_def
    show ?thesis
      unfolding Manifest_Validate_def Let_def
      by (cases "mnSchemaVersion m = 1") (simp_all add: simps False del: if_True cong: conj_cong, argo?)
  next
    case True
    then have "Manifest_Validate m \<noteq> None"
      unfolding Manifest_Validate_def Let_def by (simp only: guard_None first_error_None) (simp add: cell)
    with True show ?thesis by (simp add: Let_def)
  qed
qed

text \<open>
  C30. A manifest is accepted exactly when it can be judged. The schema is this build's; the
  experiment, session, run, environment, catalog, artifact id, runtime directory, Triton endpoint and
  bundle directory are all given; the cell is one this build runs and names a proxy exactly when
  it uses one. A cohort's size fits an ordinal, at least one cohort is released and no negative number
  warms up; the release mode is the fixed cohort and the request timeout is positive; a formation deadline
  is declared exactly where the proxy aggregates and is positive and strictly shorter than the
  request timeout. The unbatched entry is named, so no accepted cell vectorizes; the message
  ceiling, GOGC and GOMEMLIMIT are positive and the trace directory is given. The expected evidence is
  what the cell produces: as many executions per cohort as members, each of one request, and in
  all the product of the cohorts and their size (as a 64-bit product), with a positive bound on the dispatch
  skew where the proxy aggregates and on the adapter's dispatch wait where there is one; and
  the tolerance lies strictly between 0 and 1.
\<close>

theorem Manifest_Validate_contract:
  "Manifest_Validate m = None \<longleftrightarrow>
     (let cell = mnCell m; c = mnCohort m; e = mnExpectedEvidence m; w = mnWorkload m; t = mnTransport m in
      mnSchemaVersion m = 1
      \<and> mnExperiment m \<noteq> [] \<and> mnSession m \<noteq> [] \<and> mnRun m \<noteq> [] \<and> mnEnvironment m \<noteq> []
      \<and> mmCatalog (mnModel m) \<noteq> [] \<and> mmArtifactID (mnModel m) \<noteq> [] \<and> mmRuntimeDir (mnModel m) \<noteq> []
      \<and> mtTritonEndpoint t \<noteq> [] \<and> mnBundleDir m \<noteq> []
      \<and> Implemented cell \<and> (UsesProxy cell \<longleftrightarrow> mtProxyEndpoint t \<noteq> [])
      \<and> 1 \<le> mcSize c \<and> mcSize c \<le> int MaxOrdinal \<and> 1 \<le> mcCount c \<and> 0 \<le> mcWarmupCount c
      \<and> mwReleaseMode w = ''fixed-cohort'' \<and> 1 \<le> mwRequestTimeoutMillis w
      \<and> (if AggregatesEnvelopes cell
         then 1 \<le> mcFormationDeadlineMillis c \<and> mcFormationDeadlineMillis c < mwRequestTimeoutMillis w
         else mcFormationDeadlineMillis c = 0)
      \<and> mmEntry (mnModel m) = ''unbatched'' \<and> \<not> VectorizesCompute cell
      \<and> 1 \<le> mtMaxMessageBytes t \<and> 1 \<le> mgGOGC (mnGC m) \<and> 1 \<le> mgGOMEMLIMIT (mnGC m)
      \<and> mtTraceDir (mnTracing m) \<noteq> []
      \<and> meExecutionsPerCohort e = mcSize c \<and> meBatchSize e = 1 \<and> meExecutions e = wrap64 (mcCount c * mcSize c)
      \<and> (if AggregatesEnvelopes cell then 0 < sint (meMaxDispatchSkewNanos e) else True)
      \<and> (if UsesProxy cell then 0 < sint (meMaxAdapterDispatchWaitNanos e) else True)
      \<and> 0 < mnToleranceFraction m \<and> mnToleranceFraction m < 1)"
  by (simp only: Manifest_Validate_None Let_def requiredFields_def list.pred_inject prod.case simp_thms conj_assoc)

end
