(* ===== verification/Clients.thy ===== *)
theory Clients
  imports Adapter Submission Manifest
begin

text \<open>
  How a cell's requests leave the load generator: the direct client of the D0 diagnostic
  (\<^verbatim>\<open>internal/client/direct\<close>), the shared-path client (\<^verbatim>\<open>internal/client/shared\<close>), and the one place
  that chooses between them (\<^verbatim>\<open>internal/runner/path.go\<close>). The gRPC channel is a function from the
  request to its error or its response; \<open>dial\<close> says whether the channel could be made.
\<close>

section \<open>The direct client\<close>

record DirectClient =
  dcSubmitter :: Submitter
  dcModel :: string

datatype path_error =
    NotDirect Cell
  | NoSubmissionEngine
  | NoModelEntry
  | NoProxyEndpoint
  | NoPayload
  | DialFailed string
  | BadSubmitter submitter_error

definition DirectNew :: "Cell \<Rightarrow> Submitter option \<Rightarrow> string \<Rightarrow> path_error + DirectClient" where
  "DirectNew cell submitter model =
     (if cell \<noteq> CellD0 then Inl (NotDirect cell)
      else case submitter of None \<Rightarrow> Inl NoSubmissionEngine
        | Some s \<Rightarrow> if model = [] then Inl NoModelEntry else Inr \<lparr>dcSubmitter = s, dcModel = model\<rparr>)"

definition DirectSend :: "(ModelInferRequest \<Rightarrow> string + ModelInferResponse) \<Rightarrow> DirectClient \<Rightarrow> LogicalRequest
    \<Rightarrow> (infer_error + TritonResult) option" where
  "DirectSend infer c member = Submit infer (dcSubmitter c) (dcModel c) [member]"

section \<open>The shared-path client\<close>

record SharedClient =
  scRun :: string
  scPayload :: "byte list"

definition SharedDial :: "string \<Rightarrow> bool \<Rightarrow> string \<Rightarrow> byte list \<Rightarrow> path_error + SharedClient" where
  "SharedDial endpoint dial run payload =
     (if endpoint = [] then Inl NoProxyEndpoint
      else if length payload = 0 then Inl NoPayload
      else if \<not> dial then Inl (DialFailed endpoint)
      else Inr \<lparr>scRun = run, scPayload = payload\<rparr>)"

datatype shared_error = SubmitFailed LogicalRequest string | ReturnedStatus LogicalRequest PbStatus string

definition clientRequest :: "SharedClient \<Rightarrow> LogicalRequest \<Rightarrow> ClientRequest" where
  "clientRequest c member = \<lparr>crRunId = scRun c, crCohortId = Cohort member, crOrdinal = Ordinal member,
     crUid = UID member, crPayload = scPayload c\<rparr>"

definition SharedSend :: "(ClientRequest \<Rightarrow> string + ClientResponse) \<Rightarrow> SharedClient \<Rightarrow> LogicalRequest
    \<Rightarrow> shared_error + SubmitResult" where
  "SharedSend submit c member =
     (case submit (clientRequest c member) of
        Inl e \<Rightarrow> Inl (SubmitFailed member e)
      | Inr resp \<Rightarrow>
          if csStatus resp \<noteq> STATUS_OK then Inl (ReturnedStatus member (csStatus resp) (csError resp))
          else Inr \<lparr>srMembership = csMembershipUids resp, srBatchSize = int (unat (csBatchSize resp)),
                 srDataOutBytes = sint (csDataOutBytes resp)\<rparr>)"

section \<open>Choosing the path\<close>

datatype path = SharedPath SharedClient | DirectPath DirectClient

text \<open>A negative length panics; the product is taken in 64 bits. \<open>None\<close> is that panic.\<close>

definition buildPayload :: "int \<Rightarrow> byte list option" where
  "buildPayload payloadFloats =
     (let n = wrap64 (payloadFloats * 4) in if n < 0 then None else Some (replicate (nat n) 0))"

definition cellPath :: "Manifest \<Rightarrow> bool \<Rightarrow> string \<Rightarrow> int \<Rightarrow> int \<Rightarrow> (path_error + path) option" where
  "cellPath m dial model featureWidth payloadFloats =
     (if UsesProxy (mnCell m)
      then (case buildPayload payloadFloats of None \<Rightarrow> None
            | Some payload \<Rightarrow>
                (case SharedDial (mtProxyEndpoint (mnTransport m)) dial (mnRun m) payload of
                   Inl e \<Rightarrow> Some (Inl e) | Inr c \<Rightarrow> Some (Inr (SharedPath c))))
      else (case NewSubmitter featureWidth payloadFloats of Inl e \<Rightarrow> Some (Inl (BadSubmitter e))
            | Inr s \<Rightarrow> (case DirectNew (mnCell m) (Some s) model of
                Inl e \<Rightarrow> Some (Inl e) | Inr c \<Rightarrow> Some (Inr (DirectPath c)))))"

text \<open>The wire size of one logical request, as each path reports it.\<close>

definition pathLogicalBytes :: "path \<Rightarrow> int" where
  "pathLogicalBytes p = (case p of SharedPath c \<Rightarrow> int (length (scPayload c)) | DirectPath c \<Rightarrow> LogicalBytes (dcSubmitter c))"

text \<open>
  One request through either path: a failure, or the membership and the batch size; \<open>None\<close> is
  the submission engine's panic.
\<close>

record pathResult =
  ptMembership :: "UID list"
  ptBatchSize :: int

definition pathSend :: "(ModelInferRequest \<Rightarrow> string + ModelInferResponse) \<Rightarrow> (ClientRequest \<Rightarrow> string + ClientResponse)
    \<Rightarrow> path \<Rightarrow> LogicalRequest \<Rightarrow> pathResult option option" where
  "pathSend infer submit p member =
     (case p of
        DirectPath c \<Rightarrow>
          (case DirectSend infer c member of None \<Rightarrow> None
           | Some (Inl _) \<Rightarrow> Some None
           | Some (Inr out) \<Rightarrow> Some (Some \<lparr>ptMembership = srMembership out, ptBatchSize = srBatchSize out\<rparr>))
      | SharedPath c \<Rightarrow>
          (case SharedSend submit c member of Inl _ \<Rightarrow> Some None
           | Inr out \<Rightarrow> Some (Some \<lparr>ptMembership = srMembership out, ptBatchSize = srBatchSize out\<rparr>)))"

section \<open>Isolation and transport of the evidence\<close>

text \<open>Exactly D0 is on the direct path, and only the direct path can reach the backend.\<close>

lemma cellPath_isolated:
  assumes "cellPath m dial model featureWidth payloadFloats = Some (Inr p)"
  shows "(case p of DirectPath _ \<Rightarrow> mnCell m = CellD0 | SharedPath _ \<Rightarrow> mnCell m \<noteq> CellD0)"
    and "case p of DirectPath _ \<Rightarrow> pathSend infer submit p r = pathSend infer submit' p r
         | SharedPath _ \<Rightarrow> pathSend infer submit p r = pathSend infer' submit p r"
  using assms by (auto simp: cellPath_def UsesProxy_def DirectNew_def pathSend_def split: if_splits sum.splits path.splits option.splits)

lemma path_bytes:
  assumes "cellPath m dial model featureWidth payloadFloats = Some (Inr p)" and "0 < payloadFloats" and "payloadFloats < 2 ^ 61"
  shows "pathLogicalBytes p = 4 * payloadFloats + (if UsesProxy (mnCell m) then 0 else 4 * featureWidth + 8)"
proof -
  have "wrap64 (payloadFloats * 4) = payloadFloats * 4"
    using assms(2,3) by (intro wrap64_id) auto
  then show ?thesis
    using assms
    by (auto simp: cellPath_def SharedDial_def DirectNew_def NewSubmitter_def buildPayload_def Let_def pathLogicalBytes_def
        LogicalBytes_def split: if_splits sum.splits)
qed

lemma returned_evidence:
  assumes "0 \<le> mrBatchSize m" and "mrBatchSize m < 2 ^ 32"
  shows "pathSend infer (\<lambda>_. Inr (clientResponse (mrMember m) (logicalResult m))) (SharedPath c) (mrMember m)
    = Some (if mrErr m = None then Some \<lparr>ptMembership = mrMembership m, ptBatchSize = mrBatchSize m\<rparr> else None)"
proof -
  have "int (unat (of_int (mrBatchSize m) :: uint32)) = mrBatchSize m"
    using assms by (simp add: unat_eq_nat_uint uint_word_of_int_eq take_bit_int_eq_self)
  then show ?thesis
    by (simp add: pathSend_def SharedSend_def clientResponse_def logicalResult_def Let_def split: option.splits)
qed

text \<open>
  C31. The evidence reaches the load generator as the executor produced it: when the adapter
  accepts an envelope and the individual executor's fan-out of its members is done, in whatever
  order, then for each of the results the response the proxy hands the member's client makes
  the client's send return that result's membership and batch size, and fail exactly if the
  member failed; no other member's evidence can be returned instead.
\<close>

theorem evidence_unchanged:
  assumes "Envelope.Validate (Some env) (acExpectation cfg) = None"
    and "fanout_run \<lparr>dpModel = acModel cfg, dpMembers = Members env\<rparr> now s" and "waited s"
    and "executeEnd \<lparr>dpModel = acModel cfg, dpMembers = Members env\<rparr> cpuStart cpuEnd s = (results, evidence)"
    and "exec \<lparr>dpModel = acModel cfg, dpMembers = Members env\<rparr> = Inr (results, evidence)"
    and "list_all (\<lambda>m. 0 \<le> mrBatchSize m \<and> mrBatchSize m < 2 ^ 32) results"
  shows "case snd (adapterExecute psize cfg exec recvAt sendAt (Some env)) of Inl _ \<Rightarrow> False
    | Inr resp \<Rightarrow> list_all (\<lambda>m.
        let submit = (\<lambda>req. case memberResult (Some resp) (requestMember req) of
              Inl _ \<Rightarrow> Inl ''no result'' | Inr result \<Rightarrow> Inr (clientResponse (requestMember req) result))
        in pathSend infer submit (SharedPath c) (mrMember m)
           = Some (if mrErr m = None then Some \<lparr>ptMembership = mrMembership m, ptBatchSize = mrBatchSize m\<rparr> else None)) results"
proof -
  have contract: "env_contract env (acExpectation cfg)" using assms(1) by (simp add: Validate_None_iff)
  have answered: "individualAnswers \<lparr>dpModel = acModel cfg, dpMembers = Members env\<rparr> (results, evidence)"
    unfolding individualAnswers_def using assms(2,3) assms(4) [symmetric] by blast
  obtain resp where
    run: "adapterExecute psize cfg exec recvAt sendAt (Some env)
        = (adapterRecords psize env results evidence recvAt sendAt, Inr resp)"
    and own: "list_all (\<lambda>m. memberResult (Some resp) (mrMember m) = Inr (logicalResult m)) results"
    using individual.adapter_answer [where exec = exec and psize = psize and recvAt = recvAt and sendAt = sendAt,
        OF contract answered assms(5)] by auto
  have "pathSend infer (\<lambda>req. case memberResult (Some resp) (requestMember req) of
        Inl _ \<Rightarrow> Inl ''no result'' | Inr result \<Rightarrow> Inr (clientResponse (requestMember req) result)) (SharedPath c) (mrMember m)
      = pathSend infer (\<lambda>_. Inr (clientResponse (mrMember m) (logicalResult m))) (SharedPath c) (mrMember m)"
    if "m \<in> set results" for m
    using own that by (simp add: list_all_iff pathSend_def SharedSend_def clientRequest_def requestMember_def)
  then show ?thesis
    using assms(6) returned_evidence by (fastforce simp: run list_all_iff Let_def)
qed

theorem evidence_unchanged_witness:
  "case snd (adapterExecute wire_size sampleConfigA (\<lambda>d. Inr (executeEnd sampleDispatch 0 0 sampleDone)) 5 99 (Some sampleEnvelopeA)) of
     Inl _ \<Rightarrow> False
   | Inr resp \<Rightarrow> pathSend (\<lambda>_. Inl []) (\<lambda>req. case memberResult (Some resp) (requestMember req) of
        Inl _ \<Rightarrow> Inl ''no result'' | Inr result \<Rightarrow> Inr (clientResponse (requestMember req) result))
        (SharedPath \<lparr>scRun = ''r'', scPayload = [7]\<rparr>) (LogicalRequest 4 0)
      = Some (Some \<lparr>ptMembership = [], ptBatchSize = 1\<rparr>)"
proof -
  obtain results evidence where e: "executeEnd sampleDispatch 0 0 sampleDone = (results, evidence)"
    by (cases "executeEnd sampleDispatch 0 0 sampleDone")
  then have r: "results = fsResults sampleDone" by (simp add: executeEnd_def)
  have d: "\<lparr>dpModel = acModel sampleConfigA, dpMembers = Members sampleEnvelopeA\<rparr> = sampleDispatch"
    by (simp add: sampleConfigA_def sampleDispatch_def Members_def sampleEnvelopeA_def memberRequest_def)
  have "waited sampleDone" by (simp add: waited_def sampleDone_def)
  moreover have "list_all (\<lambda>m. 0 \<le> mrBatchSize m \<and> mrBatchSize m < 2 ^ 32) results"
    by (simp add: r sampleDone_def memberOutcome_def sampleAnswer_def zeroMemberResult_def Let_def)
  ultimately have t: "case snd (adapterExecute wire_size sampleConfigA (\<lambda>d. Inr (results, evidence)) 5 99 (Some sampleEnvelopeA)) of Inl _ \<Rightarrow> False
    | Inr resp \<Rightarrow> list_all (\<lambda>m.
        let submit = (\<lambda>req. case memberResult (Some resp) (requestMember req) of
              Inl _ \<Rightarrow> Inl ''no result'' | Inr result \<Rightarrow> Inr (clientResponse (requestMember req) result))
        in pathSend (\<lambda>_. Inl []) submit (SharedPath \<lparr>scRun = ''r'', scPayload = [7]\<rparr>) (mrMember m)
           = Some (if mrErr m = None then Some \<lparr>ptMembership = mrMembership m, ptBatchSize = mrBatchSize m\<rparr> else None)) results"
    by (intro evidence_unchanged [OF sampleEnvelopeA_valid, where exec = "\<lambda>d. Inr (results, evidence)", unfolded d, OF sampleDone_run _ e refl])
  then show ?thesis
    unfolding e by (auto simp: Let_def r sampleDone_def memberOutcome_def sampleAnswer_def zeroMemberResult_def split: sum.splits)
qed

end
