(* ===== verification/Trace.thy ===== *)
theory Trace
  imports Submission
begin

text \<open>
  \<^verbatim>\<open>internal/triton/trace.go\<close>: the backend's own timestamps. A trace file is a list of entries
  that share trace ids; the parse gathers them per trace and keeps the traces whose request id
  names a logical request. The collector flushes the server's traces and polls the directory
  until every expected request has appeared. What the outside answers (the decoded entries of a
  file, a directory listing, the server's counter, whether the deadline has passed or the
  context has ended) is an argument; a loop that polls takes the list of its polls and is
  \<open>None\<close> while it still waits.
\<close>

abbreviation (input) activityRequestStart :: string where "activityRequestStart \<equiv> ''REQUEST_START''"
abbreviation (input) activityQueueStart :: string where "activityQueueStart \<equiv> ''QUEUE_START''"
abbreviation (input) activityComputeStart :: string where "activityComputeStart \<equiv> ''COMPUTE_START''"
abbreviation (input) activityComputeInputEnd :: string where "activityComputeInputEnd \<equiv> ''COMPUTE_INPUT_END''"
abbreviation (input) activityComputeOutputStart :: string where
  "activityComputeOutputStart \<equiv> ''COMPUTE_OUTPUT_START''"
abbreviation (input) activityComputeEnd :: string where "activityComputeEnd \<equiv> ''COMPUTE_END''"
abbreviation (input) activityRequestEnd :: string where "activityRequestEnd \<equiv> ''REQUEST_END''"

section \<open>Parsing a trace file\<close>

record TraceEvent =
  teRequest :: LogicalRequest
  teRequestID :: string
  teModelName :: string
  teTraceID :: uint64
  teQueueStart :: int64
  teComputeStart :: int64
  teComputeEnd :: int64
  teRequestStart :: int64
  teRequestEnd :: int64
  teComputeInputEnd :: int64
  teComputeOutputStart :: int64

definition Complete :: "TraceEvent \<Rightarrow> bool" where
  "Complete e \<longleftrightarrow> teQueueStart e \<noteq> 0 \<and> teComputeStart e \<noteq> 0 \<and> teComputeEnd e \<noteq> 0"

record traceEntry =
  tnID :: uint64
  tnModelName :: string
  tnRequestID :: string
  tnTimestamps :: "(string \<times> int64) list"

definition zeroTrace :: "uint64 \<Rightarrow> TraceEvent" where
  "zeroTrace i = \<lparr>teRequest = LogicalRequest 0 0, teRequestID = [], teModelName = [], teTraceID = i,
     teQueueStart = 0, teComputeStart = 0, teComputeEnd = 0, teRequestStart = 0, teRequestEnd = 0,
     teComputeInputEnd = 0, teComputeOutputStart = 0\<rparr>"

definition stampActivity :: "TraceEvent \<Rightarrow> string \<times> int64 \<Rightarrow> TraceEvent" where
  "stampActivity ev = (\<lambda>(name, ns).
     if name = activityRequestStart then ev\<lparr>teRequestStart := ns\<rparr>
     else if name = activityQueueStart then ev\<lparr>teQueueStart := ns\<rparr>
     else if name = activityComputeStart then ev\<lparr>teComputeStart := ns\<rparr>
     else if name = activityComputeInputEnd then ev\<lparr>teComputeInputEnd := ns\<rparr>
     else if name = activityComputeOutputStart then ev\<lparr>teComputeOutputStart := ns\<rparr>
     else if name = activityComputeEnd then ev\<lparr>teComputeEnd := ns\<rparr>
     else if name = activityRequestEnd then ev\<lparr>teRequestEnd := ns\<rparr>
     else ev)"

definition applyEntry :: "TraceEvent \<Rightarrow> traceEntry \<Rightarrow> TraceEvent" where
  "applyEntry ev e =
     (let ev = (if tnModelName e \<noteq> [] then ev\<lparr>teModelName := tnModelName e\<rparr> else ev);
          ev = (if tnRequestID e \<noteq> [] then ev\<lparr>teRequestID := tnRequestID e\<rparr> else ev)
      in foldl stampActivity ev (tnTimestamps e))"

text \<open>
  The traces seen so far, in the order they were first seen: an update of a known key keeps its
  place, a new key goes to the end, which is what the code's \<^verbatim>\<open>order\<close> records.
\<close>

definition mergeEntry :: "(uint64 \<times> TraceEvent) list \<Rightarrow> traceEntry \<Rightarrow> (uint64 \<times> TraceEvent) list" where
  "mergeEntry byTrace e =
     (let ev = (case map_of byTrace (tnID e) of None \<Rightarrow> zeroTrace (tnID e) | Some ev \<Rightarrow> ev)
      in AList.update (tnID e) (applyEntry ev e) byTrace)"

definition attributed :: "TraceEvent \<Rightarrow> TraceEvent option" where
  "attributed ev =
     (if teRequestID ev = [] then None
      else case ParseTritonRequestID (teRequestID ev) of Inl _ \<Rightarrow> None
        | Inr req \<Rightarrow> Some (ev\<lparr>teRequest := req\<rparr>))"

definition parseEntries :: "traceEntry list \<Rightarrow> TraceEvent list" where
  "parseEntries es = List.map_filter attributed (map snd (foldl mergeEntry [] es))"

datatype trace_error =
    ReadFailed string
  | BadTraceFile string
  | ListFailed
  | RemoveFailed string
  | SettingsFailed
  | NoTraceCount
  | BadTraceCount
  | BudgetExhausted
  | SampledOther int nat
  | Shortfall nat nat
  | NeverSettled
  | Ended

text \<open>The file's bytes, or that it could not be read; \<open>unmarshal\<close> is the JSON decoder's answer.\<close>

definition ParseTraceFile :: "(byte list \<Rightarrow> traceEntry list option) \<Rightarrow> string \<Rightarrow> byte list option
    \<Rightarrow> trace_error + TraceEvent list" where
  "ParseTraceFile unmarshal path b =
     (case b of None \<Rightarrow> Inl (ReadFailed path)
      | Some b \<Rightarrow> if length b = 0 then Inr []
          else case unmarshal b of None \<Rightarrow> Inl (BadTraceFile path) | Some es \<Rightarrow> Inr (parseEntries es))"

section \<open>The trace directory\<close>

definition isDigit :: "char \<Rightarrow> bool" where
  "isDigit c \<longleftrightarrow> 48 \<le> (of_char c :: nat) \<and> (of_char c :: nat) \<le> 57"

definition indexedTraceFile :: "string \<Rightarrow> bool" where
  "indexedTraceFile name \<longleftrightarrow> take 11 name = ''trace.json.'' \<and> drop 11 name \<noteq> [] \<and> list_all isDigit (drop 11 name)"

definition anyTraceFile :: "string \<Rightarrow> bool" where
  "anyTraceFile name \<longleftrightarrow> name = ''trace.json'' \<or> indexedTraceFile name"

text \<open>A directory listing: a name and whether it is a directory, or why there is none.\<close>

datatype listing = NotExist | Unreadable | Listing "(string \<times> bool) list"

definition traceFiles :: "listing \<Rightarrow> trace_error + string list" where
  "traceFiles dir = (case dir of NotExist \<Rightarrow> Inr [] | Unreadable \<Rightarrow> Inl ListFailed
     | Listing es \<Rightarrow> Inr (map fst (filter (\<lambda>(name, isDir). \<not> isDir \<and> indexedTraceFile name) es)))"

fun removeAll :: "(string \<Rightarrow> bool) \<Rightarrow> string list \<Rightarrow> string list \<times> trace_error option" where
  "removeAll removable [] = ([], None)"
| "removeAll removable (name # names) =
     (if \<not> removable name then ([], Some (RemoveFailed name))
      else let (removed, err) = removeAll removable names in (name # removed, err))"

definition clearTraceFiles :: "(string \<Rightarrow> bool) \<Rightarrow> listing \<Rightarrow> string list \<times> trace_error option" where
  "clearTraceFiles removable dir = (case dir of NotExist \<Rightarrow> ([], None) | Unreadable \<Rightarrow> ([], Some ListFailed)
     | Listing es \<Rightarrow> removeAll removable
         (map fst (filter (\<lambda>(name, isDir). \<not> isDir \<and> anyTraceFile name) es)))"

section \<open>The collector\<close>

definition TraceRotation :: uint32 where "TraceRotation = 4096"
definition traceBudgetMargin :: int where "traceBudgetMargin = 4096"

record TraceCollector =
  tcSeen :: "string list"
  tcFreq :: uint32
  tcBudget :: int
  tcBudgetAt :: int
  tcCollected :: "TraceEvent list"

text \<open>One look at the outside: the directory, then whether the deadline has passed and the context has ended.\<close>

record 'a poll =
  plSeen :: 'a
  plExpired :: bool
  plEnded :: bool

text \<open>\<^verbatim>\<open>settle\<close>: three looks in a row at the same number of files.\<close>

fun settle :: "nat \<Rightarrow> int \<Rightarrow> listing poll list \<Rightarrow> trace_error option option" where
  "settle still prior [] = None"
| "settle still prior (p # ps) =
     (case traceFiles (plSeen p) of Inl e \<Rightarrow> Some (Some e)
      | Inr names \<Rightarrow>
          if int (length names) = prior \<and> 3 \<le> still + 1 then Some None
          else if plExpired p then Some (Some NeverSettled)
          else if plEnded p then Some (Some Ended)
          else if int (length names) = prior then settle (still + 1) prior ps
          else settle 0 (int (length names)) ps)"

definition applySettings :: "bool \<Rightarrow> trace_error option" where
  "applySettings accepted = (if accepted then None else Some SettingsFailed)"

text \<open>The settings the server reports: the values of \<^verbatim>\<open>trace_count\<close>, each parsed or not.\<close>

definition remainingCount :: "int option list option \<Rightarrow> trace_error + int" where
  "remainingCount setting = (case setting of None \<Rightarrow> Inl SettingsFailed
     | Some [] \<Rightarrow> Inl NoTraceCount
     | Some (v # _) \<Rightarrow> (case v of None \<Rightarrow> Inl BadTraceCount | Some n \<Rightarrow> Inr n))"

definition NewTraceCollector :: "nat \<Rightarrow> bool \<Rightarrow> listing poll list \<Rightarrow> (string \<Rightarrow> bool) \<Rightarrow> listing
    \<Rightarrow> int option list option \<Rightarrow> (trace_error + TraceCollector) option" where
  "NewTraceCollector expectedTraces accepted settling removable dir setting =
     (let c = \<lparr>tcSeen = [], tcFreq = TraceRotation, tcBudget = int expectedTraces + traceBudgetMargin,
            tcBudgetAt = 0, tcCollected = []\<rparr> in
      case applySettings accepted of Some e \<Rightarrow> Some (Inl e)
      | None \<Rightarrow>
          (case settle 0 (- 1) settling of None \<Rightarrow> None
           | Some (Some e) \<Rightarrow> Some (Inl e)
           | Some None \<Rightarrow>
               (case snd (clearTraceFiles removable dir) of Some e \<Rightarrow> Some (Inl e)
                | None \<Rightarrow>
                    (case remainingCount setting of Inl e \<Rightarrow> Some (Inl e)
                     | Inr budgetLeft \<Rightarrow> Some (Inr (c\<lparr>tcBudgetAt := budgetLeft\<rparr>))))))"

definition checkServerCount :: "TraceCollector \<Rightarrow> int option list option \<Rightarrow> nat \<Rightarrow> trace_error option" where
  "checkServerCount c setting sent =
     (case remainingCount setting of Inl e \<Rightarrow> Some e
      | Inr budgetLeft \<Rightarrow>
          if budgetLeft \<le> 0 then Some BudgetExhausted
          else let sampled = tcBudgetAt c - budgetLeft in
            if sampled \<noteq> int sent then Some (SampledOther sampled sent) else None)"

definition flush :: "bool \<Rightarrow> TraceCollector \<Rightarrow> trace_error option \<times> TraceCollector" where
  "flush accepted c =
     (let c = c\<lparr>tcFreq := if tcFreq c = TraceRotation then TraceRotation + 1 else TraceRotation\<rparr>
      in (applySettings accepted, c))"

text \<open>\<^verbatim>\<open>drain\<close>: every indexed file is parsed once; \<open>parse\<close> is what each file holds when it is read.\<close>

fun drainLoop :: "(string \<Rightarrow> trace_error + TraceEvent list) \<Rightarrow> string list \<Rightarrow> string list \<Rightarrow> string list
    \<Rightarrow> TraceEvent list \<Rightarrow> string list \<times> (trace_error + string list \<times> TraceEvent list)" where
  "drainLoop parse [] seen files out = (seen, Inr (files, out))"
| "drainLoop parse (name # names) seen files out =
     (if name \<in> set seen then drainLoop parse names seen files out
      else let seen = name # seen in
        case parse name of Inl e \<Rightarrow> (seen, Inl e)
        | Inr evs \<Rightarrow> if length evs = 0 then drainLoop parse names seen files out
            else drainLoop parse names seen (files @ [name]) (out @ evs))"

definition drain :: "listing \<Rightarrow> (string \<Rightarrow> trace_error + TraceEvent list) \<Rightarrow> TraceCollector
    \<Rightarrow> (trace_error + string list \<times> TraceEvent list) \<times> TraceCollector" where
  "drain dir parse c =
     (case traceFiles dir of Inl e \<Rightarrow> (Inl e, c)
      | Inr names \<Rightarrow> let (seen, result) = drainLoop parse names (tcSeen c) [] [] in (result, c\<lparr>tcSeen := seen\<rparr>))"

definition noteFound :: "LogicalRequest list \<Rightarrow> LogicalRequest list \<Rightarrow> TraceEvent list \<Rightarrow> LogicalRequest list" where
  "noteFound want found evs =
     foldl (\<lambda>found e. if teRequest e \<in> set want \<and> Complete e then List.insert (teRequest e) found else found) found evs"

fun collectLoop :: "LogicalRequest list \<Rightarrow> LogicalRequest list \<Rightarrow> string list
    \<Rightarrow> (listing \<times> (string \<Rightarrow> trace_error + TraceEvent list)) poll list \<Rightarrow> TraceCollector
    \<Rightarrow> ((trace_error option \<times> TraceEvent list \<times> string list) \<times> TraceCollector) option" where
  "collectLoop want found files [] c = None"
| "collectLoop want found files (p # ps) c =
     (case drain (fst (plSeen p)) (snd (plSeen p)) c of
        (Inl e, c) \<Rightarrow> Some ((Some e, tcCollected c, files), c)
      | (Inr (newFiles, newEvents), c) \<Rightarrow>
          let files = files @ newFiles;
              c = c\<lparr>tcCollected := tcCollected c @ newEvents\<rparr>;
              found = noteFound want found newEvents
          in if length want \<le> length found then Some ((None, tcCollected c, files), c)
             else if plExpired p then Some ((Some (Shortfall (length found) (length want)), tcCollected c, files), c)
             else if plEnded p then Some ((Some Ended, tcCollected c, files), c)
             else collectLoop want found files ps c)"

definition Collect_traces :: "LogicalRequest list \<Rightarrow> int option list option \<Rightarrow> bool
    \<Rightarrow> (listing \<times> (string \<Rightarrow> trace_error + TraceEvent list)) poll list \<Rightarrow> TraceCollector
    \<Rightarrow> ((trace_error option \<times> TraceEvent list \<times> string list) \<times> TraceCollector) option" where
  "Collect_traces expected setting accepted polls c =
     (case checkServerCount c setting (length expected) of Some e \<Rightarrow> Some ((Some e, [], []), c)
      | None \<Rightarrow>
          (case flush accepted c of (Some e, c) \<Rightarrow> Some ((Some e, [], []), c)
           | (None, c) \<Rightarrow>
               let c = c\<lparr>tcBudgetAt := tcBudget c\<rparr>
               in collectLoop (remdups expected) [] [] polls c))"


section \<open>The parse, trace by trace\<close>

definition ownTrace :: "traceEntry list \<Rightarrow> uint64 \<Rightarrow> TraceEvent" where
  "ownTrace es i = foldl applyEntry (zeroTrace i) (filter (\<lambda>e. tnID e = i) es)"

definition firstSeen :: "'a list \<Rightarrow> 'a list" where
  "firstSeen xs = rev (remdups (rev xs))"

lemma firstSeen_snoc: "firstSeen (xs @ [x]) = (if x \<in> set xs then firstSeen xs else firstSeen xs @ [x])"
  by (simp add: firstSeen_def)

lemma set_firstSeen [simp]: "set (firstSeen xs) = set xs" "distinct (firstSeen xs)"
  by (simp_all add: firstSeen_def)

lemma mergeEntry_once:
  "map fst (mergeEntry b e) = (if tnID e \<in> set (map fst b) then map fst b else map fst b @ [tnID e])"
  "map_of (mergeEntry b e) i = (if i = tnID e
     then Some (applyEntry (case map_of b i of None \<Rightarrow> zeroTrace i | Some ev \<Rightarrow> ev) e) else map_of b i)"
  by (simp_all add: mergeEntry_def Let_def update_keys update_conv', clarify)

lemma mergeEntries:
  "map fst (foldl mergeEntry [] es) = firstSeen (map tnID es)"
  "map_of (foldl mergeEntry [] es) i = (if i \<in> tnID ` set es then Some (ownTrace es i) else None)"
proof (induction es arbitrary: i rule: rev_induct)
  case (snoc e es)
  { case 1
    show ?case using snoc.IH(1) by (simp add: mergeEntry_once(1) firstSeen_snoc)
  next
    case 2
    have none: "filter (\<lambda>e'. tnID e' = tnID e) es = []" if "tnID e \<notin> tnID ` set es"
      using that by (fastforce simp: filter_empty_conv image_iff)
    show ?case
      by (simp add: mergeEntry_once(2) snoc.IH(2) ownTrace_def none)
  }
qed (simp_all add: firstSeen_def)

lemma map_snd_lookup: "distinct (map fst kvs) \<Longrightarrow> map snd kvs = map (\<lambda>k. the (map_of kvs k)) (map fst kvs)"
  by simp (metis (no_types, lifting) map_of_eq_Some_iff option.sel prod.collapse)

lemma applyEntry_keeps: "teTraceID (applyEntry ev e) = teTraceID ev" "teRequest (applyEntry ev e) = teRequest ev"
proof -
  have "teTraceID (foldl stampActivity ev ts) = teTraceID ev \<and> teRequest (foldl stampActivity ev ts) = teRequest ev" for ev ts
    by (induction ts arbitrary: ev) (auto simp: stampActivity_def split: prod.splits)
  then show "teTraceID (applyEntry ev e) = teTraceID ev" "teRequest (applyEntry ev e) = teRequest ev"
    by (simp_all add: applyEntry_def Let_def)
qed

lemma ownTrace_keeps: "teTraceID (ownTrace es i) = i" "teRequest (ownTrace es i) = LogicalRequest 0 0"
proof -
  have "teTraceID (foldl applyEntry ev l) = teTraceID ev \<and> teRequest (foldl applyEntry ev l) = teRequest ev" for ev l
    by (induction l arbitrary: ev) (simp_all add: applyEntry_keeps)
  then show "teTraceID (ownTrace es i) = i" "teRequest (ownTrace es i) = LogicalRequest 0 0"
    by (simp_all add: ownTrace_def zeroTrace_def)
qed

lemma parseEntries_own:
  "parseEntries es = List.map_filter (\<lambda>i. attributed (ownTrace es i)) (firstSeen (map tnID es))"
proof -
  have "map snd (foldl mergeEntry [] es) = map (\<lambda>k. the (map_of (foldl mergeEntry [] es) k)) (firstSeen (map tnID es))"
    using map_snd_lookup [of "foldl mergeEntry [] es"] by (simp add: mergeEntries)
  also have "\<dots> = map (ownTrace es) (firstSeen (map tnID es))"
    by (rule map_cong [OF refl]) (simp add: mergeEntries(2))
  finally show ?thesis by (simp add: parseEntries_def List.map_filter_def o_def filter_map)
qed

text \<open>
  What the entries of one trace state, read off the file without the parse: the last reading of
  an activity among the trace's timestamps (0 where there is none), and the last model name and request id
  that are not empty.
\<close>

definition lastOf :: "'a \<Rightarrow> 'a list \<Rightarrow> 'a" where
  "lastOf d xs = (if xs = [] then d else last xs)"

definition ownEntries :: "traceEntry list \<Rightarrow> uint64 \<Rightarrow> traceEntry list" where
  "ownEntries es i = filter (\<lambda>e. tnID e = i) es"

definition readings :: "string \<Rightarrow> (string \<times> int64) list \<Rightarrow> int64 list" where
  "readings activity ts = map snd (filter (\<lambda>(name, _). name = activity) ts)"

definition stated :: "uint64 \<Rightarrow> traceEntry list \<Rightarrow> TraceEvent" where
  "stated i own = (let reading = (\<lambda>activity. lastOf 0 (readings activity (concat (map tnTimestamps own)))) in
     \<lparr>teRequest = LogicalRequest 0 0, teRequestID = lastOf [] (filter (\<lambda>s. s \<noteq> []) (map tnRequestID own)),
      teModelName = lastOf [] (filter (\<lambda>s. s \<noteq> []) (map tnModelName own)), teTraceID = i,
      teQueueStart = reading ''QUEUE_START'', teComputeStart = reading ''COMPUTE_START'', teComputeEnd = reading ''COMPUTE_END'',
      teRequestStart = reading ''REQUEST_START'', teRequestEnd = reading ''REQUEST_END'',
      teComputeInputEnd = reading ''COMPUTE_INPUT_END'', teComputeOutputStart = reading ''COMPUTE_OUTPUT_START''\<rparr>)"

definition statedTrace :: "traceEntry list \<Rightarrow> uint64 \<Rightarrow> TraceEvent" where
  "statedTrace es i = stated i (ownEntries es i)"

lemma lastOf_append [simp]: "lastOf d (xs @ ys) = lastOf (lastOf d xs) ys" "lastOf d [] = d" "lastOf d [x] = x"
  by (simp_all add: lastOf_def)

lemma readings_append [simp]:
  "readings a [] = []" "readings a (ts @ us) = readings a ts @ readings a us"
  "readings a [(name, ns)] = (if name = a then [ns] else [])"
  by (simp_all add: readings_def)

lemma stampActivities:
  "foldl stampActivity ev ts = ev\<lparr>teRequestStart := lastOf (teRequestStart ev) (readings ''REQUEST_START'' ts),
     teQueueStart := lastOf (teQueueStart ev) (readings ''QUEUE_START'' ts),
     teComputeStart := lastOf (teComputeStart ev) (readings ''COMPUTE_START'' ts),
     teComputeInputEnd := lastOf (teComputeInputEnd ev) (readings ''COMPUTE_INPUT_END'' ts),
     teComputeOutputStart := lastOf (teComputeOutputStart ev) (readings ''COMPUTE_OUTPUT_START'' ts),
     teComputeEnd := lastOf (teComputeEnd ev) (readings ''COMPUTE_END'' ts),
     teRequestEnd := lastOf (teRequestEnd ev) (readings ''REQUEST_END'' ts)\<rparr>"
proof (induction ts rule: rev_induct)
  case (snoc t ts)
  obtain name ns where "t = (name, ns)" by (cases t)
  then show ?case using snoc by (simp add: stampActivity_def)
qed simp

lemma applyEntry_stated: "applyEntry (stated i own) e = stated i (own @ [e])"
  by (simp add: applyEntry_def stated_def stampActivities Let_def)

lemma ownTrace_stated: "ownTrace es i = statedTrace es i"
proof -
  have "foldl applyEntry (zeroTrace i) own = stated i own" for own
  proof (induction own rule: rev_induct)
    case Nil
    then show ?case by (simp add: zeroTrace_def stated_def)
  qed (simp add: applyEntry_stated)
  then show ?thesis by (simp add: ownTrace_def statedTrace_def ownEntries_def)
qed

text \<open>
  C28. A trace is its own entries, whatever they are mixed with. The events parsed from a file
  are, in the order their traces are first seen, one per trace, and each states what that
  trace's entries alone state: for every activity, under the name the server gives it, the last reading
  of the trace's timestamps (0 where there is none), the last non-empty model name and
  request id, and the logical request that id parses to; a trace without a request id, or
  with one that does not parse, is left out. No two events are of one trace.
\<close>

theorem parse_by_trace:
  "parseEntries es = List.map_filter (\<lambda>i. let ev = statedTrace es i in
       if teRequestID ev = [] then None
       else case ParseTritonRequestID (teRequestID ev) of Inl _ \<Rightarrow> None
         | Inr req \<Rightarrow> Some (ev\<lparr>teRequest := req\<rparr>)) (firstSeen (map tnID es))
   \<and> distinct (map teTraceID (parseEntries es))"
proof
  have "parseEntries es = List.map_filter (\<lambda>i. attributed (statedTrace es i)) (firstSeen (map tnID es))"
    by (simp only: parseEntries_own ownTrace_stated)
  then show "parseEntries es = List.map_filter (\<lambda>i. let ev = statedTrace es i in
       if teRequestID ev = [] then None
       else case ParseTritonRequestID (teRequestID ev) of Inl _ \<Rightarrow> None
         | Inr req \<Rightarrow> Some (ev\<lparr>teRequest := req\<rparr>)) (firstSeen (map tnID es))"
    by (simp only: attributed_def Let_def)
  have "distinct (map teTraceID (List.map_filter (\<lambda>i. attributed (ownTrace es i)) ids))" if "distinct ids" for ids
    using that
  proof (induction ids)
    case (Cons i ids)
    have own: "teTraceID ev = k" if "attributed (ownTrace es k) = Some ev" for ev k
      using that ownTrace_keeps(1) [of es k] by (auto simp: attributed_def split: if_splits sum.splits)
    have "teTraceID ` set (List.map_filter (\<lambda>i. attributed (ownTrace es i)) ids) \<subseteq> set ids"
      using own by (fastforce simp: List.map_filter_def)
    then show ?case using Cons own by (auto simp: List.map_filter_simps split: option.split)
  qed (simp add: List.map_filter_simps)
  then show "distinct (map teTraceID (parseEntries es))" by (simp add: parseEntries_own)
qed

section \<open>What a collection vouches for\<close>

lemma noteFound_set:
  "distinct found \<Longrightarrow> distinct (noteFound want found evs)
   \<and> set (noteFound want found evs) = set found \<union> {r \<in> set want. \<exists>e \<in> set evs. teRequest e = r \<and> Complete e}"
proof (induction evs arbitrary: found)
  case (Cons e evs)
  have step: "noteFound want found (e # evs) = noteFound want
      (if teRequest e \<in> set want \<and> Complete e then List.insert (teRequest e) found else found) evs"
    by (simp add: noteFound_def)
  show ?case unfolding step using Cons by (auto simp: distinct_insert)
qed (simp add: noteFound_def)

lemma drainLoop_files:
  "drainLoop parse names seen files out = (seen', Inr (files', out')) \<Longrightarrow> distinct files \<Longrightarrow> set files \<subseteq> set seen \<Longrightarrow>
     distinct files' \<and> set files \<subseteq> set files' \<and> set files' \<subseteq> set seen' \<and> set seen \<subseteq> set seen'
     \<and> set files' \<inter> set seen \<subseteq> set files"
proof (induction names arbitrary: seen files out)
  case (Cons name names)
  show ?case
  proof (cases "name \<in> set seen")
    case True
    then show ?thesis using Cons by simp
  next
    case False
    with Cons.prems obtain evs where evs: "parse name = Inr evs" by (cases "parse name") (auto simp: Let_def)
    show ?thesis
    proof (cases "evs = []")
      case True
      have "set files \<subseteq> set (name # seen)" using Cons.prems(3) by auto
      moreover have "drainLoop parse names (name # seen) files out = (seen', Inr (files', out'))"
        using Cons.prems(1) \<open>name \<notin> set seen\<close> evs True by simp
      ultimately show ?thesis using Cons.IH [of "name # seen" files out] Cons.prems(2,3) by auto
    next
      case False
      have "name \<notin> set files" using \<open>name \<notin> set seen\<close> Cons.prems(3) by blast
      moreover have "drainLoop parse names (name # seen) (files @ [name]) (out @ evs) = (seen', Inr (files', out'))"
        using Cons.prems(1) \<open>name \<notin> set seen\<close> evs False by simp
      moreover have "set (files @ [name]) \<subseteq> set (name # seen)" using Cons.prems(3) by auto
      ultimately show ?thesis
        using Cons.IH [of "name # seen" "files @ [name]" "out @ evs"] Cons.prems(2) \<open>name \<notin> set seen\<close> by auto
    qed
  qed
qed simp

definition collected :: "LogicalRequest list \<Rightarrow> LogicalRequest list \<Rightarrow> string list \<Rightarrow> TraceCollector \<Rightarrow> bool" where
  "collected want found files c \<longleftrightarrow> distinct found \<and> set found \<subseteq> set want
     \<and> (\<forall>r \<in> set found. \<exists>e \<in> set (tcCollected c). teRequest e = r \<and> Complete e)
     \<and> distinct files \<and> set files \<subseteq> set (tcSeen c)"

lemma drain_collected:
  assumes "collected want found files c" and "drain dir parse c = (Inr (newFiles, newEvents), c')"
  shows "collected want (noteFound want found newEvents) (files @ newFiles) (c'\<lparr>tcCollected := tcCollected c' @ newEvents\<rparr>)"
    and "set newFiles \<inter> set (tcSeen c) = {}" and "set (tcSeen c) \<subseteq> set (tcSeen c')"
proof -
  obtain names seen where loop: "drainLoop parse names (tcSeen c) [] [] = (seen, Inr (newFiles, newEvents))"
    and c': "c' = c\<lparr>tcSeen := seen\<rparr>"
    using assms(2) by (auto simp: drain_def split: sum.splits prod.splits)
  note f = drainLoop_files [OF loop, simplified]
  show "collected want (noteFound want found newEvents) (files @ newFiles) (c'\<lparr>tcCollected := tcCollected c' @ newEvents\<rparr>)"
    using assms(1) f noteFound_set [of found want newEvents] by (auto simp: collected_def c')
  show "set newFiles \<inter> set (tcSeen c) = {}" "set (tcSeen c) \<subseteq> set (tcSeen c')" using f by (auto simp: c')
qed

lemma collectLoop_collected:
  assumes "collectLoop want found files polls c = Some ((None, events, files'), c')"
    and "collected want found files c" and "set files \<inter> old = {}" and "old \<subseteq> set (tcSeen c)" and "distinct want"
  shows "events = tcCollected c' \<and> (\<forall>r \<in> set want. \<exists>e \<in> set events. teRequest e = r \<and> Complete e)
    \<and> distinct files' \<and> set files' \<inter> old = {} \<and> set files' \<subseteq> set (tcSeen c')"
  using assms
proof (induction polls arbitrary: found files c)
  case (Cons p ps)
  obtain newFiles newEvents c1 where d: "drain (fst (plSeen p)) (snd (plSeen p)) c = (Inr (newFiles, newEvents), c1)"
    using Cons.prems(1) by (auto split: prod.splits sum.splits)
  let ?found = "noteFound want found newEvents" and ?c = "c1\<lparr>tcCollected := tcCollected c1 @ newEvents\<rparr>"
  note drained = drain_collected [OF Cons.prems(2) d]
  have old: "set (files @ newFiles) \<inter> old = {}" "old \<subseteq> set (tcSeen ?c)" using drained Cons.prems(3,4) by auto
  show ?case
  proof (cases "length want \<le> length ?found")
    case True
    have "set ?found = set want"
    proof (rule card_seteq)
      show "card (set want) \<le> card (set ?found)"
        using drained(1) True Cons.prems(5) by (simp add: collected_def distinct_card)
    qed (use drained(1) in \<open>simp_all add: collected_def\<close>)
    then show ?thesis using Cons.prems(1) True drained(1) old by (simp add: d Let_def collected_def) auto
  next
    case False
    then have "collectLoop want ?found (files @ newFiles) ps ?c = Some ((None, events, files'), c')"
      using Cons.prems(1) by (simp add: d Let_def split: if_splits)
    then show ?thesis using Cons.IH drained(1) old Cons.prems(5) by blast
  qed
qed simp

text \<open>
  C29. A collection that succeeds vouches for the run twice: the server's own counter says it
  sampled exactly as many requests as were sent, its budget never ran out, and for every
  expected request some collected trace of it carries all three backend timestamps; the files
  it names were each read once, by this collection.
\<close>

theorem collection_complete:
  assumes "Collect_traces expected setting accepted polls c = Some ((None, events, files), c')"
  shows "(case remainingCount setting of Inl _ \<Rightarrow> False
      | Inr budgetLeft \<Rightarrow> 0 < budgetLeft \<and> tcBudgetAt c - budgetLeft = int (length expected))
    \<and> list_all (\<lambda>r. list_ex (\<lambda>e. teRequest e = r \<and> Complete e) events) expected
    \<and> distinct files \<and> list_all (\<lambda>f. f \<in> set (tcSeen c') \<and> f \<notin> set (tcSeen c)) files
    \<and> tcBudgetAt c' = tcBudget c"
proof -
  have count: "checkServerCount c setting (length expected) = None"
    and accepted: "accepted"
    and loop: "collectLoop (remdups expected) [] [] polls ((snd (flush accepted c))\<lparr>tcBudgetAt := tcBudget c\<rparr>)
      = Some ((None, events, files), c')"
    using assms by (auto simp: Collect_traces_def flush_def applySettings_def Let_def split: option.splits if_splits)
  have "collected (remdups expected) [] [] ((snd (flush accepted c))\<lparr>tcBudgetAt := tcBudget c\<rparr>)" by (simp add: collected_def)
  from collectLoop_collected [OF loop this, of "set (tcSeen c)"]
  have "(\<forall>r \<in> set expected. \<exists>e \<in> set events. teRequest e = r \<and> Complete e) \<and> distinct files
      \<and> set files \<inter> set (tcSeen c) = {} \<and> set files \<subseteq> set (tcSeen c')"
    by (auto simp: flush_def Let_def)
  moreover have "collectLoop want found fs ps d = Some (r, d') \<Longrightarrow> tcBudgetAt d' = tcBudgetAt d" for want found fs ps d r d'
    by (induction ps arbitrary: found fs d) (auto simp: drain_def Let_def split: prod.splits sum.splits if_splits)
  note this [OF loop]
  ultimately show ?thesis
    using count by (auto simp: checkServerCount_def Let_def list_all_iff list_ex_iff split: sum.splits if_splits)
qed


text \<open>One request, whose trace appears in the directory at the second look.\<close>

definition sampleEntries :: "traceEntry list" where
  "sampleEntries = [\<lparr>tnID = 1, tnModelName = ''m'', tnRequestID = TritonRequestID (LogicalRequest 4 1), tnTimestamps = []\<rparr>,
     \<lparr>tnID = 1, tnModelName = [], tnRequestID = [], tnTimestamps =
        [(activityQueueStart, 10), (activityComputeStart, 20), (activityComputeEnd, 30)]\<rparr>]"

definition sampleCollector :: TraceCollector where
  "sampleCollector = \<lparr>tcSeen = [], tcFreq = TraceRotation, tcBudget = 4097, tcBudgetAt = 4097, tcCollected = []\<rparr>"

definition samplePolls :: "(listing \<times> (string \<Rightarrow> trace_error + TraceEvent list)) poll list" where
  "samplePolls = [\<lparr>plSeen = (Listing [(''trace.json'', False)], \<lambda>_. Inr []), plExpired = False, plEnded = False\<rparr>,
     \<lparr>plSeen = (Listing [(''trace.json'', False), (''trace.json.0'', False)], \<lambda>_. Inr (parseEntries sampleEntries)),
      plExpired = False, plEnded = False\<rparr>]"

lemma sample_parsed: "parseEntries sampleEntries = [\<lparr>teRequest = LogicalRequest 4 1,
    teRequestID = TritonRequestID (LogicalRequest 4 1), teModelName = ''m'', teTraceID = 1, teQueueStart = 10,
    teComputeStart = 20, teComputeEnd = 30, teRequestStart = 0, teRequestEnd = 0, teComputeInputEnd = 0, teComputeOutputStart = 0\<rparr>]"
  by (simp add: parseEntries_def sampleEntries_def mergeEntry_def applyEntry_def stampActivity_def zeroTrace_def
      attributed_def ParseTritonRequestID_inverse List.map_filter_def Let_def)
    (simp add: TritonRequestID_def ParseTritonRequestID_inverse)

theorem collection_complete_witness:
  "case Collect_traces [LogicalRequest 4 1] (Some [Some 4096]) True samplePolls sampleCollector of
     Some ((None, events, files), c') \<Rightarrow> files = [''trace.json.0'']
       \<and> list_ex (\<lambda>e. teRequest e = LogicalRequest 4 1 \<and> Complete e) events
   | _ \<Rightarrow> False"
proof -
  have "\<exists>events c'. Collect_traces [LogicalRequest 4 1] (Some [Some 4096]) True samplePolls sampleCollector
      = Some ((None, events, [''trace.json.0'']), c')"
    by (simp add: Collect_traces_def checkServerCount_def remainingCount_def sampleCollector_def flush_def applySettings_def
        samplePolls_def drain_def traceFiles_def indexedTraceFile_def isDigit_def noteFound_def sample_parsed Complete_def Let_def)
  then obtain events c' where run: "Collect_traces [LogicalRequest 4 1] (Some [Some 4096]) True samplePolls sampleCollector
      = Some ((None, events, [''trace.json.0'']), c')" by blast
  from collection_complete [OF run] show ?thesis by (simp add: run)
qed

end
