(* ===== verification/Gateway.thy ===== *)
theory Gateway
  imports Trace RunChecks
begin

text \<open>
  \<^verbatim>\<open>internal/triton/gateway.go\<close>: what the gateway concludes from the server's answers (its
  liveness, its repository index, its model configuration, its counters) and the difference of
  two readings of the counters. Every RPC is an argument, the answer or its failure.
\<close>

definition MaxMessageBytes :: int where "MaxMessageBytes = 256 * 2 ^ 20"

record TransportConfig =
  tpEndpoint :: string
  tpMaxMessageBytes :: int
  tpInitialWindowSize :: int
  tpInitialConnWindowSize :: int
  tpDialTimeoutNanos :: int

definition DefaultConfig :: "string \<Rightarrow> TransportConfig" where
  "DefaultConfig endpoint = \<lparr>tpEndpoint = endpoint, tpMaxMessageBytes = MaxMessageBytes,
     tpInitialWindowSize = 4 * 2 ^ 20, tpInitialConnWindowSize = 16 * 2 ^ 20, tpDialTimeoutNanos = 30000000000\<rparr>"

text \<open>The configuration a dialled gateway keeps.\<close>

definition dialConfig :: "TransportConfig \<Rightarrow> TransportConfig" where
  "dialConfig cfg = (if tpMaxMessageBytes cfg = 0 then cfg\<lparr>tpMaxMessageBytes := MaxMessageBytes\<rparr> else cfg)"

datatype gateway_error =
    CallFailed string
  | NotLive string
  | NotQuiesced
  | ContextEnded
  | OtherModel string string
  | WentBackwards string

section \<open>Waiting for the server\<close>

text \<open>\<^verbatim>\<open>WaitLive\<close>: a poll is the server's answer; \<open>plExpired\<close> is the deadline before the poll.\<close>

fun WaitLive :: "string \<Rightarrow> bool option poll list \<Rightarrow> gateway_error option option" where
  "WaitLive lastErr [] = None"
| "WaitLive lastErr (p # ps) =
     (if plExpired p then Some (Some (NotLive lastErr))
      else case plSeen p of
        Some True \<Rightarrow> Some None
      | live \<Rightarrow>
          if plEnded p then Some (Some ContextEnded)
          else WaitLive (if live = None then ''call failed'' else ''server reports not live'') ps)"

text \<open>The index of the repository: names with their states, and the ready ones.\<close>

fun UnloadAll :: "(string \<Rightarrow> bool) \<Rightarrow> string list \<Rightarrow> string list \<times> gateway_error option" where
  "UnloadAll unloads [] = ([], None)"
| "UnloadAll unloads (m # ms) =
     (if \<not> unloads m then ([], Some (CallFailed m))
      else let (gone, err) = UnloadAll unloads ms in (m # gone, err))"

fun quiesceLoop :: "(bool option \<times> string list option) poll list \<Rightarrow> gateway_error option option" where
  "quiesceLoop [] = None"
| "quiesceLoop (p # ps) =
     (case plSeen p of
        (None, _) \<Rightarrow> Some (Some (CallFailed ''ready''))
      | (_, None) \<Rightarrow> Some (Some (CallFailed ''index''))
      | (Some ready, Some loaded) \<Rightarrow>
          if ready \<and> length loaded = 0 then Some None
          else if plExpired p then Some (Some NotQuiesced)
          else if plEnded p then Some (Some ContextEnded)
          else quiesceLoop ps)"

definition Quiesce :: "string list option \<Rightarrow> (string \<Rightarrow> bool) \<Rightarrow> (bool option \<times> string list option) poll list
    \<Rightarrow> gateway_error option option" where
  "Quiesce index unloads polls =
     (case index of None \<Rightarrow> Some (Some (CallFailed ''index''))
      | Some models \<Rightarrow>
          (case snd (UnloadAll unloads models) of Some e \<Rightarrow> Some (Some e) | None \<Rightarrow> quiesceLoop polls))"

section \<open>What the server serves\<close>

record ModelMetadata =
  mdName :: string
  mdVersions :: "string list"
  mdPlatform :: string
  mdInputs :: "string list"
  mdOutputs :: "string list"

record ModelConfig =
  mcBackend :: string
  mcMaxBatchSize :: int
  mcDynamicBatching :: bool
  mcInstanceGroups :: "(int \<times> string) list"

record ModelIdentity =
  miName :: string
  miVersions :: "string list"
  miPlatform :: string
  miBackend :: string
  miMaxBatchSize :: int
  miInstanceCount :: int
  miInstanceKind :: string
  miDynamicBatchingEnabled :: bool
  miInputs :: "string list"
  miOutputs :: "string list"

definition servedIdentity :: "string \<Rightarrow> ModelMetadata option \<Rightarrow> ModelConfig option \<Rightarrow> gateway_error + ModelIdentity" where
  "servedIdentity name md cfg =
     (case md of None \<Rightarrow> Inl (CallFailed name)
      | Some md \<Rightarrow>
          (case cfg of None \<Rightarrow> Inl (CallFailed name)
           | Some cfg \<Rightarrow>
               Inr (foldl (\<lambda>i (count, kind). i\<lparr>miInstanceCount := miInstanceCount i + count, miInstanceKind := kind\<rparr>)
                 \<lparr>miName = mdName md, miVersions = mdVersions md, miPlatform = mdPlatform md, miBackend = mcBackend cfg,
                  miMaxBatchSize = mcMaxBatchSize cfg, miInstanceCount = 0, miInstanceKind = [],
                  miDynamicBatchingEnabled = mcDynamicBatching cfg, miInputs = mdInputs md, miOutputs = mdOutputs md\<rparr>
                 (mcInstanceGroups cfg))))"

section \<open>Counters\<close>

record Snapshot =
  snModel :: string
  snInferenceCount :: uint64
  snExecutionCount :: uint64
  snBatchSizes :: "(uint64 \<times> uint64) list"

record ModelStat =
  msName :: string
  msInferenceCount :: uint64
  msExecutionCount :: uint64
  msBatchStats :: "(uint64 \<times> uint64) list"

definition sizeCount :: "(uint64 \<times> uint64) list \<Rightarrow> uint64 \<Rightarrow> uint64" where
  "sizeCount sizes k = (case map_of sizes k of None \<Rightarrow> 0 | Some n \<Rightarrow> n)"

definition addBatch :: "(uint64 \<times> uint64) list \<Rightarrow> uint64 \<times> uint64 \<Rightarrow> (uint64 \<times> uint64) list" where
  "addBatch sizes = (\<lambda>(k, n). AList.update k (sizeCount sizes k + n) sizes)"

definition addStat :: "string \<Rightarrow> Snapshot \<Rightarrow> ModelStat \<Rightarrow> Snapshot" where
  "addStat model snap s =
     (if msName s \<noteq> model then snap
      else snap\<lparr>snInferenceCount := snInferenceCount snap + msInferenceCount s,
             snExecutionCount := snExecutionCount snap + msExecutionCount s,
             snBatchSizes := foldl addBatch (snBatchSizes snap) (msBatchStats s)\<rparr>)"

definition Statistics :: "string \<Rightarrow> ModelStat list option \<Rightarrow> gateway_error + Snapshot" where
  "Statistics model resp =
     (case resp of None \<Rightarrow> Inl (CallFailed model)
      | Some stats \<Rightarrow> Inr (foldl (addStat model)
          \<lparr>snModel = model, snInferenceCount = 0, snExecutionCount = 0, snBatchSizes = []\<rparr> stats))"

text \<open>\<^verbatim>\<open>StatisticsDelta\<close> has the fields of a snapshot.\<close>

type_synonym StatisticsDelta = Snapshot

definition Delta :: "Snapshot \<Rightarrow> Snapshot \<Rightarrow> gateway_error + StatisticsDelta" where
  "Delta before after =
     (if snModel before \<noteq> snModel after then Inl (OtherModel (snModel before) (snModel after))
      else if snInferenceCount after < snInferenceCount before \<or> snExecutionCount after < snExecutionCount before
      then Inl (WentBackwards (snModel before))
      else Inr \<lparr>snModel = snModel before,
             snInferenceCount = snInferenceCount after - snInferenceCount before,
             snExecutionCount = snExecutionCount after - snExecutionCount before,
             snBatchSizes = filter (\<lambda>(k, n). 0 < n)
               (map (\<lambda>(k, n). (k, n - sizeCount (snBatchSizes before) k)) (snBatchSizes after))\<rparr>)"

text \<open>The expectation of a run with the counters' change in it.\<close>

definition withCounters :: "RunExpectation \<Rightarrow> StatisticsDelta \<Rightarrow> RunExpectation" where
  "withCounters xp d = xp\<lparr>exExecutionCountDelta := snExecutionCount d, exInferenceCountDelta := snInferenceCount d,
     exBatchSizeHistogram := snBatchSizes d\<rparr>"

section \<open>The counters as evidence\<close>

lemma quiesced: "quiesceLoop polls = Some None \<Longrightarrow> \<exists>p \<in> set polls. plSeen p = (Some True, Some [])"
  by (induction polls) (auto split: prod.splits option.splits if_splits)

lemma WaitLive_live: "WaitLive e polls = Some None \<Longrightarrow> \<exists>p \<in> set polls. plSeen p = Some True"
  by (induction e polls rule: WaitLive.induct) (auto split: option.splits bool.splits if_splits)

lemma UnloadAll_all: "snd (UnloadAll unloads ms) = None \<longleftrightarrow> list_all unloads ms"
  by (induction ms) (auto simp: split_beta)

lemma sizeCount_addBatch: "sizeCount (addBatch sizes (k, n)) j = sizeCount sizes j + (if j = k then n else 0)"
  by (simp add: addBatch_def sizeCount_def update_conv')

text \<open>A snapshot is the sum of the server's counters for its model.\<close>

lemma Statistics_sums:
  "Statistics model (Some stats) = Inr snap \<Longrightarrow>
     let own = filter (\<lambda>s. msName s = model) stats in
     snInferenceCount snap = sum_list (map msInferenceCount own)
     \<and> snExecutionCount snap = sum_list (map msExecutionCount own)
     \<and> sizeCount (snBatchSizes snap) k
         = sum_list (map (\<lambda>s. sum_list (map snd (filter (\<lambda>b. fst b = k) (msBatchStats s)))) own)"
proof -
  have batches: "sizeCount (foldl addBatch sizes bs) k = sizeCount sizes k + sum_list (map snd (filter (\<lambda>b. fst b = k) bs))"
    for sizes bs
  proof (induction bs arbitrary: sizes)
    case (Cons b bs)
    then show ?case by (cases b) (simp add: sizeCount_addBatch)
  qed simp
  have stats: "let own = filter (\<lambda>s. msName s = model) stats; snap' = foldl (addStat model) snap stats in
     snInferenceCount snap' = snInferenceCount snap + sum_list (map msInferenceCount own)
     \<and> snExecutionCount snap' = snExecutionCount snap + sum_list (map msExecutionCount own)
     \<and> sizeCount (snBatchSizes snap') k = sizeCount (snBatchSizes snap) k
         + sum_list (map (\<lambda>s. sum_list (map snd (filter (\<lambda>b. fst b = k) (msBatchStats s)))) own)" for snap
    by (induction stats arbitrary: snap) (auto simp: addStat_def batches Let_def)
  show "Statistics model (Some stats) = Inr snap \<Longrightarrow> ?thesis"
    using stats [of "\<lparr>snModel = model, snInferenceCount = 0, snExecutionCount = 0, snBatchSizes = []\<rparr>"]
    by (auto simp: Statistics_def sizeCount_def)
qed

text \<open>
  The contamination check reads the server's counters: between two snapshots of the served
  model, taken before and after the run, it passes exactly when the server counted as many
  executions more as the run expects and one inference more per released request, and every
  batch size whose count changed is the cell's, with some change if executions are expected.
\<close>

theorem contamination_of_snapshots:
  assumes "Delta before after = Inr d"
  shows "ckPassed (checkContamination (withCounters xp d)) \<longleftrightarrow>
    (let changed = filter (\<lambda>(k, n). n \<noteq> sizeCount (snBatchSizes before) k) (snBatchSizes after) in
     snExecutionCount after = snExecutionCount before + of_int (exExecutions xp)
     \<and> snInferenceCount after = snInferenceCount before + of_int (exCohortCount xp * exCohortSize xp)
     \<and> list_all (\<lambda>(k, n). k = of_int (exBatchSize xp)) changed
     \<and> (if 0 < exExecutions xp then changed \<noteq> [] else True))"
proof -
  define changed where "changed = filter (\<lambda>(k, n). n \<noteq> sizeCount (snBatchSizes before) k) (snBatchSizes after)"
  have pos: "0 < n - m \<longleftrightarrow> n \<noteq> m" for n m :: uint64 by (metis right_minus_eq word_greater_zero_iff)
  have grown: "filter (\<lambda>(k, n). 0 < n) (map (\<lambda>(k, n). (k, n - sizeCount b k)) l)
      = map (\<lambda>(k, n). (k, n - sizeCount b k)) (filter (\<lambda>(k, n). n \<noteq> sizeCount b k) l)" for b l
    by (induction l) (auto simp: pos)
  have d: "d = \<lparr>snModel = snModel before, snInferenceCount = snInferenceCount after - snInferenceCount before,
      snExecutionCount = snExecutionCount after - snExecutionCount before,
      snBatchSizes = map (\<lambda>(k, n). (k, n - sizeCount (snBatchSizes before) k)) changed\<rparr>"
    using assms by (auto simp: Delta_def changed_def grown split: if_splits)
  have shift: "a - b = c \<longleftrightarrow> a = b + c" for a b c :: uint64 by (auto simp: algebra_simps)
  have sizes: "(\<forall>x \<in> set l. (case case x of (k, n) \<Rightarrow> (k, f k n) of (k, n) \<Rightarrow> if k \<noteq> b then [e] else []) = [])
      \<longleftrightarrow> list_all (\<lambda>(k, n). k = b) l" for b and e :: Defect and f :: "uint64 \<Rightarrow> uint64 \<Rightarrow> uint64" and l
    by (induction l) (auto split: if_splits)
  show ?thesis
    unfolding changed_def [symmetric] Let_def
    by (simp add: checkContamination_def withCounters_def d sizes shift)
qed

definition sampleBefore :: Snapshot where
  "sampleBefore = \<lparr>snModel = ''m'', snInferenceCount = 5, snExecutionCount = 5, snBatchSizes = [(1, 3), (2, 1)]\<rparr>"

definition sampleAfter :: Snapshot where
  "sampleAfter = \<lparr>snModel = ''m'', snInferenceCount = 7, snExecutionCount = 7, snBatchSizes = [(1, 5), (2, 1)]\<rparr>"

theorem contamination_of_snapshots_witness:
  "case Delta sampleBefore sampleAfter of Inl _ \<Rightarrow> False
   | Inr d \<Rightarrow> ckPassed (checkContamination (withCounters ((sampleExpectation CellF00)\<lparr>exExecutions := 2, exBatchSize := 1,
       exCohortCount := 1, exCohortSize := 2\<rparr>) d))"
proof -
  have "\<exists>d. Delta sampleBefore sampleAfter = Inr d" by (simp add: Delta_def sampleBefore_def sampleAfter_def)
  then obtain d where d: "Delta sampleBefore sampleAfter = Inr d" by blast
  show ?thesis
    by (simp add: d contamination_of_snapshots [OF d])
       (simp add: sampleBefore_def sampleAfter_def sizeCount_def)
qed

text \<open>
  A bucket whose count went down is not refused, though the totals are checked: the difference
  wraps, and the bucket is reported with the wrapped count.
\<close>

lemma bucket_backwards_wraps:
  "Delta \<lparr>snModel = m, snInferenceCount = 2, snExecutionCount = 2, snBatchSizes = [(2, 1)]\<rparr>
         \<lparr>snModel = m, snInferenceCount = 3, snExecutionCount = 3, snBatchSizes = [(2, 0)]\<rparr>
   = Inr \<lparr>snModel = m, snInferenceCount = 1, snExecutionCount = 1, snBatchSizes = [(2, - 1)]\<rparr>"
  by (simp add: Delta_def sizeCount_def word_gt_0)

end
