(* ===== verification/Aggregation.thy ===== *)
theory Aggregation
  imports RunChecks
begin

text \<open>
  \<^verbatim>\<open>internal/validate/aggregation.go\<close>: whether every cohort of an aggregating cell travelled
  as one envelope, which cohorts the proxy never assembled, and the displacement of the
  findings a cohort that never formed would otherwise cause.
\<close>

record CohortEnvelopes =
  evCohort :: CohortID
  evEnvelopes :: nat
  evMembers :: nat

record FormationFailure =
  ffCohort :: CohortID
  ffHeld :: "Ordinal list"
  ffAbsent :: "Ordinal list"

record AggregationReport =
  agCohorts :: "CohortEnvelopes list"
  agFailedFormations :: "FormationFailure list"

text \<open>The set of failed cohorts is the list of its elements.\<close>

definition FailedCohorts :: "AggregationReport \<Rightarrow> CohortID list" where
  "FailedCohorts r = map ffCohort (agFailedFormations r)"

definition heldMember :: "Joined \<Rightarrow> bool" where
  "heldMember j \<longleftrightarrow> snd (joinedStage j StageProxyRecv) \<and> \<not> snd (joinedStage j StageCohortSeal)"

definition absentMember :: "Joined \<Rightarrow> bool" where
  "absentMember j \<longleftrightarrow> \<not> snd (joinedStage j StageProxyRecv)"

definition findFormationFailures :: "RunExpectation \<Rightarrow> joined_map \<Rightarrow> FormationFailure list" where
  "findFormationFailures xp joined =
     (if \<not> AggregatesEnvelopes (exCell xp) then []
      else
        let heldBy = group_by (\<lambda>(req, j). Cohort req) (\<lambda>(req, j). Ordinal req)
              (filter (\<lambda>(req, j). heldMember j) (entries joined));
            absentBy = group_by (\<lambda>(req, j). Cohort req) (\<lambda>(req, j). Ordinal req)
              (filter (\<lambda>(req, j). absentMember j) (entries joined));
            cohorts = sort (filter (\<lambda>c. 0 < length (group_get absentBy c)) (map fst heldBy))
        in map (\<lambda>c. \<lparr>ffCohort = c, ffHeld = group_get heldBy c, ffAbsent = group_get absentBy c\<rparr>) cohorts)"

text \<open>The entries of the cohorts that formed.\<close>

definition formed :: "CohortID list \<Rightarrow> joined_map \<Rightarrow> (LogicalRequest \<times> Joined) list" where
  "formed failed joined = filter (\<lambda>(req, j). Cohort req \<notin> set failed) (entries joined)"

definition envelopeOwners :: "joined_map \<Rightarrow> CohortID list \<Rightarrow> (EnvelopeID \<times> CohortID list) list" where
  "envelopeOwners joined failed =
     map (\<lambda>(i, cohorts). (i, sort (remdups cohorts)))
       (group_by (\<lambda>(req, j). jEnvelopeID j) (\<lambda>(req, j). Cohort req)
         (filter (\<lambda>(req, j). jEnvelopeID j \<noteq> 0) (formed failed joined)))"

definition cohortEnvelopeIDs :: "Joined list \<Rightarrow> EnvelopeID list" where
  "cohortEnvelopeIDs members = remdups (filter (\<lambda>i. i \<noteq> 0) (map jEnvelopeID members))"

definition stageValues :: "Joined list \<Rightarrow> Stage \<Rightarrow> int64 list" where
  "stageValues members stage = remdups (map (\<lambda>m. fst (joinedStage m stage))
     (filter (\<lambda>m. snd (joinedStage m stage)) members))"

definition cohortEnvelopeDefects :: "CohortID \<Rightarrow> Joined list \<Rightarrow> Defect list" where
  "cohortEnvelopeDefects cohort members =
     (if length (cohortEnvelopeIDs members) \<noteq> 1 then [runDefect DefectEnvelopeCardinality] else [])
     @ concat (map (\<lambda>stage. if length (stageValues members stage) \<le> 1 then []
         else [(runDefect DefectEnvelopeStageDisagreement)\<lparr>dfStage := stageName stage\<rparr>])
       (mask_Stages EnvelopeStages))"

definition checkAggregation :: "RunExpectation \<Rightarrow> joined_map \<Rightarrow> AggregationReport \<times> Check" where
  "checkAggregation xp joined =
     (let report = \<lparr>agCohorts = [], agFailedFormations = findFormationFailures xp joined\<rparr> in
      if \<not> AggregatesEnvelopes (exCell xp) then (report, pass ''envelope_aggregation'')
      else
        let failed = FailedCohorts report;
            byCohort = group_by (\<lambda>(req, j). Cohort req) snd (formed failed joined);
            cohorts = sort (map fst byCohort);
            accounts = map (\<lambda>c. \<lparr>evCohort = c, evEnvelopes = length (cohortEnvelopeIDs (group_get byCohort c)),
              evMembers = length (group_get byCohort c)\<rparr>) cohorts
        in (report\<lparr>agCohorts := accounts\<rparr>,
            fail ''envelope_aggregation''
              (concat (map (\<lambda>c. cohortEnvelopeDefects c (group_get byCohort c)) cohorts)
               @ concat (map (\<lambda>(envelope, owners).
                   if 1 < length owners then [runDefect DefectEnvelopeCardinality] else [])
                 (envelopeOwners joined failed)))))"

definition checkFormation :: "AggregationReport \<Rightarrow> Check" where
  "checkFormation report =
     fail ''cohort_formation'' (map (\<lambda>f. runDefect DefectFormationFailure) (agFailedFormations report))"

definition withoutCohorts :: "joined_map \<Rightarrow> CohortID list \<Rightarrow> joined_map" where
  "withoutCohorts joined hidden =
     (if hidden = [] then joined else filter (\<lambda>(req, j). Cohort req \<notin> set hidden) joined)"

section \<open>Formation failures\<close>

definition failureOf :: "joined_map \<Rightarrow> CohortID \<Rightarrow> FormationFailure" where
  "failureOf joined c =
     (let members = filter (\<lambda>(req, j). Cohort req = c) (entries joined) in
      \<lparr>ffCohort = c, ffHeld = map (\<lambda>(req, j). Ordinal req) (filter (\<lambda>(req, j). heldMember j) members),
       ffAbsent = map (\<lambda>(req, j). Ordinal req) (filter (\<lambda>(req, j). absentMember j) members)\<rparr>)"

lemma findFormationFailures_shape:
  assumes "AggregatesEnvelopes (exCell xp)"
  obtains cs where "findFormationFailures xp joined = map (failureOf joined) cs" and "sorted cs" and "distinct cs"
    and "\<And>c. c \<in> set cs \<longleftrightarrow> ffHeld (failureOf joined c) \<noteq> [] \<and> ffAbsent (failureOf joined c) \<noteq> []"
proof -
  let ?by = "\<lambda>P. group_by (\<lambda>(req, j). Cohort req) (\<lambda>(req, j). Ordinal req) (filter (\<lambda>(req, j). P j) (entries joined))"
  let ?cs = "sort (filter (\<lambda>c. 0 < length (group_get (?by absentMember) c)) (map fst (?by heldMember)))"
  have get: "group_get (?by P) c = map (\<lambda>(req, j). Ordinal req)
      (filter (\<lambda>(req, j). P j) (filter (\<lambda>(req, j). Cohort req = c) (entries joined)))" for P c
    by (simp add: group_get_by case_prod_unfold conj_commute)
  have shape: "failureOf joined c = \<lparr>ffCohort = c, ffHeld = group_get (?by heldMember) c,
      ffAbsent = group_get (?by absentMember) c\<rparr>" for c
    by (simp only: failureOf_def Let_def get)
  have keys: "c \<in> set (map fst (?by heldMember)) \<longleftrightarrow> group_get (?by heldMember) c \<noteq> []" for c
    unfolding keys_group_by get by (auto simp: filter_empty_conv image_iff)
  show ?thesis
  proof
    show "findFormationFailures xp joined = map (failureOf joined) ?cs"
      unfolding findFormationFailures_def Let_def shape using assms by simp
    show "sorted ?cs" by (rule sorted_sort)
    have "distinct (filter (\<lambda>c. 0 < length (group_get (?by absentMember) c)) (map fst (?by heldMember)))"
      by (intro distinct_filter distinct_group_by)
    then show "distinct ?cs" by (simp only: distinct_sort)
    show "c \<in> set ?cs \<longleftrightarrow> ffHeld (failureOf joined c) \<noteq> [] \<and> ffAbsent (failureOf joined c) \<noteq> []" for c
      unfolding set_sort set_filter mem_Collect_eq keys shape by simp
  qed
qed

text \<open>Hiding the cohorts that failed keeps the others' entries, in the same order.\<close>

lemma withoutCohorts_filter: "withoutCohorts joined hidden = filter (\<lambda>(req, j). Cohort req \<notin> set hidden) joined"
  by (simp add: withoutCohorts_def)

lemma distinct_withoutCohorts [simp]:
  "distinct (map fst joined) \<Longrightarrow> distinct (map fst (withoutCohorts joined hidden))"
  unfolding withoutCohorts_filter by (rule distinct_map_filter)

lemma checkFormation_passes: "ckPassed (checkFormation report) \<longleftrightarrow> agFailedFormations report = []"
  by (simp add: checkFormation_def)

text \<open>
  C18. Formation failures are diagnosed by their signature: the failures the validator names,
  in ascending order and each cohort once, are exactly those cohorts of an aggregating cell
  that have both a member held at the proxy (it arrived, it was never sealed) and a member that
  never arrived; each failure lists the ordinals of the first kind as held and of the second as
  absent, ascending.
\<close>

theorem findFormationFailures_signature:
  "sorted (map ffCohort (findFormationFailures xp (Join records)))
   \<and> distinct (map ffCohort (findFormationFailures xp (Join records)))
   \<and> (f \<in> set (findFormationFailures xp (Join records)) \<longleftrightarrow>
       (let members = filter (\<lambda>(req, j). Cohort req = ffCohort f) (entries (Join records)) in
        AggregatesEnvelopes (exCell xp)
        \<and> f = \<lparr>ffCohort = ffCohort f,
               ffHeld = map (\<lambda>(req, j). Ordinal req) (filter (\<lambda>(req, j). snd (joinedStage j StageProxyRecv)
                   \<and> \<not> snd (joinedStage j StageCohortSeal)) members),
               ffAbsent = map (\<lambda>(req, j). Ordinal req) (filter (\<lambda>(req, j). \<not> snd (joinedStage j StageProxyRecv)) members)\<rparr>
        \<and> ffHeld f \<noteq> [] \<and> ffAbsent f \<noteq> []))"
proof (cases "AggregatesEnvelopes (exCell xp)")
  case True
  obtain cs where cs: "findFormationFailures xp (Join records) = map (failureOf (Join records)) cs"
      "sorted cs" "distinct cs"
      "\<And>c. c \<in> set cs \<longleftrightarrow> ffHeld (failureOf (Join records) c) \<noteq> [] \<and> ffAbsent (failureOf (Join records) c) \<noteq> []"
    using findFormationFailures_shape [OF True, of "Join records"] by blast
  have id: "ffCohort (failureOf (Join records) c) = c" for c by (simp add: failureOf_def Let_def)
  then have "map ffCohort (findFormationFailures xp (Join records)) = cs" by (simp add: cs(1) o_def)
  moreover have "f \<in> set (findFormationFailures xp (Join records)) \<longleftrightarrow>
      f = failureOf (Join records) (ffCohort f) \<and> ffHeld f \<noteq> [] \<and> ffAbsent f \<noteq> []"
  proof -
    have "f \<in> set (findFormationFailures xp (Join records)) \<longleftrightarrow> (\<exists>c \<in> set cs. f = failureOf (Join records) c)"
      by (auto simp: cs(1))
    also have "\<dots> \<longleftrightarrow> ffCohort f \<in> set cs \<and> f = failureOf (Join records) (ffCohort f)" using id by auto
    finally show ?thesis unfolding cs(4) by auto
  qed
  ultimately show ?thesis
    using cs(2,3) True unfolding failureOf_def Let_def heldMember_def absentMember_def by blast
qed (simp add: findFormationFailures_def)

section \<open>One envelope per cohort\<close>

lemma length_remdups_le1: "length (remdups xs) \<le> 1 \<longleftrightarrow> (\<forall>x \<in> set xs. \<forall>y \<in> set xs. x = y)"
proof -
  have "length (remdups xs) = card (set xs)" by (rule length_remdups_card_conv)
  moreover have "card (set xs) \<le> 1 \<longleftrightarrow> (\<forall>x \<in> set xs. \<forall>y \<in> set xs. x = y)"
    by (auto simp: card_le_Suc0_iff_eq)
  ultimately show ?thesis by simp
qed

lemma length_remdups_eq1:
  "length (remdups xs) = 1 \<longleftrightarrow> xs \<noteq> [] \<and> (\<forall>x \<in> set xs. \<forall>y \<in> set xs. x = y)"
  using length_remdups_le1 [of xs] by (cases "remdups xs") auto

lemma cohortEnvelopeDefects_Nil:
  "cohortEnvelopeDefects c members = [] \<longleftrightarrow>
     (\<exists>m \<in> set members. jEnvelopeID m \<noteq> 0)
     \<and> (\<forall>m \<in> set members. \<forall>n \<in> set members.
          (jEnvelopeID m \<noteq> 0 \<and> jEnvelopeID n \<noteq> 0 \<longrightarrow> jEnvelopeID m = jEnvelopeID n)
          \<and> (\<forall>s \<in> set (mask_Stages EnvelopeStages). snd (joinedStage m s) \<and> snd (joinedStage n s)
               \<longrightarrow> fst (joinedStage m s) = fst (joinedStage n s)))"
proof -
  have one: "length (cohortEnvelopeIDs members) = 1 \<longleftrightarrow> (\<exists>m \<in> set members. jEnvelopeID m \<noteq> 0)
      \<and> (\<forall>m \<in> set members. \<forall>n \<in> set members. jEnvelopeID m \<noteq> 0 \<and> jEnvelopeID n \<noteq> 0 \<longrightarrow> jEnvelopeID m = jEnvelopeID n)"
    unfolding cohortEnvelopeIDs_def length_remdups_eq1 by (auto simp: filter_empty_conv)
  have vals: "length (stageValues members s) \<le> 1 \<longleftrightarrow> (\<forall>m \<in> set members. \<forall>n \<in> set members.
      snd (joinedStage m s) \<and> snd (joinedStage n s) \<longrightarrow> fst (joinedStage m s) = fst (joinedStage n s))" for s
    unfolding stageValues_def length_remdups_le1 by auto
  have agree: "concat (map (\<lambda>stage. if length (stageValues members stage) \<le> 1 then [] else [D stage]) ss) = []
      \<longleftrightarrow> (\<forall>s \<in> set ss. \<forall>m \<in> set members. \<forall>n \<in> set members.
         snd (joinedStage m s) \<and> snd (joinedStage n s) \<longrightarrow> fst (joinedStage m s) = fst (joinedStage n s))"
    for D :: "Stage \<Rightarrow> Defect" and ss
    unfolding concat_map_Nil list_all_iff vals [symmetric] by simp
  have "(if length (cohortEnvelopeIDs members) \<noteq> 1 then [runDefect DefectEnvelopeCardinality] else []) = []
      \<longleftrightarrow> length (cohortEnvelopeIDs members) = 1" by simp
  then show ?thesis unfolding cohortEnvelopeDefects_def append_is_Nil_conv agree one by blast
qed

lemma envelopeOwners_Nil:
  "concat (map (\<lambda>(envelope, owners). if 1 < length owners then [runDefect DefectEnvelopeCardinality] else [])
      (envelopeOwners joined failed)) = [] \<longleftrightarrow>
   (\<forall>(r, m) \<in> set (formed failed joined). \<forall>(q, n) \<in> set (formed failed joined).
      jEnvelopeID m \<noteq> 0 \<and> jEnvelopeID m = jEnvelopeID n \<longrightarrow> Cohort r = Cohort q)"
proof -
  let ?xs = "filter (\<lambda>(req, j). jEnvelopeID j \<noteq> 0) (formed failed joined)"
  let ?g = "group_by (\<lambda>(req, j). jEnvelopeID j) (\<lambda>(req, j). Cohort req) ?xs"
  have "concat (map (\<lambda>(envelope, owners). if 1 < length owners then [runDefect DefectEnvelopeCardinality] else [])
      (envelopeOwners joined failed)) = [] \<longleftrightarrow> (\<forall>(i, cs) \<in> set ?g. length (remdups cs) \<le> 1)"
    unfolding concat_map_Nil envelopeOwners_def by (auto simp: list_all_iff split_beta not_less)
  also have "\<dots> \<longleftrightarrow> (\<forall>i \<in> set (map fst ?g). length (remdups (group_get ?g i)) \<le> 1)"
  proof -
    have "group_get ?g i = cs" if "(i, cs) \<in> set ?g" for i cs
      using that by (simp add: group_get_def)
    then show ?thesis by (fastforce simp: split_beta)
  qed
  also have "\<dots> \<longleftrightarrow> (\<forall>(r, m) \<in> set (formed failed joined). \<forall>(q, n) \<in> set (formed failed joined).
      jEnvelopeID m \<noteq> 0 \<and> jEnvelopeID m = jEnvelopeID n \<longrightarrow> Cohort r = Cohort q)"
    unfolding keys_group_by group_get_by length_remdups_le1 by fastforce
  finally show ?thesis .
qed

text \<open>One envelope within a cohort and one cohort within an envelope, as one condition on pairs.\<close>

lemma one_to_one:
  fixes env :: "'x \<Rightarrow> EnvelopeID"
  shows "(\<forall>x \<in> L. (\<exists>y \<in> L. coh y = coh x \<and> env y \<noteq> 0)
        \<and> (\<forall>y \<in> L. coh y = coh x \<longrightarrow> (\<forall>z \<in> L. coh z = coh x \<longrightarrow>
             (env y \<noteq> 0 \<and> env z \<noteq> 0 \<longrightarrow> env y = env z) \<and> Q y z)))
      \<and> (\<forall>x \<in> L. \<forall>y \<in> L. env x \<noteq> 0 \<and> env x = env y \<longrightarrow> coh x = coh y)
    \<longleftrightarrow> (\<forall>x \<in> L. (\<exists>y \<in> L. coh y = coh x \<and> env y \<noteq> 0)
        \<and> (\<forall>y \<in> L. (env x \<noteq> 0 \<and> env y \<noteq> 0 \<longrightarrow> (env x = env y) = (coh x = coh y)) \<and> (coh x = coh y \<longrightarrow> Q x y)))"
    (is "?A \<and> ?B \<longleftrightarrow> ?C")
proof
  assume ab: "?A \<and> ?B"
  show ?C
  proof (intro ballI conjI impI)
    fix x assume x: "x \<in> L"
    show "\<exists>y \<in> L. coh y = coh x \<and> env y \<noteq> 0" using ab x by blast
    fix y assume y: "y \<in> L"
    show "Q x y" if "coh x = coh y" using ab x y that by metis
    show "(env x = env y) = (coh x = coh y)" if "env x \<noteq> 0 \<and> env y \<noteq> 0" using ab x y that by metis
  qed
next
  assume c: ?C
  show "?A \<and> ?B"
  proof (intro conjI ballI impI)
    fix x assume x: "x \<in> L"
    show "\<exists>y \<in> L. coh y = coh x \<and> env y \<noteq> 0" using c x by blast
    fix y assume y: "y \<in> L"
    show "coh x = coh y" if "env x \<noteq> 0 \<and> env x = env y" using c x y that by metis
    fix z assume z: "z \<in> L" and co: "coh y = coh x" "coh z = coh x"
    show "Q y z" using c y z co by metis
    show "env y = env z" if "env y \<noteq> 0 \<and> env z \<noteq> 0" using c y z co that by metis
  qed
qed

lemma if_imp: "(if P then Q else True) \<longleftrightarrow> (P \<longrightarrow> Q)"
  by simp

lemma members_where:
  "(\<exists>m \<in> set (map snd (filter P xs)). R m) \<longleftrightarrow> (\<exists>x \<in> set xs. P x \<and> R (snd x))"
  "(\<forall>m \<in> set (map snd (filter P xs)). S m) \<longleftrightarrow> (\<forall>x \<in> set xs. P x \<longrightarrow> S (snd x))"
  by (induction xs) auto

text \<open>The check at an aggregating cell, over the entries of the cohorts that formed.\<close>

lemma checkAggregation_passes:
  assumes "AggregatesEnvelopes (exCell xp)"
    and live: "live = formed (map ffCohort (findFormationFailures xp joined)) joined"
  shows "ckPassed (snd (checkAggregation xp joined)) \<longleftrightarrow>
    (\<forall>x \<in> set live. (\<exists>y \<in> set live. Cohort (fst y) = Cohort (fst x) \<and> jEnvelopeID (snd y) \<noteq> 0)
      \<and> (\<forall>y \<in> set live.
          (jEnvelopeID (snd x) \<noteq> 0 \<and> jEnvelopeID (snd y) \<noteq> 0 \<longrightarrow>
             (jEnvelopeID (snd x) = jEnvelopeID (snd y)) = (Cohort (fst x) = Cohort (fst y)))
          \<and> (Cohort (fst x) = Cohort (fst y) \<longrightarrow>
             (\<forall>s \<in> set (mask_Stages EnvelopeStages). snd (joinedStage (snd x) s) \<and> snd (joinedStage (snd y) s)
                \<longrightarrow> fst (joinedStage (snd x) s) = fst (joinedStage (snd y) s)))))"
proof -
  let ?agree = "\<lambda>x y. \<forall>s \<in> set (mask_Stages EnvelopeStages). snd (joinedStage (snd x) s) \<and> snd (joinedStage (snd y) s)
      \<longrightarrow> fst (joinedStage (snd x) s) = fst (joinedStage (snd y) s)"
  let ?g = "group_by (\<lambda>(req, j). Cohort req) snd live"
  have g: "concat (map (\<lambda>c. cohortEnvelopeDefects c (group_get ?g c)) (sort (map fst ?g))) = [] \<longleftrightarrow>
      (\<forall>x \<in> set live. cohortEnvelopeDefects (Cohort (fst x))
       (map snd (filter (\<lambda>y. Cohort (fst y) = Cohort (fst x)) live)) = [])"
    unfolding groups_check by (simp add: case_prod_unfold)
  have "ckPassed (snd (checkAggregation xp joined)) \<longleftrightarrow>
      (\<forall>x \<in> set live. cohortEnvelopeDefects (Cohort (fst x))
         (map snd (filter (\<lambda>y. Cohort (fst y) = Cohort (fst x)) live)) = [])
      \<and> (\<forall>(r, m) \<in> set live. \<forall>(q, n) \<in> set live.
           jEnvelopeID m \<noteq> 0 \<and> jEnvelopeID m = jEnvelopeID n \<longrightarrow> Cohort r = Cohort q)"
    using assms(1) by (simp only: checkAggregation_def Let_def FailedCohorts_def AggregationReport.simps
        not_True_eq_False if_False snd_conv check_fields append_is_Nil_conv live [symmetric] g
        envelopeOwners_Nil)
  also have "\<dots> \<longleftrightarrow> (\<forall>x \<in> set live. (\<exists>y \<in> set live. Cohort (fst y) = Cohort (fst x) \<and> jEnvelopeID (snd y) \<noteq> 0)
        \<and> (\<forall>y \<in> set live. Cohort (fst y) = Cohort (fst x) \<longrightarrow>
             (\<forall>z \<in> set live. Cohort (fst z) = Cohort (fst x) \<longrightarrow>
            (jEnvelopeID (snd y) \<noteq> 0 \<and> jEnvelopeID (snd z) \<noteq> 0 \<longrightarrow> jEnvelopeID (snd y) = jEnvelopeID (snd z))
            \<and> ?agree y z)))
      \<and> (\<forall>x \<in> set live. \<forall>y \<in> set live.
           jEnvelopeID (snd x) \<noteq> 0 \<and> jEnvelopeID (snd x) = jEnvelopeID (snd y) \<longrightarrow> Cohort (fst x) = Cohort (fst y))"
    unfolding cohortEnvelopeDefects_Nil members_where case_prod_unfold ..
  finally show ?thesis by (simp only: one_to_one)
qed

text \<open>
  Aggregation is a one-to-one correspondence: a cell that does not aggregate passes, and
  at an aggregating cell the check passes exactly when, among the members of the cohorts that
  formed, each cohort has a member that reports an envelope, two members that report envelopes
  report the same one if and only if they are of the same cohort, and two members of a cohort
  that both carry a stage describing the envelope (seal, proxy send, adapter receive, adapter
  send, proxy response) carry the same instant of it.
\<close>

theorem checkAggregation_accepts:
  "ckPassed (snd (checkAggregation xp (Join records))) =
     (if AggregatesEnvelopes (exCell xp)
      then (let live = formed (map ffCohort (findFormationFailures xp (Join records))) (Join records) in
        list_all (\<lambda>(r, m).
          list_ex (\<lambda>(q, n). Cohort q = Cohort r \<and> jEnvelopeID n \<noteq> 0) live
          \<and> list_all (\<lambda>(q, n).
              (if jEnvelopeID m \<noteq> 0 \<and> jEnvelopeID n \<noteq> 0
               then (jEnvelopeID m = jEnvelopeID n) = (Cohort r = Cohort q) else True)
              \<and> (if Cohort r = Cohort q
                 then list_all (\<lambda>s. if snd (joinedStage m s) \<and> snd (joinedStage n s)
                     then fst (joinedStage m s) = fst (joinedStage n s) else True)
                   [StageCohortSeal, StageProxySend, StageAdapterRecv, StageAdapterSend, StageProxyRespRecv]
                 else True)) live) live)
      else True)"
proof (cases "AggregatesEnvelopes (exCell xp)")
  case True
  have stages: "set (mask_Stages EnvelopeStages)
      = {StageCohortSeal, StageProxySend, StageAdapterRecv, StageAdapterSend, StageProxyRespRecv}"
    by code_simp
  show ?thesis
    unfolding checkAggregation_passes [OF True refl]
    using True by (simp only: if_True Let_def list_all_iff list_ex_iff case_prod_unfold if_imp stages list.set simp_thms)
qed (simp add: checkAggregation_def)

text \<open>
  The account counts every member of a cohort, those that report no envelope included: here one
  of two members reports an envelope, the account says two members and the check passes.
\<close>

lemma member_without_envelope_counted:
  "let d = \<lambda>ord. stamped EmitterProxy 4 ord [(StageProxyRecv, 10), (StageCohortSeal, 20)];
       (report, check) = checkAggregation (sampleExpectation CellF10)
         (Join [d 0, (d 1)\<lparr>dRecord := (dRecord (d 1))\<lparr>rEnvelopeID := 7\<rparr>\<rparr>])
   in ckPassed check \<and> agCohorts report = [\<lparr>evCohort = 4, evEnvelopes = 1, evMembers = 2\<rparr>]"
  by code_simp

end
