(* ===== verification/Conservation.thy ===== *)
theory Conservation
  imports RunChecks
begin

text \<open>
  \<^verbatim>\<open>internal/validate/conservation.go\<close>: where the time of every request, and of every cohort,
  went. Durations are Go's int64 differences; fractions are binary64 quotients. The map of a
  decomposition's stages is an association list in the order of the chain.
\<close>

record RequestConservation =
  rcRequest :: LogicalRequest
  rcEndToEndNanos :: int64
  rcAccountedNanos :: int64
  rcUnaccountedNanos :: int64
  rcResidualNanos :: int64
  rcResidualFraction :: rat
  rcStages :: "(string \<times> int64) list"

record StageSummary =
  ssName :: string
  ssCount :: nat
  ssTotalNanos :: int64
  ssMinNanos :: int64
  ssMaxNanos :: int64
  ssMedianNanos :: int64

record CohortConservation =
  ccCohort :: CohortID
  ccMakespanNanos :: int64
  ccCoveredNanos :: int64
  ccUncoveredNanos :: int64
  ccUncoveredFrac :: rat
  ccSumOfSpansNanos :: int64
  ccStages :: "(string \<times> int64) list"
  ccAccountedNanos :: int64
  ccUnaccountedNanos :: int64
  ccResidualNanos :: int64
  ccResidualFraction :: rat
  ccFormationWaitNanos :: int64

record ConservationReport =
  crCell :: Cell
  crAdditive :: bool
  crRequests :: "RequestConservation list"
  crStages :: "StageSummary list"
  crCohorts :: "CohortConservation list"
  crMaxAbsResidualNanos :: int64
  crMaxAbsResidualFraction :: rat
  crToleranceFraction :: rat
  crMaxUncoveredMakespanFrac :: rat

definition abs64 :: "int64 \<Rightarrow> int64" where
  "abs64 v = (if v <s 0 then - v else v)"

text \<open>Where \<^verbatim>\<open>b > 0\<close>, the signed share of a in b; 0, the field's zero value, elsewhere.\<close>

definition fractionOf :: "int64 \<Rightarrow> int64 \<Rightarrow> rat" where
  "fractionOf a b = (if 0 <s b then f64_div (f64_of_int64 a) (f64_of_int64 b) else 0)"

definition gateOnMembers :: "Cell \<Rightarrow> bool" where
  "gateOnMembers cell \<longleftrightarrow> \<not> AggregatesEnvelopes cell"

section \<open>A request's decomposition\<close>

text \<open>One span of the chain: the account so far, the run's samples, and whether the path is complete.\<close>

definition measureSpan :: "Span list \<Rightarrow> Joined
    \<Rightarrow> RequestConservation \<times> (string \<times> int64 list) list \<times> bool \<Rightarrow> nat \<times> Span
    \<Rightarrow> RequestConservation \<times> (string \<times> int64 list) list \<times> bool" where
  "measureSpan spans j = (\<lambda>(rc, samples, complete) (i, sp).
     let (a, okA) = joinedStage j (spStart sp); (b, okB) = joinedStage j (spEnd sp) in
     if \<not> okA \<or> \<not> okB then (rc, samples, False)
     else
       let d = b - a;
           rc = rc\<lparr>rcStages := AList.update (spName sp) d (rcStages rc)\<rparr>;
           samples = group_append (spName sp) d samples
       in if PreCycle spans i then (rc, samples, complete)
          else if spAccounted sp
          then (rc\<lparr>rcAccountedNanos := rcAccountedNanos rc + d\<rparr>, samples, complete)
          else (rc\<lparr>rcUnaccountedNanos := rcUnaccountedNanos rc + d\<rparr>, samples, complete))"

definition measureRequest :: "Span list \<Rightarrow> LogicalRequest \<Rightarrow> Joined \<Rightarrow> (string \<times> int64 list) list
    \<Rightarrow> RequestConservation \<times> (string \<times> int64 list) list \<times> bool" where
  "measureRequest spans req j samples =
     foldl (measureSpan spans j)
       (\<lparr>rcRequest = req,
         rcEndToEndNanos = fst (joinedStage j (snd ConservedSpan)) - fst (joinedStage j (fst ConservedSpan)),
         rcAccountedNanos = 0, rcUnaccountedNanos = 0, rcResidualNanos = 0, rcResidualFraction = 0,
         rcStages = []\<rparr>, samples, True)
       (zip [0 ..< length spans] spans)"

text \<open>One request: the report, the samples and the defects so far.\<close>

definition conserveRequest :: "RunExpectation \<Rightarrow> Span list
    \<Rightarrow> ConservationReport \<times> (string \<times> int64 list) list \<times> Defect list \<Rightarrow> LogicalRequest \<times> Joined
    \<Rightarrow> ConservationReport \<times> (string \<times> int64 list) list \<times> Defect list" where
  "conserveRequest xp spans = (\<lambda>(report, samples, defects) (req, j).
     if \<not> snd (joinedStage j (fst ConservedSpan)) \<or> \<not> snd (joinedStage j (snd ConservedSpan))
     then (report, samples, defects)
     else
       let (rc, samples, complete) = measureRequest spans req j samples in
       if \<not> complete then (report, samples, defects)
       else
         let residual = rcEndToEndNanos rc - rcAccountedNanos rc;
             fraction = fractionOf residual (rcEndToEndNanos rc);
             rc = rc\<lparr>rcResidualNanos := residual, rcResidualFraction := fraction\<rparr>;
             report = report\<lparr>crRequests := crRequests report @ [rc]\<rparr>;
             report = (if crMaxAbsResidualNanos report <s abs64 residual
                       then report\<lparr>crMaxAbsResidualNanos := abs64 residual\<rparr> else report);
             report = (if crMaxAbsResidualFraction report < absF fraction
                       then report\<lparr>crMaxAbsResidualFraction := absF fraction\<rparr> else report)
         in (report, samples,
             if gateOnMembers (exCell xp) \<and> exToleranceFraction xp < absF fraction
             then defects @ [requestDefect DefectConservation req] else defects))"

definition summarizeSpan :: "(string \<times> int64 list) list \<Rightarrow> Span \<Rightarrow> StageSummary" where
  "summarizeSpan samples sp =
     (let values = group_get samples (spName sp) in
      if length values = 0
      then \<lparr>ssName = spName sp, ssCount = 0, ssTotalNanos = 0, ssMinNanos = 0, ssMaxNanos = 0, ssMedianNanos = 0\<rparr>
      else
        let sorted = sort_key sint values in
        \<lparr>ssName = spName sp, ssCount = length sorted, ssTotalNanos = sum_list sorted,
         ssMinNanos = sorted ! 0, ssMaxNanos = sorted ! (length sorted - 1),
         ssMedianNanos = sorted ! (length sorted div 2)\<rparr>)"

definition summarize :: "Span list \<Rightarrow> (string \<times> int64 list) list \<Rightarrow> StageSummary list" where
  "summarize spans samples = map (summarizeSpan samples) spans"

definition reportStageSummary :: "ConservationReport \<Rightarrow> string \<Rightarrow> StageSummary option" where
  "reportStageSummary r name = find (\<lambda>s. ssName s = name) (crStages r)"

section \<open>A cohort's intervals\<close>

text \<open>
  The union of intervals sorted by start: what is covered so far and the current run. Ties on
  the start may be visited in either order; the union is the same.
\<close>

definition coverStep :: "int64 \<times> int64 \<times> int64 \<Rightarrow> int64 \<times> int64 \<Rightarrow> int64 \<times> int64 \<times> int64" where
  "coverStep = (\<lambda>(covered, curStart, curEnd) (start, finish).
     if curEnd <s start then (covered + (curEnd - curStart), start, finish)
     else if curEnd <s finish then (covered, curStart, finish) else (covered, curStart, curEnd))"

definition coveredNanos :: "(int64 \<times> int64) list \<Rightarrow> int64" where
  "coveredNanos spans =
     (let (covered, curStart, curEnd) = foldl coverStep (0, fst (spans ! 0), snd (spans ! 0)) (drop 1 spans)
      in covered + (curEnd - curStart))"

definition cohortIntervals :: "joined_map \<Rightarrow> (CohortID \<times> (int64 \<times> int64) list) list" where
  "cohortIntervals joined = group_by (\<lambda>(req, j). Cohort req)
     (\<lambda>(req, j). (fst (joinedStage j (fst ConservedSpan)), fst (joinedStage j (snd ConservedSpan))))
     (filter (\<lambda>(req, j). snd (joinedStage j (fst ConservedSpan)) \<and> snd (joinedStage j (snd ConservedSpan))
        \<and> \<not> fst (joinedStage j (snd ConservedSpan)) <s fst (joinedStage j (fst ConservedSpan))) (entries joined))"

definition coverCohort :: "CohortID \<Rightarrow> (int64 \<times> int64) list \<Rightarrow> CohortConservation" where
  "coverCohort cohort unsorted =
     (let spans = sort_key (\<lambda>(start, finish). sint start) unsorted;
          makespanEnd = foldl (\<lambda>e (start, finish). if e <s finish then finish else e) (snd (spans ! 0)) spans;
          makespan = makespanEnd - fst (spans ! 0);
          covered = coveredNanos spans
      in \<lparr>ccCohort = cohort, ccMakespanNanos = makespan, ccCoveredNanos = covered,
          ccUncoveredNanos = makespan - covered, ccUncoveredFrac = fractionOf (makespan - covered) makespan,
          ccSumOfSpansNanos = sum_list (map (\<lambda>(start, finish). finish - start) spans),
          ccStages = [], ccAccountedNanos = 0, ccUnaccountedNanos = 0, ccResidualNanos = 0,
          ccResidualFraction = 0, ccFormationWaitNanos = 0\<rparr>)"

definition cohortCoverage :: "joined_map \<Rightarrow> CohortConservation list" where
  "cohortCoverage joined =
     (let byCohort = cohortIntervals joined in
      map (\<lambda>c. coverCohort c (group_get byCohort c)) (sort (map fst byCohort)))"

section \<open>A cohort's decomposition\<close>

definition pacedByLastMember :: "Stage \<Rightarrow> bool" where
  "pacedByLastMember s \<longleftrightarrow> s \<in> set [StageComputeEnd, StageAdapterResult, StageAdapterSend,
     StageProxyRespRecv, StageProxyFanout, StageClientRecv]"

definition instantStep :: "Stage \<Rightarrow> int64 \<times> bool \<Rightarrow> Joined \<Rightarrow> int64 \<times> bool" where
  "instantStep stage = (\<lambda>(value, seen) m.
     let (v, ok) = joinedStage m stage in
     if \<not> ok then (value, seen)
     else if \<not> seen then (v, True)
     else if pacedByLastMember stage \<and> value <s v then (v, seen)
     else if \<not> pacedByLastMember stage \<and> v <s value then (v, seen)
     else (value, seen))"

definition cohortInstants :: "Joined list \<Rightarrow> (Stage \<times> int64) list option" where
  "cohortInstants members =
     (if length members = 0 then None
      else Some (List.map_filter (\<lambda>stage.
        let (value, seen) = foldl (instantStep stage) (0, False) members
        in if seen then Some (stage, value) else None) AllStages))"

definition decomposeSpan :: "Span list \<Rightarrow> (Stage \<times> int64) list \<Rightarrow> CohortConservation \<Rightarrow> nat \<times> Span
    \<Rightarrow> CohortConservation" where
  "decomposeSpan spans instants c = (\<lambda>(i, sp).
     case (map_of instants (spStart sp), map_of instants (spEnd sp)) of
       (Some start, Some finish) \<Rightarrow>
         let d = finish - start;
             c = c\<lparr>ccStages := AList.update (spName sp) d (ccStages c)\<rparr>;
             c = (if spName sp = StageWForm then c\<lparr>ccFormationWaitNanos := d\<rparr> else c)
         in if PreCycle spans i then c
            else if spAccounted sp then c\<lparr>ccAccountedNanos := ccAccountedNanos c + d\<rparr>
            else c\<lparr>ccUnaccountedNanos := ccUnaccountedNanos c + d\<rparr>
     | _ \<Rightarrow> c)"

definition decomposeCohort :: "Span list \<Rightarrow> Joined list \<Rightarrow> CohortConservation \<Rightarrow> CohortConservation" where
  "decomposeCohort spans members c =
     (case cohortInstants members of None \<Rightarrow> c
      | Some instants \<Rightarrow>
          let c = foldl (decomposeSpan spans instants) (c\<lparr>ccStages := []\<rparr>) (zip [0 ..< length spans] spans);
              residual = ccMakespanNanos c - ccAccountedNanos c;
              c = c\<lparr>ccResidualNanos := residual\<rparr>
          in if 0 <s ccMakespanNanos c
             then c\<lparr>ccResidualFraction := fractionOf residual (ccMakespanNanos c)\<rparr> else c)"

definition cohortMembers :: "joined_map \<Rightarrow> CohortID \<Rightarrow> Joined list" where
  "cohortMembers joined = group_get (group_by (\<lambda>(req, j). Cohort req) snd (entries joined))"

definition decomposeCohorts :: "joined_map \<Rightarrow> Span list \<Rightarrow> CohortConservation list \<Rightarrow> CohortConservation list" where
  "decomposeCohorts joined spans cohorts =
     map (\<lambda>c. decomposeCohort spans (cohortMembers joined (ccCohort c)) c) cohorts"

section \<open>The check\<close>

definition checkConservation :: "RunExpectation \<Rightarrow> joined_map \<Rightarrow> ConservationReport \<times> Check" where
  "checkConservation xp joined =
     (let report = \<lparr>crCell = exCell xp, crAdditive = AdditiveConservation (exCell xp), crRequests = [],
            crStages = [], crCohorts = [], crMaxAbsResidualNanos = 0, crMaxAbsResidualFraction = 0,
            crToleranceFraction = exToleranceFraction xp, crMaxUncoveredMakespanFrac = 0\<rparr>
      in case Chain (exCell xp) of Inl _ \<Rightarrow> (report, refused ''conservation'')
         | Inr spans \<Rightarrow>
             let (report, samples, defects) = foldl (conserveRequest xp spans) (report, [], []) (entries joined);
                 report = report\<lparr>crStages := summarize spans samples, crCohorts := cohortCoverage joined\<rparr>;
                 report = report\<lparr>crMaxUncoveredMakespanFrac :=
                   foldl (\<lambda>m c. if m < ccUncoveredFrac c then ccUncoveredFrac c else m) 0 (crCohorts report)\<rparr>
             in if gateOnMembers (exCell xp) then (report, fail ''conservation'' defects)
                else
                  let cohorts = decomposeCohorts joined spans (crCohorts report)
                  in (report\<lparr>crCohorts := cohorts\<rparr>,
                      fail ''conservation'' (defects @ concat (map (\<lambda>c.
                        if exToleranceFraction xp < absF (ccResidualFraction c)
                        then [runDefect DefectConservation] else []) cohorts))))"

section \<open>The decomposition telescopes\<close>

definition carriesSpan :: "Joined \<Rightarrow> Span \<Rightarrow> bool" where
  "carriesSpan j sp \<longleftrightarrow> snd (joinedStage j (spStart sp)) \<and> snd (joinedStage j (spEnd sp))"

definition spanNanos :: "Joined \<Rightarrow> Span \<Rightarrow> int64" where
  "spanNanos j sp = fst (joinedStage j (spEnd sp)) - fst (joinedStage j (spStart sp))"

text \<open>The time a chain does not name: the unaccounted spans from the client send on.\<close>

definition unnamedNanos :: "Span list \<Rightarrow> Joined \<Rightarrow> int64" where
  "unnamedNanos spans j = sum_list (map (\<lambda>(i, sp). if PreCycle spans i \<or> spAccounted sp then 0 else spanNanos j sp)
     (zip [0 ..< length spans] spans))"

lemma measureSpan_step:
  "rcEndToEndNanos (fst (measureSpan spans j st p)) = rcEndToEndNanos (fst st)"
  "rcAccountedNanos (fst (measureSpan spans j st p)) = rcAccountedNanos (fst st)
     + (if carriesSpan j (snd p) \<and> \<not> PreCycle spans (fst p) \<and> spAccounted (snd p) then spanNanos j (snd p) else 0)"
  "snd (snd (measureSpan spans j st p)) \<longleftrightarrow> snd (snd st) \<and> carriesSpan j (snd p)"
  by (cases st; cases p; simp add: measureSpan_def Let_def split_beta carriesSpan_def spanNanos_def)+

lemma measureSpans:
  "rcEndToEndNanos (fst (foldl (measureSpan spans j) st ps)) = rcEndToEndNanos (fst st)"
  "rcAccountedNanos (fst (foldl (measureSpan spans j) st ps)) = rcAccountedNanos (fst st)
     + sum_list (map (\<lambda>p. if carriesSpan j (snd p) \<and> \<not> PreCycle spans (fst p) \<and> spAccounted (snd p)
         then spanNanos j (snd p) else 0) ps)"
  "snd (snd (foldl (measureSpan spans j) st ps)) \<longleftrightarrow> snd (snd st) \<and> list_all (\<lambda>p. carriesSpan j (snd p)) ps"
  by (induction ps arbitrary: st) (simp_all add: measureSpan_step add.assoc)

text \<open>From the client send to the client's receive the spans of every chain add up to the path.\<close>

lemma Chain_telescopes:
  fixes f :: "Stage \<Rightarrow> int64"
  assumes "Chain c = Inr spans"
  shows "sum_list (map (\<lambda>(i, sp). if PreCycle spans i then 0 else f (spEnd sp) - f (spStart sp))
      (zip [0 ..< length spans] spans)) = f StageClientRecv - f StageClientSend"
proof -
  have "c \<in> set AllCells" using assms Chain_Inl_iff by force
  then have "case Chain c of Inl _ \<Rightarrow> False | Inr ss \<Rightarrow>
      sum_list (map (\<lambda>(i, sp). if PreCycle ss i then 0 else f (spEnd sp) - f (spStart sp)) (zip [0 ..< length ss] ss))
        = f StageClientRecv - f StageClientSend"
    by (cases rule: cell_cases) (auto simp: Chain_def sharedPathTail_def PreCycle_def ConservedSpan_def upt_rec)
  with assms show ?thesis by simp
qed

lemma measureRequest_residual:
  assumes "Chain c = Inr spans" and "measureRequest spans req j samples = (rc, samples', whole)"
  shows "whole \<longleftrightarrow> list_all (carriesSpan j) spans"
    and "rcEndToEndNanos rc = fst (joinedStage j StageClientRecv) - fst (joinedStage j StageClientSend)"
    and "whole \<Longrightarrow> rcEndToEndNanos rc - rcAccountedNanos rc = unnamedNanos spans j"
proof -
  let ?ps = "zip [0 ..< length spans] spans"
  have snds: "list_all (\<lambda>p. carriesSpan j (snd p)) ?ps \<longleftrightarrow> list_all (carriesSpan j) spans"
    by (simp add: list_all_length)
  let ?st = "(\<lparr>rcRequest = req,
         rcEndToEndNanos = fst (joinedStage j (snd ConservedSpan)) - fst (joinedStage j (fst ConservedSpan)),
         rcAccountedNanos = 0, rcUnaccountedNanos = 0, rcResidualNanos = 0, rcResidualFraction = 0,
         rcStages = []\<rparr>, samples, True)"
  have f: "foldl (measureSpan spans j) ?st ?ps = (rc, samples', whole)"
    using assms(2) by (simp only: measureRequest_def)
  note m = measureSpans [of spans j ?st ?ps, unfolded f fst_conv snd_conv RequestConservation.select_convs]
  show comp: "whole \<longleftrightarrow> list_all (carriesSpan j) spans" using m(3) snds by simp
  show e: "rcEndToEndNanos rc = fst (joinedStage j StageClientRecv) - fst (joinedStage j StageClientSend)"
    using m(1) by (simp only: ConservedSpan_def fst_conv snd_conv)
  assume whole
  then have all: "\<forall>p \<in> set ?ps. carriesSpan j (snd p)" using comp snds by (simp add: list_all_iff)
  have acc: "rcAccountedNanos rc = sum_list (map (\<lambda>p. if carriesSpan j (snd p) \<and> \<not> PreCycle spans (fst p) \<and> spAccounted (snd p)
         then spanNanos j (snd p) else 0) ?ps)"
    using m(2) by (simp only: add_0)
  have part: "sum_list (map (\<lambda>p. if carriesSpan j (snd p) \<and> \<not> PreCycle spans (fst p) \<and> spAccounted (snd p)
         then spanNanos j (snd p) else 0) ps)
      + sum_list (map (\<lambda>(i, sp). if PreCycle spans i \<or> spAccounted sp then 0 else spanNanos j sp) ps)
      = sum_list (map (\<lambda>(i, sp). if PreCycle spans i then 0 else spanNanos j sp) ps)"
    if "\<forall>p \<in> set ps. carriesSpan j (snd p)" for ps
    using that by (induction ps) auto
  have "rcAccountedNanos rc + unnamedNanos spans j = rcEndToEndNanos rc"
    unfolding acc e unnamedNanos_def part [OF all] unfolding spanNanos_def
    by (rule Chain_telescopes [OF assms(1)])
  then show "rcEndToEndNanos rc - rcAccountedNanos rc = unnamedNanos spans j"
    by (metis add_diff_cancel_left')
qed

section \<open>What gates a run\<close>

lemma ChainStages_ends:
  assumes "Chain c = Inr spans"
  shows "set (ChainStages spans) = spStart ` set spans \<union> spEnd ` set spans"
    and "StageClientSend \<in> set (ChainStages spans)" and "StageClientRecv \<in> set (ChainStages spans)"
proof -
  have con: "consecutive spans" "spans \<noteq> []" using Chain_consecutive [OF assms] by simp_all
  then have "map spStart spans = spStart (hd spans) # map spEnd (butlast spans)"
    unfolding consecutive_def by (cases spans) simp_all
  then have "set (map spStart spans) = insert (spStart (hd spans)) (set (map spEnd (butlast spans)))"
    by (metis list.simps(15))
  then have "spStart ` set spans = insert (spStart (hd spans)) (spEnd ` set (butlast spans))" by simp
  then show "set (ChainStages spans) = spStart ` set spans \<union> spEnd ` set spans"
    using con(2) by (auto simp: ChainStages_def hd_conv_nth dest: in_set_butlastD)
  have "c \<in> set AllCells" using assms Chain_Inl_iff by force
  then have "case Chain c of Inl _ \<Rightarrow> False | Inr ss \<Rightarrow>
      StageClientSend \<in> set (ChainStages ss) \<and> StageClientRecv \<in> set (ChainStages ss)"
    by (cases rule: cell_cases) (auto simp: Chain_def sharedPathTail_def ChainStages_def)
  with assms show "StageClientSend \<in> set (ChainStages spans)" "StageClientRecv \<in> set (ChainStages spans)"
    by simp_all
qed

lemma carries_chain:
  assumes "Chain c = Inr spans"
  shows "list_all (\<lambda>s. snd (joinedStage j s)) (ChainStages spans) \<longleftrightarrow> list_all (carriesSpan j) spans"
    and "list_all (carriesSpan j) spans \<Longrightarrow>
      snd (joinedStage j StageClientSend) \<and> snd (joinedStage j StageClientRecv)"
proof -
  show eq: "list_all (\<lambda>s. snd (joinedStage j s)) (ChainStages spans) \<longleftrightarrow> list_all (carriesSpan j) spans"
    unfolding list_all_iff ChainStages_ends(1) [OF assms] carriesSpan_def by blast
  show "list_all (carriesSpan j) spans \<Longrightarrow> snd (joinedStage j StageClientSend) \<and> snd (joinedStage j StageClientRecv)"
    using eq ChainStages_ends(2,3) [OF assms] by (simp add: list_all_iff)
qed

lemma conserveRequest_step:
  assumes "Chain c = Inr spans"
  shows "snd (snd (conserveRequest xp spans st (req, j))) = snd (snd st)
    @ (if list_all (carriesSpan j) spans \<and> gateOnMembers (exCell xp)
         \<and> exToleranceFraction xp < absF (fractionOf (unnamedNanos spans j)
             (fst (joinedStage j StageClientRecv) - fst (joinedStage j StageClientSend)))
       then [requestDefect DefectConservation req] else [])"
proof -
  obtain report samples defects where st: "st = (report, samples, defects)" by (cases st)
  obtain rc samples' whole where m: "measureRequest spans req j samples = (rc, samples', whole)"
    by (metis prod_cases3)
  note r = measureRequest_residual [OF assms m]
  show ?thesis
  proof (cases "list_all (carriesSpan j) spans")
    case True
    then have w: whole using r(1) by simp
    have e: "snd (joinedStage j (fst ConservedSpan))" "snd (joinedStage j (snd ConservedSpan))"
      using carries_chain(2) [OF assms True] by (simp_all add: ConservedSpan_def)
    show ?thesis
      unfolding conserveRequest_def st prod.case m Let_def using True w e r(3) [OF w] by (simp add: r(2))
  next
    case False
    then have "\<not> whole" using r(1) by simp
    then show ?thesis unfolding conserveRequest_def st prod.case m Let_def using False by simp
  qed
qed

lemma conserveRequests_defects:
  assumes "Chain c = Inr spans"
  shows "snd (snd (foldl (conserveRequest xp spans) st xs)) = [] \<longleftrightarrow> snd (snd st) = []
    \<and> list_all (\<lambda>(req, j). if list_all (carriesSpan j) spans \<and> gateOnMembers (exCell xp)
        then \<bar>fractionOf (unnamedNanos spans j) (fst (joinedStage j StageClientRecv) - fst (joinedStage j StageClientSend))\<bar>
               \<le> exToleranceFraction xp else True) xs"
proof (induction xs arbitrary: st)
  case (Cons x xs)
  obtain req j where x: "x = (req, j)" by (cases x)
  show ?case
    unfolding foldl_Cons Cons.IH x conserveRequest_step [OF assms] by (auto simp: absF_abs not_less)
qed simp

text \<open>
  What conservation gates: a cell without a chain fails; where members are not aggregated,
  a run passes exactly when every request that carries the whole chain spent at most the
  tolerated share of its path, client send to client receive, outside the stages the cycle
  model names (the unaccounted spans, summed); where they are, exactly when every cohort's
  reported residual is within the tolerance. Quotients are binary64.
\<close>

theorem checkConservation_accepts:
  "ckPassed (snd (checkConservation xp (Join records))) \<longleftrightarrow>
     (case Chain (exCell xp) of Inl _ \<Rightarrow> False
      | Inr spans \<Rightarrow>
          if AggregatesEnvelopes (exCell xp)
          then list_all (\<lambda>c. \<bar>ccResidualFraction c\<bar> \<le> exToleranceFraction xp)
                 (crCohorts (fst (checkConservation xp (Join records))))
          else list_all (\<lambda>(req, j).
                 if list_all (\<lambda>s. snd (joinedStage j s)) (ChainStages spans)
                 then \<bar>fractionOf (unnamedNanos spans j)
                        (fst (joinedStage j StageClientRecv) - fst (joinedStage j StageClientSend))\<bar>
                      \<le> exToleranceFraction xp
                 else True) (Join records))"
proof (cases "Chain (exCell xp)")
  case (Inl e)
  then show ?thesis by (simp add: checkConservation_def)
next
  case (Inr spans)
  define r0 where "r0 = \<lparr>crCell = exCell xp, crAdditive = AdditiveConservation (exCell xp), crRequests = [],
            crStages = [], crCohorts = [], crMaxAbsResidualNanos = 0, crMaxAbsResidualFraction = 0,
            crToleranceFraction = exToleranceFraction xp, crMaxUncoveredMakespanFrac = 0\<rparr>"
  obtain report samples defects where f:
    "foldl (conserveRequest xp spans) (r0, [], []) (entries (Join records)) = (report, samples, defects)"
    by (metis prod_cases3)
  have d: "defects = [] \<longleftrightarrow>
      list_all (\<lambda>(req, j). if list_all (carriesSpan j) spans \<and> gateOnMembers (exCell xp)
        then \<bar>fractionOf (unnamedNanos spans j) (fst (joinedStage j StageClientRecv) - fst (joinedStage j StageClientSend))\<bar>
               \<le> exToleranceFraction xp else True) (Join records)"
    using conserveRequests_defects [OF Inr, of xp "(r0, [], [])" "entries (Join records)"]
    by (simp add: f list_all_iff entries_set [OF distinct_Join])
  have c: "checkConservation xp (Join records) = (let
      report = report\<lparr>crStages := summarize spans samples, crCohorts := cohortCoverage (Join records)\<rparr>;
                 report = report\<lparr>crMaxUncoveredMakespanFrac :=
                   foldl (\<lambda>m c. if m < ccUncoveredFrac c then ccUncoveredFrac c else m) 0 (crCohorts report)\<rparr>
             in if gateOnMembers (exCell xp) then (report, fail ''conservation'' defects)
                else
                  let cohorts = decomposeCohorts (Join records) spans (crCohorts report)
                  in (report\<lparr>crCohorts := cohorts\<rparr>,
                      fail ''conservation'' (defects @ concat (map (\<lambda>c.
                        if exToleranceFraction xp < absF (ccResidualFraction c)
                        then [runDefect DefectConservation] else []) cohorts))))"
    unfolding checkConservation_def Let_def Inr sum.case r0_def [symmetric] f prod.case ..
  show ?thesis
  proof (cases "AggregatesEnvelopes (exCell xp)")
    case True
    have "defects = []" unfolding d using True by (simp add: gateOnMembers_def list_all_iff)
    moreover have gate: "concat (map (\<lambda>c. if exToleranceFraction xp < absF (ccResidualFraction c)
        then [runDefect DefectConservation] else []) cs) = []
        \<longleftrightarrow> list_all (\<lambda>c. \<bar>ccResidualFraction c\<bar> \<le> exToleranceFraction xp) cs" for cs
      unfolding concat_map_Nil by (simp add: absF_abs list_all_iff not_less)
    moreover have "\<not> gateOnMembers (exCell xp)" using True by (simp add: gateOnMembers_def)
    ultimately show ?thesis
      unfolding Inr sum.case c Let_def using True by (simp add: gate del: concat_eq_Nil_conv)
  next
    case False
    then show ?thesis
      unfolding Inr sum.case c carries_chain(1) [OF Inr] using d by (simp add: gateOnMembers_def Let_def)
  qed
qed

section \<open>Covered time is the measure of the union\<close>

text \<open>The instants (whole nanoseconds) a list of intervals covers.\<close>

definition instantsOf :: "(int64 \<times> int64) list \<Rightarrow> int set" where
  "instantsOf spans = (\<Union>(start, finish) \<in> set spans. {sint start ..< sint finish})"

lemma coverSteps:
  assumes "sorted (map (\<lambda>(start, finish). sint start) spans)"
    and "\<forall>(start, finish) \<in> set spans. sint cs \<le> sint start \<and> sint start \<le> sint finish"
    and "0 \<le> sint cs" "sint cs \<le> sint ce"
    and "A \<subseteq> {0 ..< sint cs}" "int (card A) = sint covered"
    and "foldl coverStep (covered, cs, ce) spans = (covered', cs', ce')"
  shows "sint (covered' + (ce' - cs')) = int (card (A \<union> {sint cs ..< sint ce} \<union> instantsOf spans))"
  using assms
proof (induction spans arbitrary: covered cs ce A)
  case Nil
  have fin: "finite A" using Nil.prems(5) finite_subset by blast
  have "card A \<le> card {0 ..< sint cs}" by (rule card_mono) (use Nil.prems(5) in auto)
  then have le: "sint covered \<le> sint cs" using Nil.prems(3,6) by simp
  have d: "sint (ce - cs) = sint ce - sint cs"
    using Nil.prems(3,4) by (intro sint_diff_nonneg) (simp_all add: nonneg64_def)
  have cov: "0 \<le> sint covered" using Nil.prems(6) by linarith
  have "sint (covered + (ce - cs)) = sint covered + (sint ce - sint cs)"
  proof -
    have "signed_take_bit 63 (sint covered + sint (ce - cs)) = sint covered + sint (ce - cs)"
      using cov le d Nil.prems(3,4) sint64_bounds [of ce] by (intro signed_take_bit_int_eq_self) simp_all
    then show ?thesis using d by (simp add: sint_word_ariths(1))
  qed
  moreover have "card (A \<union> {sint cs ..< sint ce}) = card A + card {sint cs ..< sint ce}"
    by (rule card_Un_disjoint) (use fin Nil.prems(5) in auto)
  ultimately show ?case using Nil.prems by (simp add: instantsOf_def)
next
  case (Cons p spans)
  obtain s e where p: "p = (s, e)" by (cases p)
  have srt: "sorted (map (\<lambda>(start, finish). sint start) spans)"
    and after: "\<forall>(start, finish) \<in> set spans. sint s \<le> sint start \<and> sint start \<le> sint finish"
    and se: "sint cs \<le> sint s" "sint s \<le> sint e"
    using Cons.prems(1,2) by (auto simp: p case_prod_unfold)
  have inst: "instantsOf (p # spans) = {sint s ..< sint e} \<union> instantsOf spans"
    by (simp add: instantsOf_def p)
  show ?case
  proof (cases "sint ce < sint s")
    case True
    have fin: "finite A" using Cons.prems(5) finite_subset by blast
    have "card A \<le> card {0 ..< sint cs}" by (rule card_mono) (use Cons.prems(5) in auto)
    then have le: "sint covered \<le> sint cs" using Cons.prems(3,6) by simp
    have sub: "A \<union> {sint cs ..< sint ce} \<subseteq> {0 ..< sint s}" using Cons.prems(3-5) True by auto
    have d: "sint (ce - cs) = sint ce - sint cs"
      using Cons.prems(3,4) by (intro sint_diff_nonneg) (simp_all add: nonneg64_def)
    have cov: "0 \<le> sint covered" using Cons.prems(6) by linarith
    have "signed_take_bit 63 (sint covered + sint (ce - cs)) = sint covered + sint (ce - cs)"
      using cov le d Cons.prems(3,4) sint64_bounds [of ce] by (intro signed_take_bit_int_eq_self) simp_all
    then have "sint (covered + (ce - cs)) = sint covered + (sint ce - sint cs)"
      using d by (simp add: sint_word_ariths(1))
    moreover have "card (A \<union> {sint cs ..< sint ce}) = card A + card {sint cs ..< sint ce}"
      by (rule card_Un_disjoint) (use fin Cons.prems(5) in auto)
    ultimately have c: "int (card (A \<union> {sint cs ..< sint ce})) = sint (covered + (ce - cs))"
      using Cons.prems(4,6) by simp
    have "foldl coverStep (covered + (ce - cs), s, e) spans = (covered', cs', ce')"
      using Cons.prems(7) True by (simp add: p coverStep_def clock_simps)
    then show ?thesis
      using Cons.IH [OF srt after _ se(2) sub c] Cons.prems(3) se(1) by (simp add: inst Un_assoc)
  next
    case False
    let ?ce = "if ce <s e then e else ce"
    have f: "foldl coverStep (covered, cs, ?ce) spans = (covered', cs', ce')"
      using Cons.prems(7) False by (simp add: p coverStep_def clock_simps split: if_splits)
    have "{sint cs ..< sint ce} \<union> {sint s ..< sint e} = {sint cs ..< sint ?ce}"
      using False se Cons.prems(4) by (auto simp: clock_simps)
    moreover have "\<forall>(start, finish) \<in> set spans. sint cs \<le> sint start \<and> sint start \<le> sint finish"
      using Cons.prems(2) by auto
    moreover have "sint cs \<le> sint ?ce" using Cons.prems(4) by (simp add: clock_simps)
    ultimately show ?thesis
      using Cons.IH [OF srt _ Cons.prems(3) _ Cons.prems(5,6) f] by (simp add: inst Un_assoc [symmetric])
         (simp add: Un_assoc)
  qed
qed

lemma coveredNanos_measure:
  assumes "sorted (map (\<lambda>(start, finish). sint start) spans)" and "spans \<noteq> []"
    and "\<forall>(start, finish) \<in> set spans. 0 \<le> sint start \<and> sint start \<le> sint finish"
  shows "sint (coveredNanos spans) = int (card (instantsOf spans))"
proof -
  obtain s e rest where sp: "spans = (s, e) # rest" using assms(2) by (cases spans) auto
  obtain covered cs ce where f: "foldl coverStep (0, s, e) rest = (covered, cs, ce)" by (metis prod_cases3)
  have "sint (covered + (ce - cs)) = int (card ({} \<union> {sint s ..< sint e} \<union> instantsOf rest))"
    using coverSteps [OF _ _ _ _ _ _ f, of "{}"] assms(1,3) by (auto simp: sp split_beta)
  then show ?thesis by (simp add: coveredNanos_def sp f instantsOf_def)
qed

lemma latest_end:
  "sint (foldl (\<lambda>e (start, finish). if e <s finish then finish else e) (e :: int64) spans)
     = Max (insert (sint e) ((\<lambda>(start, finish). sint finish) ` set spans))"
proof (induction spans arbitrary: e)
  case (Cons p spans)
  obtain s f where p: "p = (s, f)" by (cases p)
  let ?S = "(\<lambda>(start, finish). sint finish) ` set spans"
  have drop: "x \<le> y \<Longrightarrow> Max (insert x (insert y ?S)) = Max (insert y ?S)" for x y
  proof -
    assume "x \<le> y"
    moreover have "y \<le> Max (insert y ?S)" by (rule Max_ge) simp_all
    moreover have "Max (insert x (insert y ?S)) = max x (Max (insert y ?S))" by (rule Max_insert) simp_all
    ultimately show ?thesis by linarith
  qed
  show ?case
  proof (cases "sint e < sint f")
    case True
    then show ?thesis using Cons.IH [of f] drop [of "sint e" "sint f"] by (simp add: p clock_simps del: Max_insert)
  next
    case False
    then show ?thesis
      using Cons.IH [of e] drop [of "sint f" "sint e"]
      by (simp add: p clock_simps insert_commute del: Max_insert)
  qed
qed simp

lemma sort_key_first:
  assumes "xs \<noteq> []" and "x \<in> set xs"
  shows "f (sort_key f xs ! 0) \<le> f x"
proof -
  obtain y ys where y: "sort_key f xs = y # ys" using assms(1) by (metis neq_Nil_conv set_empty set_sort)
  moreover have "x \<in> set (sort_key f xs)" using assms(2) by simp
  moreover have "sorted (map f (sort_key f xs))" by simp
  ultimately show ?thesis by auto
qed

lemma coverCohort_spec:
  assumes "spans \<noteq> []" and "\<forall>(start, finish) \<in> set spans. 0 \<le> sint start \<and> sint start \<le> sint finish"
  shows "sint (ccCoveredNanos (coverCohort c spans)) = int (card (instantsOf spans))"
    and "sint (ccMakespanNanos (coverCohort c spans))
           = Max ((\<lambda>(start, finish). sint finish) ` set spans) - Min ((\<lambda>(start, finish). sint start) ` set spans)"
    and "sint (ccUncoveredNanos (coverCohort c spans))
           = sint (ccMakespanNanos (coverCohort c spans)) - sint (ccCoveredNanos (coverCohort c spans))"
    and "sint (ccCoveredNanos (coverCohort c spans)) \<le> sint (ccMakespanNanos (coverCohort c spans))"
proof -
  let ?k = "\<lambda>(start :: int64, finish :: int64). sint start" and ?e = "\<lambda>(start :: int64, finish :: int64). sint finish"
  let ?xs = "sort_key ?k spans"
  have xs: "set ?xs = set spans" by simp
  have ne: "?xs \<noteq> []" using assms(1) xs by (metis set_empty)
  then have "?xs ! 0 \<in> set ?xs" by (metis length_greater_0_conv nth_mem)
  then have hd: "?xs ! 0 \<in> set spans" unfolding xs .
  have srt: "sorted (map ?k ?xs)" by (rule sorted_map_sort_key)
  have pos: "\<forall>(start, finish) \<in> set ?xs. 0 \<le> sint start \<and> sint start \<le> sint finish" using assms(2) by simp
  have first: "sint (fst (?xs ! 0)) = Min (?k ` set spans)"
  proof (rule Min_eqI [symmetric])
    show "sint (fst (?xs ! 0)) \<in> ?k ` set spans" using hd by (force simp: case_prod_unfold)
    fix y assume "y \<in> ?k ` set spans"
    then show "sint (fst (?xs ! 0)) \<le> y" using sort_key_first [OF assms(1), of _ ?k] by (auto simp: case_prod_unfold)
  qed simp
  let ?m = "foldl (\<lambda>e (start, finish). if e <s finish then finish else e) (snd (?xs ! 0)) ?xs"
  have m: "sint ?m = Max (?e ` set spans)"
  proof -
    have "sint (snd (?xs ! 0)) \<in> ?e ` set spans" using hd by (force simp: case_prod_unfold)
    then show ?thesis unfolding latest_end xs by (simp add: insert_absorb)
  qed
  have nn: "nonneg64 (fst (?xs ! 0))" using hd assms(2) by (auto simp: nonneg64_def)
  have lo: "Min (?k ` set spans) \<le> Max (?e ` set spans)"
  proof -
    obtain s f where sf: "(s, f) \<in> set spans" using hd by (metis surj_pair)
    have "Min (?k ` set spans) \<le> sint s" using sf by (intro Min_le) force+
    moreover have "sint f \<le> Max (?e ` set spans)" using sf by (intro Max_ge) force+
    ultimately show ?thesis using sf assms(2) by auto
  qed
  have nm: "nonneg64 ?m" using lo first m nn by (simp add: nonneg64_def)
  show cov: "sint (ccCoveredNanos (coverCohort c spans)) = int (card (instantsOf spans))"
    using coveredNanos_measure [OF srt ne pos] by (simp add: coverCohort_def Let_def instantsOf_def)
  show mk: "sint (ccMakespanNanos (coverCohort c spans)) = Max (?e ` set spans) - Min (?k ` set spans)"
    using sint_diff_nonneg [OF nm nn] m first by (simp add: coverCohort_def Let_def)
  have "instantsOf spans \<subseteq> {Min (?k ` set spans) ..< Max (?e ` set spans)}"
  proof
    fix t assume "t \<in> instantsOf spans"
    then obtain s f where sf: "(s, f) \<in> set spans" "sint s \<le> t" "t < sint f" by (auto simp: instantsOf_def)
    have "Min (?k ` set spans) \<le> sint s" using sf(1) by (intro Min_le) force+
    moreover have "sint f \<le> Max (?e ` set spans)" using sf(1) by (intro Max_ge) force+
    ultimately show "t \<in> {Min (?k ` set spans) ..< Max (?e ` set spans)}" using sf by simp
  qed
  from card_mono [OF _ this] have "int (card (instantsOf spans)) \<le> Max (?e ` set spans) - Min (?k ` set spans)"
    using lo by simp
  then show le: "sint (ccCoveredNanos (coverCohort c spans)) \<le> sint (ccMakespanNanos (coverCohort c spans))"
    unfolding cov mk .
  have "ccUncoveredNanos (coverCohort c spans) = ccMakespanNanos (coverCohort c spans) - ccCoveredNanos (coverCohort c spans)"
    by (simp add: coverCohort_def Let_def)
  then show "sint (ccUncoveredNanos (coverCohort c spans))
      = sint (ccMakespanNanos (coverCohort c spans)) - sint (ccCoveredNanos (coverCohort c spans))"
    using sint_diff_nonneg cov le by (simp add: nonneg64_def)
qed

lemma cohortCoverage_cohort:
  assumes "c \<in> set (cohortCoverage joined)"
  shows "c = coverCohort (ccCohort c) (group_get (cohortIntervals joined) (ccCohort c))"
    and "group_get (cohortIntervals joined) (ccCohort c) \<noteq> []"
proof -
  obtain i where i: "c = coverCohort i (group_get (cohortIntervals joined) i)" "i \<in> set (map fst (cohortIntervals joined))"
    using assms by (auto simp: cohortCoverage_def Let_def)
  have "ccCohort c = i" by (simp add: i(1) coverCohort_def Let_def)
  then show "c = coverCohort (ccCohort c) (group_get (cohortIntervals joined) (ccCohort c))" using i(1) by simp
  have "group_get (cohortIntervals joined) i \<noteq> []"
    using i(2) unfolding cohortIntervals_def keys_group_by group_get_by by (auto simp: filter_empty_conv)
  then show "group_get (cohortIntervals joined) (ccCohort c) \<noteq> []" using \<open>ccCohort c = i\<close> by simp
qed

lemma cohortIntervals_get:
  "group_get (cohortIntervals joined) i = map (\<lambda>(req, j). (fst (joinedStage j StageClientSend), fst (joinedStage j StageClientRecv)))
     (filter (\<lambda>(req, j). Cohort req = i \<and> snd (joinedStage j StageClientSend) \<and> snd (joinedStage j StageClientRecv)
        \<and> sint (fst (joinedStage j StageClientSend)) \<le> sint (fst (joinedStage j StageClientRecv))) (entries joined))"
  by (simp add: cohortIntervals_def group_get_by ConservedSpan_def case_prod_unfold clock_simps not_less conj_ac)



section \<open>A cohort's own decomposition\<close>

lemma instant_fold:
  assumes "foldl (instantStep stage) (0, False) members = (v, seen)"
  shows "(seen \<longleftrightarrow> stampsAt stage members \<noteq> [])
    \<and> (seen \<longrightarrow> sint v = (if pacedByLastMember stage then Max (set (stampsAt stage members))
                  else Min (set (stampsAt stage members))))"
  using assms
proof (induction members arbitrary: v seen rule: rev_induct)
  case Nil
  then show ?case by (simp add: stampsAt_def)
next
  case (snoc m members)
  obtain v0 seen0 where f: "foldl (instantStep stage) (0, False) members = (v0, seen0)" by (metis surj_pair)
  note ih = snoc.IH [OF f]
  have step: "instantStep stage (v0, seen0) m = (v, seen)" using snoc.prems f by simp
  let ?t = "sint (fst (joinedStage m stage))" and ?A = "set (stampsAt stage members)"
  have app: "stampsAt stage (members @ [m]) = stampsAt stage members
      @ (if snd (joinedStage m stage) then [?t] else [])"
    by (simp add: stampsAt_def)
  consider "\<not> snd (joinedStage m stage)" | "snd (joinedStage m stage)" "\<not> seen0"
    | "snd (joinedStage m stage)" seen0 by blast
  then show ?case
  proof cases
    case 1
    then show ?thesis using step ih by (simp add: app instantStep_def split_beta)
  next
    case 2
    then show ?thesis using step ih by (auto simp: app instantStep_def split_beta)
  next
    case 3
    then have ne: "?A \<noteq> {}" and s: "seen" using ih step by (auto simp: instantStep_def split_beta Let_def split: if_splits)
    have "sint v = (if pacedByLastMember stage then max ?t (sint v0) else min ?t (sint v0))"
      using step 3 by (auto simp: instantStep_def split_beta Let_def clock_simps split: if_splits)
    then show ?thesis using ne s ih 3 by (simp add: app)
  qed
qed

lemma map_of_filtered:
  "map_of (List.map_filter (\<lambda>x. if P x then Some (x, g x) else None) xs) s
     = (if s \<in> set xs \<and> P s then Some (g s) else None)"
  by (induction xs) (auto simp: map_filter_simps)

lemma cohortInstants_of:
  assumes "cohortInstants members = Some instants" and "Valid s" and "\<forall>m \<in> set members. snd (joinedStage m s)"
  obtains v where "map_of instants s = Some v"
    and "sint v = (if pacedByLastMember s then Max (set (stampsAt s members)) else Min (set (stampsAt s members)))"
proof -
  let ?f = "\<lambda>s. foldl (instantStep s) (0, False) members"
  have ne: "members \<noteq> []" and i: "instants = List.map_filter (\<lambda>s. if snd (?f s) then Some (s, fst (?f s)) else None) AllStages"
    using assms(1) by (auto simp: cohortInstants_def split_beta split: if_splits)
  have "stampsAt s members \<noteq> []" using ne assms(3) by (cases members) (auto simp: stampsAt_def)
  then have seen: "snd (?f s)" and v: "sint (fst (?f s)) = (if pacedByLastMember s then Max (set (stampsAt s members))
      else Min (set (stampsAt s members)))"
    using instant_fold [of s members, OF prod.collapse [symmetric]] by blast+
  show ?thesis
    using that [OF _ v] seen assms(2) by (simp add: i map_of_filtered Valid_AllStages)
qed

lemma decomposeSpan_step:
  "ccMakespanNanos (decomposeSpan spans instants c p) = ccMakespanNanos c"
  "ccAccountedNanos (decomposeSpan spans instants c p) + ccUnaccountedNanos (decomposeSpan spans instants c p)
     = ccAccountedNanos c + ccUnaccountedNanos c
       + (case (map_of instants (spStart (snd p)), map_of instants (spEnd (snd p))) of
            (Some start, Some finish) \<Rightarrow> if PreCycle spans (fst p) then 0 else finish - start | _ \<Rightarrow> 0)"
  by (cases p; simp add: decomposeSpan_def Let_def split: option.splits)+

lemma decomposeSpans:
  "ccMakespanNanos (foldl (decomposeSpan spans instants) c ps) = ccMakespanNanos c"
  "ccAccountedNanos (foldl (decomposeSpan spans instants) c ps) + ccUnaccountedNanos (foldl (decomposeSpan spans instants) c ps)
     = ccAccountedNanos c + ccUnaccountedNanos c
       + sum_list (map (\<lambda>p. case (map_of instants (spStart (snd p)), map_of instants (spEnd (snd p))) of
            (Some start, Some finish) \<Rightarrow> if PreCycle spans (fst p) then 0 else finish - start | _ \<Rightarrow> 0) ps)"
  by (induction ps arbitrary: c) (simp_all add: decomposeSpan_step add.assoc)

lemma decomposeCohort_id: "ccCohort (decomposeCohort spans members c) = ccCohort c"
proof -
  have "ccCohort (decomposeSpan spans instants d p) = ccCohort d" for instants d p
    by (cases p) (simp add: decomposeSpan_def Let_def split: option.splits)
  then have "ccCohort (foldl (decomposeSpan spans instants) d ps) = ccCohort d" for instants d ps
    by (induction ps arbitrary: d) simp_all
  then show ?thesis by (simp add: decomposeCohort_def Let_def split: option.splits)
qed

lemma checkConservation_cohorts:
  assumes "AggregatesEnvelopes (exCell xp)" and "Chain (exCell xp) = Inr spans"
  shows "crCohorts (fst (checkConservation xp joined)) = decomposeCohorts joined spans (cohortCoverage joined)"
  using assms by (simp add: checkConservation_def Let_def gateOnMembers_def split_beta)

text \<open>The formation wait is the duration of the chain's formation span.\<close>

lemma decomposeSpan_wait:
  "ccFormationWaitNanos (decomposeSpan spans instants c p) =
     (case (map_of instants (spStart (snd p)), map_of instants (spEnd (snd p))) of
        (Some start, Some finish) \<Rightarrow> if spName (snd p) = StageWForm then finish - start else ccFormationWaitNanos c
      | _ \<Rightarrow> ccFormationWaitNanos c)"
  by (cases p) (simp add: decomposeSpan_def Let_def split: option.splits)

lemma aggregating_chain:
  assumes "AggregatesEnvelopes c" and "Chain c = Inr spans"
  shows "spans = [Span StageReleaseToSend StageSched StageClientSend False,
                 Span StageXReqHop1 StageClientSend StageProxyRecv True,
                 Span StageWForm StageProxyRecv StageCohortSeal True,
                 Span StageAPack StageCohortSeal StageProxySend True] @ sharedPathTail"
  using assms by (auto simp: AggregatesEnvelopes_def Chain_def split: if_splits)

lemma decomposeSpans_wait:
  assumes "AggregatesEnvelopes c" and "Chain c = Inr spans"
    and "map_of instants StageProxyRecv = Some r" and "map_of instants StageCohortSeal = Some s"
  shows "ccFormationWaitNanos (foldl (decomposeSpan spans instants) cc (zip [0 ..< length spans] spans)) = s - r"
proof -
  have names: "\<forall>p \<in> set ps. spName (snd p) \<noteq> StageWForm \<Longrightarrow>
      ccFormationWaitNanos (foldl (decomposeSpan spans instants) d ps) = ccFormationWaitNanos d" for d ps
    by (induction ps arbitrary: d) (auto simp: decomposeSpan_wait split: option.splits)
  let ?ps = "zip [0 ..< length spans] spans"
  have len: "2 < length ?ps" and w: "?ps ! 2 = (2, Span StageWForm StageProxyRecv StageCohortSeal True)"
    unfolding aggregating_chain [OF assms(1,2)] by (simp_all add: sharedPathTail_def upt_rec)
  have "\<forall>p \<in> set (drop (Suc 2) ?ps). spName (snd p) \<noteq> StageWForm"
    unfolding aggregating_chain [OF assms(1,2)] by (simp add: sharedPathTail_def upt_rec)
  note rest = names [OF this]
  show ?thesis
    by (subst id_take_nth_drop [OF len])
       (simp only: foldl_append foldl_Cons rest w decomposeSpan_wait assms(3,4) snd_conv Span.sel prod.case
         option.case simp_thms if_True)
qed

lemma cohortMembers_get:
  "cohortMembers joined i = map snd (filter (\<lambda>(req, j). Cohort req = i) (entries joined))"
  by (simp add: cohortMembers_def group_get_by case_prod_unfold)

lemma decomposeCohort_whole:
  assumes "AggregatesEnvelopes cell" and "Chain cell = Inr spans" and "members \<noteq> []"
    and all: "\<forall>m \<in> set members. list_all (\<lambda>s. snd (joinedStage m s) \<and> 0 \<le> sint (fst (joinedStage m s))) (ChainStages spans)"
    and mk: "sint (ccMakespanNanos c) = Max (set (stampsAt StageClientRecv members)) - Min (set (stampsAt StageClientSend members))"
    and zero: "ccAccountedNanos c = 0" "ccUnaccountedNanos c = 0"
  shows "ccMakespanNanos (decomposeCohort spans members c) = ccAccountedNanos (decomposeCohort spans members c)
          + ccUnaccountedNanos (decomposeCohort spans members c)"
    and "ccResidualNanos (decomposeCohort spans members c) = ccUnaccountedNanos (decomposeCohort spans members c)"
    and "sint (ccFormationWaitNanos (decomposeCohort spans members c))
          = Min (set (stampsAt StageCohortSeal members)) - Min (set (stampsAt StageProxyRecv members))"
proof -
  let ?ps = "zip [0 ..< length spans] spans"
  obtain instants where ins: "cohortInstants members = Some instants"
    using assms(3) by (simp add: cohortInstants_def)
  have carried: "snd (joinedStage m s) \<and> 0 \<le> sint (fst (joinedStage m s))" if "m \<in> set members" "s \<in> set (ChainStages spans)" for m s
    using all that by (auto simp: list_all_iff)
  have ex: "\<exists>v. map_of instants s = Some v \<and> sint v = (if pacedByLastMember s then Max (set (stampsAt s members))
      else Min (set (stampsAt s members)))" if s: "s \<in> set (ChainStages spans)" for s
  proof -
    have "Valid s" using Chain_topology(2) [OF assms(2)] s by auto
    then show ?thesis using cohortInstants_of [OF ins] carried s by metis
  qed
  define f where "f s = the (map_of instants s)" for s
  have fs: "map_of instants s = Some (f s)" "sint (f s) = (if pacedByLastMember s then Max (set (stampsAt s members))
      else Min (set (stampsAt s members)))" if "s \<in> set (ChainStages spans)" for s
    using ex [OF that] by (auto simp: f_def)
  have stamps: "stampsAt s members \<noteq> []" "\<forall>x \<in> set (stampsAt s members). 0 \<le> x" if "s \<in> set (ChainStages spans)" for s
    using carried [OF _ that] assms(3) by (auto simp: stampsAt_def filter_empty_conv dest: hd_in_set)
  have nonneg: "nonneg64 (f s)" if "s \<in> set (ChainStages spans)" for s
    using fs(2) [OF that] stamps [OF that] by (simp add: nonneg64_def)
  note ends = ChainStages_ends [OF assms(2)]
  let ?d = "foldl (decomposeSpan spans instants) (c\<lparr>ccStages := []\<rparr>) ?ps"
  have "sum_list (map (\<lambda>p. case (map_of instants (spStart (snd p)), map_of instants (spEnd (snd p))) of
            (Some start, Some finish) \<Rightarrow> if PreCycle spans (fst p) then 0 else finish - start | _ \<Rightarrow> 0) ?ps)
      = sum_list (map (\<lambda>(i, sp). if PreCycle spans i then 0 else f (spEnd sp) - f (spStart sp)) ?ps)"
  proof (intro arg_cong [of _ _ sum_list] map_cong refl)
    fix p assume "p \<in> set ?ps"
    then have "snd p \<in> set spans" by (metis prod.collapse set_zip_rightD)
    then show "(case (map_of instants (spStart (snd p)), map_of instants (spEnd (snd p))) of
            (Some start, Some finish) \<Rightarrow> if PreCycle spans (fst p) then 0 else finish - start | _ \<Rightarrow> 0)
        = (case p of (i, sp) \<Rightarrow> if PreCycle spans i then 0 else f (spEnd sp) - f (spStart sp))"
      using fs(1) ends(1) by (cases p) simp
  qed
  then have total: "ccAccountedNanos ?d + ccUnaccountedNanos ?d = f StageClientRecv - f StageClientSend"
    unfolding decomposeSpans(2) using zero Chain_telescopes [OF assms(2), of f] by simp
  have "sint (f StageClientRecv - f StageClientSend) = sint (ccMakespanNanos c)"
    using sint_diff_nonneg [OF nonneg [OF ends(3)] nonneg [OF ends(2)]] fs(2) [OF ends(3)] fs(2) [OF ends(2)]
    by (simp add: mk pacedByLastMember_def)
  then have "f StageClientRecv - f StageClientSend = ccMakespanNanos c" by (rule signed_word_eqI)
  then have span: "ccMakespanNanos ?d = ccAccountedNanos ?d + ccUnaccountedNanos ?d"
    unfolding total decomposeSpans(1) by simp
  have dec: "ccMakespanNanos (decomposeCohort spans members c) = ccMakespanNanos ?d"
    "ccAccountedNanos (decomposeCohort spans members c) = ccAccountedNanos ?d"
    "ccUnaccountedNanos (decomposeCohort spans members c) = ccUnaccountedNanos ?d"
    "ccResidualNanos (decomposeCohort spans members c) = ccMakespanNanos ?d - ccAccountedNanos ?d"
    "ccFormationWaitNanos (decomposeCohort spans members c) = ccFormationWaitNanos ?d"
    by (simp_all add: decomposeCohort_def ins Let_def)
  show "ccMakespanNanos (decomposeCohort spans members c) = ccAccountedNanos (decomposeCohort spans members c)
          + ccUnaccountedNanos (decomposeCohort spans members c)"
    unfolding dec span ..
  show "ccResidualNanos (decomposeCohort spans members c) = ccUnaccountedNanos (decomposeCohort spans members c)"
    unfolding dec span by simp
  have form: "StageProxyRecv \<in> set (ChainStages spans)" "StageCohortSeal \<in> set (ChainStages spans)"
    unfolding aggregating_chain [OF assms(1,2)] by (simp_all add: ChainStages_def)
  show "sint (ccFormationWaitNanos (decomposeCohort spans members c))
          = Min (set (stampsAt StageCohortSeal members)) - Min (set (stampsAt StageProxyRecv members))"
    unfolding dec decomposeSpans_wait [OF assms(1,2) fs(1) [OF form(1)] fs(1) [OF form(2)]]
    using sint_diff_nonneg [OF nonneg [OF form(2)] nonneg [OF form(1)]] fs(2) [OF form(1)] fs(2) [OF form(2)]
    by (simp add: pacedByLastMember_def)
qed

text \<open>The earliest arrival waits longest: with one seal, the cohort's wait is the largest member's.\<close>

lemma largest_wait:
  fixes a :: "'x \<Rightarrow> int"
  assumes "xs \<noteq> []" and "\<forall>x \<in> set xs. b x = s"
  shows "Min (b ` set xs) - Min (a ` set xs) = Max ((\<lambda>x. b x - a x) ` set xs)"
proof -
  have b: "b ` set xs = {s}" using assms by (auto simp: neq_Nil_conv)
  obtain x where x: "x \<in> set xs" "a x = Min (a ` set xs)"
    using assms(1) Min_in [of "a ` set xs"] by (auto simp: image_iff)
  have "Max ((\<lambda>x. b x - a x) ` set xs) = b x - a x"
  proof (rule Max_eqI)
    fix y assume "y \<in> (\<lambda>x. b x - a x) ` set xs"
    then obtain z where z: "z \<in> set xs" "y = b z - a z" by auto
    then have "a x \<le> a z" unfolding x(2) by (intro Min_le) simp_all
    then show "y \<le> b x - a x" using z x(1) assms(2) by simp
  qed (simp, rule imageI, rule x(1))
  moreover have "Min (b ` set xs) = s" unfolding b by simp
  moreover have "b x = s" using x(1) assms(2) by blast
  ultimately show ?thesis using x(2) by linarith
qed

text \<open>Every joined request carries its chain's stages, and returns no sooner than it is sent.\<close>

definition carries_chain :: "Span list \<Rightarrow> joined_map \<Rightarrow> bool" where
  "carries_chain spans joined \<longleftrightarrow> list_all (\<lambda>(req, j).
     list_all (\<lambda>s. snd (joinedStage j s) \<and> 0 \<le> sint (fst (joinedStage j s))) (ChainStages spans)
     \<and> sint (fst (joinedStage j StageClientSend)) \<le> sint (fst (joinedStage j StageClientRecv))) joined"

lemma carried_member:
  assumes "carries_chain spans (Join records)" and "m \<in> set (cohortMembers (Join records) cohort)"
  shows "list_all (\<lambda>s. snd (joinedStage m s) \<and> 0 \<le> sint (fst (joinedStage m s))) (ChainStages spans)"
    "sint (fst (joinedStage m StageClientSend)) \<le> sint (fst (joinedStage m StageClientRecv))"
proof -
  have "\<exists>req. (req, m) \<in> set (Join records)"
    using assms(2) by (auto simp: cohortMembers_get entries_set [OF distinct_Join])
  then show "list_all (\<lambda>s. snd (joinedStage m s) \<and> 0 \<le> sint (fst (joinedStage m s))) (ChainStages spans)"
    "sint (fst (joinedStage m StageClientSend)) \<le> sint (fst (joinedStage m StageClientRecv))"
    using assms(1) by (auto simp: carries_chain_def list_all_iff)
qed

lemma carried_stamps:
  assumes "carries_chain spans (Join records)" and "s \<in> set (ChainStages spans)"
  shows "set (stampsAt s (cohortMembers (Join records) cohort))
    = (\<lambda>m. sint (fst (joinedStage m s))) ` set (cohortMembers (Join records) cohort)"
  using carried_member(1) [OF assms(1)] assms(2) by (fastforce simp: stampsAt_def list_all_iff)

lemma carried_intervals:
  assumes "Chain cell = Inr spans" and "carries_chain spans (Join records)"
  shows "group_get (cohortIntervals (Join records)) cohort
    = map (\<lambda>m. (fst (joinedStage m StageClientSend), fst (joinedStage m StageClientRecv))) (cohortMembers (Join records) cohort)"
proof -
  have "\<forall>x \<in> set (entries (Join records)). snd (joinedStage (snd x) StageClientSend) \<and> snd (joinedStage (snd x) StageClientRecv)
      \<and> sint (fst (joinedStage (snd x) StageClientSend)) \<le> sint (fst (joinedStage (snd x) StageClientRecv))"
    using assms(2) ChainStages_ends(2,3) [OF assms(1)]
    by (auto simp: carries_chain_def entries_set [OF distinct_Join] list_all_iff)
  then have "filter (\<lambda>(req, j). Cohort req = cohort \<and> snd (joinedStage j StageClientSend) \<and> snd (joinedStage j StageClientRecv)
        \<and> sint (fst (joinedStage j StageClientSend)) \<le> sint (fst (joinedStage j StageClientRecv))) (entries (Join records))
      = filter (\<lambda>(req, j). Cohort req = cohort) (entries (Join records))"
    by (intro filter_cong) auto
  then show ?thesis
    unfolding cohortIntervals_get cohortMembers_get by (simp add: case_prod_unfold o_def)
qed

text \<open>A covered cohort has members, and its makespan is from the first send to the last return.\<close>

lemma carried_makespan:
  assumes "Chain cell = Inr spans" and "carries_chain spans (Join records)" and "d \<in> set (cohortCoverage (Join records))"
  shows "cohortMembers (Join records) (ccCohort d) \<noteq> []"
    "sint (ccMakespanNanos d) = Max (set (stampsAt StageClientRecv (cohortMembers (Join records) (ccCohort d))))
       - Min (set (stampsAt StageClientSend (cohortMembers (Join records) (ccCohort d))))"
    "ccAccountedNanos d = 0" "ccUnaccountedNanos d = 0"
proof -
  let ?M = "cohortMembers (Join records) (ccCohort d)"
  note ends = ChainStages_ends(2,3) [OF assms(1)] and ivals = carried_intervals [OF assms(1,2)]
  show "?M \<noteq> []" using cohortCoverage_cohort(2) [OF assms(3)] ivals by auto
  have pos: "\<forall>(start, finish) \<in> set (group_get (cohortIntervals (Join records)) (ccCohort d)). 0 \<le> sint start \<and> sint start \<le> sint finish"
    unfolding ivals using carried_member [OF assms(2)] ends by (fastforce simp: list_all_iff)
  show "sint (ccMakespanNanos d) = Max (set (stampsAt StageClientRecv ?M)) - Min (set (stampsAt StageClientSend ?M))"
    using coverCohort_spec(2) [OF cohortCoverage_cohort(2) [OF assms(3)] pos, of "ccCohort d",
        folded cohortCoverage_cohort(1) [OF assms(3)]]
    unfolding ivals carried_stamps [OF assms(2) ends(1)] carried_stamps [OF assms(2) ends(2)] by (simp add: image_image)
  show "ccAccountedNanos d = 0" "ccUnaccountedNanos d = 0"
    by (subst cohortCoverage_cohort(1) [OF assms(3)], simp add: coverCohort_def Let_def)+
qed


text \<open>Two members of one cohort that walked F10's chain; the second arrived 5 nanoseconds later.\<close>

definition sampleCohort :: "Decoded list" where
  "sampleCohort = map (\<lambda>(ord, late). stamped EmitterLoadGen 4 ord
     [(StageSched, 10), (StageClientSend, 20 + late), (StageProxyRecv, 30 + late), (StageCohortSeal, 40),
      (StageProxySend, 50), (StageAdapterRecv, 60), (StageAdapterDispatch, 70 + late), (StageQueueStart, 80 + late),
      (StageComputeStart, 90 + late), (StageComputeEnd, 100 + late), (StageAdapterResult, 110 + late),
      (StageAdapterSend, 120), (StageProxyRespRecv, 130), (StageProxyFanout, 140 + late), (StageClientRecv, 150 + late)])
     [(0, 0), (1, 5)]"


end
