(* ===== verification/Executions.thy ===== *)
theory Executions
  imports RunChecks
begin

text \<open>
  \<^verbatim>\<open>internal/validate/execution.go\<close>: how a cohort's model executions were laid out in time.
  A window is the pair of its start and end; \<^verbatim>\<open>sort.Slice\<close> is the stable sort by start (Go's
  may order windows that start together differently).
\<close>

record CohortExecutions =
  ceCohort :: CohortID
  ceExecutions :: nat
  ceOverlaps :: nat
  ceGapsMeasured :: nat
  ceMinGapNanos :: int64
  ceSpanNanos :: int64
  ceComputeNanos :: int64

record ExecutionReport =
  erSerialized :: bool
  erCohorts :: "CohortExecutions list"
  erMinGapNanos :: int64
  erGapsMeasured :: nat
  erOverlapCount :: nat
  erExecutionPairs :: nat

datatype window = Window (wnReq: LogicalRequest) (wnStart: int64) (wnEnd: int64)

text \<open>The windows of every cohort, in the order of their requests; cohorts ascending.\<close>

definition computeWindow :: "LogicalRequest \<times> Joined \<Rightarrow> window option" where
  "computeWindow = (\<lambda>(req, j).
     let (start, okStart) = joinedStage j StageComputeStart;
         (finish, okEnd) = joinedStage j StageComputeEnd
     in if \<not> okStart \<or> \<not> okEnd then None else Some (Window req start finish))"

definition executionWindows :: "joined_map \<Rightarrow> window list" where
  "executionWindows joined = List.map_filter computeWindow (entries joined)"

definition windowsByCohort :: "joined_map \<Rightarrow> (CohortID \<times> window list) list" where
  "windowsByCohort joined = group_by (\<lambda>w. Cohort (wnReq w)) id (executionWindows joined)"

definition byStart :: "window list \<Rightarrow> window list" where
  "byStart = sort_key (\<lambda>w. sint (wnStart w))"

text \<open>One consecutive pair: the cohort's account, the run's account and the defects so far.\<close>

definition judgePair :: "CohortExecutions \<times> ExecutionReport \<times> Defect list \<Rightarrow> window \<times> window
    \<Rightarrow> CohortExecutions \<times> ExecutionReport \<times> Defect list" where
  "judgePair = (\<lambda>(ce, report, defects) (prev, cur).
     let gap = wnStart cur - wnEnd prev;
         report = report\<lparr>erExecutionPairs := erExecutionPairs report + 1\<rparr>
     in if gap <s 0
        then (ce\<lparr>ceOverlaps := ceOverlaps ce + 1\<rparr>,
              report\<lparr>erOverlapCount := erOverlapCount report + 1\<rparr>,
              defects @ [requestDefect DefectOverlappingExecutions (wnReq cur)])
        else
          (let ce = (if ceGapsMeasured ce = 0 \<or> gap <s ceMinGapNanos ce
                     then ce\<lparr>ceMinGapNanos := gap\<rparr> else ce);
               report = (if erGapsMeasured report = 0 \<or> gap <s erMinGapNanos report
                     then report\<lparr>erMinGapNanos := gap\<rparr> else report)
           in (ce\<lparr>ceGapsMeasured := ceGapsMeasured ce + 1\<rparr>,
               report\<lparr>erGapsMeasured := erGapsMeasured report + 1\<rparr>, defects)))"

definition judgeCohort :: "ExecutionReport \<times> Defect list \<Rightarrow> CohortID \<times> window list
    \<Rightarrow> ExecutionReport \<times> Defect list" where
  "judgeCohort = (\<lambda>(report, defects) (cohort, unsorted).
     let windows = byStart unsorted;
         ce = \<lparr>ceCohort = cohort, ceExecutions = length windows, ceOverlaps = 0, ceGapsMeasured = 0,
               ceMinGapNanos = 0,
               ceSpanNanos = (if 0 < length windows
                 then wnEnd (windows ! (length windows - 1)) - wnStart (windows ! 0) else 0),
               ceComputeNanos = sum_list (map (\<lambda>w. wnEnd w - wnStart w) windows)\<rparr>;
         (ce, report, defects) =
           foldl judgePair (ce, report, defects) (zip windows (drop 1 windows))
     in (report\<lparr>erCohorts := erCohorts report @ [ce]\<rparr>, defects))"

definition checkExecutionSerialization :: "RunExpectation \<Rightarrow> joined_map \<Rightarrow> ExecutionReport \<times> Check" where
  "checkExecutionSerialization xp joined =
     (let report = \<lparr>erSerialized = \<not> VectorizesCompute (exCell xp), erCohorts = [], erMinGapNanos = 0,
            erGapsMeasured = 0, erOverlapCount = 0, erExecutionPairs = 0\<rparr>
      in if \<not> erSerialized report then (report, pass ''execution_serialization'')
         else
           let byCohort = windowsByCohort joined;
               cohorts = sort (map fst byCohort);
               (report, defects) =
                 foldl judgeCohort (report, []) (map (\<lambda>c. (c, group_get byCohort c)) cohorts)
           in (report, fail ''execution_serialization'' defects))"

section \<open>What the check decides\<close>

text \<open>Two executions do not overlap when one ended before the other began.\<close>

definition overlap :: "window \<Rightarrow> window \<Rightarrow> bool" where
  "overlap v w \<longleftrightarrow> wnStart w - wnEnd v <s 0"

definition pairOverlaps :: "(window \<times> window) list \<Rightarrow> (window \<times> window) list" where
  "pairOverlaps ps = filter (\<lambda>(v, w). overlap v w) ps"

lemma foldl_app:
  "(\<And>st p. g (f st p) = g st @ h p) \<Longrightarrow> g (foldl f st ps) = g st @ concat (map h ps)"
  by (induction ps arbitrary: st) simp_all

lemma foldl_count:
  fixes g :: "'s \<Rightarrow> nat"
  shows "(\<And>st p. g (f st p) = g st + h p) \<Longrightarrow> g (foldl f st ps) = g st + sum_list (map h ps)"
  by (induction ps arbitrary: st) simp_all

lemma judgePair_step:
  "snd (snd (judgePair st p)) = snd (snd st)
     @ (if overlap (fst p) (snd p) then [requestDefect DefectOverlappingExecutions (wnReq (snd p))] else [])"
  "erExecutionPairs (fst (snd (judgePair st p))) = erExecutionPairs (fst (snd st)) + 1"
  "erOverlapCount (fst (snd (judgePair st p))) = erOverlapCount (fst (snd st)) + (if overlap (fst p) (snd p) then 1 else 0)"
  "erGapsMeasured (fst (snd (judgePair st p))) = erGapsMeasured (fst (snd st)) + (if overlap (fst p) (snd p) then 0 else 1)"
  by (cases st; cases p; simp add: judgePair_def Let_def overlap_def)+

lemma judgeCohort_defects:
  "snd (judgeCohort st (c, ws)) = snd st @ concat (map (\<lambda>p. if overlap (fst p) (snd p)
     then [requestDefect DefectOverlappingExecutions (wnReq (snd p))] else [])
     (zip (byStart ws) (drop 1 (byStart ws))))"
  using foldl_app [of "\<lambda>st. snd (snd st)" judgePair, OF judgePair_step(1)]
  by (cases st) (simp add: judgeCohort_def Let_def split_beta)

text \<open>The run's counters: every consecutive pair is an overlap or a measured gap.\<close>

lemma judgeCohort_counts:
  assumes "erExecutionPairs (fst st) = erOverlapCount (fst st) + erGapsMeasured (fst st)"
  shows "erExecutionPairs (fst (judgeCohort st x)) = erOverlapCount (fst (judgeCohort st x)) + erGapsMeasured (fst (judgeCohort st x))"
proof -
  have keep: "erExecutionPairs (fst (snd s)) = erOverlapCount (fst (snd s)) + erGapsMeasured (fst (snd s)) \<Longrightarrow>
      erExecutionPairs (fst (snd (foldl judgePair s ps)))
        = erOverlapCount (fst (snd (foldl judgePair s ps))) + erGapsMeasured (fst (snd (foldl judgePair s ps)))" for s ps
    by (induction ps arbitrary: s) (simp_all add: judgePair_step)
  show ?thesis
    using assms keep by (cases st; cases x) (simp add: judgeCohort_def Let_def split_beta)
qed

lemma execution_counts:
  "erExecutionPairs (fst (checkExecutionSerialization xp joined))
     = erOverlapCount (fst (checkExecutionSerialization xp joined)) + erGapsMeasured (fst (checkExecutionSerialization xp joined))"
proof -
  have "erExecutionPairs (fst s) = erOverlapCount (fst s) + erGapsMeasured (fst s) \<Longrightarrow>
      erExecutionPairs (fst (foldl judgeCohort s cs)) = erOverlapCount (fst (foldl judgeCohort s cs)) + erGapsMeasured (fst (foldl judgeCohort s cs))"
    for s cs by (induction cs arbitrary: s) (simp_all add: judgeCohort_counts)
  then show ?thesis by (simp add: checkExecutionSerialization_def Let_def split_beta)
qed

text \<open>No consecutive pair of the windows sorted by start overlaps.\<close>

definition serial :: "window list \<Rightarrow> bool" where
  "serial ws \<longleftrightarrow> (\<forall>i. Suc i < length ws \<longrightarrow> \<not> overlap (ws ! i) (ws ! Suc i))"

lemma serial_pairs: "list_all (\<lambda>(v, w). \<not> overlap v w) (zip ws (drop 1 ws)) \<longleftrightarrow> serial ws"
  by (auto simp: list_all_length serial_def nth_tl drop_Suc)

lemma checkExecutionSerialization_serial:
  assumes "\<not> VectorizesCompute (exCell xp)"
  shows "ckPassed (snd (checkExecutionSerialization xp joined)) \<longleftrightarrow>
    (\<forall>c. serial (byStart (filter (\<lambda>w. Cohort (wnReq w) = c) (executionWindows joined))))"
proof -
  let ?g = "windowsByCohort joined"
  let ?ws = "\<lambda>c. filter (\<lambda>w. Cohort (wnReq w) = c) (executionWindows joined)"
  have get: "group_get ?g c = ?ws c" for c by (simp add: windowsByCohort_def group_get_by)
  let ?r = "\<lparr>erSerialized = True, erCohorts = [], erMinGapNanos = 0,
            erGapsMeasured = 0, erOverlapCount = 0, erExecutionPairs = 0\<rparr>"
  have "ckPassed (snd (checkExecutionSerialization xp joined)) \<longleftrightarrow>
      snd (foldl judgeCohort (?r, []) (map (\<lambda>c. (c, ?ws c)) (sort (map fst ?g)))) = []"
    using assms by (simp add: checkExecutionSerialization_def Let_def split_beta get)
  also have "\<dots> \<longleftrightarrow> list_all (\<lambda>c. serial (byStart (?ws c))) (sort (map fst ?g))"
  proof -
    have "snd (judgeCohort st p) = snd st @ concat (map (\<lambda>p. if overlap (fst p) (snd p)
       then [requestDefect DefectOverlappingExecutions (wnReq (snd p))] else [])
       (zip (byStart (snd p)) (drop 1 (byStart (snd p)))))" for st p
      using judgeCohort_defects by (cases p) simp
    then have "snd (foldl judgeCohort (?r, []) (map (\<lambda>c. (c, ?ws c)) (sort (map fst ?g))))
       = concat (map (\<lambda>p. concat (map (\<lambda>p. if overlap (fst p) (snd p)
       then [requestDefect DefectOverlappingExecutions (wnReq (snd p))] else [])
       (zip (byStart (snd p)) (drop 1 (byStart (snd p)))))) (map (\<lambda>c. (c, ?ws c)) (sort (map fst ?g))))"
      using foldl_app [of snd judgeCohort _ "(?r, [])"] by simp
    then show ?thesis
      by (simp only: concat_map_Nil list_all_iff set_map) (auto simp: serial_pairs [symmetric] list_all_iff split_beta)
  qed
  also have "\<dots> \<longleftrightarrow> (\<forall>c. serial (byStart (?ws c)))"
  proof -
    have "serial (byStart (?ws c))" if "c \<notin> set (map fst ?g)" for c
    proof -
      have "?ws c = []" using that by (auto simp: windowsByCohort_def keys_group_by filter_empty_conv simp del: set_map)
      then show ?thesis by (simp add: serial_def byStart_def)
    qed
    then show ?thesis unfolding list_all_iff set_sort by metis
  qed
  finally show ?thesis .
qed

section \<open>Serial means disjoint\<close>

definition disjoint_windows :: "window \<Rightarrow> window \<Rightarrow> bool" where
  "disjoint_windows v w \<longleftrightarrow> sint (wnEnd v) \<le> sint (wnStart w) \<or> sint (wnEnd w) \<le> sint (wnStart v)"

definition proper :: "window \<Rightarrow> bool" where
  "proper w \<longleftrightarrow> nonneg64 (wnStart w) \<and> sint (wnStart w) < sint (wnEnd w)"

lemma overlap_proper:
  "proper v \<Longrightarrow> proper w \<Longrightarrow> overlap v w \<longleftrightarrow> sint (wnStart w) < sint (wnEnd v)"
  by (auto simp: overlap_def proper_def clock_simps sint_diff_nonneg nonneg64_def)

lemma serial_disjoint:
  assumes "\<forall>w \<in> set ws. proper w" and "distinct ws"
  shows "serial (byStart ws) \<longleftrightarrow> (\<forall>v \<in> set ws. \<forall>w \<in> set ws. v \<noteq> w \<longrightarrow> disjoint_windows v w)"
proof -
  let ?xs = "byStart ws"
  let ?R = "\<lambda>v w. proper v \<and> proper w \<and> sint (wnEnd v) \<le> sint (wnStart w)"
  have xs: "set ?xs = set ws" "distinct ?xs" using assms(2) by (simp_all add: byStart_def)
  have srt: "sint (wnStart (?xs ! i)) \<le> sint (wnStart (?xs ! j))" if "i < j" "j < length ?xs" for i j
    using that sorted_sort_key [of "\<lambda>w. sint (wnStart w)" ws] unfolding byStart_def
    by (auto simp: sorted_wrt_map dest: sorted_wrt_nth_less)
  have P: "proper (?xs ! i)" if "i < length ?xs" for i using that assms(1) xs(1) nth_mem by blast
  have "transp ?R" by (rule transpI) (auto simp: proper_def)
  then have "serial ?xs \<longleftrightarrow> sorted_wrt ?R ?xs"
    unfolding serial_def using successive_pairs_sorted_wrt [of ?R ?xs] P
    by (metis (no_types, lifting) Suc_lessD not_less overlap_proper)
  also have "\<dots> \<longleftrightarrow> (\<forall>v \<in> set ?xs. \<forall>w \<in> set ?xs. v \<noteq> w \<longrightarrow> disjoint_windows v w)"
  proof
    assume s: "sorted_wrt ?R ?xs"
    show "\<forall>v \<in> set ?xs. \<forall>w \<in> set ?xs. v \<noteq> w \<longrightarrow> disjoint_windows v w"
    proof (intro ballI impI)
      fix v w assume "v \<in> set ?xs" "w \<in> set ?xs" "v \<noteq> w"
      then obtain i j where ij: "i < length ?xs" "j < length ?xs" "?xs ! i = v" "?xs ! j = w" "i \<noteq> j"
        by (metis in_set_conv_nth)
      then show "disjoint_windows v w"
        using sorted_wrt_nth_less [OF s, of i j] sorted_wrt_nth_less [OF s, of j i]
        by (cases "i < j") (auto simp: disjoint_windows_def)
    qed
  next
    assume d: "\<forall>v \<in> set ?xs. \<forall>w \<in> set ?xs. v \<noteq> w \<longrightarrow> disjoint_windows v w"
    show "sorted_wrt ?R ?xs"
      unfolding sorted_wrt_iff_nth_less
    proof (intro allI impI)
      fix i j assume ij: "i < j" "j < length ?xs"
      then have ne: "?xs ! i \<noteq> ?xs ! j" using xs(2) by (simp add: nth_eq_iff_index_eq)
      have i: "i < length ?xs" using ij by simp
      have "disjoint_windows (?xs ! i) (?xs ! j)" using d ne nth_mem [OF i] nth_mem [OF ij(2)] by blast
      then show "?R (?xs ! i) (?xs ! j)"
        using srt [OF ij] P [OF i] P [OF ij(2)] by (auto simp: disjoint_windows_def proper_def)
    qed
  qed
  finally show ?thesis by (simp add: xs(1))
qed

lemma distinct_windows:
  assumes "distinct (map fst joined)"
  shows "distinct (executionWindows joined)"
proof -
  have "distinct (map fst (entries joined))"
    using assms by (simp add: entries_sorted sortedRequests_def)
  moreover have "wnReq w = fst x" if "computeWindow x = Some w" for x w
    using that by (auto simp: computeWindow_def Let_def split: prod.splits if_splits)
  then have "map wnReq (List.map_filter computeWindow xs) = map fst (filter (\<lambda>x. computeWindow x \<noteq> None) xs)" for xs
    by (induction xs) (auto simp: map_filter_simps split: option.splits)
  ultimately have "distinct (map wnReq (executionWindows joined))"
    unfolding executionWindows_def by (simp add: distinct_map_filter)
  then show ?thesis by (simp add: distinct_map)
qed

text \<open>
  C16. The serialization check decides what it is for: at a cell that does not vectorize, and
  when every execution window is a pair of clock readings with a positive length, it passes
  exactly when any two executions of one cohort are disjoint in time, one ending no later
  than the other starts.
\<close>

theorem executions_disjoint:
  assumes "\<not> VectorizesCompute (exCell xp)"
    and "list_all (\<lambda>w. nonneg64 (wnStart w) \<and> sint (wnStart w) < sint (wnEnd w)) (executionWindows (Join records))"
  shows "ckPassed (snd (checkExecutionSerialization xp (Join records))) \<longleftrightarrow>
    list_all (\<lambda>v. list_all (\<lambda>w.
      if Cohort (wnReq v) = Cohort (wnReq w) \<and> v \<noteq> w
      then sint (wnEnd v) \<le> sint (wnStart w) \<or> sint (wnEnd w) \<le> sint (wnStart v) else True)
      (executionWindows (Join records))) (executionWindows (Join records))"
proof -
  let ?W = "executionWindows (Join records)"
  have d: "distinct ?W" by (rule distinct_windows [OF distinct_Join])
  have "serial (byStart (filter (\<lambda>w. Cohort (wnReq w) = c) ?W)) \<longleftrightarrow>
      (\<forall>v \<in> set ?W. \<forall>w \<in> set ?W. Cohort (wnReq v) = c \<and> Cohort (wnReq w) = c \<and> v \<noteq> w \<longrightarrow> disjoint_windows v w)" for c
    using serial_disjoint [of "filter (\<lambda>w. Cohort (wnReq w) = c) ?W"] assms(2) d
    by (auto simp: list_all_iff proper_def)
  then show ?thesis
    unfolding checkExecutionSerialization_serial [of xp, OF assms(1)] list_all_iff disjoint_windows_def by auto
qed

theorem executions_disjoint_witness:
  "ckPassed (snd (checkExecutionSerialization (sampleExpectation CellF00)
     (Join [stamped EmitterTriton 4 0 [(StageComputeStart, 100), (StageComputeEnd, 200)],
            stamped EmitterTriton 4 1 [(StageComputeStart, 200), (StageComputeEnd, 300)]])))"
  using executions_disjoint [of "sampleExpectation CellF00"
     "[stamped EmitterTriton 4 0 [(StageComputeStart, 100), (StageComputeEnd, 200)],
       stamped EmitterTriton 4 1 [(StageComputeStart, 200), (StageComputeEnd, 300)]]"]
  by code_simp

end
