(* ===== verification/Verdict.thy ===== *)
theory Verdict
  imports Aggregation Conservation Executions FanOut
begin

text \<open>
  \<^verbatim>\<open>Validate\<close> of \<^verbatim>\<open>internal/validate/validate.go\<close>: every check, in the order the verdict lists
  them, over one joined map; the checks a cohort that never formed would only echo run on the
  map without it.
\<close>

record Verdict =
  vdRun :: string
  vdCell :: Cell
  vdPassed :: bool
  vdChecks :: "Check list"
  vdConservation :: ConservationReport
  vdAggregation :: AggregationReport
  vdExecutions :: ExecutionReport
  vdFanOut :: FanOutReport

definition Validate :: "RunExpectation \<Rightarrow> Decoded list \<Rightarrow> Verdict" where
  "Validate xp records =
     (let joined = Join records;
          (aggregation, aggCheck) = checkAggregation xp joined;
          failedFormations = FailedCohorts aggregation;
          (conservation, conservationCheck) = checkConservation xp joined;
          (executions, execCheck) = checkExecutionSerialization xp joined;
          (fanOut, fanOutCheck) = checkFanOut xp (withoutCohorts joined failedFormations);
          checks = [aggCheck, checkFormation aggregation, checkRecordIntegrity xp joined,
            checkClockDomain xp joined, checkPresence xp (withoutCohorts joined failedFormations),
            checkStageOwnership xp joined, checkOrdering xp joined,
            checkMembership xp (withoutCohorts joined failedFormations), checkContamination xp,
            checkAdapterDispatch xp (withoutCohorts joined failedFormations),
            conservationCheck, execCheck, fanOutCheck]
      in \<lparr>vdRun = exRun xp, vdCell = exCell xp, vdPassed = list_all ckPassed checks, vdChecks = checks,
          vdConservation = conservation, vdAggregation = aggregation, vdExecutions = executions,
          vdFanOut = fanOut\<rparr>)"

definition verdictDefects :: "Verdict \<Rightarrow> Defect list" where
  "verdictDefects v = concat (map ckDefects (vdChecks v))"

definition HasDefect :: "Verdict \<Rightarrow> DefectKind \<Rightarrow> bool" where
  "HasDefect v kind \<longleftrightarrow> list_ex (\<lambda>d. dfKind d = kind) (verdictDefects v)"

section \<open>A verdict and its defects\<close>

text \<open>At a known cell no check is refused: each passes exactly when it names no defect.\<close>

definition decided :: "Check \<Rightarrow> bool" where
  "decided c \<longleftrightarrow> (ckPassed c \<longleftrightarrow> ckDefects c = [])"

lemma decided_simps [simp]: "decided (pass n)" "decided (fail n ds)" "\<not> decided (refused n)"
  by (simp_all add: decided_def)

lemma topology_chain: "(\<exists>t. TopologyMask c = Inr t) \<longleftrightarrow> (\<exists>spans. Chain c = Inr spans)"
  using Chain_walk [of c] by (auto split: sum.splits)

lemma known_cell: "c \<in> set AllCells \<longleftrightarrow> (\<exists>spans. Chain c = Inr spans)"
  using Chain_Inl_iff [of c] by (cases "Chain c") auto

lemma checks_decided:
  assumes "exCell xp \<in> set AllCells"
  shows "decided (snd (checkAggregation xp joined))" "decided (checkFormation report)"
    "decided (checkRecordIntegrity xp joined)" "decided (checkClockDomain xp joined)"
    "decided (checkPresence xp joined)" "decided (checkStageOwnership xp joined)"
    "decided (checkOrdering xp joined)" "decided (checkMembership xp joined)"
    "decided (checkContamination xp)" "decided (checkAdapterDispatch xp joined)"
    "decided (snd (checkConservation xp joined))" "decided (snd (checkExecutionSerialization xp joined))"
    "decided (snd (checkFanOut xp joined))"
proof -
  obtain t where t: "TopologyMask (exCell xp) = Inr t" using assms known_cell topology_chain by metis
  obtain spans where s: "Chain (exCell xp) = Inr spans" using assms known_cell by metis
  show "decided (snd (checkAggregation xp joined))" "decided (checkFormation report)"
    "decided (checkRecordIntegrity xp joined)" "decided (checkClockDomain xp joined)"
    "decided (checkPresence xp joined)" "decided (checkStageOwnership xp joined)"
    "decided (checkOrdering xp joined)" "decided (checkMembership xp joined)" "decided (checkContamination xp)"
    by (simp_all add: checkAggregation_def Let_def checkFormation_def checkRecordIntegrity_def checkClockDomain_def
        checkPresence_def checkStageOwnership_def checkOrdering_def checkMembership_def checkContamination_def t s)
  show "decided (checkAdapterDispatch xp joined)" "decided (snd (checkExecutionSerialization xp joined))"
    "decided (snd (checkFanOut xp joined))" "decided (snd (checkConservation xp joined))"
    by (simp_all add: checkAdapterDispatch_def checkExecutionSerialization_def checkFanOut_def
        checkConservation_def t s Let_def split_beta)
qed

text \<open>
  A verdict fails for a reason it names: it passes exactly when the cell is one of the
  schema's and no check lists a defect. So at a known cell a failing verdict has a defect of
  some kind, and a verdict with a defect never passes.
\<close>

theorem Validate_names_reason:
  "vdPassed (Validate xp records) \<longleftrightarrow> exCell xp \<in> set AllCells \<and> verdictDefects (Validate xp records) = []"
proof (cases "exCell xp \<in> set AllCells")
  case True
  have "list_all decided (vdChecks (Validate xp records))"
    by (simp add: Validate_def Let_def split_beta checks_decided [OF True])
  moreover have "vdPassed (Validate xp records) \<longleftrightarrow> list_all ckPassed (vdChecks (Validate xp records))"
    by (simp add: Validate_def Let_def split_beta)
  ultimately show ?thesis
    using True unfolding verdictDefects_def concat_map_Nil by (auto simp: list_all_iff decided_def)
next
  case False
  then obtain e where "Chain (exCell xp) = Inl e" using known_cell by (metis sum.exhaust)
  then show ?thesis using False by (simp add: Validate_def Let_def split_beta checkOrdering_def)
qed

section \<open>What a passing verdict promises\<close>

lemma passed_checks:
  assumes "vdPassed (Validate xp records)"
  shows "findFormationFailures xp (Join records) = []"
    and "ckPassed (snd (checkAggregation xp (Join records)))" "ckPassed (checkRecordIntegrity xp (Join records))"
    "ckPassed (checkPresence xp (Join records))" "ckPassed (checkOrdering xp (Join records))"
    "ckPassed (checkMembership xp (Join records))"
proof -
  have report: "agFailedFormations (fst (checkAggregation xp (Join records))) = findFormationFailures xp (Join records)"
    by (simp add: checkAggregation_def Let_def)
  show none: "findFormationFailures xp (Join records) = []"
    using assms report by (simp add: Validate_def Let_def split_beta checkFormation_passes)
  show "ckPassed (snd (checkAggregation xp (Join records)))" "ckPassed (checkRecordIntegrity xp (Join records))"
    "ckPassed (checkPresence xp (Join records))" "ckPassed (checkOrdering xp (Join records))"
    "ckPassed (checkMembership xp (Join records))"
    using assms none report by (simp_all add: Validate_def Let_def split_beta FailedCohorts_def withoutCohorts_def)
qed

lemma integrity_passed:
  assumes "ckPassed (checkRecordIntegrity xp joined)"
  shows "set (map fst joined) \<subseteq> set (Requests xp)"
    and "req \<in> set (Requests xp) \<Longrightarrow> \<exists>j. map_of joined req = Some j \<and> jStatus j = StatusOK"
proof -
  have none: "map (requestDefect DefectDuplicateRecord) (filter (\<lambda>req. req \<notin> set (Requests xp)) (map fst joined)) = []"
    and each: "concat (map (integrityDefects joined) (Requests xp)) = []"
    using assms unfolding checkRecordIntegrity_def check_fields append_is_Nil_conv by blast+
  show "set (map fst joined) \<subseteq> set (Requests xp)"
    using none by (auto simp: filter_empty_conv simp del: set_map)
  assume "req \<in> set (Requests xp)"
  then have "integrityDefects joined req = []" using each unfolding concat_map_Nil list_all_iff by blast
  then show "\<exists>j. map_of joined req = Some j \<and> jStatus j = StatusOK"
    unfolding integrityDefects_def by (auto split: option.splits if_splits)
qed

lemma path_passed:
  assumes "ckPassed (checkPresence xp (Join records))" and "ckPassed (checkOrdering xp (Join records))"
  obtains topology spans where "TopologyMask (exCell xp) = Inr topology" and "Chain (exCell xp) = Inr spans"
    and "\<And>req j. (req, j) \<in> set (Join records) \<Longrightarrow> \<forall>s. Valid s \<longrightarrow> snd (joinedStage j s) = mask_Has topology s"
    and "\<And>req j. (req, j) \<in> set (Join records) \<Longrightarrow>
      \<forall>sp \<in> set spans. sint (fst (joinedStage j (spStart sp))) \<le> sint (fst (joinedStage j (spEnd sp)))"
proof -
  obtain spans where s: "Chain (exCell xp) = Inr spans"
    using assms(2) by (cases "Chain (exCell xp)") (simp_all add: checkOrdering_def)
  note top = Chain_topology [OF s]
  have P: "\<forall>v. Valid v \<longrightarrow> snd (joinedStage j v) = mask_Has (MaskOf (ChainStages spans)) v"
    and O: "orderingDefects spans (req, j) = []" if "(req, j) \<in> set (Join records)" for req j
  proof -
    have "presenceDefects (MaskOf (ChainStages spans)) (req, j) = []"
      using assms(1) that unfolding checkPresence_def top(1) sum.case Join_check list_all_iff by blast
    then show "\<forall>v. Valid v \<longrightarrow> snd (joinedStage j v) = mask_Has (MaskOf (ChainStages spans)) v"
      unfolding presenceDefects_Nil by (simp add: snd_joinedStage)
    show "orderingDefects spans (req, j) = []"
      using assms(2) that unfolding checkOrdering_def s sum.case Join_check list_all_iff by blast
  qed
  have "\<forall>sp \<in> set spans. sint (fst (joinedStage j (spStart sp))) \<le> sint (fst (joinedStage j (spEnd sp)))"
    if m: "(req, j) \<in> set (Join records)" for req j
  proof -
    have carry: "snd (joinedStage j v)" if "v \<in> set (ChainStages spans)" for v
    proof -
      have "Valid v" using top(2) that by auto
      moreover have "mask_Has (MaskOf (ChainStages spans)) v"
        using top(2) that \<open>Valid v\<close> by (subst mask_Has_MaskOf) auto
      ultimately show ?thesis using P [OF m] by blast
    qed
    have "\<forall>sp \<in> set spans. snd (joinedStage j (spStart sp)) \<and> snd (joinedStage j (spEnd sp))"
      using carry ChainStages_ends(1) [OF s] by blast
    then show ?thesis using orderingDefects_Nil O [OF m] by blast
  qed
  with P show ?thesis by (intro that [OF top(1) s]) blast+
qed

lemma passed_batch:
  assumes "vdPassed (Validate xp records)" and "(req, j) \<in> set (Join records)"
  shows "int (length (jMembership j)) = exBatchSize xp"
proof -
  have "membershipDefects xp (req, j) = []"
    using passed_checks(6) [OF assms(1)] assms(2) unfolding checkMembership_def Join_check list_all_iff by blast
  then show ?thesis unfolding membershipDefects_def by (auto simp: Let_def split: if_splits)
qed

lemma passed_envelope:
  assumes "vdPassed (Validate xp records)" and "AggregatesEnvelopes (exCell xp)" and "jEnvelopeID j \<noteq> 0" and "jEnvelopeID k \<noteq> 0"
    and "(req, j) \<in> set (Join records)" and "(req', k) \<in> set (Join records)"
  shows "(jEnvelopeID j = jEnvelopeID k) = (Cohort req = Cohort req')"
proof -
  have "formed [] (Join records) = entries (Join records)" by (simp add: formed_def)
  then have live: "set (formed (map ffCohort (findFormationFailures xp (Join records))) (Join records)) = set (Join records)"
    using passed_checks(1) [OF assms(1)] by (simp add: entries_set [OF distinct_Join])
  show ?thesis
    using passed_checks(2) [OF assms(1)] assms(2-) checkAggregation_passes [OF assms(2) refl, of "Join records"]
    unfolding live by fastforce
qed

lemma passed_requests:
  assumes "vdPassed (Validate xp records)"
  shows "set (map (\<lambda>d. recRequest (dRecord d)) records) = set (Requests xp)"
proof -
  note i = integrity_passed [OF passed_checks(3) [OF assms]]
  have "set (map (\<lambda>d. recRequest (dRecord d)) records) = set (map fst (Join records))" using keys_Join [of records] by simp
  moreover have "set (Requests xp) \<subseteq> set (map fst (Join records))"
    using i(2) by (force dest: map_of_SomeD simp: image_iff)
  ultimately show ?thesis using i(1) by blast
qed

text \<open>
  C21. What a passing verdict promises: the requests recorded are the scheduled ones, and each
  of them ended ok, carries exactly the stages of its cell's topology, never goes backwards
  along a span of the cell's chain and attests as many members as the cell batches; at an
  aggregating cell any two requests that report an envelope share it exactly when they share
  their cohort.
\<close>

theorem passing_verdict_promises:
  assumes "vdPassed (Validate xp records)"
  shows "set (map (\<lambda>d. recRequest (dRecord d)) records) = set (Requests xp)
    \<and> list_all (\<lambda>req. case map_of (Join records) req of None \<Rightarrow> False
        | Some j \<Rightarrow> jStatus j = StatusOK
          \<and> (case (TopologyMask (exCell xp), Chain (exCell xp)) of
               (Inr topology, Inr spans) \<Rightarrow>
                 list_all (\<lambda>s. snd (joinedStage j s) = mask_Has topology s) AllStages
                 \<and> list_all (\<lambda>sp. sint (fst (joinedStage j (spStart sp))) \<le> sint (fst (joinedStage j (spEnd sp)))) spans
             | _ \<Rightarrow> False)
          \<and> int (length (jMembership j)) = exBatchSize xp
          \<and> list_all (\<lambda>req'. case map_of (Join records) req' of None \<Rightarrow> False
              | Some k \<Rightarrow> if AggregatesEnvelopes (exCell xp) \<and> jEnvelopeID j \<noteq> 0 \<and> jEnvelopeID k \<noteq> 0
                  then (jEnvelopeID j = jEnvelopeID k) = (Cohort req = Cohort req') else True) (Requests xp))
      (Requests xp)"
proof -
  let ?J = "Join records"
  note p = passed_checks [OF assms]
  note i = integrity_passed [OF p(3)]
  obtain topology spans where t: "TopologyMask (exCell xp) = Inr topology" and s: "Chain (exCell xp) = Inr spans"
    and carries: "\<And>req j. (req, j) \<in> set ?J \<Longrightarrow> \<forall>s. Valid s \<longrightarrow> snd (joinedStage j s) = mask_Has topology s"
    and ordered: "\<And>req j. (req, j) \<in> set ?J \<Longrightarrow>
      \<forall>sp \<in> set spans. sint (fst (joinedStage j (spStart sp))) \<le> sint (fst (joinedStage j (spEnd sp)))"
    using path_passed [OF p(4,5)] by metis
  have "\<exists>j. map_of ?J req = Some j \<and> jStatus j = StatusOK
      \<and> (\<forall>s \<in> set AllStages. snd (joinedStage j s) = mask_Has topology s)
      \<and> (\<forall>sp \<in> set spans. sint (fst (joinedStage j (spStart sp))) \<le> sint (fst (joinedStage j (spEnd sp))))
      \<and> int (length (jMembership j)) = exBatchSize xp
      \<and> (\<forall>req' \<in> set (Requests xp). case map_of ?J req' of None \<Rightarrow> False
            | Some k \<Rightarrow> if AggregatesEnvelopes (exCell xp) \<and> jEnvelopeID j \<noteq> 0 \<and> jEnvelopeID k \<noteq> 0
                then (jEnvelopeID j = jEnvelopeID k) = (Cohort req = Cohort req') else True)"
    if req: "req \<in> set (Requests xp)" for req
  proof -
    obtain j where j: "map_of ?J req = Some j" "jStatus j = StatusOK" using i(2) [OF req] by blast
    note here = map_of_SomeD [OF j(1)]
    have "case map_of ?J req' of None \<Rightarrow> False
        | Some k \<Rightarrow> if AggregatesEnvelopes (exCell xp) \<and> jEnvelopeID j \<noteq> 0 \<and> jEnvelopeID k \<noteq> 0
            then (jEnvelopeID j = jEnvelopeID k) = (Cohort req = Cohort req') else True"
      if r: "req' \<in> set (Requests xp)" for req'
    proof -
      obtain k where k: "map_of ?J req' = Some k" using i(2) [OF r] by blast
      show ?thesis using passed_envelope [OF assms _ _ _ here map_of_SomeD [OF k]] by (simp add: k)
    qed
    then show ?thesis
      using j carries [OF here] ordered [OF here] passed_batch [OF assms here] by (auto simp: Valid_AllStages [symmetric])
  qed
  then show ?thesis
    unfolding list_all_iff t s prod.case sum.case using passed_requests [OF assms] by fastforce
qed

text \<open>A run of one request at D0: the load generator's record and the backend's.\<close>

definition soloExpectation :: RunExpectation where
  "soloExpectation = (sampleExpectation CellD0)\<lparr>exCohortSize := 1, exExecutionsPerCohort := 1, exExecutions := 1,
     exExecutionCountDelta := 1, exInferenceCountDelta := 1, exBatchSizeHistogram := [(1, 1)]\<rparr>"

definition soloRun :: "Decoded list" where
  "soloRun =
     [let d = stamped EmitterLoadGen 4 0 [(StageSched, 10), (StageCohortSeal, 20), (StageClientSend, 30), (StageClientRecv, 94)]
      in d\<lparr>dRecord := SetMembership [UID (LogicalRequest 4 0)] ((dRecord d)\<lparr>rBatchSize := 1\<rparr>)\<rparr>,
      stamped EmitterTriton 4 0 [(StageQueueStart, 40), (StageComputeStart, 50), (StageComputeEnd, 80)]]"

text \<open>Membership by its lemmas (evaluating a UID counts to \<open>2^20\<close>), the other checks by evaluation.\<close>

lemma soloRun_membership: "ckPassed (checkMembership soloExpectation (Join soloRun))"
proof -
  have "map (\<lambda>(r, j). (r, jMembership j, jMembershipCount j, jBatchSize j, length (jMembershipBySource j))) (Join soloRun)
      = [(LogicalRequest 4 0, [UID (LogicalRequest 4 0)], 1, 1, 1)]"
    by code_simp
  then obtain j where J: "Join soloRun = [(LogicalRequest 4 0, j)]" and j: "jMembership j = [UID (LogicalRequest 4 0)]"
    "jMembershipCount j = 1" "jBatchSize j = 1" "length (jMembershipBySource j) = 1"
    by (auto simp: map_eq_Cons_conv)
  have "uidLogicalRequest (UID (LogicalRequest 4 0)) = LogicalRequest 4 0"
    by (simp add: UID_roundtrip_iff)
  then show ?thesis
    unfolding checkMembership_def Join_check unfolding J
    by (simp add: membershipDefects_def attestedDefects_def j Let_def soloExpectation_def sampleExpectation_def)
qed

lemma soloRun_conservation: "ckPassed (snd (checkConservation soloExpectation (Join soloRun)))"
  by code_simp

lemma soloRun_paths:
  "list_all ckPassed [checkPresence soloExpectation (Join soloRun), checkStageOwnership soloExpectation (Join soloRun),
     checkOrdering soloExpectation (Join soloRun), checkAdapterDispatch soloExpectation (Join soloRun),
     snd (checkExecutionSerialization soloExpectation (Join soloRun)), snd (checkFanOut soloExpectation (Join soloRun))]"
  by code_simp

lemma soloRun_records:
  "list_all ckPassed [snd (checkAggregation soloExpectation (Join soloRun)),
     checkRecordIntegrity soloExpectation (Join soloRun), checkClockDomain soloExpectation (Join soloRun),
     checkContamination soloExpectation]"
  by code_simp

lemma soloRun_passes: "vdPassed (Validate soloExpectation soloRun)"
proof -
  have "agFailedFormations (fst (checkAggregation soloExpectation (Join soloRun))) = []" by code_simp
  then show ?thesis
    using soloRun_membership soloRun_conservation soloRun_paths soloRun_records
    by (simp add: Validate_def Let_def split_beta FailedCohorts_def withoutCohorts_def checkFormation_passes)
qed

theorem passing_verdict_promises_witness:
  "set (map (\<lambda>d. recRequest (dRecord d)) soloRun) = set (Requests soloExpectation)"
  using passing_verdict_promises [OF soloRun_passes] by (rule conjunct1)

end
