(* ===== verification/Workload.thy ===== *)
theory Workload
  imports Identity
begin

text \<open>
  \<^verbatim>\<open>internal/workload/barrier.go\<close>: the load generator's release barrier. The critical
  section of \<^verbatim>\<open>Arrive\<close> is one function; blocking on the gate is the second step of a
  goroutine, so that any interleaving of any number of goroutines is a run of the step
  relation. The clock is injected in the code, so a reading is an argument here.
\<close>

section \<open>The barrier\<close>

record Barrier =
  bSize :: int
  bArrived :: int
  bGateClosed :: bool
  bSealAt :: int64

datatype barrier_error = SizeNotPositive int | NeedsClock

definition NewBarrier :: "int \<Rightarrow> bool \<Rightarrow> barrier_error + Barrier" where
  "NewBarrier sz hasClock =
     (if sz \<le> 0 then Inl (SizeNotPositive sz)
      else if \<not> hasClock then Inl NeedsClock
      else Inr \<lparr>bSize = sz, bArrived = 0, bGateClosed = False, bSealAt = 0\<rparr>)"

definition Size :: "Barrier \<Rightarrow> int" where
  "Size b = bSize b"

datatype panic = TooManyArrivals int int | CloseOfClosedGate

text \<open>\<^verbatim>\<open>Arrive\<close> up to the unlock: the arrival, and the seal by the last one.\<close>

definition Arrive :: "int64 \<Rightarrow> Barrier \<Rightarrow> panic + Barrier" where
  "Arrive now b =
     (if bSize b \<le> bArrived b then Inl (TooManyArrivals (bArrived b + 1) (bSize b))
      else let b' = b\<lparr>bArrived := bArrived b + 1\<rparr> in
        if bArrived b' = bSize b'
        then if bGateClosed b' then Inl CloseOfClosedGate
             else Inr (b'\<lparr>bSealAt := now, bGateClosed := True\<rparr>)
        else Inr b')"

definition Released :: "Barrier \<Rightarrow> int64 \<times> bool" where
  "Released b = (if bGateClosed b then (bSealAt b, True) else (0, False))"

record CohortLabel =
  cID :: CohortID
  cMembers :: "LogicalRequest list"
  cWarmup :: bool
  cScheduledAt :: int64
  cSealedAt :: int64

definition NewCohort :: "CohortID \<Rightarrow> nat \<Rightarrow> bool \<Rightarrow> CohortLabel" where
  "NewCohort i sz warmup = \<lparr>cID = i,
     cMembers = map (\<lambda>k. LogicalRequest i (of_nat k)) [0 ..< sz],
     cWarmup = warmup, cScheduledAt = 0, cSealedAt = 0\<rparr>"

section \<open>Goroutines at the barrier\<close>

datatype member = Idle | Blocked | Returned int64 | Panicked panic

type_synonym barrier_system = "Barrier \<times> member list"

inductive barrier_step :: "barrier_system \<Rightarrow> barrier_system \<Rightarrow> bool" where
  arrive_blocks: "i < length ms \<Longrightarrow> ms ! i = Idle \<Longrightarrow> Arrive now b = Inr b' \<Longrightarrow>
     barrier_step (b, ms) (b', ms[i := Blocked])"
| arrive_panics: "i < length ms \<Longrightarrow> ms ! i = Idle \<Longrightarrow> Arrive now b = Inl p \<Longrightarrow>
     barrier_step (b, ms) (b, ms[i := Panicked p])"
| gate_opens: "i < length ms \<Longrightarrow> ms ! i = Blocked \<Longrightarrow> bGateClosed b \<Longrightarrow>
     barrier_step (b, ms) (b, ms[i := Returned (bSealAt b)])"

definition barrier_start :: "int \<Rightarrow> nat \<Rightarrow> barrier_system \<Rightarrow> bool" where
  "barrier_start B n s \<longleftrightarrow> NewBarrier B True = Inr (fst s) \<and> snd s = replicate n Idle"

inductive_cases barrier_stepE: "barrier_step (b, ms) t"

definition arrivals :: "member list \<Rightarrow> nat" where
  "arrivals ms = length (filter (\<lambda>m. m = Blocked \<or> (\<exists>t. m = Returned t)) ms)"

definition barrier_inv :: "int \<Rightarrow> barrier_system \<Rightarrow> bool" where
  "barrier_inv B s \<longleftrightarrow> (let (b, ms) = s in
     bSize b = B \<and> 0 < B \<and> bArrived b \<le> B \<and> bArrived b = int (arrivals ms)
     \<and> (bGateClosed b \<longleftrightarrow> bArrived b = B)
     \<and> (\<forall>t. Returned t \<in> set ms \<longrightarrow> bGateClosed b \<and> t = bSealAt b)
     \<and> (\<forall>p. Panicked p \<in> set ms \<longrightarrow> p = TooManyArrivals (B + 1) B \<and> bGateClosed b))"

lemma length_filter_update:
  "i < length xs \<Longrightarrow> length (filter P (xs[i := x])) + (if P (xs ! i) then 1 else 0)
     = length (filter P xs) + (if P x then 1 else 0)"
proof (induction xs arbitrary: i)
  case (Cons y ys)
  then show ?case by (cases i) (auto split: nat.split)
qed simp

lemma arrivals_update:
  "i < length ms \<Longrightarrow> ms ! i = Idle \<Longrightarrow> arrivals (ms[i := Blocked]) = Suc (arrivals ms)"
  "i < length ms \<Longrightarrow> ms ! i = Idle \<Longrightarrow> arrivals (ms[i := Panicked p]) = arrivals ms"
  "i < length ms \<Longrightarrow> ms ! i = Blocked \<Longrightarrow> arrivals (ms[i := Returned t]) = arrivals ms"
  unfolding arrivals_def
  using length_filter_update [of i ms "\<lambda>m. m = Blocked \<or> (\<exists>t. m = Returned t)" Blocked]
    length_filter_update [of i ms "\<lambda>m. m = Blocked \<or> (\<exists>t. m = Returned t)" "Panicked p"]
    length_filter_update [of i ms "\<lambda>m. m = Blocked \<or> (\<exists>t. m = Returned t)" "Returned t"]
  by simp_all

lemma mem_update: "x \<in> set (xs[i := y]) \<Longrightarrow> x = y \<or> x \<in> set xs"
  using set_update_subset_insert by fastforce

lemma Arrive_cases:
  assumes "bArrived b < bSize b" "bGateClosed b \<longleftrightarrow> bArrived b = bSize b"
  shows "Arrive now b = Inr (b\<lparr>bArrived := bArrived b + 1,
      bSealAt := (if bArrived b + 1 = bSize b then now else bSealAt b),
      bGateClosed := (bArrived b + 1 = bSize b)\<rparr>)"
  using assms by (cases b) (simp add: Arrive_def Let_def)

lemma barrier_inv_step:
  assumes "barrier_step s t" and "barrier_inv B s"
  shows "barrier_inv B t"
  using assms
proof (cases rule: barrier_step.cases)
  case (arrive_blocks i ms now b b')
  then have lt: "bArrived b < bSize b" by (auto simp: Arrive_def split: if_splits)
  have inv: "barrier_inv B (b, ms)" using assms(2) arrive_blocks by simp
  then have "bGateClosed b \<longleftrightarrow> bArrived b = bSize b" by (simp add: barrier_inv_def)
  then have b': "b' = b\<lparr>bArrived := bArrived b + 1,
      bSealAt := (if bArrived b + 1 = bSize b then now else bSealAt b),
      bGateClosed := (bArrived b + 1 = bSize b)\<rparr>"
    using Arrive_cases [OF lt] arrive_blocks by simp
  then show ?thesis
    using arrive_blocks inv lt by (auto simp: barrier_inv_def arrivals_update dest: mem_update)
next
  case (arrive_panics i ms now b p)
  then have "bArrived b = bSize b \<and> p = TooManyArrivals (bSize b + 1) (bSize b)"
    using assms(2) Arrive_cases [of b now] by (auto simp: barrier_inv_def Arrive_def)
  then show ?thesis
    using arrive_panics assms(2) by (auto simp: barrier_inv_def arrivals_update dest!: mem_update)
next
  case (gate_opens i ms b)
  then show ?thesis
    using assms(2) by (auto simp: barrier_inv_def arrivals_update dest!: mem_update)
qed

lemma barrier_inv_start: "barrier_start B n s \<Longrightarrow> barrier_inv B s"
  by (cases s) (auto simp: barrier_start_def NewBarrier_def barrier_inv_def arrivals_def
      split: if_splits)

lemma arrivals_le: "arrivals ms \<le> length ms"
  by (simp add: arrivals_def)

text \<open>
  A run as it is observed: beside the system, what the clock read at each accepted arrival,
  in order. Every run of the system is one.
\<close>

inductive observed_step :: "int64 list \<times> barrier_system \<Rightarrow> int64 list \<times> barrier_system \<Rightarrow> bool" where
  observes_arrival: "i < length ms \<Longrightarrow> ms ! i = Idle \<Longrightarrow> Arrive now b = Inr b' \<Longrightarrow>
     observed_step (ts, b, ms) (ts @ [now], b', ms[i := Blocked])"
| observes_panic: "i < length ms \<Longrightarrow> ms ! i = Idle \<Longrightarrow> Arrive now b = Inl p \<Longrightarrow>
     observed_step (ts, b, ms) (ts, b, ms[i := Panicked p])"
| observes_return: "i < length ms \<Longrightarrow> ms ! i = Blocked \<Longrightarrow> bGateClosed b \<Longrightarrow>
     observed_step (ts, b, ms) (ts, b, ms[i := Returned (bSealAt b)])"

definition observed_start :: "int \<Rightarrow> nat \<Rightarrow> int64 list \<times> barrier_system \<Rightarrow> bool" where
  "observed_start B n = (\<lambda>(ts, s). ts = [] \<and> barrier_start B n s)"

lemma observed_step_of: "barrier_step s t \<Longrightarrow> \<exists>ts'. observed_step (ts, s) (ts', t)"
  by (cases rule: barrier_step.cases) (blast intro: observed_step.intros)+

lemma barrier_step_of: "observed_step x y \<Longrightarrow> barrier_step (snd x) (snd y)"
  by (cases rule: observed_step.cases) (auto intro: barrier_step.intros)

lemma observed_runs:
  "reach (barrier_start B n) barrier_step s \<longleftrightarrow> (\<exists>ts. reach (observed_start B n) observed_step (ts, s))"
proof
  show "\<exists>ts. reach (observed_start B n) observed_step (ts, s)" if "reach (barrier_start B n) barrier_step s"
    using that
  proof induction
    case (reach_start s)
    then show ?case by (auto intro!: exI [of _ "[]"] reach.reach_start simp: observed_start_def)
  next
    case (reach_step s t)
    then show ?case by (meson observed_step_of reach.reach_step)
  qed
  have "reach (barrier_start B n) barrier_step (snd x)" if "reach (observed_start B n) observed_step x" for x
    using that by induction (auto simp: observed_start_def intro: reach.intros barrier_step_of)
  then show "reach (barrier_start B n) barrier_step s" if "\<exists>ts. reach (observed_start B n) observed_step (ts, s)"
    using that by fastforce
qed

definition observed_inv :: "int \<Rightarrow> int64 list \<times> barrier_system \<Rightarrow> bool" where
  "observed_inv B = (\<lambda>(ts, b, ms). barrier_inv B (b, ms) \<and> length ts = arrivals ms
     \<and> (bGateClosed b \<longrightarrow> bSealAt b = last ts))"

lemma observed_inv_step:
  assumes "observed_step x y" and inv: "observed_inv B x"
  shows "observed_inv B y"
proof -
  have "barrier_inv B (snd y)"
    using barrier_inv_step [OF barrier_step_of [OF assms(1)]] inv by (auto simp: observed_inv_def)
  with assms show ?thesis
  proof (cases rule: observed_step.cases)
    case (observes_arrival i ms now b b' ts)
    have "bArrived b < bSize b" using observes_arrival(5) by (auto simp: Arrive_def split: if_splits)
    then have "bGateClosed b' \<longrightarrow> bSealAt b' = now"
      using Arrive_cases [of b now] observes_arrival inv by (auto simp: observed_inv_def barrier_inv_def)
    with observes_arrival inv \<open>barrier_inv B (snd y)\<close> show ?thesis
      by (simp add: observed_inv_def arrivals_update)
  qed (auto simp: observed_inv_def arrivals_update)
qed

interpretation observed: step_invariant "observed_start B n" observed_step "observed_inv B" for B n
proof unfold_locales
  show "observed_inv B x" if "observed_start B n x" for x
    using that barrier_inv_start [of B n "snd x"]
    by (auto simp: observed_start_def observed_inv_def barrier_start_def arrivals_def NewBarrier_def split: if_splits)
qed (rule observed_inv_step)

text \<open>
  C3. The barrier releases a cohort exactly once and never early. With any number of
  goroutines and in every interleaving, where \<open>ts\<close> is what the clock read at each accepted
  arrival, in order: at most \<open>B\<close> arrivals are accepted; the barrier is released exactly when
  the \<open>B\<close>-th has been, at what the clock read at that last arrival and at no other; no
  member returns before it and every one that returns reads that one seal instant; a surplus arrival
  panics rather than joining, and the gate is never closed twice.
\<close>

theorem barrier_release:
  assumes "reach (observed_start B n) observed_step (ts, b, ms)"
  shows "length ts = arrivals ms \<and> int (length ts) \<le> B
    \<and> Released b = (if int (length ts) = B then (last ts, True) else (0, False))
    \<and> (\<forall>t. Returned t \<in> set ms \<longrightarrow> int (length ts) = B \<and> t = last ts)
    \<and> (\<forall>p. Panicked p \<in> set ms \<longrightarrow> int (length ts) = B \<and> p = TooManyArrivals (B + 1) B)"
  using observed.reach_inv [OF assms] by (auto simp: observed_inv_def barrier_inv_def Released_def)

text \<open>Two arrivals, at 5 and at 9, and a third.\<close>

theorem barrier_release_witness:
  "\<exists>b. reach (observed_start 2 3) observed_step ([5, 9], b, [Returned 9, Blocked, Panicked (TooManyArrivals 3 2)])
     \<and> Released b = (9, True)"
proof -
  let ?b0 = "\<lparr>bSize = 2, bArrived = 0, bGateClosed = False, bSealAt = 0\<rparr>"
  let ?b1 = "\<lparr>bSize = 2, bArrived = 1, bGateClosed = False, bSealAt = 0\<rparr>"
  let ?b2 = "\<lparr>bSize = 2, bArrived = 2, bGateClosed = True, bSealAt = 9\<rparr>"
  have "reach (observed_start 2 3) observed_step ([], ?b0, [Idle, Idle, Idle])"
    by (rule reach_start) (simp add: observed_start_def barrier_start_def NewBarrier_def numeral_3_eq_3)
  then have "reach (observed_start 2 3) observed_step ([5], ?b1, [Blocked, Idle, Idle])"
    by (rule reach_step) (use observes_arrival [of 0 "[Idle, Idle, Idle]" 5 ?b0 ?b1 "[]"] in \<open>simp add: Arrive_def\<close>)
  then have "reach (observed_start 2 3) observed_step ([5, 9], ?b2, [Blocked, Blocked, Idle])"
    by (rule reach_step) (use observes_arrival [of 1 "[Blocked, Idle, Idle]" 9 ?b1 ?b2 "[5]"] in \<open>simp add: Arrive_def\<close>)
  then have "reach (observed_start 2 3) observed_step ([5, 9], ?b2, [Returned 9, Blocked, Idle])"
    by (rule reach_step) (use observes_return [of 0 "[Blocked, Blocked, Idle]" ?b2 "[5, 9]"] in simp)
  then have r: "reach (observed_start 2 3) observed_step
      ([5, 9], ?b2, [Returned 9, Blocked, Panicked (TooManyArrivals 3 2)])"
    by (rule reach_step)
       (use observes_panic [of 2 "[Returned 9, Blocked, Idle]" 0 ?b2 _ "[5, 9]"] in \<open>simp add: Arrive_def\<close>)
  have "Released ?b2 = (9, True)" using barrier_release [OF r] by simp
  with r show ?thesis by blast
qed

text \<open>
  A cohort's labels: \<^verbatim>\<open>NewCohort\<close> mints each ordinal below the size once, in order, and
  the UIDs that travel in the tensors are pairwise different and resolve back to the
  member, for every cohort size the manifest allows.
\<close>

theorem NewCohort_UIDs:
  assumes "n \<le> MaxOrdinal + 1"
  shows "map (unat \<circ> Ordinal) (cMembers (NewCohort c n w)) = [0 ..< n]
    \<and> distinct (map UID (cMembers (NewCohort c n w)))
    \<and> map (uidLogicalRequest \<circ> UID) (cMembers (NewCohort c n w)) = cMembers (NewCohort c n w)"
proof -
  have k: "unat (of_nat k :: uint32) = k" if "k < n" for k
    using that assms by (simp add: unat_of_nat take_bit_nat_eq_self_iff MaxOrdinal_def)
  then have small: "unat (Ordinal r) \<le> MaxOrdinal" if "r \<in> set (cMembers (NewCohort c n w))" for r
    using that assms by (auto simp: NewCohort_def)
  have ords: "map (unat \<circ> Ordinal) (cMembers (NewCohort c n w)) = [0 ..< n]"
    using k by (auto simp: NewCohort_def intro!: map_idI)
  then have "distinct (cMembers (NewCohort c n w))"
    by (metis distinct_map distinct_upt)
  moreover have "inj_on UID (set (cMembers (NewCohort c n w)))"
    by (rule inj_onI) (use small UID_inj in blast)
  ultimately show ?thesis
    using ords small by (auto simp: distinct_map UID_roundtrip_iff intro!: map_idI)
qed

theorem NewCohort_UIDs_witness:
  "distinct (map UID (cMembers (NewCohort 3 16 False)))"
  using NewCohort_UIDs [of 16 3 False] by (simp add: MaxOrdinal_def)

end
