(* ===== verification/Runner.thy ===== *)
theory Runner
  imports Archive Clients Gateway Verdict Workload
begin

text \<open>
  \<^verbatim>\<open>internal/runner\<close>: the run itself (\<^verbatim>\<open>run.go\<close>), the bundle it leaves (\<^verbatim>\<open>bundle.go\<close>) and the
  expectation its verdict is judged against (\<^verbatim>\<open>validate.go\<close>). What a member's goroutine meets
  (clock readings, the path's answer, the deadline, the writer's acceptance) is an argument; the
  goroutines of a cohort are given in the order they finished. Files, processes and progress
  lines are left out.
\<close>

section \<open>The bundle\<close>

abbreviation (input) StateCompleted :: string where "StateCompleted \<equiv> ''completed''"
abbreviation (input) StateFailed :: string where "StateFailed \<equiv> ''failed''"

record StreamRecord =
  stEmitter :: Emitter
  stWritten :: uint64
  stDropped :: uint64

record ModelEntry =
  enName :: string
  enKind :: EntryKind
  enArtifactID :: string
  enArtifactDigest :: string
  enConfigDigest :: string
  enMaxBatchSize :: int
  enInstanceKind :: string
  enInstanceCount :: int

record ServingConfig =
  svMaxMessageBytes :: int
  svInitialWindowSize :: int
  svInitialConnWindowSize :: int

record ProcessRecord =
  prSchemaVersion :: int
  prExperiment :: string
  prSession :: string
  prRun :: string
  prCell :: Cell
  prClockDomain :: string
  prExecutor :: Kind
  prModelEntry :: string
  prDownstream :: TransportConfig
  prServing :: ServingConfig
  prFeatureWidth :: int
  prPayloadFloats :: int

record Bundle =
  bnRun :: string
  bnCell :: Cell
  bnState :: string
  bnManifest :: "Manifest option"
  bnClockDomain :: "string option"
  bnEnvelopeSchemaVersion :: int
  bnAdapter :: "ProcessRecord option"
  bnModelEntry :: ModelEntry
  bnModelIdentity :: ModelIdentity
  bnTritonStats :: StatisticsDelta
  bnStreams :: "StreamRecord list"
  bnFirstRecordedCohort :: CohortID

definition RecordedOnly :: "Decoded list \<Rightarrow> CohortID \<Rightarrow> Decoded list" where
  "RecordedOnly records firstRecorded = filter (\<lambda>d. \<not> rCohort (dRecord d) < firstRecorded) records"

definition streamRecord :: "Emitter \<Rightarrow> uint64 \<times> uint64 \<Rightarrow> StreamRecord" where
  "streamRecord emitter stats = \<lparr>stEmitter = emitter, stWritten = fst stats, stDropped = snd stats\<rparr>"

datatype runner_error =
    NoManifest
  | ArchiveSchema uint32
  | StreamUnreadable
  | StatsUnreadable
  | StreamLost Emitter uint64 nat
  | ServesOther string string
  | InstanceOverlap int
  | NoInput string
  | NoUIDSetOutput
  | UnbatchedBatches int
  | UnbatchedDynamic
  | RequestFailed LogicalRequest
  | RecordDropped LogicalRequest
  | NoBarrier
  | CollectFailed trace_error
  | BackendRecordDropped LogicalRequest
  | MissingTraces nat nat LogicalRequest
  | VerdictsDisagree bool bool

text \<open>A stream of another process: its records as read back, and the counters it left.\<close>

definition externalStreamRecord :: "Emitter \<Rightarrow> Decoded list option \<Rightarrow> (uint64 \<times> uint64) option
    \<Rightarrow> runner_error + StreamRecord" where
  "externalStreamRecord emitter records stats =
     (case records of None \<Rightarrow> Inl StreamUnreadable
      | Some records \<Rightarrow>
          (case stats of None \<Rightarrow> Inl StatsUnreadable
           | Some stats \<Rightarrow>
               if fst stats \<noteq> of_nat (length records) then Inl (StreamLost emitter (fst stats) (length records))
               else Inr (streamRecord emitter stats)))"

section \<open>The verdict's expectation\<close>

definition runExpectation :: "Bundle \<Rightarrow> runner_error + RunExpectation" where
  "runExpectation b =
     (case bnManifest b of None \<Rightarrow> Inl NoManifest
      | Some m \<Rightarrow>
          Inr \<lparr>exRun = bnRun b, exCell = bnCell b,
            exClockDomain = (case bnClockDomain b of None \<Rightarrow> [] | Some d \<Rightarrow> d),
            exCohortSize = mcSize (mnCohort m), exCohortCount = mcCount (mnCohort m),
            exFirstCohortID = of_int (mcWarmupCount (mnCohort m)),
            exExecutionsPerCohort = meExecutionsPerCohort (mnExpectedEvidence m),
            exBatchSize = meBatchSize (mnExpectedEvidence m), exExecutions = meExecutions (mnExpectedEvidence m),
            exToleranceFraction = mnToleranceFraction m,
            exMaxAdapterDispatchWaitNanos = meMaxAdapterDispatchWaitNanos (mnExpectedEvidence m),
            exMaxDispatchSkewNanos = meMaxDispatchSkewNanos (mnExpectedEvidence m),
            exExecutionCountDelta = snExecutionCount (bnTritonStats b),
            exInferenceCountDelta = snInferenceCount (bnTritonStats b),
            exBatchSizeHistogram = snBatchSizes (bnTritonStats b),
            exDroppedRecords = foldl (\<lambda>dropped s. dropped + stDropped s) 0 (bnStreams b)\<rparr>)"

definition checkSchemaVersions :: "Decoded list \<Rightarrow> runner_error option" where
  "checkSchemaVersions records = (case find (\<lambda>d. dSchemaVersion d \<noteq> of_nat SchemaVersion) records of
     None \<Rightarrow> None | Some d \<Rightarrow> Some (ArchiveSchema (dSchemaVersion d)))"

definition ValidateBundle :: "Bundle \<Rightarrow> Decoded list \<Rightarrow> runner_error + Verdict" where
  "ValidateBundle b records =
     (case runExpectation b of Inl e \<Rightarrow> Inl e
      | Inr xp \<Rightarrow> (case checkSchemaVersions records of Some e \<Rightarrow> Inl e | None \<Rightarrow> Inr (Verdict.Validate xp records)))"

definition ValidateStreams :: "Bundle \<Rightarrow> Decoded list option list \<Rightarrow> runner_error + Verdict" where
  "ValidateStreams b streams =
     (case runExpectation b of Inl e \<Rightarrow> Inl e
      | Inr xp \<Rightarrow>
          if None \<in> set streams then Inl StreamUnreadable
          else Inr (Verdict.Validate xp (RecordedOnly (concat (map the streams)) (bnFirstRecordedCohort b))))"

text \<open>\<^verbatim>\<open>archive\<close>: the records the Parquet archive is written from.\<close>

definition archiveRecords :: "Bundle \<Rightarrow> Decoded list option list \<Rightarrow> runner_error + Decoded list" where
  "archiveRecords b streams =
     (if None \<in> set streams then Inl StreamUnreadable
      else Inr (RecordedOnly (concat (map the streams)) (bnFirstRecordedCohort b)))"

definition finalizeVerdict :: "Bundle \<Rightarrow> Decoded list \<Rightarrow> Decoded list option list \<Rightarrow> runner_error + Verdict" where
  "finalizeVerdict b archived streams =
     (case ValidateBundle b archived of Inl e \<Rightarrow> Inl e
      | Inr verdict \<Rightarrow>
          (case ValidateStreams b streams of Inl e \<Rightarrow> Inl e
           | Inr streamVerdict \<Rightarrow>
               if vdPassed streamVerdict \<noteq> vdPassed verdict
               then Inl (VerdictsDisagree (vdPassed verdict) (vdPassed streamVerdict)) else Inr verdict))"

datatype rejection = RejectedFor nat Defect | RejectedBy string | RejectedUnexplained

definition describeRejection :: "Verdict \<Rightarrow> rejection" where
  "describeRejection v =
     (if 0 < length (verdictDefects v) then RejectedFor (length (verdictDefects v)) (verdictDefects v ! 0)
      else case find (\<lambda>c. \<not> ckPassed c) (vdChecks v) of
        Some c \<Rightarrow> RejectedBy (ckName c) | None \<Rightarrow> RejectedUnexplained)"

section \<open>What is served\<close>

definition containsString :: "string list \<Rightarrow> string \<Rightarrow> bool" where
  "containsString haystack needle = list_ex (\<lambda>s. s = needle) haystack"

definition verifyServedEntry :: "ModelIdentity \<Rightarrow> ModelEntry \<Rightarrow> Manifest \<Rightarrow> runner_error option" where
  "verifyServedEntry i entry m =
     (if miName i \<noteq> enName entry then Some (ServesOther (miName i) (enName entry))
      else if miInstanceCount i \<noteq> 1 then Some (InstanceOverlap (miInstanceCount i))
      else case find (\<lambda>want. \<not> containsString (miInputs i) want) [InputData, InputPadding, InputUID] of
        Some want \<Rightarrow> Some (NoInput want)
      | None \<Rightarrow>
          if \<not> containsString (miOutputs i) OutputUIDSet then Some NoUIDSetOutput
          else if mmEntry (mnModel m) = EntryUnbatched
          then (if miMaxBatchSize i \<noteq> 0 then Some (UnbatchedBatches (miMaxBatchSize i))
                else if miDynamicBatchingEnabled i then Some UnbatchedDynamic else None)
          else None)"

section \<open>Releasing a cohort\<close>

record clientOutcome =
  coResult :: pathResult
  coStatus :: Status
  coSeq :: uint64

text \<open>What one member's goroutine met; the answer \<open>None\<close> is the path's error.\<close>

record memberRun =
  mbSend :: int64
  mbRecv :: int64
  mbAnswer :: "pathResult option"
  mbTimedOut :: bool
  mbRecorded :: "uint64 \<times> bool"

definition noResult :: pathResult where "noResult = \<lparr>ptMembership = [], ptBatchSize = 0\<rparr>"

definition runStatus :: "memberRun \<Rightarrow> Status" where
  "runStatus r = (if mbAnswer r \<noteq> None then StatusOK else if mbTimedOut r then StatusTimeout else StatusError)"

definition loadgenRecord :: "Cell \<Rightarrow> uint32 \<Rightarrow> int64 \<Rightarrow> int64 \<Rightarrow> LogicalRequest \<Rightarrow> memberRun \<Rightarrow> Record" where
  "loadgenRecord cell logicalBytes scheduledAt seal member r =
     (let rec = zeroRecord\<lparr>rEmitter := EmitterLoadGen, rCohort := Cohort member, rOrdinal := Ordinal member,
            rLogicalBytes := logicalBytes\<rparr>;
          rec = SetStage StageSched scheduledAt rec;
          rec = (if SealOwner cell = EmitterLoadGen then SetStage StageCohortSeal seal rec else rec);
          rec = SetStage StageClientSend (mbSend r) rec;
          rec = SetStage StageClientRecv (mbRecv r) rec;
          rec = rec\<lparr>rStatus := runStatus r\<rparr>
      in case mbAnswer r of None \<Rightarrow> rec
         | Some result \<Rightarrow> SetMembership (ptMembership result) (rec\<lparr>rBatchSize := of_int (ptBatchSize result)\<rparr>))"

text \<open>
  One goroutine's turn at the shared state: the outcomes by member, the first error, and the
  records handed to the writer (none at all during warm-up, where \<open>recording\<close> is false).
\<close>

definition finishRun :: "bool \<Rightarrow> (LogicalRequest \<Rightarrow> memberRun \<Rightarrow> Record)
    \<Rightarrow> (LogicalRequest \<times> clientOutcome) list \<times> runner_error option \<times> Record list
    \<Rightarrow> LogicalRequest \<times> memberRun
    \<Rightarrow> (LogicalRequest \<times> clientOutcome) list \<times> runner_error option \<times> Record list" where
  "finishRun recording record = (\<lambda>(outcomes, firstErr, records) (member, r).
     let (records, sq, ok) = (if recording then (records @ [record member r], mbRecorded r) else (records, 0, True));
         firstErr = (if \<not> ok \<and> firstErr = None then Some (RecordDropped member) else firstErr);
         outcomes = AList.update member
           \<lparr>coResult = (case mbAnswer r of None \<Rightarrow> noResult | Some p \<Rightarrow> p), coStatus = runStatus r, coSeq = sq\<rparr> outcomes;
         firstErr = (if mbAnswer r = None \<and> firstErr = None then Some (RequestFailed member) else firstErr)
     in (outcomes, firstErr, records))"

definition releaseCohort :: "Cell \<Rightarrow> uint32 \<Rightarrow> bool \<Rightarrow> int64 \<Rightarrow> int64 \<Rightarrow> (LogicalRequest \<times> memberRun) list
    \<Rightarrow> (LogicalRequest \<times> clientOutcome) list \<times> runner_error option \<times> Record list" where
  "releaseCohort cell logicalBytes recording scheduledAt seal finished =
     (if finished = [] then ([], Some NoBarrier, [])
      else foldl (finishRun recording (loadgenRecord cell logicalBytes scheduledAt seal)) ([], None, []) finished)"

section \<open>The backend's records\<close>

definition traceRecord :: "LogicalRequest \<Rightarrow> TraceEvent \<Rightarrow> Status \<Rightarrow> Record" where
  "traceRecord req tr status =
     (let rec = zeroRecord\<lparr>rEmitter := EmitterTriton, rCohort := Cohort req, rOrdinal := Ordinal req,
            rExecutionID := teTraceID tr, rStatus := status\<rparr>;
          rec = SetStage StageQueueStart (teQueueStart tr) rec;
          rec = SetStage StageComputeStart (teComputeStart tr) rec
      in SetStage StageComputeEnd (teComputeEnd tr) rec)"

definition tracesByRequest :: "TraceEvent list \<Rightarrow> (LogicalRequest \<times> clientOutcome) list
    \<Rightarrow> (LogicalRequest \<times> TraceEvent) list" where
  "tracesByRequest traces results = foldl (\<lambda>byRequest tr.
     if map_of results (teRequest tr) = None then byRequest
     else AList.update (teRequest tr) tr byRequest) [] traces"

text \<open>The loop over the results, in whatever order the map is walked.\<close>

fun backendLoop :: "(LogicalRequest \<times> TraceEvent) list \<Rightarrow> (Record \<Rightarrow> bool) \<Rightarrow> (LogicalRequest \<times> clientOutcome) list
    \<Rightarrow> Record list \<times> (runner_error + LogicalRequest list)" where
  "backendLoop byRequest accepts [] = ([], Inr [])"
| "backendLoop byRequest accepts ((req, out) # rest) =
     (case (case map_of byRequest req of None \<Rightarrow> None | Some tr \<Rightarrow> if Complete tr then Some tr else None) of
        None \<Rightarrow>
          if coStatus out \<noteq> StatusOK then backendLoop byRequest accepts rest
          else let (records, missing) = backendLoop byRequest accepts rest
            in (records, case missing of Inl e \<Rightarrow> Inl e | Inr ms \<Rightarrow> Inr (req # ms))
      | Some tr \<Rightarrow>
          let rec = traceRecord req tr (coStatus out) in
          if \<not> accepts rec then ([rec], Inl (BackendRecordDropped req))
          else let (records, missing) = backendLoop byRequest accepts rest in (rec # records, missing))"

definition recordBackendTimestamps :: "TraceEvent list \<Rightarrow> (LogicalRequest \<times> clientOutcome) list \<Rightarrow> (Record \<Rightarrow> bool)
    \<Rightarrow> Record list \<times> runner_error option" where
  "recordBackendTimestamps traces results accepts =
     (let (records, missing) = backendLoop (tracesByRequest traces results) accepts results
      in (records, case missing of Inl e \<Rightarrow> Some e
           | Inr [] \<Rightarrow> None
           | Inr (m # ms) \<Rightarrow> Some (MissingTraces (Suc (length ms)) (length results) m)))"

text \<open>\<^verbatim>\<open>execute\<close> after the last cohort: the traces of what was released, then the records made of them.\<close>

definition collectBackend :: "(LogicalRequest \<times> clientOutcome) list \<Rightarrow> int option list option \<Rightarrow> bool
    \<Rightarrow> (listing \<times> (string \<Rightarrow> trace_error + TraceEvent list)) poll list \<Rightarrow> TraceCollector \<Rightarrow> (Record \<Rightarrow> bool)
    \<Rightarrow> (runner_error + Record list) option" where
  "collectBackend results setting accepted polls c accepts =
     (let sent = map fst results in
      case Collect_traces sent setting accepted polls c of None \<Rightarrow> None
      | Some ((Some e, events, files), c) \<Rightarrow> Some (Inl (CollectFailed e))
      | Some ((None, events, files), c) \<Rightarrow>
          (case recordBackendTimestamps events results accepts of
             (records, Some e) \<Rightarrow> Some (Inl e)
           | (records, None) \<Rightarrow> Some (Inr records)))"


section \<open>The runner and the validator agree on the run\<close>

lemma unat_of_int32: "0 \<le> x \<Longrightarrow> x < 2 ^ 32 \<Longrightarrow> unat (of_int x :: uint32) = nat x"
  by (simp add: unat_eq_nat_uint uint_word_of_int_eq take_bit_int_eq_self)

lemma NewCohort_small:
  assumes "n \<le> MaxOrdinal" and "r \<in> set (cMembers (NewCohort c n w))"
  shows "Cohort r = c" and "unat (Ordinal r) < n"
proof -
  obtain k where k: "k < n" "r = LogicalRequest c (of_nat k)" using assms(2) by (auto simp: NewCohort_def)
  then show "Cohort r = c" by simp
  have "k < 2 ^ 32" using k(1) assms(1) by (simp add: MaxOrdinal_def)
  then show "unat (Ordinal r) < n" using k by (simp add: unat_of_nat32)
qed

lemma distinct_NewCohort:
  assumes "n \<le> MaxOrdinal"
  shows "distinct (cMembers (NewCohort c n w))"
proof -
  have "inj_on (\<lambda>k. LogicalRequest c (of_nat k)) {0 ..< n}"
  proof (rule inj_onI)
    fix k l assume "k \<in> {0 ..< n}" "l \<in> {0 ..< n}" "LogicalRequest c (of_nat k) = LogicalRequest c (of_nat l)"
    moreover then have "k < 2 ^ 32" "l < 2 ^ 32" using assms by (auto simp: MaxOrdinal_def)
    ultimately show "k = l" by (metis LogicalRequest.inject unat_of_nat32)
  qed
  then show ?thesis by (simp add: NewCohort_def distinct_map)
qed

text \<open>The cohorts a run records, as the runner mints them.\<close>

definition recordedCohorts :: "Manifest \<Rightarrow> LogicalRequest list list" where
  "recordedCohorts m = map (\<lambda>i. cMembers (NewCohort (of_int (mcWarmupCount (mnCohort m) + int i))
     (nat (mcSize (mnCohort m))) False)) [0 ..< nat (mcCount (mnCohort m))]"

lemma Requests_recorded:
  assumes "bnManifest b = Some m" and "runExpectation b = Inr xp"
  shows "Requests xp = concat (recordedCohorts m)"
  using assms by (auto simp: runExpectation_def Requests_def recordedCohorts_def NewCohort_def)

lemma recorded_cohort_ids:
  assumes "0 \<le> warm" and "warm + n \<le> 2 ^ 32" and "i < nat n"
  shows "unat (of_int (warm + int i) :: uint32) = nat warm + i"
  using assms by (subst unat_of_int32) auto

lemma distinct_blocks:
  "(\<And>i. i < k \<Longrightarrow> distinct (f i)) \<Longrightarrow> (\<And>i j. i < k \<Longrightarrow> j < k \<Longrightarrow> i \<noteq> j \<Longrightarrow> set (f i) \<inter> set (f j) = {})
   \<Longrightarrow> distinct (concat (map f [0 ..< k]))"
proof (induction k)
  case (Suc k)
  have d: "x \<notin> set (f k)" if "i < k" "x \<in> set (f i)" for i x using Suc.prems(2) [of i k] that by auto
  then have "(\<Union>i \<in> {0 ..< k}. set (f i)) \<inter> set (f k) = {}" by auto
  moreover have "distinct (concat (map f [0 ..< k]))" using Suc by simp
  moreover have "distinct (f k)" using Suc.prems(1) by simp
  ultimately show ?case by simp
qed simp

lemma distinct_recorded:
  assumes "nat (mcSize (mnCohort m)) \<le> MaxOrdinal" and "0 \<le> mcWarmupCount (mnCohort m)"
    and "mcWarmupCount (mnCohort m) + mcCount (mnCohort m) \<le> 2 ^ 32"
  shows "distinct (concat (recordedCohorts m))"
proof -
  let ?w = "mcWarmupCount (mnCohort m)" and ?n = "nat (mcSize (mnCohort m))" and ?c = "nat (mcCount (mnCohort m))"
  let ?members = "\<lambda>i. cMembers (NewCohort (of_int (?w + int i)) ?n False)"
  have disjoint: "set (?members i) \<inter> set (?members j) = {}" if "i < ?c" "j < ?c" "i \<noteq> j" for i j
  proof (rule ccontr)
    assume "set (?members i) \<inter> set (?members j) \<noteq> {}"
    then obtain r where "r \<in> set (?members i)" "r \<in> set (?members j)" by auto
    then have "(of_int (?w + int i) :: uint32) = of_int (?w + int j)" using NewCohort_small(1) [OF assms(1)] by metis
    then show False using that recorded_cohort_ids [OF assms(2,3)] by (metis add_left_cancel)
  qed
  show ?thesis
    unfolding recordedCohorts_def using distinct_NewCohort [OF assms(1)] disjoint by (intro distinct_blocks) auto
qed

text \<open>The first recorded cohort's id separates the warm-up from the recorded cohorts.\<close>

lemma recorded_from_first:
  assumes "nat (mcSize (mnCohort m)) \<le> MaxOrdinal" and "0 \<le> mcWarmupCount (mnCohort m)"
    and "mcWarmupCount (mnCohort m) + mcCount (mnCohort m) \<le> 2 ^ 32" and "r \<in> set (concat (recordedCohorts m))"
  shows "\<not> Cohort r < of_int (mcWarmupCount (mnCohort m))"
proof -
  obtain i where i: "i < nat (mcCount (mnCohort m))"
    "r \<in> set (cMembers (NewCohort (of_int (mcWarmupCount (mnCohort m) + int i)) (nat (mcSize (mnCohort m))) False))"
    using assms(4) by (auto simp: recordedCohorts_def)
  then have "unat (Cohort r) = nat (mcWarmupCount (mnCohort m)) + i"
    using NewCohort_small(1) [OF assms(1)] recorded_cohort_ids [OF assms(2,3)] by metis
  then show ?thesis using i(1) assms(2,3) by (simp add: word_less_nat_alt unat_of_int32)
qed

lemma warmup_before_first:
  assumes "nat (mcSize (mnCohort m)) \<le> MaxOrdinal" and "0 \<le> mcWarmupCount (mnCohort m)"
    and "mcWarmupCount (mnCohort m) + mcCount (mnCohort m) \<le> 2 ^ 32" and "1 \<le> mcCount (mnCohort m)"
    and "i < nat (mcWarmupCount (mnCohort m))"
    and "r \<in> set (cMembers (NewCohort (of_nat i) (nat (mcSize (mnCohort m))) True))"
  shows "Cohort r < of_int (mcWarmupCount (mnCohort m))"
proof -
  have "i < 2 ^ 32" using assms(2-5) by simp
  then have "unat (Cohort r) = i" using NewCohort_small(1) [OF assms(1,6)] by (simp add: unat_of_nat32)
  then show ?thesis using assms(2-5) by (simp add: word_less_nat_alt unat_of_int32)
qed



definition sampleManifest :: "Cell \<Rightarrow> Manifest" where
  "sampleManifest cell = \<lparr>mnSchemaVersion = 1, mnDescription = [], mnExperiment = ''e'', mnSession = ''s'', mnRun = ''r'',
     mnCell = cell, mnEnvironment = ''lab'',
     mnCohort = \<lparr>mcSize = 2, mcCount = 2, mcWarmupCount = 1, mcFormationDeadlineMillis = (if AggregatesEnvelopes cell then 50 else 0)\<rparr>,
     mnModel = \<lparr>mmCatalog = ''c'', mmArtifactDir = ''d'', mmRuntimeDir = ''m'', mmArtifactID = ''a'', mmEntry = EntryUnbatched,
        mmExpectedDigest = []\<rparr>,
     mnWorkload = \<lparr>mwSeed = 1, mwReleaseMode = ReleaseFixedCohort, mwInterCohortGapMillis = 0, mwRequestTimeoutMillis = 1000\<rparr>,
     mnTransport = \<lparr>mtTritonEndpoint = ''t'', mtProxyEndpoint = (if UsesProxy cell then ''p'' else []), mtAdapterEndpoint = [],
        mtMaxMessageBytes = 1000, mtInitialWindowSize = 0, mtInitialConnWindowSize = 0\<rparr>,
     mnGC = \<lparr>mgGOGC = 100, mgGOMEMLIMIT = 1000000, mgSampleMillis = 20\<rparr>,
     mnTracing = \<lparr>mtMode = ''triton'', mtTraceDir = ''traces''\<rparr>, mnBundleDir = ''out'',
     mnExpectedEvidence = \<lparr>meExecutions = 4, meExecutionsPerCohort = 2, meBatchSize = 1,
        meMaxAdapterDispatchWaitNanos = 1000000, meMaxDispatchSkewNanos = 500000\<rparr>,
     mnToleranceFraction = 1 / 20\<rparr>"

lemma sampleManifest_valid: "cell \<in> {CellD0, CellF00, CellF10} \<Longrightarrow> Manifest_Validate (sampleManifest cell) = None"
  unfolding Manifest_Validate_None Let_def
  by (auto simp: sampleManifest_def requiredFields_def Identity.Implemented_def implementedCells_def UsesProxy_def
      AggregatesEnvelopes_def VectorizesCompute_def MaxOrdinal_def wrap64_def)

definition sampleBundle :: "Cell \<Rightarrow> Bundle" where
  "sampleBundle cell = \<lparr>bnRun = ''r'', bnCell = cell, bnState = StateCompleted, bnManifest = Some (sampleManifest cell),
     bnClockDomain = Some ''clk'', bnEnvelopeSchemaVersion = 1, bnAdapter = None,
     bnModelEntry = \<lparr>enName = ''a_unbatched'', enKind = EntryUnbatched, enArtifactID = ''a'', enArtifactDigest = ''x'',
        enConfigDigest = ''y'', enMaxBatchSize = 0, enInstanceKind = ''KIND_GPU'', enInstanceCount = 1\<rparr>,
     bnModelIdentity = \<lparr>miName = ''a_unbatched'', miVersions = [''1''], miPlatform = [], miBackend = ''onnxruntime'',
        miMaxBatchSize = 0, miInstanceCount = 1, miInstanceKind = ''KIND_GPU'', miDynamicBatchingEnabled = False,
        miInputs = [InputData, InputPadding, InputUID], miOutputs = [OutputData, OutputUIDSet]\<rparr>,
     bnTritonStats = \<lparr>snModel = ''a_unbatched'', snInferenceCount = 4, snExecutionCount = 4, snBatchSizes = [(1, 4)]\<rparr>,
     bnStreams = [streamRecord EmitterLoadGen (4, 0), streamRecord EmitterTriton (4, 0)], bnFirstRecordedCohort = 1\<rparr>"



section \<open>A cohort's records\<close>

lemma loadgenRecord_fields:
  fixes cell bytes sched seal member r
  defines "q \<equiv> loadgenRecord cell bytes sched seal member r"
  shows "recRequest q = member" "rEmitter q = EmitterLoadGen" "rStatus q = runStatus r" "rLogicalBytes q = bytes"
    "\<not> rHasDispatch q" "rEnvelopeID q = 0"
    "MembershipUIDs q = (case mbAnswer r of None \<Rightarrow> [] | Some p \<Rightarrow> take MaxMembership (ptMembership p))"
    "rMembershipCount q = (case mbAnswer r of None \<Rightarrow> 0 | Some p \<Rightarrow> of_nat (length (ptMembership p)))"
    "rBatchSize q = (case mbAnswer r of None \<Rightarrow> 0 | Some p \<Rightarrow> of_int (ptBatchSize p))"
    "recStage q s = (if s = StageSched then (sched, True)
       else if s = StageCohortSeal \<and> SealOwner cell = EmitterLoadGen then (seal, True)
       else if s = StageClientSend then (mbSend r, True) else if s = StageClientRecv then (mbRecv r, True) else (0, False))"
proof -
  have frame: "rEmitter (SetStage s t q) = rEmitter q" "rCohort (SetStage s t q) = rCohort q"
    "rOrdinal (SetStage s t q) = rOrdinal q" "rEnvelopeID (SetStage s t q) = rEnvelopeID q"
    "rLogicalBytes (SetStage s t q) = rLogicalBytes q" "rHasDispatch (SetStage s t q) = rHasDispatch q"
    "rStatus (SetStage s t q) = rStatus q" "rMembership (SetStage s t q) = rMembership q"
    "rMembershipStored (SetStage s t q) = rMembershipStored q" "rMembershipCount (SetStage s t q) = rMembershipCount q"
    "rBatchSize (SetStage s t q) = rBatchSize q" for s t q
    by (simp_all add: SetStage_def)
  show "recRequest q = member" "rEmitter q = EmitterLoadGen" "rStatus q = runStatus r" "rLogicalBytes q = bytes"
    "\<not> rHasDispatch q" "rEnvelopeID q = 0"
    by (simp_all add: q_def loadgenRecord_def Let_def recRequest_def frame SetMembership_def zeroRecord_def split: option.splits)
  show "MembershipUIDs q = (case mbAnswer r of None \<Rightarrow> [] | Some p \<Rightarrow> take MaxMembership (ptMembership p))"
    by (simp add: q_def loadgenRecord_def Let_def frame MembershipUIDs_SetMembership split: option.splits)
       (simp add: MembershipUIDs_def frame zeroRecord_def)
  show "rMembershipCount q = (case mbAnswer r of None \<Rightarrow> 0 | Some p \<Rightarrow> of_nat (length (ptMembership p)))"
    "rBatchSize q = (case mbAnswer r of None \<Rightarrow> 0 | Some p \<Rightarrow> of_int (ptBatchSize p))"
    by (simp_all add: q_def loadgenRecord_def Let_def frame SetMembership_def zeroRecord_def split: option.splits)
  define z where "z = zeroRecord\<lparr>rEmitter := EmitterLoadGen, rCohort := Cohort member, rOrdinal := Ordinal member, rLogicalBytes := bytes\<rparr>"
  have z: "record_wf z" "recStage z s = (0, False)" for s by (simp_all add: z_def record_wf_def zeroRecord_def recStage_def)
  have same: "recStage q s = recStage (SetStage StageClientRecv (mbRecv r) (SetStage StageClientSend (mbSend r)
      (if SealOwner cell = EmitterLoadGen then SetStage StageCohortSeal seal (SetStage StageSched sched z)
       else SetStage StageSched sched z))) s"
    by (simp add: q_def loadgenRecord_def z_def Let_def recStage_def SetMembership_def split: option.splits)
  show "recStage q s = (if s = StageSched then (sched, True)
       else if s = StageCohortSeal \<and> SealOwner cell = EmitterLoadGen then (seal, True)
       else if s = StageClientSend then (mbSend r, True) else if s = StageClientRecv then (mbRecv r, True) else (0, False))"
    unfolding same by (simp add: recStage_SetStage record_wf_setters z Valid_def StageCount_def)
qed

lemma traceRecord_fields:
  fixes req tr status
  defines "q \<equiv> traceRecord req tr status"
  shows "recRequest q = req" "rEmitter q = EmitterTriton" "rStatus q = status" "rExecutionID q = teTraceID tr"
    "\<not> rHasDispatch q" "rEnvelopeID q = 0" "MembershipUIDs q = []" "rBatchSize q = 0"
    "recStage q s = (if s = StageQueueStart then (teQueueStart tr, True)
       else if s = StageComputeStart then (teComputeStart tr, True)
       else if s = StageComputeEnd then (teComputeEnd tr, True) else (0, False))"
proof -
  show "recRequest q = req" "rEmitter q = EmitterTriton" "rStatus q = status" "rExecutionID q = teTraceID tr"
    "\<not> rHasDispatch q" "rEnvelopeID q = 0" "MembershipUIDs q = []" "rBatchSize q = 0"
    by (simp_all add: q_def traceRecord_def Let_def recRequest_def SetStage_def MembershipUIDs_def zeroRecord_def)
  define z where "z = zeroRecord\<lparr>rEmitter := EmitterTriton, rCohort := Cohort req, rOrdinal := Ordinal req,
     rExecutionID := teTraceID tr, rStatus := status\<rparr>"
  have z: "record_wf z" "recStage z s = (0, False)" for s by (simp_all add: z_def record_wf_def zeroRecord_def recStage_def)
  have same: "q = SetStage StageComputeEnd (teComputeEnd tr) (SetStage StageComputeStart (teComputeStart tr)
      (SetStage StageQueueStart (teQueueStart tr) z))"
    by (simp add: q_def traceRecord_def z_def Let_def)
  show "recStage q s = (if s = StageQueueStart then (teQueueStart tr, True)
       else if s = StageComputeStart then (teComputeStart tr, True)
       else if s = StageComputeEnd then (teComputeEnd tr, True) else (0, False))"
    unfolding same by (simp add: recStage_SetStage record_wf_setters z Valid_def StageCount_def)
qed

section \<open>What the backend's records vouch for\<close>

text \<open>The last trace of a request that was released is the one its record is made of.\<close>

lemma tracesByRequest_get:
  "map_of (tracesByRequest traces results) req =
     (if map_of results req = None then None else find (\<lambda>tr. teRequest tr = req) (rev traces))"
  unfolding tracesByRequest_def
  by (induction traces rule: rev_induct) (auto simp: update_conv' split: option.splits)

definition fullTrace :: "(LogicalRequest \<times> TraceEvent) list \<Rightarrow> LogicalRequest \<Rightarrow> TraceEvent option" where
  "fullTrace byRequest req =
     (case map_of byRequest req of None \<Rightarrow> None | Some tr \<Rightarrow> if Complete tr then Some tr else None)"

lemma backendLoop_accepting:
  assumes "\<forall>r. accepts r"
  shows "backendLoop byRequest accepts results =
    (List.map_filter (\<lambda>(req, out). map_option (\<lambda>tr. traceRecord req tr (coStatus out)) (fullTrace byRequest req)) results,
     Inr (map fst (filter (\<lambda>(req, out). fullTrace byRequest req = None \<and> coStatus out = StatusOK) results)))"
proof (induction results)
  case (Cons a results)
  obtain req out where a: "a = (req, out)" by force
  show ?case
    using Cons assms by (cases "fullTrace byRequest req") (simp_all add: a fullTrace_def [symmetric] Let_def List.map_filter_simps)
qed (simp add: List.map_filter_simps)

text \<open>
  The loop that makes the backend's records passes over a request without a full trace
  (\<^verbatim>\<open>failed_passed_over\<close>), but does not get that far when a cohort failed before the server saw
  it: if the server counted the answered requests alone, the collection is refused, because it
  compares the counter with every released request.
\<close>

lemma failed_cohort_ends_run:
  assumes "list_ex (\<lambda>(req, out). coStatus out \<noteq> StatusOK) results"
    and "setting = Some (Some budgetLeft # others)"
    and "tcBudgetAt c - budgetLeft = int (length (filter (\<lambda>(req, out). coStatus out = StatusOK) results))"
  shows "case collectBackend results setting accepted polls c accepts of
    Some (Inl (CollectFailed e)) \<Rightarrow> e = BudgetExhausted
      \<or> e = SampledOther (tcBudgetAt c - budgetLeft) (length results) | _ \<Rightarrow> False"
proof -
  have "length (filter (\<lambda>(req, out). coStatus out = StatusOK) results) < length results"
    using assms(1) by (induction results) (auto simp: less_Suc_eq_le)
  then have "tcBudgetAt c - budgetLeft \<noteq> int (length results)" using assms(3) by simp
  then show ?thesis
    using assms(2) by (simp add: collectBackend_def Let_def Collect_traces_def checkServerCount_def remainingCount_def)
qed

lemma failed_passed_over:
  "recordBackendTimestamps [] [(req, \<lparr>coResult = noResult, coStatus = StatusError, coSeq = 0\<rparr>)] accepts = ([], None)"
  by (simp add: recordBackendTimestamps_def tracesByRequest_def)

text \<open>A rejection is always explained: by a defect, or at least by the check that failed.\<close>

lemma rejection_explained:
  "\<not> vdPassed (Verdict.Validate xp records) \<Longrightarrow> describeRejection (Verdict.Validate xp records) \<noteq> RejectedUnexplained"
  by (auto simp: describeRejection_def Verdict.Validate_def Let_def split_beta list_all_iff find_None_iff split: option.splits)

text \<open>If the archive holds what was archived, judging it and judging the streams agree.\<close>

lemma archive_agrees:
  assumes "archiveRecords b streams = Inr archived"
  shows "finalizeVerdict b archived streams \<noteq> Inl (VerdictsDisagree x y)"
  using assms
  by (auto simp: archiveRecords_def finalizeVerdict_def ValidateBundle_def ValidateStreams_def runExpectation_def checkSchemaVersions_def
      split: if_splits sum.splits option.splits)

text \<open>
  C34. The archive cannot change the verdict. Whatever a run's streams hold, if their records
  are of known emitters, statuses and CPU scopes, then the archive made of them reads back as
  exactly the recorded ones among them. Finalizing is refused for a bundle without a manifest, and
  for the first archived record of another schema version than this build's, naming its
  version; in every other case it gives the verdict the streams themselves get, and never
  reports the two to disagree.
\<close>

theorem archive_keeps_verdict:
  assumes "list_all (\<lambda>s. case s of None \<Rightarrow> True | Some ds \<Rightarrow> list_all archivable ds) streams"
    and "archiveRecords b streams = Inr records"
  shows "case readRows (writeArchive records) of Inl _ \<Rightarrow> False
    | Inr archived \<Rightarrow> archived = RecordedOnly (concat (map the streams)) (bnFirstRecordedCohort b)
        \<and> (if bnManifest b = None then finalizeVerdict b archived streams = Inl NoManifest
           else case find (\<lambda>d. dSchemaVersion d \<noteq> of_nat SchemaVersion) archived of
             Some d \<Rightarrow> finalizeVerdict b archived streams = Inl (ArchiveSchema (dSchemaVersion d))
           | None \<Rightarrow> (case ValidateStreams b streams of Inl _ \<Rightarrow> False
               | Inr v \<Rightarrow> finalizeVerdict b archived streams = Inr v))"
proof -
  have records: "None \<notin> set streams" "records = RecordedOnly (concat (map the streams)) (bnFirstRecordedCohort b)"
    using assms(2) by (auto simp: archiveRecords_def split: if_splits)
  have "list_all archivable (concat (map the streams))"
    using assms(1) records(1)
  proof (induction streams)
    case (Cons s streams)
    then show ?case by (cases s) simp_all
  qed simp
  then have "list_all archivable records" by (auto simp: records(2) RecordedOnly_def list_all_iff)
  then have read: "readRows (writeArchive records) = Inr records" by (rule archived_rows)
  show ?thesis
  proof (cases "bnManifest b")
    case None
    then have "runExpectation b = Inl NoManifest" by (simp add: runExpectation_def)
    then show ?thesis using None by (simp add: read records(2) [symmetric] finalizeVerdict_def ValidateBundle_def)
  next
    case (Some m)
    then obtain xp where "runExpectation b = Inr xp" by (simp add: runExpectation_def)
    then show ?thesis
      using Some records(1)
      by (simp add: read records(2) [symmetric] finalizeVerdict_def ValidateBundle_def ValidateStreams_def
          checkSchemaVersions_def split: option.split)
  qed
qed

definition sampleStreams :: "Decoded list option list" where
  "sampleStreams = [Some [\<lparr>dSchemaVersion = 2, dHeader = sampleHeader,
     dRecord = zeroRecord\<lparr>rEmitter := EmitterLoadGen, rCohort := 1, rStatus := StatusOK\<rparr>\<rparr>]]"

lemma sampleStreams_archivable:
  "list_all (\<lambda>s. case s of None \<Rightarrow> True | Some ds \<Rightarrow> list_all archivable ds) sampleStreams"
proof -
  have "canonTS (zeroRecord\<lparr>rEmitter := e, rCohort := c, rStatus := s\<rparr>) = rTS zeroRecord" for e c s
    by (rule nth_equalityI) (simp_all add: canonTS_def zeroRecord_def del: upt_Suc replicate_Suc)
  then show ?thesis
    by (simp add: sampleStreams_def archivable_def canon_def MembershipUIDs_def record_wf_def)
       (simp add: zeroRecord_def)
qed

theorem archive_keeps_verdict_witness:
  "\<exists>v. ValidateStreams (sampleBundle CellD0) sampleStreams = Inr v
     \<and> finalizeVerdict (sampleBundle CellD0) (concat (map the sampleStreams)) sampleStreams = Inr v"
proof -
  have rec: "RecordedOnly (concat (map the sampleStreams)) (bnFirstRecordedCohort (sampleBundle CellD0)) = concat (map the sampleStreams)"
    by (simp add: RecordedOnly_def sampleStreams_def sampleBundle_def)
  then have "archiveRecords (sampleBundle CellD0) sampleStreams = Inr (concat (map the sampleStreams))"
    by (simp add: archiveRecords_def) (simp add: sampleStreams_def)
  note kept = archive_keeps_verdict [OF sampleStreams_archivable this, unfolded rec]
  have "bnManifest (sampleBundle CellD0) \<noteq> None" by (simp add: sampleBundle_def)
  moreover have "find (\<lambda>d. dSchemaVersion d \<noteq> of_nat SchemaVersion) (concat (map the sampleStreams)) = None"
    by (simp add: sampleStreams_def SchemaVersion_def)
  ultimately show ?thesis using kept by (auto split: sum.splits)
qed

end
