(* ===== verification/DirectRun.thy ===== *)
theory DirectRun
  imports Runner
begin

text \<open>
  The two ends of a direct-path run put together: what the runner writes of a run in which
  every request was served (\<^verbatim>\<open>releaseCohort\<close>, \<^verbatim>\<open>recordBackendTimestamps\<close>), and what the validator
  concludes from it (\<^verbatim>\<open>Validate\<close>). The verdict is not vacuous: such a run passes.
\<close>

section \<open>The records of a served run\<close>

text \<open>
  What happened in a run: the headers of the two streams, when each cohort was scheduled and
  sealed, what each member's goroutine met, the trace of each request, the sequence numbers the
  backend's records got, and the orders in which the two streams were written.
\<close>

record servedRun =
  vHeaderL :: RunHeader
  vHeaderT :: RunHeader
  vBytes :: uint32
  vScheduled :: "CohortID \<Rightarrow> int64"
  vSealed :: "CohortID \<Rightarrow> int64"
  vRun :: "LogicalRequest \<Rightarrow> memberRun"
  vTrace :: "LogicalRequest \<Rightarrow> TraceEvent"
  vSeq :: "LogicalRequest \<Rightarrow> uint64"
  vSent :: "LogicalRequest list"
  vServed :: "LogicalRequest list"

definition loadgenDecoded :: "servedRun \<Rightarrow> LogicalRequest \<Rightarrow> Decoded" where
  "loadgenDecoded R r =
     \<lparr>dSchemaVersion = of_nat SchemaVersion, dHeader = vHeaderL R,
      dRecord = (loadgenRecord CellD0 (vBytes R) (vScheduled R (Cohort r)) (vSealed R (Cohort r)) r (vRun R r))
        \<lparr>rSeq := fst (mbRecorded (vRun R r))\<rparr>\<rparr>"

definition tritonDecoded :: "servedRun \<Rightarrow> LogicalRequest \<Rightarrow> Decoded" where
  "tritonDecoded R r =
     \<lparr>dSchemaVersion = of_nat SchemaVersion, dHeader = vHeaderT R,
      dRecord = (traceRecord r (vTrace R r) StatusOK)\<lparr>rSeq := vSeq R r\<rparr>\<rparr>"

definition directRecords :: "servedRun \<Rightarrow> Decoded list" where
  "directRecords R = map (loadgenDecoded R) (vSent R) @ map (tritonDecoded R) (vServed R)"

text \<open>A member that was served alone, at instants that only go forward.\<close>

definition served_alone :: "servedRun \<Rightarrow> LogicalRequest \<Rightarrow> bool" where
  "served_alone R r \<longleftrightarrow>
     mbAnswer (vRun R r) = Some \<lparr>ptMembership = [UID r], ptBatchSize = 1\<rparr>
     \<and> sint (vScheduled R (Cohort r)) \<le> sint (vSealed R (Cohort r)) \<and> sint (vSealed R (Cohort r)) \<le> sint (mbSend (vRun R r))
     \<and> sint (mbSend (vRun R r)) \<le> sint (teQueueStart (vTrace R r))
     \<and> sint (teQueueStart (vTrace R r)) \<le> sint (teComputeStart (vTrace R r))
     \<and> 0 \<le> sint (teComputeStart (vTrace R r)) \<and> sint (teComputeStart (vTrace R r)) < sint (teComputeEnd (vTrace R r))
     \<and> sint (teComputeEnd (vTrace R r)) \<le> sint (mbRecv (vRun R r))"

section \<open>One request's joined path\<close>

lemma joinInto_evidence:
  "jMembership (joinInto j d) = (if MembershipUIDs (dRecord d) = [] then jMembership j else MembershipUIDs (dRecord d))"
  "jMembershipCount (joinInto j d) = (if MembershipUIDs (dRecord d) = [] then jMembershipCount j else rMembershipCount (dRecord d))"
  "jMembershipBySource (joinInto j d) = (if MembershipUIDs (dRecord d) = [] then jMembershipBySource j
     else AList.update (rEmitter (dRecord d)) (MembershipUIDs (dRecord d)) (jMembershipBySource j))"
  "jBatchSize (joinInto j d) = (if 0 < rBatchSize (dRecord d) then rBatchSize (dRecord d) else jBatchSize j)"
  by (simp_all add: joinInto_def Let_def joinRest_def joinMembership_def joinStatus_def joinStages_frame)

text \<open>The path of a request served alone: its seven stages, its own attestation.\<close>

lemma direct_path:
  fixes R r
  defines "j \<equiv> joinInto (joinInto (newJoined r) (loadgenDecoded R r)) (tritonDecoded R r)"
  assumes "served_alone R r"
  shows "joined_wf j" and "jStatus j = StatusOK"
    and "jMembership j = [UID r]" "jMembershipCount j = 1" "jMembershipBySource j = [(EmitterLoadGen, [UID r])]" "jBatchSize j = 1"
    and "Valid s \<Longrightarrow> joinedStage j s = (if s = StageSched then (vScheduled R (Cohort r), True)
       else if s = StageClientSend then (mbSend (vRun R r), True) else if s = StageCohortSeal then (vSealed R (Cohort r), True)
       else if s = StageQueueStart then (teQueueStart (vTrace R r), True) else if s = StageComputeStart then (teComputeStart (vTrace R r), True)
       else if s = StageComputeEnd then (teComputeEnd (vTrace R r), True)
       else if s = StageClientRecv then (mbRecv (vRun R r), True) else (0, False))"
proof -
  have answer: "mbAnswer (vRun R r) = Some \<lparr>ptMembership = [UID r], ptBatchSize = 1\<rparr>"
    using assms(2) by (simp add: served_alone_def)
  have seq: "recStage (q\<lparr>rSeq := n\<rparr>) s = recStage q s" "MembershipUIDs (q\<lparr>rSeq := n\<rparr>) = MembershipUIDs q" for q n s
    by (simp_all add: recStage_def MembershipUIDs_def)
  have owner: "SealOwner CellD0 = EmitterLoadGen" by (simp add: SealOwner_def AggregatesEnvelopes_def)
  note L = loadgenRecord_fields [of CellD0 "vBytes R" "vScheduled R (Cohort r)" "vSealed R (Cohort r)" r "vRun R r"]
  note T = traceRecord_fields [of r "vTrace R r" StatusOK]
  have ok: "runStatus (vRun R r) = StatusOK" by (simp add: runStatus_def answer)
  show "joined_wf j" by (simp add: j_def joinInto_stage)
  show "jStatus j = StatusOK"
    by (simp add: j_def jStatus_joinInto loadgenDecoded_def tritonDecoded_def L(3) T(3) ok newJoined_def statusRank_def)
  show "jMembership j = [UID r]" "jMembershipCount j = 1" "jMembershipBySource j = [(EmitterLoadGen, [UID r])]" "jBatchSize j = 1"
    by (simp_all add: j_def joinInto_evidence loadgenDecoded_def tritonDecoded_def seq L T answer newJoined_def MaxMembership_def)
  show "joinedStage j s = (if s = StageSched then (vScheduled R (Cohort r), True)
       else if s = StageClientSend then (mbSend (vRun R r), True) else if s = StageCohortSeal then (vSealed R (Cohort r), True)
       else if s = StageQueueStart then (teQueueStart (vTrace R r), True) else if s = StageComputeStart then (teComputeStart (vTrace R r), True)
       else if s = StageComputeEnd then (teComputeEnd (vTrace R r), True)
       else if s = StageClientRecv then (mbRecv (vRun R r), True) else (0, False))" if "Valid s"
  proof -
    let ?j1 = "joinInto (newJoined r) (loadgenDecoded R r)"
    have new: "joinedStage (newJoined r) s = (0, False)" by (simp add: newJoined_def joinedStage_def)
    have L': "recStage (dRecord (loadgenDecoded R r)) s = (if s = StageSched then (vScheduled R (Cohort r), True)
       else if s = StageCohortSeal then (vSealed R (Cohort r), True)
       else if s = StageClientSend then (mbSend (vRun R r), True) else if s = StageClientRecv then (mbRecv (vRun R r), True) else (0, False))"
      by (simp add: loadgenDecoded_def seq L(10) owner)
    have T': "recStage (dRecord (tritonDecoded R r)) s = (if s = StageQueueStart then (teQueueStart (vTrace R r), True)
       else if s = StageComputeStart then (teComputeStart (vTrace R r), True)
       else if s = StageComputeEnd then (teComputeEnd (vTrace R r), True) else (0, False))"
      by (simp add: tritonDecoded_def seq T(9))
    have "\<not> snd (recStage (dRecord (loadgenDecoded R r)) s)
        \<Longrightarrow> recStage (dRecord (loadgenDecoded R r)) s = (0, False)"
      unfolding L' by (simp split: if_splits)
    then have "joinedStage ?j1 s = recStage (dRecord (loadgenDecoded R r)) s"
      by (simp add: joinInto_stage(2) [OF joined_wf_new that] new)
    then have "joinedStage j s = (if snd (recStage (dRecord (tritonDecoded R r)) s)
        then recStage (dRecord (tritonDecoded R r)) s else recStage (dRecord (loadgenDecoded R r)) s)"
      using joinInto_stage(2) [OF joinInto_stage(1) [OF joined_wf_new] that] by (simp add: j_def)
    then show ?thesis unfolding L' T' by (simp split: if_splits)
  qed
qed

section \<open>The run's joined map\<close>

lemma filter_self: "distinct xs \<Longrightarrow> filter (\<lambda>x. x = a) xs = (if a \<in> set xs then [a] else [])"
  by (induction xs) (auto simp: filter_empty_conv)

lemma direct_requests: "recRequest (dRecord (loadgenDecoded R r)) = r" "recRequest (dRecord (tritonDecoded R r)) = r"
  using loadgenRecord_fields(1) [of CellD0 "vBytes R" "vScheduled R (Cohort r)" "vSealed R (Cohort r)" r "vRun R r"]
    traceRecord_fields(1) [of r "vTrace R r" StatusOK]
  by (simp_all add: loadgenDecoded_def tritonDecoded_def recRequest_def)

lemma direct_join:
  assumes "distinct reqs" and "mset (vSent R) = mset reqs" and "mset (vServed R) = mset reqs"
  shows "set (map (\<lambda>d. recRequest (dRecord d)) (directRecords R)) = set reqs"
    and "r \<in> set reqs \<Longrightarrow> of_request r (directRecords R) = [loadgenDecoded R r, tritonDecoded R r]"
    and "(r, j) \<in> set (Join (directRecords R)) \<Longrightarrow>
      r \<in> set reqs \<and> j = joinInto (joinInto (newJoined r) (loadgenDecoded R r)) (tritonDecoded R r)"
proof -
  have sets: "set (vSent R) = set reqs" "set (vServed R) = set reqs" using assms(2,3) by (metis set_mset_mset)+
  have dist: "distinct (vSent R)" "distinct (vServed R)" using assms mset_eq_imp_distinct_iff by blast+
  show req: "set (map (\<lambda>d. recRequest (dRecord d)) (directRecords R)) = set reqs"
    by (auto simp: directRecords_def direct_requests sets image_iff)
  show own: "of_request r (directRecords R) = [loadgenDecoded R r, tritonDecoded R r]" if "r \<in> set reqs" for r
    using that filter_self [OF dist(1), of r] filter_self [OF dist(2), of r]
    by (simp add: of_request_def directRecords_def filter_map comp_def direct_requests sets)
  assume e: "(r, j) \<in> set (Join (directRecords R))"
  then have "r \<in> fst ` set (Join (directRecords R))" by force
  then have "r \<in> set reqs" using keys_Join [of "directRecords R"] req by auto
  then show "r \<in> set reqs \<and> j = joinInto (joinInto (newJoined r) (loadgenDecoded R r)) (tritonDecoded R r)"
    using Join_entry(1) [OF e] own by simp
qed

section \<open>The checks, one by one\<close>

text \<open>What the run has to be for its verdict.\<close>

definition direct_run :: "RunExpectation \<Rightarrow> servedRun \<Rightarrow> bool" where
  "direct_run xp R \<longleftrightarrow> exCell xp = CellD0 \<and> exBatchSize xp = 1 \<and> distinct (Requests xp)
     \<and> list_all (\<lambda>r. uidLogicalRequest (UID r) = r \<and> int (unat (Ordinal r)) < exCohortSize xp) (Requests xp)
     \<and> mset (vSent R) = mset (Requests xp) \<and> mset (vServed R) = mset (Requests xp)
     \<and> list_all (served_alone R) (Requests xp)
     \<and> hClockDomain (vHeaderL R) = exClockDomain xp \<and> hClockDomain (vHeaderT R) = exClockDomain xp"

lemma direct_entries:
  assumes "direct_run xp R" and "(r, j) \<in> set (Join (directRecords R))"
  shows "r \<in> set (Requests xp)" "served_alone R r"
    and "j = joinInto (joinInto (newJoined r) (loadgenDecoded R r)) (tritonDecoded R r)"
  using direct_join(3) [of "Requests xp" R r j] assms by (auto simp: direct_run_def list_all_iff)

lemma direct_topology: "TopologyMask CellD0 = Inr 0x438B"
  by (simp add: TopologyMask_cases)

lemma direct_chain: "\<exists>spans. Chain CellD0 = Inr spans \<and> ChainStages spans
    = [StageSched, StageCohortSeal, StageClientSend, StageQueueStart, StageComputeStart, StageComputeEnd, StageClientRecv]"
  by (simp add: Chain_def ChainStages_def)

lemma mask_direct: "Valid s \<Longrightarrow> mask_Has 0x438B s \<longleftrightarrow> s \<in> {1, 2, 4, 8, 9, 10, 15}"
  unfolding Valid_AllStages AllStages_code list.set
  by (elim insertE emptyE; hypsubst) (simp_all add: mask_Has_def stage_bit_def)

lemma direct_integrity:
  assumes "direct_run xp R" and "exDroppedRecords xp = 0"
  shows "ckPassed (checkRecordIntegrity xp (Join (directRecords R)))"
proof -
  have run: "distinct (Requests xp)" "mset (vSent R) = mset (Requests xp)" "mset (vServed R) = mset (Requests xp)"
    using assms(1) by (simp_all add: direct_run_def)
  have emit: "rEmitter (dRecord (loadgenDecoded R r)) = EmitterLoadGen" "rEmitter (dRecord (tritonDecoded R r)) = EmitterTriton"
    "dSchemaVersion (loadgenDecoded R r) = 2" "dSchemaVersion (tritonDecoded R r) = 2" for r
    using loadgenRecord_fields(2) [of CellD0 "vBytes R" "vScheduled R (Cohort r)" "vSealed R (Cohort r)" r "vRun R r"]
      traceRecord_fields(2) [of r "vTrace R r" StatusOK]
    by (simp_all add: loadgenDecoded_def tritonDecoded_def SchemaVersion_def)
  have "integrityDefects (Join (directRecords R)) r = []" if r: "r \<in> set (Requests xp)" for r
  proof -
    have own: "map_of (Join (directRecords R)) r = Some (joinInto (joinInto (newJoined r) (loadgenDecoded R r)) (tritonDecoded R r))"
      using direct_join(2) [OF run r] by (simp add: Join_lookup)
    have served: "served_alone R r" using assms(1) r by (simp add: direct_run_def list_all_iff)
    show ?thesis
      using direct_path(2) [OF served]
      by (simp add: integrityDefects_def own joinInto_frame emit emitterCount_def newJoined_def)
  qed
  moreover have "map fst (Join (directRecords R)) = map fst (Join (directRecords R))
      \<and> fst ` set (Join (directRecords R)) \<subseteq> set (Requests xp)"
    using direct_join(1) [OF run] keys_Join [of "directRecords R"] by simp
  ultimately show ?thesis
    using assms(2) unfolding checkRecordIntegrity_def check_fields by (auto simp: concat_map_Nil list_all_iff filter_empty_conv simp del: concat_eq_Nil_conv)
qed

lemma direct_domains:
  assumes "direct_run xp R"
  shows "ckPassed (checkClockDomain xp (Join (directRecords R)))"
  unfolding checkClockDomain_def Join_check list_all_iff
proof
  fix e assume e: "e \<in> set (Join (directRecords R))"
  obtain r j where rj: "e = (r, j)" by (cases e)
  have "jDomains j = [exClockDomain xp]"
    using assms direct_entries(3) [OF assms, of r j] e
    by (simp add: rj direct_run_def joinInto_frame loadgenDecoded_def tritonDecoded_def newJoined_def)
  then show "domainDefects xp e = []" by (simp add: rj domainDefects_def)
qed

lemma direct_stages:
  assumes "direct_run xp R"
  shows "ckPassed (checkPresence xp (Join (directRecords R)))" and "ckPassed (checkOrdering xp (Join (directRecords R)))"
    and "ckPassed (checkStageOwnership xp (Join (directRecords R)))"
proof -
  have cell: "exCell xp = CellD0" using assms by (simp add: direct_run_def)
  have stages: "joinedStage j s = (if s = StageSched then (vScheduled R (Cohort r), True)
       else if s = StageClientSend then (mbSend (vRun R r), True) else if s = StageCohortSeal then (vSealed R (Cohort r), True)
       else if s = StageQueueStart then (teQueueStart (vTrace R r), True) else if s = StageComputeStart then (teComputeStart (vTrace R r), True)
       else if s = StageComputeEnd then (teComputeEnd (vTrace R r), True)
       else if s = StageClientRecv then (mbRecv (vRun R r), True) else (0, False))"
    if "(r, j) \<in> set (Join (directRecords R))" "Valid s" for r j s
    using direct_path(7) [OF direct_entries(2) [OF assms that(1)] that(2)] direct_entries(3) [OF assms that(1)] by simp
  have valid: "Valid 1" "Valid 2" "Valid 4" "Valid 8" "Valid 9" "Valid 10" "Valid 15"
    by (simp_all add: Valid_def StageCount_def)
  have "presenceDefects 0x438B (r, j) = []" if "(r, j) \<in> set (Join (directRecords R))" for r j
    unfolding presenceDefects_Nil using stages [OF that] by (auto simp: mask_direct snd_joinedStage [symmetric])
  then show "ckPassed (checkPresence xp (Join (directRecords R)))"
    unfolding checkPresence_def cell direct_topology sum.case Join_check list_all_iff by auto
  have "orderingDefects [Span StageBarrierWait StageSched StageCohortSeal False,
                Span StageReleaseToSend StageCohortSeal StageClientSend False,
                Span StageXReq StageClientSend StageQueueStart True,
                Span StageQBackend StageQueueStart StageComputeStart True,
                Span StageSComp StageComputeStart StageComputeEnd True,
                Span StageXResp StageComputeEnd StageClientRecv True] (r, j) = []"
    if e: "(r, j) \<in> set (Join (directRecords R))" for r j
    using direct_entries(2) [OF assms e]
    by (subst orderingDefects_Nil) (auto simp: stages [OF e] valid served_alone_def)
  then show "ckPassed (checkOrdering xp (Join (directRecords R)))"
    unfolding checkOrdering_def cell Chain_def by (simp add: Join_check list_all_iff split_paired_all del: check_fields)
  have "ownershipDefects CellD0 (r, j) = []" if e: "(r, j) \<in> set (Join (directRecords R))" for r j
  proof -
    have own: "jStageEmitter j ! unat s = stageOwner CellD0 s" if "Valid s" "mask_Has (jPresence j) s" for s
    proof -
      have s: "s \<in> {1, 2, 4, 8, 9, 10, 15}" using stages [OF e that(1)] that by (auto simp: snd_joinedStage [symmetric] split: if_splits)
      have seq: "recStage (q\<lparr>rSeq := n\<rparr>) s = recStage q s" for q n by (simp add: recStage_def)
      have L: "snd (recStage (dRecord (loadgenDecoded R r)) s) \<longleftrightarrow> s \<in> {1, 2, 4, 15}"
        "rEmitter (dRecord (loadgenDecoded R r)) = EmitterLoadGen"
        by (auto simp: loadgenDecoded_def seq loadgenRecord_fields SealOwner_def AggregatesEnvelopes_def)
      have T: "snd (recStage (dRecord (tritonDecoded R r)) s) \<longleftrightarrow> s \<in> {8, 9, 10}"
        "rEmitter (dRecord (tritonDecoded R r)) = EmitterTriton"
        by (auto simp: tritonDecoded_def seq traceRecord_fields)
      have "jStageEmitter j ! unat s = (if s \<in> {8, 9, 10} then EmitterTriton else EmitterLoadGen)"
        using s that(1) by (simp add: direct_entries(3) [OF assms e] joinInto_stage L T) auto
      then show ?thesis using s by (auto simp: stageOwner_def SealOwner_def AggregatesEnvelopes_def)
    qed
    have has: "mask_Has 0x438B s" if "Valid s" "mask_Has (jPresence j) s" for s
      using stages [OF e that(1)] that by (auto simp: mask_direct snd_joinedStage [symmetric] split: if_splits)
    show ?thesis
      unfolding ownershipDefects_def prod.case concat_map_Nil list_all_iff set_mask_Stages
      using own has by (auto simp: OwnedStages_owner direct_topology)
  qed
  then show "ckPassed (checkStageOwnership xp (Join (directRecords R)))"
    unfolding checkStageOwnership_def cell Join_check list_all_iff by auto
qed

lemma direct_membership:
  assumes "direct_run xp R"
  shows "ckPassed (checkMembership xp (Join (directRecords R)))"
  unfolding checkMembership_def Join_check list_all_iff
proof
  fix e assume e: "e \<in> set (Join (directRecords R))"
  obtain r j where rj: "e = (r, j)" by (cases e)
  have r: "r \<in> set (Requests xp)" and served: "served_alone R r"
    and j: "j = joinInto (joinInto (newJoined r) (loadgenDecoded R r)) (tritonDecoded R r)"
    using direct_entries [OF assms, of r j] e by (simp_all add: rj)
  have "uidLogicalRequest (UID r) = r" "int (unat (Ordinal r)) < exCohortSize xp" "exBatchSize xp = 1"
    using assms r by (auto simp: direct_run_def list_all_iff)
  then show "membershipDefects xp e = []"
    using direct_path(3-6) [OF served, folded j]
    by (simp add: rj membershipDefects_def attestedDefects_def Let_def)
qed

lemma direct_conservation:
  assumes "direct_run xp R" and "0 \<le> exToleranceFraction xp"
  shows "ckPassed (snd (checkConservation xp (Join (directRecords R))))"
proof -
  have cell: "exCell xp = CellD0" using assms by (simp add: direct_run_def)
  define spans where "spans = [Span StageBarrierWait StageSched StageCohortSeal False,
                Span StageReleaseToSend StageCohortSeal StageClientSend False,
                Span StageXReq StageClientSend StageQueueStart True,
                Span StageQBackend StageQueueStart StageComputeStart True,
                Span StageSComp StageComputeStart StageComputeEnd True,
                Span StageXResp StageComputeEnd StageClientRecv True]"
  have spans: "Chain CellD0 = Inr spans" by (simp add: Chain_def spans_def)
  have "unnamedNanos spans j = 0" for j
    by (simp add: unnamedNanos_def spans_def PreCycle_def ConservedSpan_def upt_rec)
  then have "\<bar>fractionOf (unnamedNanos spans j) n\<bar> \<le> exToleranceFraction xp" for j n
    using assms(2) by (simp add: fractionOf_def f64_div_def f64_of_int64_def)
  then show ?thesis
    using conserveRequests_defects [OF spans]
    by (simp add: checkConservation_def Let_def cell spans gateOnMembers_def AggregatesEnvelopes_def split_beta list_all_iff)
qed

text \<open>Two executions of one cohort do not meet.\<close>

definition serial_executions :: "servedRun \<Rightarrow> LogicalRequest list \<Rightarrow> bool" where
  "serial_executions R reqs \<longleftrightarrow> list_all (\<lambda>r. list_all (\<lambda>q.
     if Cohort r = Cohort q \<and> r \<noteq> q
     then sint (teComputeEnd (vTrace R r)) \<le> sint (teComputeStart (vTrace R q))
        \<or> sint (teComputeEnd (vTrace R q)) \<le> sint (teComputeStart (vTrace R r))
     else True) reqs) reqs"

lemma set_map_filter: "set (List.map_filter f xs) = {y. \<exists>x\<in>set xs. f x = Some y}"
  by (induction xs) (auto simp: List.map_filter_simps split: option.splits)

lemma direct_serialization:
  assumes "direct_run xp R" and "serial_executions R (Requests xp)"
  shows "ckPassed (snd (checkExecutionSerialization xp (Join (directRecords R))))"
proof -
  have cell: "\<not> VectorizesCompute (exCell xp)" using assms by (simp add: direct_run_def VectorizesCompute_def)
  let ?ws = "executionWindows (Join (directRecords R))"
  have window: "wnReq w \<in> set (Requests xp) \<and> served_alone R (wnReq w)
      \<and> w = Window (wnReq w) (teComputeStart (vTrace R (wnReq w))) (teComputeEnd (vTrace R (wnReq w)))" if "w \<in> set ?ws" for w
  proof -
    have "w \<in> {w. \<exists>x\<in>set (Join (directRecords R)). computeWindow x = Some w}"
      using that entries_set [OF distinct_Join, of "directRecords R"] unfolding executionWindows_def set_map_filter by simp
    then obtain r j where e: "(r, j) \<in> set (Join (directRecords R))" "computeWindow (r, j) = Some w"
      by auto
    have stage: "joinedStage j s = joinedStage (joinInto (joinInto (newJoined r) (loadgenDecoded R r)) (tritonDecoded R r)) s" for s
      using direct_entries(3) [OF assms(1) e(1)] by simp
    have "Valid 9" "Valid 10" by (simp_all add: Valid_def StageCount_def)
    then have "w = Window r (teComputeStart (vTrace R r)) (teComputeEnd (vTrace R r))"
      using e(2) direct_path(7) [OF direct_entries(2) [OF assms(1) e(1)]]
      by (simp add: computeWindow_def stage)
    then show ?thesis using direct_entries(1,2) [OF assms(1) e(1)] by simp
  qed
  have fields: "wnStart w = teComputeStart (vTrace R (wnReq w))" "wnEnd w = teComputeEnd (vTrace R (wnReq w))"
    if "w \<in> set ?ws" for w
    using window [OF that] by (metis window.sel(2), metis window.sel(3))
  have proper: "proper w" if "w \<in> set ?ws" for w
    using window [OF that] by (simp add: proper_def nonneg64_def served_alone_def fields [OF that])
  have "disjoint_windows v w" if "v \<in> set ?ws" "w \<in> set ?ws" "Cohort (wnReq v) = Cohort (wnReq w)" "v \<noteq> w" for v w
  proof -
    have "wnReq v \<noteq> wnReq w" using window [OF that(1)] window [OF that(2)] that(4) by metis
    moreover have "wnReq v \<in> set (Requests xp)" "wnReq w \<in> set (Requests xp)"
      using window [OF that(1)] window [OF that(2)] by blast+
    ultimately have "sint (teComputeEnd (vTrace R (wnReq v))) \<le> sint (teComputeStart (vTrace R (wnReq w)))
        \<or> sint (teComputeEnd (vTrace R (wnReq w))) \<le> sint (teComputeStart (vTrace R (wnReq v)))"
      using assms(2) that(3) unfolding serial_executions_def list_all_iff by metis
    then show ?thesis
      by (simp add: disjoint_windows_def fields [OF that(1)] fields [OF that(2)])
  qed
  then have "serial (byStart (filter (\<lambda>w. Cohort (wnReq w) = c) ?ws))" for c
    using proper distinct_windows [OF distinct_Join] by (subst serial_disjoint) auto
  then show ?thesis by (simp add: checkExecutionSerialization_serial [OF cell])
qed

lemma direct_unaggregated:
  assumes "exCell xp = CellD0"
  shows "findFormationFailures xp joined = []" "ckPassed (snd (checkAggregation xp joined))"
    "ckPassed (checkAdapterDispatch xp joined)" "ckPassed (snd (checkFanOut xp joined))"
proof -
  have "\<not> mask_Has 0x438B StageAdapterRecv" "\<not> mask_Has 0x438B StageAdapterDispatch"
    by (simp_all add: mask_direct Valid_def StageCount_def)
  then show "findFormationFailures xp joined = []" "ckPassed (snd (checkAggregation xp joined))"
    "ckPassed (checkAdapterDispatch xp joined)" "ckPassed (snd (checkFanOut xp joined))"
    by (simp_all add: assms findFormationFailures_def checkAggregation_def AggregatesEnvelopes_def checkAdapterDispatch_def
        checkFanOut_def direct_topology Let_def)
qed

text \<open>The backend's counters account for exactly the run's executions, each of a batch of one.\<close>

definition counted :: "RunExpectation \<Rightarrow> bool" where
  "counted xp \<longleftrightarrow> exExecutionCountDelta xp = of_int (exExecutions xp)
     \<and> exInferenceCountDelta xp = of_int (exCohortCount xp * exCohortSize xp)
     \<and> map fst (exBatchSizeHistogram xp) = [1] \<and> exDroppedRecords xp = 0"

lemma direct_counters:
  "counted xp \<Longrightarrow> exBatchSize xp = 1 \<Longrightarrow> ckPassed (checkContamination xp)"
  by (auto simp: counted_def checkContamination_def)

lemma direct_verdict:
  assumes "direct_run xp R" and "0 \<le> exToleranceFraction xp" and "counted xp" and "serial_executions R (Requests xp)"
  shows "vdPassed (Validate xp (directRecords R))"
proof -
  have cell: "exCell xp = CellD0" and batch: "exBatchSize xp = 1" using assms(1) by (simp_all add: direct_run_def)
  have none: "agFailedFormations (fst (checkAggregation xp joined)) = []" for joined
    using direct_unaggregated(1) [OF cell] by (simp add: checkAggregation_def Let_def cell AggregatesEnvelopes_def)
  have dropped: "exDroppedRecords xp = 0" using assms(3) by (simp add: counted_def)
  show ?thesis
    using direct_integrity [OF assms(1) dropped] direct_domains [OF assms(1)] direct_stages [OF assms(1)]
      direct_membership [OF assms(1)] direct_conservation [OF assms(1,2)] direct_serialization [OF assms(1,4)]
      direct_unaggregated [OF cell] direct_counters [OF assms(3) batch]
    by (simp add: Validate_def Let_def split_beta FailedCohorts_def withoutCohorts_def checkFormation_passes none)
qed


section \<open>A run that was served passes\<close>

text \<open>The two streams; the warm-up writes no records (\<^verbatim>\<open>releaseCohort\<close> with no writer).\<close>

definition servedStreams :: "servedRun \<Rightarrow> Decoded list option list" where
  "servedStreams R = [Some (map (loadgenDecoded R) (vSent R)), Some (map (tritonDecoded R) (vServed R))]"

lemma recorded_streams:
  assumes "list_all (\<lambda>r. \<not> Cohort r < c) (vSent R @ vServed R)"
  shows "RecordedOnly (concat (map the (servedStreams R))) c = directRecords R"
proof -
  have "rCohort (dRecord (loadgenDecoded R r)) = Cohort r" "rCohort (dRecord (tritonDecoded R r)) = Cohort r" for r
    using direct_requests [of R r] by (metis LogicalRequest.sel(1) recRequest_def)+
  then show ?thesis
    using assms by (auto simp: servedStreams_def directRecords_def RecordedOnly_def filter_id_conv list_all_iff)
qed

lemma none_dropped: "list_all (\<lambda>s. stDropped s = 0) ss \<Longrightarrow> foldl (\<lambda>n s. n + stDropped s) n ss = n"
  by (induction ss arbitrary: n) simp_all

text \<open>
  Such a run's streams are accepted: no check refuses the very records the runner writes for a
  run that was in order.
\<close>

lemma direct_streams_pass:
  assumes "Manifest_Validate m = None" and "bnManifest b = Some m" and "mnCell m = CellD0" and "bnCell b = CellD0"
    and "mcWarmupCount (mnCohort m) + mcCount (mnCohort m) \<le> 2 ^ 32"
    and "bnFirstRecordedCohort b = of_int (mcWarmupCount (mnCohort m))"
    and "mset (vSent R) = mset (concat (recordedCohorts m))" and "mset (vServed R) = mset (concat (recordedCohorts m))"
    and "list_all (served_alone R) (concat (recordedCohorts m))" and "serial_executions R (concat (recordedCohorts m))"
    and "bnClockDomain b = Some (hClockDomain (vHeaderL R))" and "hClockDomain (vHeaderT R) = hClockDomain (vHeaderL R)"
    and "snExecutionCount (bnTritonStats b) = of_int (meExecutions (mnExpectedEvidence m))"
    and "snInferenceCount (bnTritonStats b) = of_int (mcCount (mnCohort m) * mcSize (mnCohort m))"
    and "map fst (snBatchSizes (bnTritonStats b)) = [1]" and "list_all (\<lambda>s. stDropped s = 0) (bnStreams b)"
  shows "case ValidateStreams b (servedStreams R) of Inl _ \<Rightarrow> False | Inr v \<Rightarrow> vdPassed v"
proof -
  obtain xp where xp: "runExpectation b = Inr xp" by (simp add: runExpectation_def assms(2))
  note valid = assms(1) [unfolded Manifest_Validate_None Let_def]
  have n: "nat (mcSize (mnCohort m)) \<le> MaxOrdinal" and w: "0 \<le> mcWarmupCount (mnCohort m)" and c: "1 \<le> mcCount (mnCohort m)"
    using valid by auto
  note reqs = Requests_recorded [OF assms(2) xp]
  have small: "unat (Ordinal r) < nat (mcSize (mnCohort m))" if "r \<in> set (concat (recordedCohorts m))" for r
    using that NewCohort_small(2) [OF n] by (auto simp: recordedCohorts_def)
  have unpacks: "uidLogicalRequest (UID r) = r \<and> int (unat (Ordinal r)) < mcSize (mnCohort m)"
    if "r \<in> set (concat (recordedCohorts m))" for r
    using small [OF that] order_less_le_trans [OF small [OF that] n] UID_roundtrip_iff [of r]
    by (auto simp: zless_nat_eq_int_zless)
  have fields: "exCell xp = CellD0" "exBatchSize xp = 1" "exCohortSize xp = mcSize (mnCohort m)"
    "exClockDomain xp = hClockDomain (vHeaderL R)" "exToleranceFraction xp = mnToleranceFraction m"
    "exExecutionCountDelta xp = of_int (exExecutions xp)"
    "exInferenceCountDelta xp = of_int (exCohortCount xp * exCohortSize xp)"
    "map fst (exBatchSizeHistogram xp) = [1]" "exDroppedRecords xp = 0"
    using xp valid assms(4,11,13-15) none_dropped [OF assms(16)] by (auto simp: runExpectation_def assms(2))
  have kept: "list_all (\<lambda>r. \<not> Cohort r < bnFirstRecordedCohort b) (vSent R @ vServed R)"
    using recorded_from_first [OF n w assms(5)] assms(6) mset_eq_setD [OF assms(7)] mset_eq_setD [OF assms(8)]
    by (simp add: list_all_iff)
  have "direct_run xp R"
    using distinct_recorded [OF n w assms(5)] unpacks assms(7-9,12)
    by (simp add: direct_run_def fields reqs list_all_iff)
  moreover have "serial_executions R (Requests xp)" using assms(10) by (simp add: reqs)
  moreover have "counted xp" using fields by (simp add: counted_def)
  moreover have "0 \<le> exToleranceFraction xp" using valid by (simp add: fields)
  ultimately have "vdPassed (Verdict.Validate xp (directRecords R))" by (intro direct_verdict)
  then show ?thesis
    unfolding ValidateStreams_def xp recorded_streams [OF kept] by (simp add: servedStreams_def)
qed

end
