(* ===== verification/Services.thy ===== *)
theory Services
  imports Trace Manifest
begin

text \<open>
  \<^verbatim>\<open>internal/runner/services.go\<close>: the processes the shared path needs, and how a process that
  exits is told apart from one that was asked to. The operating system's part (whether a
  process starts, listens, exits and with what status) comes in as arguments and steps; the
  order in which the watchers reach the mutex is the order of the steps.
\<close>

section \<open>Processes and their watchers\<close>

text \<open>An exit status is \<open>None\<close> for a zero exit, else the error that words it.\<close>

type_synonym exit_status = "string option"

record proc =
  pcName :: string
  pcExit :: "exit_status option"
  pcWatched :: bool

record services =
  sxProcs :: "proc list"
  sxInterrupted :: bool
  sxStopping :: bool
  sxFirstDeath :: "(string \<times> exit_status) option"
  sxCancels :: nat

definition noServices :: services where
  "noServices = \<lparr>sxProcs = [], sxInterrupted = False, sxStopping = False, sxFirstDeath = None, sxCancels = 0\<rparr>"

text \<open>\<^verbatim>\<open>serviceHooks.asked\<close>, with the hook present: the operator's interrupt.\<close>

definition asked :: "services \<Rightarrow> bool" where "asked s = sxInterrupted s"

definition startProc :: "string \<Rightarrow> services \<Rightarrow> services" where
  "startProc name s = s\<lparr>sxProcs := sxProcs s @ [\<lparr>pcName = name, pcExit = None, pcWatched = False\<rparr>]\<rparr>"

text \<open>\<^verbatim>\<open>watch\<close>: the exit status goes into the channel, then the locked section decides what it was.\<close>

definition reapProc :: "nat \<Rightarrow> exit_status \<Rightarrow> services \<Rightarrow> services" where
  "reapProc i x s = s\<lparr>sxProcs := (sxProcs s)[i := (sxProcs s ! i)\<lparr>pcExit := Some x\<rparr>]\<rparr>"

definition watch :: "nat \<Rightarrow> services \<Rightarrow> services" where
  "watch i s =
     (let p = sxProcs s ! i;
          unexpected = (\<not> sxStopping s \<and> \<not> asked s \<and> sxFirstDeath s = None);
          s = s\<lparr>sxProcs := (sxProcs s)[i := p\<lparr>pcWatched := True\<rparr>]\<rparr>
      in if unexpected
         then s\<lparr>sxFirstDeath := Some (pcName p, the (pcExit p)), sxCancels := sxCancels s + 1\<rparr>
         else s)"

definition died :: "services \<Rightarrow> (string \<times> exit_status) option" where "died s = sxFirstDeath s"

datatype service_event = Starts string | Exits nat exit_status | Watches nat | Interrupts | StopBegins

inductive services_step :: "service_event \<Rightarrow> services \<Rightarrow> services \<Rightarrow> bool" where
  starts: "services_step (Starts name) s (startProc name s)"
| exits: "i < length (sxProcs s) \<Longrightarrow> pcExit (sxProcs s ! i) = None \<Longrightarrow> services_step (Exits i x) s (reapProc i x s)"
| watches: "i < length (sxProcs s) \<Longrightarrow> pcExit (sxProcs s ! i) \<noteq> None \<Longrightarrow> \<not> pcWatched (sxProcs s ! i)
    \<Longrightarrow> services_step (Watches i) s (watch i s)"
| interrupts: "services_step Interrupts s (s\<lparr>sxInterrupted := True\<rparr>)"
| stop_begins: "services_step StopBegins s (s\<lparr>sxStopping := True\<rparr>)"

inductive_cases services_stepE: "services_step l s t"

text \<open>A run's events and the state they lead to.\<close>

definition services_start :: "service_event list \<times> services \<Rightarrow> bool" where
  "services_start x \<longleftrightarrow> x = ([], noServices)"

definition services_next :: "service_event list \<times> services \<Rightarrow> service_event list \<times> services \<Rightarrow> bool" where
  "services_next = (\<lambda>(ls, s) (ls', t). \<exists>l. ls' = ls @ [l] \<and> services_step l s t)"

abbreviation services_run :: "service_event list \<Rightarrow> services \<Rightarrow> bool" where
  "services_run ls s \<equiv> reach services_start services_next (ls, s)"

lemma run_start: "services_run [] noServices"
  by (rule reach_start) (simp add: services_start_def)

lemma run_step: "services_run ls s \<Longrightarrow> services_step l s t \<Longrightarrow> services_run (ls @ [l]) t"
  by (erule reach_step) (auto simp: services_next_def)

section \<open>Errors and explanations\<close>

datatype services_error =
    NotBuilt string
  | NeedsAdapterEndpoint Cell
  | StartFailed string
  | NeverListened string
  | StartCancelled
  | ExitedBeforeListening string exit_status
  | Died string exit_status
  | SignalFailed string
  | ExitedBadly string string
  | Killed string

text \<open>\<^verbatim>\<open>explain\<close>: an error as it surfaced, or behind the death that produced it.\<close>

datatype 'e explained = Plain 'e | Lost string exit_status 'e

definition explain :: "services \<Rightarrow> 'e option \<Rightarrow> 'e explained option" where
  "explain s err = (case err of None \<Rightarrow> None
     | Some e \<Rightarrow> (case died s of None \<Rightarrow> Some (Plain e) | Some (name, x) \<Rightarrow> Some (Lost name x e)))"

section \<open>Stopping\<close>

datatype signal = Signalled | ProcessDone | SignalError

text \<open>
  What stopping a process met: the signal's result, and its exit if it came within the grace.
  \<open>Stop\<close> takes the answer of each process, by its position.
\<close>

record stopAnswer =
  saSignal :: signal
  saExit :: "exit_status option"

definition stopOne :: "services_error option \<Rightarrow> proc \<times> stopAnswer \<Rightarrow> services_error option" where
  "stopOne = (\<lambda>firstErr (p, a).
     let firstErr = (if saSignal a = SignalError \<and> firstErr = None then Some (SignalFailed (pcName p)) else firstErr);
         exited = (case pcExit p of Some x \<Rightarrow> Some x | None \<Rightarrow> saExit a)
     in case exited of
          Some x \<Rightarrow> (case x of None \<Rightarrow> firstErr
            | Some err \<Rightarrow> if firstErr = None then Some (ExitedBadly (pcName p) err) else firstErr)
        | None \<Rightarrow> if firstErr = None then Some (Killed (pcName p)) else firstErr)"

definition Stop :: "(nat \<Rightarrow> stopAnswer) \<Rightarrow> services \<Rightarrow> services_error option \<times> services" where
  "Stop answers s =
     (let s = s\<lparr>sxStopping := True\<rparr>;
          firstErr = (case died s of None \<Rightarrow> None | Some (name, x) \<Rightarrow> Some (Died name x))
      in (foldl stopOne firstErr (map (\<lambda>i. (sxProcs s ! i, answers i)) (rev [0 ..< length (sxProcs s)])), s\<lparr>sxProcs := []\<rparr>))"

section \<open>Starting\<close>

text \<open>\<^verbatim>\<open>waitForListener\<close>: each look says whether a connection was made.\<close>

fun waitForListener :: "string \<Rightarrow> bool poll list \<Rightarrow> services_error option option" where
  "waitForListener name [] = None"
| "waitForListener name (p # ps) =
     (if plExpired p then Some (Some (NeverListened name))
      else if plSeen p then Some None
      else if plEnded p then Some (Some StartCancelled)
      else waitForListener name ps)"

datatype start_outcome = Listened "services_error option" | ExitedFirst exit_status

definition startAndWait :: "string \<Rightarrow> bool \<Rightarrow> start_outcome \<Rightarrow> services \<Rightarrow> services_error option \<times> services" where
  "startAndWait name launched outcome s =
     (if \<not> launched then (Some (StartFailed name), s)
      else let s = startProc name s in
        (case outcome of Listened err \<Rightarrow> err | ExitedFirst x \<Rightarrow> Some (ExitedBeforeListening name x), s))"

definition Itoa :: "int \<Rightarrow> string" where
  "Itoa n = (if n < 0 then ''-'' @ AppendUint (nat (- n)) else AppendUint (nat n))"

definition adapterArgs :: "Manifest \<Rightarrow> string \<Rightarrow> int \<Rightarrow> int \<Rightarrow> string \<Rightarrow> string \<Rightarrow> (string \<times> string) list" where
  "adapterArgs m entry featureWidth payloadFloats clockDomain events =
     [(''--listen'', mtAdapterEndpoint (mnTransport m)),
      (''--triton'', mtTritonEndpoint (mnTransport m)),
      (''--model'', entry),
      (''--events'', events),
      (''--experiment'', mnExperiment m),
      (''--session'', mnSession m),
      (''--run'', mnRun m),
      (''--cell'', mnCell m),
      (''--clock-domain'', clockDomain),
      (''--target-b'', Itoa (mcSize (mnCohort m))),
      (''--feature-width'', Itoa featureWidth),
      (''--payload-floats'', Itoa payloadFloats),
      (''--max-message-bytes'', Itoa (mtMaxMessageBytes (mnTransport m))),
      (''--initial-window-size'', Itoa (mtInitialWindowSize (mnTransport m))),
      (''--initial-conn-window-size'', Itoa (mtInitialConnWindowSize (mnTransport m)))]"

definition proxyArgs :: "Manifest \<Rightarrow> string \<Rightarrow> string \<Rightarrow> (string \<times> string) list" where
  "proxyArgs m clockDomain events =
     [(''--listen'', mtProxyEndpoint (mnTransport m)),
      (''--backend'', mtAdapterEndpoint (mnTransport m)),
      (''--events'', events),
      (''--experiment'', mnExperiment m),
      (''--session'', mnSession m),
      (''--run'', mnRun m),
      (''--cell'', mnCell m),
      (''--clock-domain'', clockDomain),
      (''--target-b'', Itoa (mcSize (mnCohort m))),
      (''--formation-deadline-millis'', Itoa (mcFormationDeadlineMillis (mnCohort m))),
      (''--max-message-bytes'', Itoa (mtMaxMessageBytes (mnTransport m))),
      (''--initial-window-size'', Itoa (mtInitialWindowSize (mnTransport m))),
      (''--initial-conn-window-size'', Itoa (mtInitialConnWindowSize (mnTransport m)))]"

text \<open>
  \<^verbatim>\<open>startServices\<close>: \<open>built\<close> says which binaries exist, \<open>launch\<close> what each launch met, and
  \<open>meanwhile\<close> what the watchers did to the state while a service was coming up.
\<close>

definition startServices :: "Manifest \<Rightarrow> (string \<Rightarrow> bool) \<Rightarrow> (string \<Rightarrow> bool \<times> start_outcome) \<Rightarrow> (services \<Rightarrow> services)
    \<Rightarrow> services_error explained + services" where
  "startServices m built launch meanwhile =
     (if \<not> UsesProxy (mnCell m) then Inr noServices
      else case find (\<lambda>bin. \<not> built bin) [''adapter'', ''proxy''] of Some bin \<Rightarrow> Inl (Plain (NotBuilt bin))
      | None \<Rightarrow>
          if mtAdapterEndpoint (mnTransport m) = [] then Inl (Plain (NeedsAdapterEndpoint (mnCell m)))
          else let (err, s) = startAndWait ''adapter'' (fst (launch ''adapter'')) (snd (launch ''adapter'')) noServices;
                   s = meanwhile s
            in case explain s err of Some e \<Rightarrow> Inl e
            | None \<Rightarrow>
                let (err, s) = startAndWait ''proxy'' (fst (launch ''proxy'')) (snd (launch ''proxy'')) s;
                    s = meanwhile s
                in case explain s err of Some e \<Rightarrow> Inl e | None \<Rightarrow> Inr s)"

section \<open>What the watchers know\<close>

text \<open>The first exit a watcher saw before anyone had asked for one, by the sequence of events alone.\<close>

fun unaskedExit :: "service_event list \<Rightarrow> nat option" where
  "unaskedExit [] = None"
| "unaskedExit (l # ls) = (case l of Watches i \<Rightarrow> Some i | Interrupts \<Rightarrow> None | StopBegins \<Rightarrow> None | _ \<Rightarrow> unaskedExit ls)"

lemma unaskedExit_snoc:
  "unaskedExit (ls @ [l]) = (case unaskedExit ls of Some i \<Rightarrow> Some i
     | None \<Rightarrow> if Interrupts \<in> set ls \<or> StopBegins \<in> set ls then None
       else (case l of Watches i \<Rightarrow> Some i | _ \<Rightarrow> None))"
  by (induction ls) (auto split: service_event.splits option.splits)

definition exit_of :: "services \<Rightarrow> nat \<Rightarrow> string \<times> exit_status" where
  "exit_of s i = (pcName (sxProcs s ! i), the (pcExit (sxProcs s ! i)))"

definition services_inv :: "service_event list \<Rightarrow> services \<Rightarrow> bool" where
  "services_inv ls s \<longleftrightarrow> (sxInterrupted s \<longleftrightarrow> Interrupts \<in> set ls) \<and> (sxStopping s \<longleftrightarrow> StopBegins \<in> set ls)
     \<and> (case unaskedExit ls of None \<Rightarrow> True
        | Some i \<Rightarrow> i < length (sxProcs s) \<and> pcExit (sxProcs s ! i) \<noteq> None)
     \<and> sxFirstDeath s = map_option (exit_of s) (unaskedExit ls)
     \<and> sxCancels s = (case unaskedExit ls of None \<Rightarrow> 0 | Some _ \<Rightarrow> 1)"

lemma services_inv_step:
  assumes "services_step l s t" and "services_inv ls s"
  shows "services_inv (ls @ [l]) t"
proof -
  have keep: "exit_of (startProc name s) i = exit_of s i" if "i < length (sxProcs s)" for i name
    using that by (simp add: exit_of_def startProc_def nth_append)
  have reap: "exit_of (reapProc j x s) i = exit_of s i" if "pcExit (sxProcs s ! i) \<noteq> None" "pcExit (sxProcs s ! j) = None" for i j x
    using that by (cases "i = j") (simp_all add: exit_of_def reapProc_def)
  have seen: "exit_of (watch j s) i = exit_of s i" for i j
    by (cases "j < length (sxProcs s)"; cases "i = j") (simp_all add: exit_of_def watch_def Let_def list_update_beyond)
  show ?thesis
    using assms(1)
  proof cases
    case (starts name)
    then show ?thesis
      using assms(2) keep
      by (auto simp: services_inv_def unaskedExit_snoc startProc_def nth_append split: option.splits)
  next
    case (exits i x)
    then show ?thesis
      using assms(2) reap
      by (auto simp: services_inv_def unaskedExit_snoc reapProc_def nth_list_update split: option.splits)
  next
    case (watches i)
    then show ?thesis
      using assms(2) seen
      by (auto simp: services_inv_def unaskedExit_snoc watch_def asked_def exit_of_def Let_def nth_list_update split: option.splits)
  qed (use assms(2) in \<open>auto simp: services_inv_def unaskedExit_snoc exit_of_def split: option.splits\<close>)
qed

interpretation supervision: step_invariant services_start services_next "\<lambda>(ls, s). services_inv ls s"
proof
  fix x assume "services_start x"
  then show "case x of (ls, s) \<Rightarrow> services_inv ls s" by (simp add: services_start_def services_inv_def noServices_def)
next
  fix x y assume "services_next x y" "case x of (ls, s) \<Rightarrow> services_inv ls s"
  then show "case y of (ls, s) \<Rightarrow> services_inv ls s" by (auto simp: services_next_def dest: services_inv_step)
qed

text \<open>A process that went down without trouble, and the first that did not.\<close>

definition stopTrouble :: "proc \<times> stopAnswer \<Rightarrow> services_error option" where
  "stopTrouble = (\<lambda>pa. stopOne None pa)"

lemma stopOne_Some: "stopOne (Some e) pa = Some e"
  by (simp add: stopOne_def split_beta Let_def split: option.splits)

lemma stops_first:
  "foldl stopOne firstErr pas = (case firstErr of Some e \<Rightarrow> Some e
     | None \<Rightarrow> (case List.map_filter stopTrouble pas of [] \<Rightarrow> None | e # _ \<Rightarrow> Some e))"
proof (induction pas arbitrary: firstErr)
  case (Cons pa pas)
  show ?case
    by (cases firstErr; cases "stopOne None pa") (simp_all add: Cons stopOne_Some stopTrouble_def List.map_filter_simps)
qed (simp add: List.map_filter_simps split: option.splits)

lemma map_filter_map: "List.map_filter f (map g xs) = List.map_filter (\<lambda>x. f (g x)) xs"
  by (induction xs) (simp_all add: List.map_filter_simps split: option.splits)


text \<open>A sample: the proxy exits with status 1 before anyone asked, then the operator interrupts.\<close>

definition sampleUp :: services where
  "sampleUp = startProc ''proxy'' (startProc ''adapter'' noServices)"

definition sampleExited :: services where
  "sampleExited = reapProc 1 (Some ''exit status 1'') sampleUp"

definition sampleServices :: services where
  "sampleServices = (watch 1 sampleExited)\<lparr>sxInterrupted := True\<rparr>"

lemma sampleServices_run:
  "services_run [Starts ''adapter'', Starts ''proxy'', Exits 1 (Some ''exit status 1''), Watches 1, Interrupts] sampleServices"
proof -
  have "services_run [Starts ''adapter''] (startProc ''adapter'' noServices)"
    using run_step [OF run_start starts] by simp
  from run_step [OF this starts] have "services_run [Starts ''adapter'', Starts ''proxy''] sampleUp"
    by (simp add: sampleUp_def)
  from run_step [OF this exits [of 1 sampleUp "Some ''exit status 1''"]]
  have "services_run [Starts ''adapter'', Starts ''proxy'', Exits 1 (Some ''exit status 1'')] sampleExited"
    by (simp add: sampleExited_def) (simp add: sampleUp_def startProc_def noServices_def)
  from run_step [OF this watches [of 1 sampleExited]]
  have "services_run [Starts ''adapter'', Starts ''proxy'', Exits 1 (Some ''exit status 1''), Watches 1] (watch 1 sampleExited)"
    by (simp add: sampleExited_def sampleUp_def reapProc_def startProc_def noServices_def)
  from run_step [OF this interrupts] show ?thesis by (simp add: sampleServices_def)
qed


lemma same_flags:
  assumes "(flag, v) \<in> set (adapterArgs m entry fw pf clk es)" and "(flag, w) \<in> set (proxyArgs m clk ep)"
    and "flag \<noteq> ''--listen''" and "flag \<noteq> ''--events''"
  shows "v = w"
  using assms by (auto simp: adapterArgs_def proxyArgs_def)

end
