(* ===== verification/Execute.thy ===== *)
theory Execute
  imports Runner Services
begin

text \<open>
  \<^verbatim>\<open>execute\<close> (\<^verbatim>\<open>internal/runner/run.go\<close>): the order in which a run's phases happen and which
  failure of which phase ends it. Each phase is the component's own definition; what the
  outside answers in a phase (the services' launches, the goroutines of a cohort, the server's
  counters and settings, the trace directory, the files) is a field of \<open>outside\<close>.
\<close>

section \<open>The cohorts\<close>

text \<open>
  What one cohort's release meets: the clock, each member's run, the order in which the members'
  goroutines finish, and then the state of the services and of the run's context.
\<close>

record cohortMet =
  cmScheduledAt :: int64
  cmSeal :: int64
  cmOrder :: "LogicalRequest list \<Rightarrow> LogicalRequest list"
  cmRun :: "LogicalRequest \<Rightarrow> memberRun"
  cmServices :: services
  cmEnded :: bool
  cmGapEnded :: bool

type_synonym outcomes = "(LogicalRequest \<times> clientOutcome) list"

definition releaseMet :: "Cell \<Rightarrow> uint32 \<Rightarrow> bool \<Rightarrow> CohortLabel \<Rightarrow> cohortMet
    \<Rightarrow> outcomes \<times> runner_error option \<times> Record list" where
  "releaseMet cell bytes recording cohort e =
     releaseCohort cell bytes recording (cmScheduledAt e) (cmSeal e)
       (map (\<lambda>r. (r, cmRun e r)) (cmOrder e (cMembers cohort)))"

definition warmupCohort :: "Manifest \<Rightarrow> nat \<Rightarrow> CohortLabel" where
  "warmupCohort m i = NewCohort (of_nat i) (nat (mcSize (mnCohort m))) True"

definition recordedCohort :: "Manifest \<Rightarrow> nat \<Rightarrow> CohortLabel" where
  "recordedCohort m i = NewCohort (of_int (mcWarmupCount (mnCohort m) + int i)) (nat (mcSize (mnCohort m))) False"

fun warmupLoop :: "Manifest \<Rightarrow> uint32 \<Rightarrow> (nat \<Rightarrow> cohortMet) \<Rightarrow> nat list \<Rightarrow> (nat \<times> runner_error explained option) option" where
  "warmupLoop m bytes met [] = None"
| "warmupLoop m bytes met (i # is) =
     (case fst (snd (releaseMet (mnCell m) bytes False (warmupCohort m i) (met i))) of
        Some err \<Rightarrow> Some (i, explain (cmServices (met i)) (Some err))
      | None \<Rightarrow> warmupLoop m bytes met is)"

datatype run_stop = CohortStop runner_error | ContextEnded

definition noteOutcomes :: "outcomes \<Rightarrow> outcomes \<Rightarrow> outcomes" where
  "noteOutcomes results outcomes = foldl (\<lambda>results (req, out). AList.update req out results) results outcomes"

text \<open>The label of a released cohort: its instants are set once there is a barrier.\<close>

definition stamped_label :: "cohortMet \<Rightarrow> runner_error option \<Rightarrow> CohortLabel \<Rightarrow> CohortLabel" where
  "stamped_label e err cohort =
     (if err = Some NoBarrier then cohort else cohort\<lparr>cScheduledAt := cmScheduledAt e, cSealedAt := cmSeal e\<rparr>)"

text \<open>
  A cohort that failed is scoped to itself unless a service died or the context ended. The
  pause between cohorts ends the run if the context ends in it.
\<close>

fun recordedLoop :: "Manifest \<Rightarrow> uint32 \<Rightarrow> (nat \<Rightarrow> cohortMet) \<Rightarrow> nat list
    \<Rightarrow> outcomes \<times> CohortLabel list \<times> Record list
    \<Rightarrow> run_stop explained option + (outcomes \<times> CohortLabel list \<times> Record list)" where
  "recordedLoop m bytes met [] acc = Inr acc"
| "recordedLoop m bytes met (i # is) acc =
     (let e = met i; cohort = recordedCohort m i;
          (outcomes, err, records) = releaseMet (mnCell m) bytes True cohort e;
          lost = (died (cmServices e) \<noteq> None \<or> cmEnded e)
      in if err \<noteq> None \<and> lost then Inl (explain (cmServices e) (Some (CohortStop (the err))))
         else let acc = (noteOutcomes (fst acc) outcomes, fst (snd acc) @ [stamped_label e err cohort], snd (snd acc) @ records)
           in if 0 < InterCohortGap m \<and> int i < mcCount (mnCohort m) - 1 \<and> cmGapEnded e
              then Inl (explain (cmServices e) (Some ContextEnded))
              else recordedLoop m bytes met is acc)"

section \<open>The run\<close>

record outside =
  oBuilt :: "string \<Rightarrow> bool"
  oLaunch :: "string \<Rightarrow> bool \<times> start_outcome"
  oMeanwhile :: "services \<Rightarrow> services"
  oDial :: bool
  oFeatureWidth :: int
  oPayloadFloats :: int
  oOpens :: "Emitter \<Rightarrow> bool"
  oWarmup :: "nat \<Rightarrow> cohortMet"
  oRecorded :: "nat \<Rightarrow> cohortMet"
  oTraceAccepted :: bool
  oTraceSettling :: "listing poll list"
  oRemovable :: "string \<Rightarrow> bool"
  oTraceDir :: listing
  oTraceSetting :: "int option list option"
  oStatsBefore :: "ModelStat list option"
  oStatsAfter :: "ModelStat list option"
  oClientCloses :: bool
  oAtStop :: services
  oStopAnswers :: "nat \<Rightarrow> stopAnswer"
  oSettingAfter :: "int option list option"
  oFlushed :: bool
  oPolls :: "(listing \<times> (string \<Rightarrow> trace_error + TraceEvent list)) poll list"
  oTritonAccepts :: "Record \<Rightarrow> bool"
  oCopies :: bool
  oCloses :: "Emitter \<Rightarrow> bool"
  oStats :: "Emitter \<Rightarrow> uint64 \<times> uint64"
  oSidecar :: "Emitter \<Rightarrow> (uint64 \<times> uint64) option"
  oAdapterRecord :: "ProcessRecord option"
  oStream :: "Emitter \<Rightarrow> Decoded list option"
  oArchives :: bool

datatype execute_error =
    ServicesFailed "services_error explained"
  | PathFailed path_error
  | NotOpened Emitter
  | WarmupFailed nat "runner_error explained option"
  | CollectorFailed trace_error
  | CountersFailed gateway_error
  | RunStopped "run_stop explained option"
  | ClientNotClosed
  | StopFailed services_error
  | BackendFailed runner_error
  | CopyFailed
  | NotClosed Emitter
  | ExternalFailed runner_error
  | NoProcessRecord
  | ArchiveFailed runner_error
  | NotArchived

record executed =
  edBundle :: Bundle
  edSchedule :: "CohortLabel list"
  edSent :: "Record list"
  edServed :: "Record list"
  edArchived :: "Decoded list"

fun externalStreams :: "outside \<Rightarrow> Emitter list \<Rightarrow> runner_error + StreamRecord list" where
  "externalStreams w [] = Inr []"
| "externalStreams w (e # es) =
     (case externalStreamRecord e (oStream w e) (oSidecar w e) of Inl err \<Rightarrow> Inl err
      | Inr rec \<Rightarrow> (case externalStreams w es of Inl err \<Rightarrow> Inl err | Inr recs \<Rightarrow> Inr (rec # recs)))"

text \<open>After the last cohort's release: the data plane is stopped, then the evidence is read.\<close>

definition finishExecute :: "Manifest \<Rightarrow> outside \<Rightarrow> TraceCollector \<Rightarrow> Snapshot
    \<Rightarrow> outcomes \<times> CohortLabel list \<times> Record list \<Rightarrow> Bundle \<Rightarrow> (execute_error + executed) option" where
  "finishExecute m w collector before = (\<lambda>(results, schedule, sent) b.
     if \<not> oClientCloses w then Some (Inl ClientNotClosed)
     else case fst (Stop (oStopAnswers w) (oAtStop w)) of Some e \<Rightarrow> Some (Inl (StopFailed e))
     | None \<Rightarrow>
     (case Statistics (enName (bnModelEntry b)) (oStatsAfter w) of Inl e \<Rightarrow> Some (Inl (CountersFailed e))
      | Inr after \<Rightarrow>
     (case Delta before after of Inl e \<Rightarrow> Some (Inl (CountersFailed e))
      | Inr delta \<Rightarrow>
     (case collectBackend results (oSettingAfter w) (oFlushed w) (oPolls w) collector (oTritonAccepts w) of
        None \<Rightarrow> None
      | Some (Inl e) \<Rightarrow> Some (Inl (BackendFailed e))
      | Some (Inr served) \<Rightarrow>
          if \<not> oCopies w then Some (Inl CopyFailed)
          else case find (\<lambda>e. \<not> oCloses w e) [EmitterLoadGen, EmitterTriton] of Some e \<Rightarrow> Some (Inl (NotClosed e))
          | None \<Rightarrow>
            let own = map (\<lambda>e. streamRecord e (oStats w e)) [EmitterLoadGen, EmitterTriton];
                others = (if UsesProxy (mnCell m) then [EmitterProxy, EmitterAdapter] else [])
            in case externalStreams w others of Inl e \<Rightarrow> Some (Inl (ExternalFailed e))
               | Inr external \<Rightarrow>
                   if UsesProxy (mnCell m) \<and> oAdapterRecord w = None then Some (Inl NoProcessRecord)
                   else
                     let b = b\<lparr>bnTritonStats := delta, bnStreams := own @ external,
                           bnAdapter := (if UsesProxy (mnCell m) then oAdapterRecord w else bnAdapter b),
                           bnFirstRecordedCohort := of_int (mcWarmupCount (mnCohort m))\<rparr>
                     in case archiveRecords b (map (oStream w) ([EmitterLoadGen, EmitterTriton] @ others)) of
                          Inl e \<Rightarrow> Some (Inl (ArchiveFailed e))
                        | Inr archived \<Rightarrow>
                            if \<not> oArchives w then Some (Inl NotArchived)
                            else Some (Inr \<lparr>edBundle = b, edSchedule = schedule, edSent = sent, edServed = served,
                              edArchived = archived\<rparr>)))))"

definition execute :: "Manifest \<Rightarrow> outside \<Rightarrow> Bundle \<Rightarrow> (execute_error + executed) option" where
  "execute m w b =
     (case startServices m (oBuilt w) (oLaunch w) (oMeanwhile w) of Inl e \<Rightarrow> Some (Inl (ServicesFailed e))
      | Inr _ \<Rightarrow>
     (case cellPath m (oDial w) (enName (bnModelEntry b)) (oFeatureWidth w) (oPayloadFloats w) of
        None \<Rightarrow> None
      | Some (Inl e) \<Rightarrow> Some (Inl (PathFailed e))
      | Some (Inr client) \<Rightarrow>
     (case find (\<lambda>e. \<not> oOpens w e) [EmitterLoadGen, EmitterTriton] of Some e \<Rightarrow> Some (Inl (NotOpened e))
      | None \<Rightarrow>
          let bytes = of_int (pathLogicalBytes client)
          in case warmupLoop m bytes (oWarmup w) [0 ..< nat (mcWarmupCount (mnCohort m))] of
               Some (i, e) \<Rightarrow> Some (Inl (WarmupFailed i e))
             | None \<Rightarrow>
     (case NewTraceCollector (nat (mcCount (mnCohort m) * mcSize (mnCohort m))) (oTraceAccepted w) (oTraceSettling w)
             (oRemovable w) (oTraceDir w) (oTraceSetting w) of
        None \<Rightarrow> None
      | Some (Inl e) \<Rightarrow> Some (Inl (CollectorFailed e))
      | Some (Inr collector) \<Rightarrow>
     (case Statistics (enName (bnModelEntry b)) (oStatsBefore w) of Inl e \<Rightarrow> Some (Inl (CountersFailed e))
      | Inr before \<Rightarrow>
     (case recordedLoop m bytes (oRecorded w) [0 ..< nat (mcCount (mnCohort m))] ([], [], []) of
        Inl e \<Rightarrow> Some (Inl (RunStopped e))
      | Inr acc \<Rightarrow> finishExecute m w collector before acc b))))))"

section \<open>What a release leaves\<close>

definition outcomeOf :: "bool \<Rightarrow> memberRun \<Rightarrow> clientOutcome" where
  "outcomeOf recording x = \<lparr>coResult = (case mbAnswer x of None \<Rightarrow> noResult | Some p \<Rightarrow> p), coStatus = runStatus x,
     coSeq = (if recording then fst (mbRecorded x) else 0)\<rparr>"

definition memberFailure :: "bool \<Rightarrow> (LogicalRequest \<Rightarrow> memberRun) \<Rightarrow> LogicalRequest \<Rightarrow> runner_error option" where
  "memberFailure recording run r =
     (if recording \<and> \<not> snd (mbRecorded (run r)) then Some (RecordDropped r)
      else if mbAnswer (run r) = None then Some (RequestFailed r) else None)"

definition headOption :: "'a list \<Rightarrow> 'a option" where
  "headOption xs = (case xs of [] \<Rightarrow> None | x # _ \<Rightarrow> Some x)"

lemma headOption_simps [simp]: "headOption [] = None" "headOption (x # xs) = Some x"
  by (simp_all add: headOption_def)

lemma finishRun_step:
  "finishRun recording record (os, err, recs) (r, run r) =
     (AList.update r (outcomeOf recording (run r)) os,
      (if err \<noteq> None then err else memberFailure recording run r),
      recs @ (if recording then [record r (run r)] else []))"
  by (simp add: finishRun_def outcomeOf_def memberFailure_def Let_def split_beta split: option.splits)

lemma release_fold:
  "foldl (finishRun recording record) (os, err, recs) (map (\<lambda>r. (r, run r)) ms) =
     (foldl (\<lambda>os r. AList.update r (outcomeOf recording (run r)) os) os ms,
      (if err \<noteq> None then err else headOption (List.map_filter (memberFailure recording run) ms)),
      recs @ (if recording then map (\<lambda>r. record r (run r)) ms else []))"
proof (induction ms arbitrary: os err recs)
  case (Cons r ms)
  show ?case
    by (cases err; cases "memberFailure recording run r")
       (simp_all add: finishRun_step Cons List.map_filter_simps del: finishRun_def)
qed (simp add: List.map_filter_simps)

lemma update_new: "k \<notin> fst ` set al \<Longrightarrow> AList.update k v al = al @ [(k, v)]"
  by (induction al) auto

lemma update_fold:
  "distinct ms \<Longrightarrow> fst ` set os \<inter> set ms = {} \<Longrightarrow>
    foldl (\<lambda>os r. AList.update r (f r) os) os ms = os @ map (\<lambda>r. (r, f r)) ms"
  by (induction ms arbitrary: os) (auto simp: update_new)

lemma noteOutcomes_new:
  "distinct ms \<Longrightarrow> fst ` set results \<inter> set ms = {} \<Longrightarrow>
    noteOutcomes results (map (\<lambda>r. (r, f r)) ms) = results @ map (\<lambda>r. (r, f r)) ms"
  unfolding noteOutcomes_def foldl_map by (simp add: update_fold)

text \<open>The members of a cohort in the order they finish, and how its release fails.\<close>

definition finishing :: "CohortLabel \<Rightarrow> cohortMet \<Rightarrow> LogicalRequest list" where
  "finishing cohort e = cmOrder e (cMembers cohort)"

definition releaseFailure :: "bool \<Rightarrow> CohortLabel \<Rightarrow> cohortMet \<Rightarrow> runner_error option" where
  "releaseFailure recording cohort e =
     (if finishing cohort e = [] then Some NoBarrier
      else headOption (List.map_filter (memberFailure recording (cmRun e)) (finishing cohort e)))"

lemma releaseMet_eq:
  assumes "distinct (finishing cohort e)" and "finishing cohort e \<noteq> []"
  shows "releaseMet cell bytes recording cohort e =
    (map (\<lambda>r. (r, outcomeOf recording (cmRun e r))) (finishing cohort e), releaseFailure recording cohort e,
     if recording then map (\<lambda>r. loadgenRecord cell bytes (cmScheduledAt e) (cmSeal e) r (cmRun e r)) (finishing cohort e) else [])"
  using assms
  by (simp add: releaseMet_def releaseCohort_def finishing_def [symmetric] release_fold update_fold releaseFailure_def)

lemma releaseFailure_None:
  "releaseFailure recording cohort e = None \<longleftrightarrow> finishing cohort e \<noteq> []
     \<and> list_all (\<lambda>r. mbAnswer (cmRun e r) \<noteq> None \<and> (if recording then snd (mbRecorded (cmRun e r)) else True)) (finishing cohort e)"
proof -
  have "headOption (List.map_filter (memberFailure recording (cmRun e)) ms) = None \<longleftrightarrow>
      list_all (\<lambda>r. mbAnswer (cmRun e r) \<noteq> None \<and> (if recording then snd (mbRecorded (cmRun e r)) else True)) ms" for ms
    by (induction ms) (auto simp: List.map_filter_simps memberFailure_def)
  then show ?thesis by (simp add: releaseFailure_def)
qed

section \<open>The loop over the recorded cohorts\<close>

abbreviation (input) releaseRecords :: "Cell \<Rightarrow> uint32 \<Rightarrow> CohortLabel \<Rightarrow> cohortMet \<Rightarrow> Record list" where
  "releaseRecords cell bytes cohort e \<equiv>
     map (\<lambda>r. loadgenRecord cell bytes (cmScheduledAt e) (cmSeal e) r (cmRun e r)) (finishing cohort e)"

lemma recordedLoop_Inr:
  assumes "recordedLoop m bytes met is acc = Inr out"
    and "\<And>i. i \<in> set is \<Longrightarrow> finishing (recordedCohort m i) (met i) \<noteq> []"
    and "distinct (map fst (fst acc) @ concat (map (\<lambda>i. finishing (recordedCohort m i) (met i)) is))"
  shows "out = (fst acc @ concat (map (\<lambda>i. map (\<lambda>r. (r, outcomeOf True (cmRun (met i) r))) (finishing (recordedCohort m i) (met i))) is),
      fst (snd acc) @ map (\<lambda>i. stamped_label (met i) (releaseFailure True (recordedCohort m i) (met i)) (recordedCohort m i)) is,
      snd (snd acc) @ concat (map (\<lambda>i. releaseRecords (mnCell m) bytes (recordedCohort m i) (met i)) is))
    \<and> list_all (\<lambda>i. releaseFailure True (recordedCohort m i) (met i) = None
        \<or> died (cmServices (met i)) = None \<and> \<not> cmEnded (met i)) is"
  using assms
proof (induction "is" arbitrary: acc)
  case (Cons i "is")
  let ?ms = "finishing (recordedCohort m i) (met i)"
  have d: "distinct ?ms" "fst ` set (fst acc) \<inter> set ?ms = {}" "?ms \<noteq> []" using Cons.prems(2,3) by auto
  note rel = releaseMet_eq [OF d(1,3), of "mnCell m" bytes True]
  let ?acc = "(fst acc @ map (\<lambda>r. (r, outcomeOf True (cmRun (met i) r))) ?ms,
      fst (snd acc) @ [stamped_label (met i) (releaseFailure True (recordedCohort m i) (met i)) (recordedCohort m i)],
      snd (snd acc) @ releaseRecords (mnCell m) bytes (recordedCohort m i) (met i))"
  have "recordedLoop m bytes met is ?acc = Inr out"
    and ok: "releaseFailure True (recordedCohort m i) (met i) = None \<or> died (cmServices (met i)) = None \<and> \<not> cmEnded (met i)"
    using Cons.prems(1) by (simp_all add: rel Let_def noteOutcomes_new [OF d(1,2)] split: if_splits del: not_None_eq)
  from Cons.IH [OF this(1)] Cons.prems(2,3) ok show ?case by (auto simp: comp_def)
qed simp


section \<open>What the backend's records cover\<close>

text \<open>The records made of the traces \<open>full\<close> finds.\<close>

definition tracedRecords :: "(LogicalRequest \<Rightarrow> TraceEvent option) \<Rightarrow> outcomes \<Rightarrow> Record list" where
  "tracedRecords full results =
     List.map_filter (\<lambda>x. map_option (\<lambda>tr. traceRecord (fst x) tr (coStatus (snd x))) (full (fst x))) results"

lemma backendLoop_Inr:
  "backendLoop b accepts results = (records, Inr missing) \<Longrightarrow>
    records = tracedRecords (fullTrace b) results
    \<and> missing = map fst (filter (\<lambda>x. fullTrace b (fst x) = None \<and> coStatus (snd x) = StatusOK) results)"
proof (induction results arbitrary: records missing)
  case (Cons a results)
  obtain req out where a: "a = (req, out)" by force
  show ?case
    using Cons by (cases "fullTrace b req"; cases "backendLoop b accepts results")
      (auto simp: a fullTrace_def [symmetric] Let_def tracedRecords_def List.map_filter_simps split: if_splits sum.splits)
qed (simp add: tracedRecords_def List.map_filter_simps)

lemma collectBackend_Inr:
  assumes "collectBackend results setting accepted polls c accepts = Some (Inr served)"
  obtains full where "served = tracedRecords full results"
    and "list_all (\<lambda>(req, out). if coStatus out = StatusOK then full req \<noteq> None else True) results"
proof -
  obtain events where r: "recordBackendTimestamps events results accepts = (served, None)"
    using assms by (auto simp: collectBackend_def Let_def split: option.splits prod.splits)
  let ?b = "tracesByRequest events results"
  have "backendLoop ?b accepts results = (served, Inr [])"
    using r by (auto simp: recordBackendTimestamps_def Let_def split: prod.splits sum.splits list.splits)
  from backendLoop_Inr [OF this]
  have "served = tracedRecords (fullTrace ?b) results"
    "list_all (\<lambda>(req, out). if coStatus out = StatusOK then fullTrace ?b req \<noteq> None else True) results"
    by (auto simp: list_all_iff filter_empty_conv)
  then show thesis by (rule that)
qed

lemma tracedRecords_requests:
  "map recRequest (tracedRecords full results) = filter (\<lambda>r. full r \<noteq> None) (map fst results)"
  by (induction results) (auto simp: tracedRecords_def List.map_filter_simps traceRecord_fields(1) split: option.splits)

section \<open>A run that returned\<close>

lemma warmupLoop_None:
  "warmupLoop m bytes met is = None \<longleftrightarrow>
    list_all (\<lambda>i. fst (snd (releaseMet (mnCell m) bytes False (warmupCohort m i) (met i))) = None) is"
  by (induction "is") (auto split: option.splits)

lemma finishExecute_Inr:
  assumes "finishExecute m w c before acc b = Some (Inr x)"
  shows "edSchedule x = fst (snd acc)" "edSent x = snd (snd acc)"
    "collectBackend (fst acc) (oSettingAfter w) (oFlushed w) (oPolls w) c (oTritonAccepts w) = Some (Inr (edServed x))"
    "bnFirstRecordedCohort (edBundle x) = of_int (mcWarmupCount (mnCohort m))"
    "bnManifest (edBundle x) = bnManifest b" "bnCell (edBundle x) = bnCell b" "bnClockDomain (edBundle x) = bnClockDomain b"
    "take 2 (bnStreams (edBundle x)) = map (\<lambda>e. streamRecord e (oStats w e)) [EmitterLoadGen, EmitterTriton]"
    "\<not> UsesProxy (mnCell m) \<Longrightarrow> length (bnStreams (edBundle x)) = 2"
    "archiveRecords (edBundle x) (map (oStream w) ([EmitterLoadGen, EmitterTriton]
       @ (if UsesProxy (mnCell m) then [EmitterProxy, EmitterAdapter] else []))) = Inr (edArchived x)"
  using assms
  by (auto simp: finishExecute_def Let_def split_beta simp del: not_None_eq split: if_splits option.splits sum.splits)

lemma execute_Inr:
  assumes "execute m w b = Some (Inr x)"
  obtains bytes c before acc where
    "warmupLoop m bytes (oWarmup w) [0 ..< nat (mcWarmupCount (mnCohort m))] = None"
    "recordedLoop m bytes (oRecorded w) [0 ..< nat (mcCount (mnCohort m))] ([], [], []) = Inr acc"
    "finishExecute m w c before acc b = Some (Inr x)"
  using assms by (auto simp: execute_def Let_def split: option.splits sum.splits prod.splits)

lemma recordedCohorts_eq: "recordedCohorts m = map (\<lambda>i. cMembers (recordedCohort m i)) [0 ..< nat (mcCount (mnCohort m))]"
  by (simp add: recordedCohorts_def recordedCohort_def)

lemma mset_concat_map: "(\<And>i. i \<in> set is \<Longrightarrow> mset (f i) = mset (g i)) \<Longrightarrow> mset (concat (map f is)) = mset (concat (map g is))"
  by (induction "is") simp_all


text \<open>Goroutines finish in some order of the cohort's members.\<close>

definition orders :: "(nat \<Rightarrow> cohortMet) \<Rightarrow> bool" where
  "orders met \<longleftrightarrow> (\<forall>i xs. mset (cmOrder (met i) xs) = mset xs)"

lemma finishing_mset: "orders met \<Longrightarrow> mset (finishing cohort (met i)) = mset (cMembers cohort)"
  by (simp add: orders_def finishing_def)

lemma finishing_cohort:
  assumes "orders met" and "cMembers cohort \<noteq> []"
  shows "finishing cohort (met i) \<noteq> []" and "set (finishing cohort (met i)) = set (cMembers cohort)"
  using finishing_mset [OF assms(1), of cohort i] assms(2) by (auto dest: mset_eq_setD)

text \<open>The loop over the recorded cohorts, for a manifest that is valid.\<close>

lemma recordedLoop_valid:
  assumes "Manifest_Validate m = None" and "mcWarmupCount (mnCohort m) + mcCount (mnCohort m) \<le> 2 ^ 32" and "orders met"
    and "recordedLoop m bytes met [0 ..< nat (mcCount (mnCohort m))] ([], [], []) = Inr acc"
  defines "is \<equiv> [0 ..< nat (mcCount (mnCohort m))]"
  shows "fst acc = concat (map (\<lambda>i. map (\<lambda>r. (r, outcomeOf True (cmRun (met i) r))) (finishing (recordedCohort m i) (met i))) is)"
    and "map cMembers (fst (snd acc)) = recordedCohorts m"
    and "snd (snd acc) = concat (map (\<lambda>i. releaseRecords (mnCell m) bytes (recordedCohort m i) (met i)) is)"
    and "list_all (\<lambda>i. releaseFailure True (recordedCohort m i) (met i) = None
        \<or> died (cmServices (met i)) = None \<and> \<not> cmEnded (met i)) is"
    and "mset (concat (map (\<lambda>i. finishing (recordedCohort m i) (met i)) is)) = mset (concat (recordedCohorts m))"
    and "distinct (concat (map (\<lambda>i. finishing (recordedCohort m i) (met i)) is))"
proof -
  note valid = assms(1) [unfolded Manifest_Validate_None Let_def]
  have n: "nat (mcSize (mnCohort m)) \<le> MaxOrdinal" "0 < nat (mcSize (mnCohort m))" and w: "0 \<le> mcWarmupCount (mnCohort m)"
    using valid by auto
  have members: "cMembers (recordedCohort m i) \<noteq> []" for i using n(2) by (simp add: recordedCohort_def NewCohort_def)
  show ms: "mset (concat (map (\<lambda>i. finishing (recordedCohort m i) (met i)) is)) = mset (concat (recordedCohorts m))"
    unfolding recordedCohorts_eq is_def by (intro mset_concat_map finishing_mset assms(3))
  then show d: "distinct (concat (map (\<lambda>i. finishing (recordedCohort m i) (met i)) is))"
    using distinct_recorded [OF n(1) w assms(2)] mset_eq_imp_distinct_iff by blast
  have "acc = ([] @ concat (map (\<lambda>i. map (\<lambda>r. (r, outcomeOf True (cmRun (met i) r))) (finishing (recordedCohort m i) (met i))) is),
      [] @ map (\<lambda>i. stamped_label (met i) (releaseFailure True (recordedCohort m i) (met i)) (recordedCohort m i)) is,
      [] @ concat (map (\<lambda>i. releaseRecords (mnCell m) bytes (recordedCohort m i) (met i)) is))
    \<and> list_all (\<lambda>i. releaseFailure True (recordedCohort m i) (met i) = None
        \<or> died (cmServices (met i)) = None \<and> \<not> cmEnded (met i)) is"
    using recordedLoop_Inr [OF assms(4)] finishing_cohort(1) [OF assms(3) members] d by (simp add: is_def)
  then show "fst acc = concat (map (\<lambda>i. map (\<lambda>r. (r, outcomeOf True (cmRun (met i) r))) (finishing (recordedCohort m i) (met i))) is)"
    "map cMembers (fst (snd acc)) = recordedCohorts m"
    "snd (snd acc) = concat (map (\<lambda>i. releaseRecords (mnCell m) bytes (recordedCohort m i) (met i)) is)"
    "list_all (\<lambda>i. releaseFailure True (recordedCohort m i) (met i) = None
        \<or> died (cmServices (met i)) = None \<and> \<not> cmEnded (met i)) is"
    by (auto simp: recordedCohorts_eq is_def stamped_label_def)
qed

lemma warmup_answered:
  assumes "Manifest_Validate m = None" and "orders met" and "warmupLoop m bytes met is = None"
  shows "list_all (\<lambda>i. list_all (\<lambda>r. mbAnswer (cmRun (met i) r) \<noteq> None) (cMembers (warmupCohort m i))) is"
  unfolding list_all_iff
proof
  fix i assume i: "i \<in> set is"
  have n: "nat (mcSize (mnCohort m)) \<le> MaxOrdinal" "0 < nat (mcSize (mnCohort m))"
    using assms(1) [unfolded Manifest_Validate_None Let_def] by auto
  then have m: "cMembers (warmupCohort m i) \<noteq> []" "distinct (cMembers (warmupCohort m i))"
    unfolding warmupCohort_def by (simp add: NewCohort_def, intro distinct_NewCohort)
  have d: "distinct (finishing (warmupCohort m i) (met i))"
    using m(2) finishing_mset [OF assms(2), of "warmupCohort m i" i] mset_eq_imp_distinct_iff by blast
  have "fst (snd (releaseMet (mnCell m) bytes False (warmupCohort m i) (met i))) = None"
    using assms(3) i by (simp add: warmupLoop_None list_all_iff)
  then have "releaseFailure False (warmupCohort m i) (met i) = None"
    by (simp add: releaseMet_eq [OF d finishing_cohort(1) [OF assms(2) m(1)]])
  then show "\<forall>r\<in>set (cMembers (warmupCohort m i)). mbAnswer (cmRun (met i) r) \<noteq> None"
    by (simp add: releaseFailure_None list_all_iff finishing_cohort(2) [OF assms(2) m(1)])
qed

text \<open>
  C32. A run that returns accounts for every request it released, and no failure passes
  silently. Whatever order the goroutines finish in: the schedule it leaves is the cohorts the
  validator will expect; exactly one record of the load generator was handed over for each
  member of each of them; the backend's records are of different requests of the run, and each
  request that was answered has one; every member of every warm-up cohort was answered; and
  whenever a member of a recorded cohort failed, or its record was dropped, no service had
  died and the run had not been ended.
\<close>

theorem run_accounts_for_requests:
  assumes "Manifest_Validate m = None" and "mcWarmupCount (mnCohort m) + mcCount (mnCohort m) \<le> 2 ^ 32"
    and "orders (oWarmup w)" and "orders (oRecorded w)" and "execute m w b = Some (Inr x)"
  shows "map cMembers (edSchedule x) = recordedCohorts m
    \<and> mset (map recRequest (edSent x)) = mset (concat (recordedCohorts m))
    \<and> distinct (map recRequest (edServed x)) \<and> set (map recRequest (edServed x)) \<subseteq> set (map recRequest (edSent x))
    \<and> list_all (\<lambda>q. if rStatus q = StatusOK then recRequest q \<in> set (map recRequest (edServed x)) else True) (edSent x)
    \<and> list_all (\<lambda>i. list_all (\<lambda>r. mbAnswer (cmRun (oWarmup w i) r) \<noteq> None) (cMembers (warmupCohort m i)))
        [0 ..< nat (mcWarmupCount (mnCohort m))]
    \<and> list_all (\<lambda>i. list_all (\<lambda>r. mbAnswer (cmRun (oRecorded w i) r) \<noteq> None \<and> snd (mbRecorded (cmRun (oRecorded w i) r)))
          (cMembers (recordedCohort m i))
        \<or> died (cmServices (oRecorded w i)) = None \<and> \<not> cmEnded (oRecorded w i)) [0 ..< nat (mcCount (mnCohort m))]"
proof -
  obtain bytes c before acc where run: "warmupLoop m bytes (oWarmup w) [0 ..< nat (mcWarmupCount (mnCohort m))] = None"
    "recordedLoop m bytes (oRecorded w) [0 ..< nat (mcCount (mnCohort m))] ([], [], []) = Inr acc"
    "finishExecute m w c before acc b = Some (Inr x)" by (rule execute_Inr [OF assms(5)])
  note loop = recordedLoop_valid [OF assms(1,2,4) run(2)] and fin = finishExecute_Inr [OF run(3)]
  let ?is = "[0 ..< nat (mcCount (mnCohort m))]"
  let ?ms = "concat (map (\<lambda>i. finishing (recordedCohort m i) (oRecorded w i)) ?is)"
  obtain full where served: "edServed x = tracedRecords full (fst acc)"
    and full: "list_all (\<lambda>(req, out). if coStatus out = StatusOK then full req \<noteq> None else True) (fst acc)"
    by (rule collectBackend_Inr [OF fin(3)])
  have traced: "map recRequest (edServed x) = filter (\<lambda>r. full r \<noteq> None) (map fst (fst acc))"
    by (simp only: served tracedRecords_requests)
  have keys: "map fst (fst acc) = ?ms" unfolding loop(1) by (simp add: map_concat comp_def)
  have sent: "map recRequest (edSent x) = ?ms" unfolding fin(2) loop(3) by (simp add: map_concat comp_def loadgenRecord_fields(1))
  have ok: "recRequest q \<in> set (map recRequest (edServed x))" if "q \<in> set (edSent x)" "rStatus q = StatusOK" for q
  proof -
    have "\<exists>i \<in> set ?is. \<exists>r \<in> set (finishing (recordedCohort m i) (oRecorded w i)).
        q = loadgenRecord (mnCell m) bytes (cmScheduledAt (oRecorded w i)) (cmSeal (oRecorded w i)) r (cmRun (oRecorded w i) r)"
      using that(1) unfolding fin(2) loop(3) by auto
    then obtain i r where i: "i \<in> set ?is" and r: "r \<in> set (finishing (recordedCohort m i) (oRecorded w i))"
      and "q = loadgenRecord (mnCell m) bytes (cmScheduledAt (oRecorded w i)) (cmSeal (oRecorded w i)) r (cmRun (oRecorded w i) r)"
      by blast
    then have q: "recRequest q = r" "rStatus q = runStatus (cmRun (oRecorded w i) r)" by (simp_all add: loadgenRecord_fields(1,3))
    have "(r, outcomeOf True (cmRun (oRecorded w i) r)) \<in> set (fst acc)" unfolding loop(1) using i r by auto
    then have "full r \<noteq> None" using full that(2) q by (force simp: list_all_iff outcomeOf_def)
    moreover have "r \<in> set ?ms" using i r by auto
    ultimately show ?thesis unfolding traced keys q(1) by simp
  qed
  have members: "cMembers (recordedCohort m i) \<noteq> []" for i
    using assms(1) [unfolded Manifest_Validate_None Let_def] by (simp add: recordedCohort_def NewCohort_def)
  show ?thesis
    using loop(2,5,6) warmup_answered [OF assms(1,3) run(1)] loop(4) ok
    by (simp add: fin(1) sent traced keys list_all_iff releaseFailure_None finishing_cohort [OF assms(4) members]) blast
qed


section \<open>A sample run\<close>

text \<open>
  The direct path of the sample manifest: one warm-up and two recorded cohorts of two, whose
  members are answered one after the other, the last one first.
\<close>

definition sampleMember :: "LogicalRequest \<Rightarrow> memberRun" where
  "sampleMember r = \<lparr>mbSend = 30, mbRecv = 1000, mbAnswer = Some \<lparr>ptMembership = [UID r], ptBatchSize = 1\<rparr>,
     mbTimedOut = False, mbRecorded = (1, True)\<rparr>"

definition sampleMet :: cohortMet where
  "sampleMet = \<lparr>cmScheduledAt = 10, cmSeal = 20, cmOrder = rev, cmRun = sampleMember, cmServices = noServices,
     cmEnded = False, cmGapEnded = False\<rparr>"

definition sampleTrace :: "LogicalRequest \<Rightarrow> TraceEvent" where
  "sampleTrace r = \<lparr>teRequest = r, teRequestID = [], teModelName = ''a_unbatched'', teTraceID = 1, teQueueStart = 40,
     teComputeStart = 100 + 100 * ucast (Ordinal r), teComputeEnd = 200 + 100 * ucast (Ordinal r),
     teRequestStart = 35, teRequestEnd = 900, teComputeInputEnd = 0, teComputeOutputStart = 0\<rparr>"

definition sampleRequests :: "LogicalRequest list" where
  "sampleRequests = [LogicalRequest 1 1, LogicalRequest 1 0, LogicalRequest 2 1, LogicalRequest 2 0]"

definition sampleSent :: "Record list" where
  "sampleSent = map (\<lambda>r. loadgenRecord CellD0 16 10 20 r (sampleMember r)) sampleRequests"

definition sampleServed :: "Record list" where
  "sampleServed = map (\<lambda>r. traceRecord r (sampleTrace r) StatusOK) sampleRequests"

definition sampleStat :: "uint64 \<Rightarrow> ModelStat list option" where
  "sampleStat n = Some [\<lparr>msName = ''a_unbatched'', msInferenceCount = n, msExecutionCount = n, msBatchStats = [(1, n)]\<rparr>]"

definition sampleRunHeader :: RunHeader where
  "sampleRunHeader = sampleHeader\<lparr>hCell := CellD0, hClockDomain := ''cd-4''\<rparr>"

definition sampleFile :: "Record list \<Rightarrow> Decoded list option" where
  "sampleFile qs = Some (map (\<lambda>q. \<lparr>dSchemaVersion = of_nat SchemaVersion, dHeader = sampleRunHeader, dRecord = q\<rparr>) qs)"

definition sampleOutside :: outside where
  "sampleOutside = \<lparr>oBuilt = (\<lambda>_. True), oLaunch = (\<lambda>_. (True, Listened None)), oMeanwhile = id, oDial = True,
     oFeatureWidth = 1, oPayloadFloats = 1, oOpens = (\<lambda>_. True), oWarmup = (\<lambda>_. sampleMet), oRecorded = (\<lambda>_. sampleMet),
     oTraceAccepted = True, oTraceSettling = replicate 4 \<lparr>plSeen = Listing [], plExpired = False, plEnded = False\<rparr>,
     oRemovable = (\<lambda>_. True), oTraceDir = Listing [], oTraceSetting = Some [Some 8000],
     oStatsBefore = sampleStat 2, oStatsAfter = sampleStat 6, oClientCloses = True, oAtStop = noServices,
     oStopAnswers = (\<lambda>_. \<lparr>saSignal = ProcessDone, saExit = None\<rparr>), oSettingAfter = Some [Some 7996], oFlushed = True,
     oPolls = [\<lparr>plSeen = (Listing [(''trace.json.0'', False)], \<lambda>_. Inr (map sampleTrace sampleRequests)),
        plExpired = False, plEnded = False\<rparr>],
     oTritonAccepts = (\<lambda>_. True), oCopies = True, oCloses = (\<lambda>_. True), oStats = (\<lambda>_. (4, 0)), oSidecar = (\<lambda>_. None),
     oAdapterRecord = None,
     oStream = (\<lambda>e. sampleFile (if e = EmitterLoadGen then sampleSent else sampleServed)), oArchives = True\<rparr>"

lemma sample_orders: "orders (oWarmup sampleOutside)" "orders (oRecorded sampleOutside)"
  by (simp_all add: orders_def sampleOutside_def sampleMet_def)

lemma sample_warmup: "warmupLoop (sampleManifest CellD0) bytes (oWarmup sampleOutside)
    [0 ..< nat (mcWarmupCount (mnCohort (sampleManifest CellD0)))] = None"
  by (simp add: sampleManifest_def warmupCohort_def NewCohort_def releaseMet_def releaseCohort_def finishRun_def Let_def
      sampleOutside_def sampleMet_def sampleMember_def upt_rec)

definition sampleResults :: outcomes where
  "sampleResults = map (\<lambda>r. (r, outcomeOf True (sampleMember r))) sampleRequests"

lemma sample_loop: "\<exists>schedule. recordedLoop (sampleManifest CellD0) 16 (oRecorded sampleOutside)
    [0 ..< nat (mcCount (mnCohort (sampleManifest CellD0)))] ([], [], []) = Inr (sampleResults, schedule, sampleSent)"
proof -
  let ?m = "sampleManifest CellD0" and ?met = "oRecorded sampleOutside"
  have cohorts: "recordedCohort ?m 0 = NewCohort 1 2 False" "recordedCohort ?m (Suc 0) = NewCohort 2 2 False"
    by (simp_all add: recordedCohort_def sampleManifest_def)
  have fin: "finishing (NewCohort c 2 False) sampleMet = [LogicalRequest c 1, LogicalRequest c 0]" for c
    by (simp add: finishing_def sampleMet_def NewCohort_def upt_rec)
  have alive: "\<not> cmEnded sampleMet" "\<not> cmGapEnded sampleMet" "died (cmServices sampleMet) = None" "cmRun sampleMet = sampleMember"
    "cmScheduledAt sampleMet = 10" "cmSeal sampleMet = 20" "?met = (\<lambda>_. sampleMet)"
    by (simp_all add: sampleMet_def died_def noServices_def sampleOutside_def)
  have rel: "releaseMet CellD0 16 True (NewCohort c 2 False) sampleMet
      = (map (\<lambda>r. (r, outcomeOf True (sampleMember r))) [LogicalRequest c 1, LogicalRequest c 0],
         releaseFailure True (NewCohort c 2 False) sampleMet,
         map (\<lambda>r. loadgenRecord CellD0 16 10 20 r (sampleMember r)) [LogicalRequest c 1, LogicalRequest c 0])" for c
    by (subst releaseMet_eq) (simp_all add: fin alive)
  have "[0 ..< nat (mcCount (mnCohort ?m))] = [0, Suc 0]" "mnCell ?m = CellD0" by (simp_all add: sampleManifest_def upt_rec)
  then show ?thesis
    by (simp add: alive cohorts rel noteOutcomes_def sampleResults_def sampleSent_def sampleRequests_def Let_def)
qed

definition sampleCollecting :: TraceCollector where
  "sampleCollecting = \<lparr>tcSeen = [], tcFreq = TraceRotation, tcBudget = 4100, tcBudgetAt = 8000, tcCollected = []\<rparr>"

lemma sample_collector: "NewTraceCollector 4 (oTraceAccepted sampleOutside) (oTraceSettling sampleOutside) (oRemovable sampleOutside)
    (oTraceDir sampleOutside) (oTraceSetting sampleOutside) = Some (Inr sampleCollecting)"
  by (simp add: NewTraceCollector_def applySettings_def sampleOutside_def traceFiles_def clearTraceFiles_def remainingCount_def
      sampleCollecting_def traceBudgetMargin_def numeral_eq_Suc Let_def)

lemma sample_complete: "Complete (sampleTrace r)" if "r \<in> set sampleRequests"
  using that by (auto simp: sampleRequests_def Complete_def sampleTrace_def)

lemma sample_backend: "collectBackend sampleResults (oSettingAfter sampleOutside) (oFlushed sampleOutside) (oPolls sampleOutside)
    sampleCollecting (oTritonAccepts sampleOutside) = Some (Inr sampleServed)"
proof -
  have "\<exists>files c. Collect_traces sampleRequests (Some [Some 7996]) True (oPolls sampleOutside) sampleCollecting
      = Some ((None, map sampleTrace sampleRequests, files), c)"
    by (simp add: Collect_traces_def checkServerCount_def remainingCount_def sampleCollecting_def flush_def applySettings_def
        sampleOutside_def drain_def traceFiles_def indexedTraceFile_def isDigit_def noteFound_def sample_complete
        sampleRequests_def sampleTrace_def Complete_def Let_def)
  then obtain files c where collect: "Collect_traces sampleRequests (Some [Some 7996]) True (oPolls sampleOutside) sampleCollecting
      = Some ((None, map sampleTrace sampleRequests, files), c)" by blast
  have "recordBackendTimestamps (map sampleTrace sampleRequests) sampleResults (\<lambda>_. True) = (sampleServed, None)"
    by (simp add: recordBackendTimestamps_def tracesByRequest_def sampleRequests_def sampleResults_def sampleServed_def outcomeOf_def
        sampleTrace_def sampleMember_def runStatus_def Complete_def Let_def)
  then show ?thesis using collect
    by (simp add: collectBackend_def sampleResults_def comp_def Let_def) (simp add: sampleOutside_def)
qed


lemma sample_delta: "\<exists>before after delta. Statistics ''a_unbatched'' (oStatsBefore sampleOutside) = Inr before
    \<and> Statistics ''a_unbatched'' (oStatsAfter sampleOutside) = Inr after \<and> Delta before after = Inr delta
    \<and> snExecutionCount delta = 4 \<and> snInferenceCount delta = 4 \<and> map fst (snBatchSizes delta) = [1]"
  by (simp add: sampleOutside_def sampleStat_def Statistics_def addStat_def addBatch_def Delta_def sizeCount_def)

lemma sample_executes:
  assumes "enName (bnModelEntry b) = ''a_unbatched''"
  shows "\<exists>x. execute (sampleManifest CellD0) sampleOutside b = Some (Inr x)
    \<and> edSent x = sampleSent \<and> edServed x = sampleServed
    \<and> snExecutionCount (bnTritonStats (edBundle x)) = 4 \<and> snInferenceCount (bnTritonStats (edBundle x)) = 4
    \<and> map fst (snBatchSizes (bnTritonStats (edBundle x))) = [1]"
proof -
  let ?m = "sampleManifest CellD0" and ?w = sampleOutside
  obtain before after delta where stats: "Statistics ''a_unbatched'' (oStatsBefore ?w) = Inr before"
    "Statistics ''a_unbatched'' (oStatsAfter ?w) = Inr after" "Delta before after = Inr delta"
    and delta: "snExecutionCount delta = 4" "snInferenceCount delta = 4" "map fst (snBatchSizes delta) = [1]"
    using sample_delta by (elim exE conjE) (rule that)
  obtain schedule where loop: "recordedLoop ?m 16 (oRecorded ?w) [0 ..< nat (mcCount (mnCohort ?m))] ([], [], [])
      = Inr (sampleResults, schedule, sampleSent)" using sample_loop by blast
  have start: "startServices ?m (oBuilt ?w) (oLaunch ?w) (oMeanwhile ?w) = Inr noServices"
    by (simp add: startServices_def sampleManifest_def UsesProxy_def)
  have m: "mnCell ?m = CellD0" "\<not> UsesProxy CellD0" "nat (mcCount (mnCohort ?m) * mcSize (mnCohort ?m)) = 4"
    "enName (bnModelEntry b) = ''a_unbatched''" using assms by (simp_all add: sampleManifest_def UsesProxy_def)
  obtain client where path: "cellPath ?m (oDial ?w) ''a_unbatched'' (oFeatureWidth ?w) (oPayloadFloats ?w) = Some (Inr client)"
    "pathLogicalBytes client = 16"
    by (simp add: cellPath_def m sampleOutside_def NewSubmitter_def DirectNew_def pathLogicalBytes_def LogicalBytes_def
        float32SliceToBytes_def AppendUint32_def)
  have opens: "oOpens ?w e" "oCloses ?w e" "oClientCloses ?w" "oCopies ?w" "oArchives ?w" "snd (oStats ?w e) = 0" for e
    by (simp_all add: sampleOutside_def)
  have stop: "fst (Stop (oStopAnswers ?w) (oAtStop ?w)) = None"
    by (simp add: Stop_def sampleOutside_def noServices_def died_def)
  have files: "archiveRecords b [oStream ?w EmitterLoadGen, oStream ?w EmitterTriton] = Inr
      (RecordedOnly (concat (map the [oStream ?w EmitterLoadGen, oStream ?w EmitterTriton])) (bnFirstRecordedCohort b))" for b
    by (simp add: archiveRecords_def sampleOutside_def sampleFile_def)
  show ?thesis
    unfolding execute_def start sum.case m path(1) option.case
    by (simp add: opens path(2) sample_warmup sample_collector stats(1) loop finishExecute_def stop m(1,2,4) stats(2,3)
        sample_backend files delta)
qed

theorem run_accounts_for_requests_witness:
  "\<exists>x. execute (sampleManifest CellD0) sampleOutside (sampleBundle CellD0) = Some (Inr x)
     \<and> mset (map recRequest (edSent x)) = mset (concat (recordedCohorts (sampleManifest CellD0)))
     \<and> map cMembers (edSchedule x) = recordedCohorts (sampleManifest CellD0)"
proof -
  obtain x where x: "execute (sampleManifest CellD0) sampleOutside (sampleBundle CellD0) = Some (Inr x)"
    using sample_executes [of "sampleBundle CellD0"] by (auto simp: sampleBundle_def)
  have "Manifest_Validate (sampleManifest CellD0) = None" by (rule sampleManifest_valid) simp
  moreover have "mcWarmupCount (mnCohort (sampleManifest CellD0)) + mcCount (mnCohort (sampleManifest CellD0)) \<le> 2 ^ 32"
    by (simp add: sampleManifest_def)
  ultimately show ?thesis using run_accounts_for_requests [OF _ _ sample_orders x] x by blast
qed

end
