(* ===== verification/Pipeline.thy ===== *)
theory Pipeline
  imports DirectRun Execute
begin

text \<open>
  A run from end to end on the direct path: \<^verbatim>\<open>execute\<close> releases the cohorts and collects the
  evidence, the archive is written and read back, and the validator judges it
  (\<^verbatim>\<open>finalizeVerdict\<close>). The components are those of the theories before; here they are put
  together.
\<close>

section \<open>The runner's records survive the archive\<close>

definition canonical :: "Record \<Rightarrow> bool" where
  "canonical r \<longleftrightarrow> record_wf r \<and> canonTS r = rTS r
     \<and> rMembership r = MembershipUIDs r @ replicate (MaxMembership - length (MembershipUIDs r)) 0
     \<and> \<not> rHasDispatch r \<and> rDispatch r = zeroDispatch"

lemma canonTS_nth: "i < Suc StageCount \<Longrightarrow>
    canonTS r ! i = (if 1 \<le> i \<and> mask_Has (rPresence r) (of_nat i) then rTS r ! i else 0)"
  unfolding canonTS_def by (subst nth_map) (simp_all del: upt_Suc)

lemma canonical_zero: "canonical zeroRecord"
proof -
  have "canonTS zeroRecord = rTS zeroRecord"
    by (rule nth_equalityI) (simp_all add: canonTS_nth canonTS_def zeroRecord_def del: upt_Suc replicate_Suc)
  then show ?thesis by (simp add: canonical_def MembershipUIDs_def) (simp add: zeroRecord_def)
qed

lemma canonical_SetStage:
  assumes "canonical r" and "Valid s"
  shows "canonical (SetStage s t r)"
proof -
  have wf: "length (rTS r) = Suc StageCount" and ts: "canonTS r = rTS r" using assms(1) by (simp_all add: canonical_def record_wf_def)
  have s: "0 < unat s" "unat s < Suc StageCount" using assms(2) by (simp_all add: Valid_unat StageCount_def)
  have "canonTS (SetStage s t r) = (rTS r)[unat s := t]"
  proof (rule nth_equalityI)
    fix i assume "i < length (canonTS (SetStage s t r))"
    then have i: "i < Suc StageCount" by (simp add: canonTS_def)
    then have u: "unat (of_nat i :: Stage) = i" by (simp add: StageCount_def unat_of_nat)
    have own: "rTS r ! i = (if 1 \<le> i \<and> mask_Has (rPresence r) (of_nat i) then rTS r ! i else 0)"
      using canonTS_nth [OF i, of r] ts by simp
    show "canonTS (SetStage s t r) ! i = (rTS r)[unat s := t] ! i"
    proof (cases "1 \<le> i")
      case True
      then have "Valid (of_nat i)" using i u by (simp add: Valid_unat StageCount_def)
      then have "mask_Has (mask_With (rPresence r) s) (of_nat i) \<longleftrightarrow> of_nat i = s \<or> mask_Has (rPresence r) (of_nat i)"
        using assms(2) by (simp add: mask_Has_With)
      moreover have "of_nat i = s \<longleftrightarrow> i = unat s" using u by auto
      ultimately show ?thesis using own i wf s by (auto simp: canonTS_nth SetStage_def nth_list_update)
    next
      case False
      then show ?thesis using own i wf s by (simp add: canonTS_nth nth_list_update)
    qed
  qed (simp add: canonTS_def wf)
  then show ?thesis using assms by (simp add: canonical_def record_wf_setters MembershipUIDs_def) (simp add: SetStage_def)
qed

lemma canonical_SetMembership:
  assumes "canonical r" and "rMembership r = replicate MaxMembership 0"
  shows "canonical (SetMembership uids r)"
proof -
  have uids: "MembershipUIDs (SetMembership uids r) = take MaxMembership uids" by (rule MembershipUIDs_SetMembership)
  have frame: "rPresence (SetMembership uids r) = rPresence r" "rTS (SetMembership uids r) = rTS r"
    "rHasDispatch (SetMembership uids r) = rHasDispatch r" "rDispatch (SetMembership uids r) = rDispatch r"
    "rMembership (SetMembership uids r) = take (min (length uids) MaxMembership) uids @ drop (min (length uids) MaxMembership) (rMembership r)"
    by (simp_all add: SetMembership_def Let_def)
  have "rMembership (SetMembership uids r) = take MaxMembership uids @ replicate (MaxMembership - length (take MaxMembership uids)) 0"
    unfolding frame(5) assms(2) by (simp add: min_def)
  then show ?thesis
    using assms(1) unfolding canonical_def canonTS_def uids frame(1-4) by (simp add: record_wf_setters del: upt_Suc)
qed

lemma canonical_archivable:
  assumes "canonical (dRecord d)" and "1 \<le> rEmitter (dRecord d)" "rEmitter (dRecord d) \<le> 4" "rStatus (dRecord d) \<le> 3"
  shows "archivable d"
proof -
  have "(canon r)\<lparr>rMembershipCount := rMembershipCount r\<rparr> = r" if c: "canonical r" for r
  proof -
    have "canonTS r = rTS r" "MembershipUIDs r @ replicate (MaxMembership - length (MembershipUIDs r)) 0 = rMembership r"
      "(if rHasDispatch r then rDispatch r else zeroDispatch) = rDispatch r" using c by (simp_all add: canonical_def)
    then show ?thesis unfolding canon_def by simp
  qed
  then show ?thesis using assms by (simp add: archivable_def) (simp add: canonical_def)
qed

lemma canonical_fields:
  "canonical (r\<lparr>rSeq := n\<rparr>) = canonical r" "canonical (r\<lparr>rStatus := st\<rparr>) = canonical r" "canonical (r\<lparr>rBatchSize := b\<rparr>) = canonical r"
  "canonical (r\<lparr>rEmitter := e\<rparr>) = canonical r" "canonical (r\<lparr>rCohort := c\<rparr>) = canonical r" "canonical (r\<lparr>rOrdinal := u\<rparr>) = canonical r"
  "canonical (r\<lparr>rLogicalBytes := l\<rparr>) = canonical r" "canonical (r\<lparr>rExecutionID := x\<rparr>) = canonical r"
  by (simp_all add: canonical_def record_wf_def canonTS_def MembershipUIDs_def cong: if_cong del: upt_Suc)

lemma canonical_loadgen: "canonical (loadgenRecord cell bytes sched seal member r)"
proof -
  have valid: "Valid StageSched" "Valid StageCohortSeal" "Valid StageClientSend" "Valid StageClientRecv"
    by (simp_all add: Valid_def StageCount_def)
  have blank: "rMembership (SetStage s t q) = rMembership q" for s t q by (simp add: SetStage_def)
  have "rMembership zeroRecord = replicate MaxMembership 0" by (simp add: zeroRecord_def)
  then show ?thesis
    by (simp add: loadgenRecord_def Let_def canonical_SetStage canonical_SetMembership canonical_fields canonical_zero valid blank
        split: option.splits)
qed

lemma canonical_trace: "canonical (traceRecord member tr status)"
  by (simp add: traceRecord_def Let_def canonical_SetStage canonical_fields canonical_zero Valid_def StageCount_def)

section \<open>What a run hands over\<close>

lemma recordedCohort_at:
  assumes "Manifest_Validate m = None" and "mcWarmupCount (mnCohort m) + mcCount (mnCohort m) \<le> 2 ^ 32"
    and "i < nat (mcCount (mnCohort m))" and "r \<in> set (cMembers (recordedCohort m i))"
  shows "unat (Cohort r) - nat (mcWarmupCount (mnCohort m)) = i"
proof -
  have n: "nat (mcSize (mnCohort m)) \<le> MaxOrdinal" "0 \<le> mcWarmupCount (mnCohort m)"
    using assms(1) [unfolded Manifest_Validate_None Let_def] by auto
  have "Cohort r = of_int (mcWarmupCount (mnCohort m) + int i)"
    using NewCohort_small(1) [OF n(1) assms(4) [unfolded recordedCohort_def]] .
  then show ?thesis using recorded_cohort_ids [OF n(2) assms(2,3)] by simp
qed

lemma executed_records:
  assumes "Manifest_Validate m = None" and "mcWarmupCount (mnCohort m) + mcCount (mnCohort m) \<le> 2 ^ 32"
    and "orders (oRecorded w)" and "execute m w b = Some (Inr x)"
    and "list_all (\<lambda>i. list_all (\<lambda>r. mbAnswer (cmRun (oRecorded w i) r) \<noteq> None) (cMembers (recordedCohort m i)))
      [0 ..< nat (mcCount (mnCohort m))]"
  obtains bytes full ms where "mset ms = mset (concat (recordedCohorts m))" "distinct ms"
    and "\<forall>r \<in> set ms. \<exists>i < nat (mcCount (mnCohort m)). r \<in> set (cMembers (recordedCohort m i))"
    and "edSent x = map (\<lambda>r. let e = oRecorded w (unat (Cohort r) - nat (mcWarmupCount (mnCohort m)))
        in loadgenRecord (mnCell m) bytes (cmScheduledAt e) (cmSeal e) r (cmRun e r)) ms"
    and "edServed x = map (\<lambda>r. traceRecord r (full r) StatusOK) ms"
proof -
  obtain bytes c before acc where run:
    "recordedLoop m bytes (oRecorded w) [0 ..< nat (mcCount (mnCohort m))] ([], [], []) = Inr acc"
    "finishExecute m w c before acc b = Some (Inr x)" by (rule execute_Inr [OF assms(4)])
  note loop = recordedLoop_valid [OF assms(1-3) run(1)] and fin = finishExecute_Inr [OF run(2)]
  note valid = assms(1) [unfolded Manifest_Validate_None Let_def]
  let ?is = "[0 ..< nat (mcCount (mnCohort m))]" and ?w = "nat (mcWarmupCount (mnCohort m))"
  define ms where "ms = concat (map (\<lambda>i. finishing (recordedCohort m i) (oRecorded w i)) ?is)"
  have members: "cMembers (recordedCohort m i) \<noteq> []" for i using valid by (simp add: recordedCohort_def NewCohort_def)
  note same = finishing_cohort(2) [OF assms(3) members]
  have at: "unat (Cohort r) - ?w = i" if "i \<in> set ?is" "r \<in> set (finishing (recordedCohort m i) (oRecorded w i))" for i r
    using recordedCohort_at [OF assms(1,2), of i r] that unfolding same by simp
  have ok: "runStatus (cmRun (oRecorded w i) r) = StatusOK"
    if "i \<in> set ?is" "r \<in> set (finishing (recordedCohort m i) (oRecorded w i))" for i r
    using assms(5) that unfolding same list_all_iff runStatus_def by auto
  obtain full where served: "edServed x = tracedRecords full (fst acc)"
    and full: "list_all (\<lambda>(req, out). if coStatus out = StatusOK then full req \<noteq> None else True) (fst acc)"
    by (rule collectBackend_Inr [OF fin(3)])
  have good: "coStatus (snd p) = StatusOK \<and> full (fst p) \<noteq> None" if "p \<in> set (fst acc)" for p
  proof -
    have "coStatus (snd p) = StatusOK" using that ok unfolding loop(1) by (auto simp: outcomeOf_def)
    then show ?thesis using full that by (auto simp: list_all_iff split_beta)
  qed
  have "tracedRecords full ps = map (\<lambda>p. traceRecord (fst p) (the (full (fst p))) StatusOK) ps"
    if "\<forall>p \<in> set ps. coStatus (snd p) = StatusOK \<and> full (fst p) \<noteq> None" for ps
    using that by (induction ps) (auto simp: tracedRecords_def List.map_filter_simps)
  then have "edServed x = map (\<lambda>r. traceRecord r (the (full r)) StatusOK) (map fst (fst acc))"
    using good by (simp add: served comp_def)
  moreover have "map fst (fst acc) = ms" unfolding loop(1) ms_def by (simp add: map_concat comp_def)
  ultimately have 1: "edServed x = map (\<lambda>r. traceRecord r (the (full r)) StatusOK) ms" by simp
  have "edSent x = concat (map (\<lambda>i. map (\<lambda>r. let e = oRecorded w (unat (Cohort r) - ?w)
        in loadgenRecord (mnCell m) bytes (cmScheduledAt e) (cmSeal e) r (cmRun e r)) (finishing (recordedCohort m i) (oRecorded w i))) ?is)"
    unfolding fin(2) loop(3) by (intro arg_cong [of _ _ concat] map_cong refl) (simp add: at Let_def)
  then have 2: "edSent x = map (\<lambda>r. let e = oRecorded w (unat (Cohort r) - ?w)
        in loadgenRecord (mnCell m) bytes (cmScheduledAt e) (cmSeal e) r (cmRun e r)) ms"
    by (simp add: ms_def map_concat comp_def)
  have 3: "\<forall>r \<in> set ms. \<exists>i < nat (mcCount (mnCohort m)). r \<in> set (cMembers (recordedCohort m i))"
    by (auto simp: ms_def same)
  show thesis by (rule that [OF loop(5) [folded ms_def] loop(6) [folded ms_def] 3 2 1])
qed

section \<open>The files\<close>

text \<open>
  A stream's file holds the records that were handed over, each under the stream's header and
  with the sequence number it was given: what the event writer promises when nothing is dropped.
\<close>

definition fileHolds :: "RunHeader \<Rightarrow> Record list \<Rightarrow> Decoded list option \<Rightarrow> bool" where
  "fileHolds h records file = (case file of None \<Rightarrow> False
     | Some ds \<Rightarrow> list_all2 (\<lambda>q d. d = \<lparr>dSchemaVersion = of_nat SchemaVersion, dHeader = h,
         dRecord = q\<lparr>rSeq := rSeq (dRecord d)\<rparr>\<rparr>) records ds)"

definition seqIn :: "Decoded list \<Rightarrow> LogicalRequest \<Rightarrow> uint64" where
  "seqIn ds r = rSeq (dRecord (the (find (\<lambda>d. recRequest (dRecord d) = r) ds)))"

lemma find_key: "distinct (map key ds) \<Longrightarrow> k < length ds \<Longrightarrow> find (\<lambda>d. key d = key (ds ! k)) ds = Some (ds ! k)"
proof (induction ds arbitrary: k)
  case (Cons d ds)
  show ?case
  proof (cases k)
    case (Suc j)
    then have "key (ds ! j) \<in> key ` set ds" using Cons.prems(2) by simp
    then show ?thesis using Cons Suc by auto
  qed simp
qed simp

lemma file_records:
  assumes "fileHolds h (map f ms) file" and "distinct ms" and "\<And>r. recRequest (f r) = r"
  shows "file = Some (map (\<lambda>r. \<lparr>dSchemaVersion = of_nat SchemaVersion, dHeader = h, dRecord = (f r)\<lparr>rSeq := seqIn (the file) r\<rparr>\<rparr>) ms)"
proof -
  obtain ds where ds: "file = Some ds" and all: "list_all2 (\<lambda>q d. d = \<lparr>dSchemaVersion = of_nat SchemaVersion, dHeader = h,
      dRecord = q\<lparr>rSeq := rSeq (dRecord d)\<rparr>\<rparr>) (map f ms) ds"
    using assms(1) by (auto simp: fileHolds_def split: option.splits)
  have len: "length ds = length ms" using list_all2_lengthD [OF all] by simp
  have nth: "ds ! k = \<lparr>dSchemaVersion = of_nat SchemaVersion, dHeader = h, dRecord = (f (ms ! k))\<lparr>rSeq := rSeq (dRecord (ds ! k))\<rparr>\<rparr>"
    if "k < length ms" for k
    using list_all2_nthD [OF all, of k] that by simp
  have req: "recRequest (dRecord (ds ! k)) = ms ! k" if "k < length ms" for k
  proof -
    have "recRequest (dRecord (ds ! k)) = recRequest ((f (ms ! k))\<lparr>rSeq := rSeq (dRecord (ds ! k))\<rparr>)"
      by (subst nth [OF that]) simp
    also have "\<dots> = ms ! k" using assms(3) [of "ms ! k"] by (simp add: recRequest_def)
    finally show ?thesis .
  qed
  have keys: "map (\<lambda>d. recRequest (dRecord d)) ds = ms" by (rule nth_equalityI) (simp_all add: len req)
  have sq: "seqIn ds (ms ! k) = rSeq (dRecord (ds ! k))" if "k < length ms" for k
    using find_key [of "\<lambda>d. recRequest (dRecord d)" ds k] that by (simp add: keys assms(2) len seqIn_def req)
  have "ds = map (\<lambda>r. \<lparr>dSchemaVersion = of_nat SchemaVersion, dHeader = h, dRecord = (f r)\<lparr>rSeq := seqIn ds r\<rparr>\<rparr>) ms"
    by (rule nth_equalityI) (simp_all add: len sq nth [symmetric])
  then show ?thesis using ds by simp
qed

section \<open>From the release to the verdict\<close>

definition instant :: "Record \<Rightarrow> Stage \<Rightarrow> int" where
  "instant q s = sint (fst (recStage q s))"

text \<open>A member that was answered alone, at instants that only go forward.\<close>

definition answeredAlone :: "cohortMet \<Rightarrow> Record list \<Rightarrow> LogicalRequest \<Rightarrow> bool" where
  "answeredAlone e served r \<longleftrightarrow> mbAnswer (cmRun e r) = Some \<lparr>ptMembership = [UID r], ptBatchSize = 1\<rparr>
     \<and> sint (cmScheduledAt e) \<le> sint (cmSeal e) \<and> sint (cmSeal e) \<le> sint (mbSend (cmRun e r))
     \<and> list_all (\<lambda>q. if recRequest q = r then sint (mbSend (cmRun e r)) \<le> instant q StageQueueStart
          \<and> instant q StageQueueStart \<le> instant q StageComputeStart
          \<and> 0 \<le> instant q StageComputeStart \<and> instant q StageComputeStart < instant q StageComputeEnd
          \<and> instant q StageComputeEnd \<le> sint (mbRecv (cmRun e r)) else True) served"

text \<open>No two executions of one cohort meet.\<close>

definition executedApart :: "Record list \<Rightarrow> bool" where
  "executedApart served \<longleftrightarrow> list_all (\<lambda>p. list_all (\<lambda>q.
     if rCohort p = rCohort q \<and> recRequest p \<noteq> recRequest q
     then instant p StageComputeEnd \<le> instant q StageComputeStart \<or> instant q StageComputeEnd \<le> instant p StageComputeStart
     else True) served) served"

text \<open>The run as the lemmas on the direct path see it.\<close>

definition servedOf :: "RunHeader \<Rightarrow> RunHeader \<Rightarrow> uint32 \<Rightarrow> (LogicalRequest \<Rightarrow> TraceEvent) \<Rightarrow> LogicalRequest list
    \<Rightarrow> (CohortID \<Rightarrow> cohortMet) \<Rightarrow> Decoded list \<Rightarrow> Decoded list \<Rightarrow> servedRun" where
  "servedOf hL hT bytes tr ms met dsL dsT = \<lparr>vHeaderL = hL, vHeaderT = hT, vBytes = bytes,
     vScheduled = (\<lambda>c. cmScheduledAt (met c)), vSealed = (\<lambda>c. cmSeal (met c)),
     vRun = (\<lambda>r. (cmRun (met (Cohort r)) r)\<lparr>mbRecorded := (seqIn dsL r, True)\<rparr>),
     vTrace = tr, vSeq = seqIn dsT, vSent = ms, vServed = ms\<rparr>"

lemma loadgenRecord_recorded: "loadgenRecord c by s t r (x\<lparr>mbRecorded := p\<rparr>) = loadgenRecord c by s t r x"
  by (simp add: loadgenRecord_def runStatus_def)

lemma servedOf_streams:
  "servedStreams (servedOf hL hT bytes tr ms met dsL dsT) =
    [Some (map (\<lambda>r. \<lparr>dSchemaVersion = of_nat SchemaVersion, dHeader = hL,
        dRecord = (loadgenRecord CellD0 bytes (cmScheduledAt (met (Cohort r))) (cmSeal (met (Cohort r))) r (cmRun (met (Cohort r)) r))
          \<lparr>rSeq := seqIn dsL r\<rparr>\<rparr>) ms),
     Some (map (\<lambda>r. \<lparr>dSchemaVersion = of_nat SchemaVersion, dHeader = hT,
        dRecord = (traceRecord r (tr r) StatusOK)\<lparr>rSeq := seqIn dsT r\<rparr>\<rparr>) ms)]"
  by (simp add: servedStreams_def loadgenDecoded_def tritonDecoded_def servedOf_def loadgenRecord_recorded)

lemma instants_of_trace: "instant (traceRecord r tr st) StageQueueStart = sint (teQueueStart tr)"
  "instant (traceRecord r tr st) StageComputeStart = sint (teComputeStart tr)"
  "instant (traceRecord r tr st) StageComputeEnd = sint (teComputeEnd tr)"
  by (simp_all add: instant_def traceRecord_fields)

text \<open>The streams the run leaves are those of a served run.\<close>

lemma executed_served:
  assumes "Manifest_Validate m = None" and "mnCell m = CellD0"
    and "mcWarmupCount (mnCohort m) + mcCount (mnCohort m) \<le> 2 ^ 32" and "orders (oRecorded w)"
    and "execute m w b = Some (Inr x)"
    and "list_all (\<lambda>i. list_all (answeredAlone (oRecorded w i) (edServed x)) (cMembers (recordedCohort m i)))
      [0 ..< nat (mcCount (mnCohort m))]"
    and "executedApart (edServed x)"
    and "fileHolds hL (edSent x) (oStream w EmitterLoadGen)" and "fileHolds hT (edServed x) (oStream w EmitterTriton)"
  obtains R where "servedStreams R = [oStream w EmitterLoadGen, oStream w EmitterTriton]"
    and "vHeaderL R = hL" "vHeaderT R = hT"
    and "mset (vSent R) = mset (concat (recordedCohorts m))" "mset (vServed R) = mset (concat (recordedCohorts m))"
    and "list_all (served_alone R) (concat (recordedCohorts m))" "serial_executions R (concat (recordedCohorts m))"
proof -
  let ?w = "nat (mcWarmupCount (mnCohort m))" and ?is = "[0 ..< nat (mcCount (mnCohort m))]"
  have "list_all (\<lambda>i. list_all (\<lambda>r. mbAnswer (cmRun (oRecorded w i) r) \<noteq> None) (cMembers (recordedCohort m i))) ?is"
    using assms(6) by (auto simp: list_all_iff answeredAlone_def)
  then obtain bytes full ms where ms: "mset ms = mset (concat (recordedCohorts m))" "distinct ms"
    and cohort: "\<forall>r \<in> set ms. \<exists>i < nat (mcCount (mnCohort m)). r \<in> set (cMembers (recordedCohort m i))"
    and sent: "edSent x = map (\<lambda>r. let e = oRecorded w (unat (Cohort r) - ?w)
        in loadgenRecord (mnCell m) bytes (cmScheduledAt e) (cmSeal e) r (cmRun e r)) ms"
    and served: "edServed x = map (\<lambda>r. traceRecord r (full r) StatusOK) ms"
    by (rule executed_records [OF assms(1,3-5)])
  define met where "met c = oRecorded w (unat c - ?w)" for c :: CohortID
  define dsL dsT where "dsL = the (oStream w EmitterLoadGen)" and "dsT = the (oStream w EmitterTriton)"
  let ?R = "servedOf hL hT bytes full ms met dsL dsT"
  have set: "set ms = set (concat (recordedCohorts m))" using ms(1) by (metis set_mset_mset)
  have sent': "edSent x = map (\<lambda>r. loadgenRecord CellD0 bytes (cmScheduledAt (met (Cohort r))) (cmSeal (met (Cohort r))) r
      (cmRun (met (Cohort r)) r)) ms"
    by (simp add: sent met_def Let_def assms(2))
  have streams: "servedStreams ?R = [oStream w EmitterLoadGen, oStream w EmitterTriton]"
    using file_records [OF assms(8) [unfolded sent'] ms(2)] file_records [OF assms(9) [unfolded served] ms(2)]
    by (simp add: servedOf_streams dsL_def dsT_def loadgenRecord_fields(1) traceRecord_fields(1))
  have alone: "served_alone ?R r" if "r \<in> set (concat (recordedCohorts m))" for r
  proof -
    have "r \<in> set ms" using that set by simp
    then obtain i where i: "i < nat (mcCount (mnCohort m))" and r: "r \<in> set (cMembers (recordedCohort m i))" using cohort by blast
    have at: "met (Cohort r) = oRecorded w i" by (simp add: met_def recordedCohort_at [OF assms(1,3) i r])
    have "answeredAlone (met (Cohort r)) (edServed x) r" using assms(6) i r by (simp add: at list_all_iff)
    moreover have "traceRecord r (full r) StatusOK \<in> set (edServed x)" unfolding served using \<open>r \<in> set ms\<close> by simp
    ultimately show ?thesis
      by (auto simp: answeredAlone_def served_alone_def servedOf_def list_all_iff instants_of_trace traceRecord_fields(1))
  qed
  have "serial_executions ?R (concat (recordedCohorts m))"
    unfolding serial_executions_def list_all_iff set [symmetric]
  proof (intro ballI)
    fix r q assume "r \<in> set ms" "q \<in> set ms"
    then have "traceRecord r (full r) StatusOK \<in> set (edServed x)" "traceRecord q (full q) StatusOK \<in> set (edServed x)"
      unfolding served by simp_all
    moreover have "rCohort (traceRecord p tr st) = Cohort p" for p tr st
      using traceRecord_fields(1) [of p tr st] by (metis LogicalRequest.sel(1) recRequest_def)
    ultimately show "if Cohort r = Cohort q \<and> r \<noteq> q
        then sint (teComputeEnd (vTrace ?R r)) \<le> sint (teComputeStart (vTrace ?R q))
          \<or> sint (teComputeEnd (vTrace ?R q)) \<le> sint (teComputeStart (vTrace ?R r)) else True"
      using assms(7) by (force simp: executedApart_def list_all_iff instants_of_trace traceRecord_fields(1) servedOf_def)
  qed
  moreover have "vHeaderL ?R = hL" "vHeaderT ?R = hT" "vSent ?R = ms" "vServed ?R = ms" by (simp_all add: servedOf_def)
  ultimately show thesis using that [of ?R] streams alone ms(1) by (simp add: list_all_iff)
qed

text \<open>Records that are written and read back in the archive, and their schema version.\<close>

lemma runner_archivable:
  assumes "q = loadgenRecord c by s t r run \<or> q = traceRecord r tr StatusOK" and "dRecord d = q\<lparr>rSeq := n\<rparr>"
  shows "archivable d"
proof (rule canonical_archivable)
  show "canonical (dRecord d)" using assms canonical_loadgen canonical_trace by (auto simp: canonical_fields)
  have "runStatus run \<in> {StatusOK, StatusError, StatusTimeout}" by (simp add: runStatus_def)
  then have "rEmitter q \<in> {EmitterLoadGen, EmitterTriton}" "rStatus q \<in> {StatusOK, StatusError, StatusTimeout}"
    using assms(1) by (auto simp: loadgenRecord_fields(2,3) traceRecord_fields(2,3))
  then show "1 \<le> rEmitter (dRecord d)" "rEmitter (dRecord d) \<le> 4" "rStatus (dRecord d) \<le> 3"
    by (auto simp: assms(2))
qed

lemma served_archivable:
  "list_all (\<lambda>d. dSchemaVersion d = of_nat SchemaVersion \<and> archivable d) (concat (map the (servedStreams R)))"
proof -
  have 1: "archivable (loadgenDecoded R r)" for r
    by (rule runner_archivable [OF disjI1 [OF refl]]) (simp add: loadgenDecoded_def)
  have 2: "archivable (tritonDecoded R r)" for r
    by (rule runner_archivable [OF disjI2 [OF refl]]) (simp add: tritonDecoded_def)
  show ?thesis by (auto simp: servedStreams_def list_all_iff 1 2) (simp_all add: loadgenDecoded_def tritonDecoded_def)
qed

lemma finalize_reproduces:
  assumes "archived = RecordedOnly (concat (map the streams)) (bnFirstRecordedCohort b)" and "None \<notin> set streams"
    and "list_all (\<lambda>d. dSchemaVersion d = of_nat SchemaVersion) archived"
  shows "finalizeVerdict b archived streams = ValidateStreams b streams"
proof -
  have "checkSchemaVersions archived = None"
    using assms(3) by (simp add: checkSchemaVersions_def list_all_iff find_None_iff split: option.split)
  then show ?thesis
    using assms(2) by (auto simp: finalizeVerdict_def ValidateBundle_def ValidateStreams_def assms(1) split: sum.split)
qed

text \<open>
  A run that is in order passes, from its release to its verdict. For a valid manifest of
  the direct path: if \<^verbatim>\<open>execute\<close> returns, each member was answered alone and at instants that
  only go forward, no two executions of a cohort met, the event writers dropped nothing and
  their files hold what they were handed, and the server's counters account for the run, then
  the archive that was written reads back, the verdict made from it and the one made from the
  streams agree, and it is a pass. Whatever order the goroutines finish in.
\<close>

lemma run_passes:
  assumes "Manifest_Validate m = None" and "mnCell m = CellD0"
    and "mcWarmupCount (mnCohort m) + mcCount (mnCohort m) \<le> 2 ^ 32" and "orders (oRecorded w)"
    and "bnManifest b = Some m" and "bnCell b = CellD0" and "bnClockDomain b = Some clk"
    and "execute m w b = Some (Inr x)"
    and "list_all (\<lambda>i. list_all (answeredAlone (oRecorded w i) (edServed x)) (cMembers (recordedCohort m i)))
      [0 ..< nat (mcCount (mnCohort m))]"
    and "executedApart (edServed x)"
    and "fileHolds hL (edSent x) (oStream w EmitterLoadGen)" and "fileHolds hT (edServed x) (oStream w EmitterTriton)"
    and "hClockDomain hL = clk" and "hClockDomain hT = clk"
    and "snd (oStats w EmitterLoadGen) = 0" and "snd (oStats w EmitterTriton) = 0"
    and "snExecutionCount (bnTritonStats (edBundle x)) = of_int (meExecutions (mnExpectedEvidence m))"
    and "snInferenceCount (bnTritonStats (edBundle x)) = of_int (mcCount (mnCohort m) * mcSize (mnCohort m))"
    and "map fst (snBatchSizes (bnTritonStats (edBundle x))) = [1]"
  shows "case readRows (writeArchive (edArchived x)) of Inl _ \<Rightarrow> False
    | Inr archived \<Rightarrow>
        (case finalizeVerdict (edBundle x) archived [oStream w EmitterLoadGen, oStream w EmitterTriton] of
           Inl _ \<Rightarrow> False | Inr v \<Rightarrow> vdPassed v)"
proof -
  let ?b = "edBundle x" and ?streams = "[oStream w EmitterLoadGen, oStream w EmitterTriton]"
  obtain bytes c before acc where fin: "finishExecute m w c before acc b = Some (Inr x)" by (rule execute_Inr [OF assms(8)])
  note f = finishExecute_Inr [OF fin]
  have proxy: "\<not> UsesProxy (mnCell m)" by (simp add: assms(2) UsesProxy_def)
  have streams: "bnStreams ?b = map (\<lambda>e. streamRecord e (oStats w e)) [EmitterLoadGen, EmitterTriton]"
    using f(8) f(9) [OF proxy] by simp
  obtain R where R: "servedStreams R = ?streams" "vHeaderL R = hL" "vHeaderT R = hT"
    "mset (vSent R) = mset (concat (recordedCohorts m))" "mset (vServed R) = mset (concat (recordedCohorts m))"
    "list_all (served_alone R) (concat (recordedCohorts m))" "serial_executions R (concat (recordedCohorts m))"
    by (rule executed_served [OF assms(1-4,8-12)])
  have pass: "case ValidateStreams ?b (servedStreams R) of Inl _ \<Rightarrow> False | Inr v \<Rightarrow> vdPassed v"
  proof (rule direct_streams_pass [OF assms(1) _ assms(2) _ assms(3) f(4) R(4-7)])
    show "list_all (\<lambda>s. stDropped s = 0) (bnStreams ?b)" using assms(15,16) by (simp add: streams streamRecord_def)
  qed (use assms(5-7,13,14,17-19) f(5-7) R(2,3) in simp_all)
  have records: "None \<notin> set ?streams" "edArchived x = RecordedOnly (concat (map the ?streams)) (bnFirstRecordedCohort ?b)"
    using f(10) proxy by (auto simp: archiveRecords_def split: if_splits)
  have "list_all (\<lambda>d. dSchemaVersion d = of_nat SchemaVersion \<and> archivable d) (concat (map the ?streams))"
    using served_archivable [of R] unfolding R(1) .
  then have each: "list_all (\<lambda>d. dSchemaVersion d = of_nat SchemaVersion) (edArchived x)" "list_all archivable (edArchived x)"
    by (auto simp: records(2) RecordedOnly_def list_all_iff)
  show ?thesis
    using pass R(1) finalize_reproduces [OF records(2,1) each(1)] by (simp add: archived_rows [OF each(2)])
qed


section \<open>The sample run\<close>

lemma sample_instants:
  assumes "q \<in> set sampleServed"
  shows "instant q StageQueueStart = 40"
    and "instant q StageComputeStart = 100 + 100 * uint (Ordinal (recRequest q))"
    and "instant q StageComputeEnd = 200 + 100 * uint (Ordinal (recRequest q))"
    and "Ordinal (recRequest q) \<in> {0, 1}" and "recRequest q = LogicalRequest (rCohort q) (Ordinal (recRequest q))"
proof -
  obtain r where r: "r \<in> set sampleRequests" "q = traceRecord r (sampleTrace r) StatusOK"
    using assms by (auto simp: sampleServed_def)
  have req: "recRequest q = r" by (simp add: r(2) traceRecord_fields(1))
  have times: "sint (teQueueStart (sampleTrace r)) = 40"
    "sint (teComputeStart (sampleTrace r)) = 100 + 100 * uint (Ordinal r)"
    "sint (teComputeEnd (sampleTrace r)) = 200 + 100 * uint (Ordinal r)" "Ordinal r \<in> {0, 1}"
    using r(1) by (auto simp: sampleRequests_def sampleTrace_def)
  show "recRequest q = LogicalRequest (rCohort q) (Ordinal (recRequest q))"
    unfolding recRequest_def by simp
  show "instant q StageQueueStart = 40" "instant q StageComputeStart = 100 + 100 * uint (Ordinal (recRequest q))"
    "instant q StageComputeEnd = 200 + 100 * uint (Ordinal (recRequest q))" "Ordinal (recRequest q) \<in> {0, 1}"
    using times unfolding req by (simp_all add: r(2) instants_of_trace)
qed

lemma sample_answered: "answeredAlone sampleMet sampleServed r"
proof -
  have "uint (Ordinal (recRequest q)) \<le> 8" if "q \<in> set sampleServed" for q
    using sample_instants(4) [OF that] by auto
  then show ?thesis
    by (auto simp: answeredAlone_def list_all_iff sample_instants(1-3) sampleMet_def sampleMember_def)
qed

lemma sample_apart: "executedApart sampleServed"
  unfolding executedApart_def list_all_iff
proof (intro ballI)
  fix p q assume p: "p \<in> set sampleServed" and q: "q \<in> set sampleServed"
  have "Ordinal (recRequest p) \<noteq> Ordinal (recRequest q)" if "rCohort p = rCohort q \<and> recRequest p \<noteq> recRequest q"
    using that sample_instants(5) [OF p] sample_instants(5) [OF q] by metis
  then show "if rCohort p = rCohort q \<and> recRequest p \<noteq> recRequest q
      then instant p StageComputeEnd \<le> instant q StageComputeStart \<or> instant q StageComputeEnd \<le> instant p StageComputeStart
      else True"
    using sample_instants(4) [OF p] sample_instants(4) [OF q]
    by (auto simp: sample_instants(2,3) [OF p] sample_instants(2,3) [OF q])
qed

lemma sample_file: "fileHolds sampleRunHeader qs (sampleFile qs)"
  by (simp add: fileHolds_def sampleFile_def list_all2_map2 list_all2_same)

end
