(* ===== verification/Strings.thy ===== *)
theory Strings
  imports Services
begin

text \<open>
  What the sources use of Go's \<^verbatim>\<open>strings\<close>, \<^verbatim>\<open>strconv\<close> and \<^verbatim>\<open>fmt\<close>: a string is its bytes. The
  case tables and the printable characters of Unicode are parameters, asked only about strings
  that are not ASCII.
\<close>

section \<open>Splitting and trimming\<close>

fun splitOn :: "char \<Rightarrow> string \<Rightarrow> string list" where
  "splitOn sep [] = [[]]"
| "splitOn sep (c # cs) = (if c = sep then [] # splitOn sep cs
     else case splitOn sep cs of [] \<Rightarrow> [[c]] | w # ws \<Rightarrow> (c # w) # ws)"

lemma splitOn_plain: "c \<notin> set s \<Longrightarrow> splitOn c s = [s]"
  by (induction s) auto

lemma splitOn_append: "c \<notin> set s \<Longrightarrow> splitOn c (s @ c # t) = s # splitOn c t"
  by (induction s) auto

fun joined_with :: "string \<Rightarrow> string list \<Rightarrow> string" where
  "joined_with sep [] = []"
| "joined_with sep [s] = s"
| "joined_with sep (s # ss) = s @ sep @ joined_with sep ss"

definition CutPrefix :: "string \<Rightarrow> string \<Rightarrow> string option" where
  "CutPrefix s prefix = (if take (length prefix) s = prefix then Some (drop (length prefix) s) else None)"

text \<open>The white space of \<^verbatim>\<open>unicode.IsSpace\<close>, in UTF-8.\<close>

definition spaces :: "string list" where
  "spaces = [[CHR 0x09], [CHR 0x0A], [CHR 0x0B], [CHR 0x0C], [CHR 0x0D], [CHR 0x20], [CHR 0xC2, CHR 0x85], [CHR 0xC2, CHR 0xA0],
     [CHR 0xE1, CHR 0x9A, CHR 0x80]] @ map (\<lambda>n. [CHR 0xE2, CHR 0x80, char_of (128 + n :: nat)]) [0 ..< 11]
     @ [[CHR 0xE2, CHR 0x80, CHR 0xA8], [CHR 0xE2, CHR 0x80, CHR 0xA9], [CHR 0xE2, CHR 0x80, CHR 0xAF], [CHR 0xE2, CHR 0x81, CHR 0x9F],
     [CHR 0xE3, CHR 0x80, CHR 0x80]]"

definition leadingSpace :: "string \<Rightarrow> string option" where
  "leadingSpace s = find (\<lambda>w. take (length w) s = w) spaces"

lemma spaces_nonempty: "list_all (\<lambda>w. w \<noteq> []) spaces"
  by (simp add: spaces_def list_all_iff)

function trimLeft :: "string \<Rightarrow> string" where
  "trimLeft s = (case leadingSpace s of None \<Rightarrow> s | Some w \<Rightarrow> trimLeft (drop (length w) s))"
  by pat_completeness auto
termination
proof (relation "measure length")
  fix s w assume "leadingSpace s = Some w"
  then have "take (length w) s = w" "w \<in> set spaces" by (auto simp: leadingSpace_def find_Some_iff)
  moreover from this have "w \<noteq> []" using spaces_nonempty by (auto simp: list_all_iff)
  ultimately show "(drop (length w) s, s) \<in> measure length" by (cases s) auto
qed simp

declare trimLeft.simps [simp del]

definition trailingSpace :: "string \<Rightarrow> string option" where
  "trailingSpace s = find (\<lambda>w. take (length w) (rev s) = rev w) spaces"

function trimRight :: "string \<Rightarrow> string" where
  "trimRight s = (case trailingSpace s of None \<Rightarrow> s | Some w \<Rightarrow> trimRight (take (length s - length w) s))"
  by pat_completeness auto
termination
proof (relation "measure length")
  fix s w assume "trailingSpace s = Some w"
  then have "take (length w) (rev s) = rev w" "w \<in> set spaces" by (auto simp: trailingSpace_def find_Some_iff)
  moreover from this have "w \<noteq> []" using spaces_nonempty by (auto simp: list_all_iff)
  then have "0 < length w" by simp
  moreover have "s \<noteq> []" using calculation(1,3) by (cases s) auto
  ultimately show "(take (length s - length w) s, s) \<in> measure length" by simp
qed simp

declare trimRight.simps [simp del]

definition TrimSpace :: "string \<Rightarrow> string" where
  "TrimSpace s = trimRight (trimLeft s)"

section \<open>Numbers\<close>

fun digitsValue :: "nat \<Rightarrow> string \<Rightarrow> nat option" where
  "digitsValue n [] = Some n"
| "digitsValue n (c # cs) = (if isDigit c then digitsValue (n * 10 + (of_char c - 48)) cs else None)"

definition ParseInt64 :: "string \<Rightarrow> int option" where
  "ParseInt64 s = (let (negative, digits) = (case s of [] \<Rightarrow> (False, [])
         | c # cs \<Rightarrow> if c = CHR ''-'' then (True, cs) else if c = CHR ''+'' then (False, cs) else (False, s)) in
     if digits = [] then None
     else case digitsValue 0 digits of None \<Rightarrow> None
       | Some n \<Rightarrow> let v = (if negative then - int n else int n) in if - (2 ^ 63) \<le> v \<and> v < 2 ^ 63 then Some v else None)"

lemma digitsValue_AppendUint: "digitsValue 0 (AppendUint n @ cs) = digitsValue n cs"
proof (induction n arbitrary: cs rule: AppendUint.induct)
  case (1 n)
  show ?case
  proof (cases "n < 10")
    case True
    then show ?thesis by (subst AppendUint.simps) (simp add: isDigit_def of_char_digit)
  next
    case False
    have "n mod 10 \<le> 9" using mod_less_divisor [of 10 n] by linarith
    then show ?thesis using False "1.IH" [OF False] by (subst AppendUint.simps) (simp add: isDigit_def of_char_digit)
  qed
qed

lemma AppendUint_plain: "\<not> isDigit c \<Longrightarrow> c \<notin> set (AppendUint n)"
  using AppendUint_digits [of n] by (auto simp: isDigit_def of_char_digit)

lemma ParseInt64_Itoa:
  assumes "- (2 ^ 63) \<le> v" and "v < 2 ^ 63"
  shows "ParseInt64 (Itoa v) = Some v"
proof -
  have digits: "digitsValue 0 (AppendUint n) = Some n" for n using digitsValue_AppendUint [of n "[]"] by simp
  show ?thesis
  proof (cases "v < 0")
    case True
    then show ?thesis using assms by (simp add: ParseInt64_def Itoa_def digits)
  next
    case False
    obtain c cs where c: "AppendUint (nat v) = c # cs" using AppendUint_nonempty(1) [of "nat v"] by (cases "AppendUint (nat v)") auto
    have "c \<noteq> CHR ''-''" "c \<noteq> CHR ''+''" using AppendUint_plain [of "CHR ''-''" "nat v"] AppendUint_plain [of "CHR ''+''" "nat v"]
      unfolding c by (auto simp: isDigit_def)
    then show ?thesis using False assms digits [of "nat v"] by (simp add: ParseInt64_def Itoa_def c)
  qed
qed

lemma AppendUint_inj: "AppendUint m = AppendUint n \<Longrightarrow> m = n"
  using digitsValue_AppendUint [of m "[]"] digitsValue_AppendUint [of n "[]"] by simp

lemma Itoa_inj: "Itoa v = Itoa w \<Longrightarrow> v = w"
proof -
  assume same: "Itoa v = Itoa w"
  have "CHR ''-'' \<notin> set (AppendUint n)" for n by (rule AppendUint_plain) (simp add: isDigit_def)
  then have "''-'' @ s \<noteq> AppendUint n" for s n by (metis append_Cons list.set_intros(1))
  then show "v = w" using same by (auto simp: Itoa_def dest!: AppendUint_inj split: if_splits) (metis append_Cons self_append_conv2)+
qed

section \<open>Case and quoting\<close>

definition isASCII :: "string \<Rightarrow> bool" where
  "isASCII s \<longleftrightarrow> list_all (\<lambda>c. (of_char c :: nat) < 128) s"

definition upperChar :: "char \<Rightarrow> char" where
  "upperChar c = (let n = (of_char c :: nat) in if 97 \<le> n \<and> n \<le> 122 then char_of (n - 32) else c)"

definition ToUpper :: "(string \<Rightarrow> string) \<Rightarrow> string \<Rightarrow> string" where
  "ToUpper unicode s = (if isASCII s then map upperChar s else unicode s)"

definition hexDigit :: "nat \<Rightarrow> char" where
  "hexDigit n = (if n < 10 then char_of (48 + n) else char_of (87 + n))"

text \<open>The escapes of \<^verbatim>\<open>strconv.Quote\<close> for an ASCII character.\<close>

definition quoteChar :: "char \<Rightarrow> string" where
  "quoteChar c = (let n = (of_char c :: nat) in
     if n = 34 \<or> n = 92 then [CHR 0x5C, c]
     else if 32 \<le> n \<and> n < 127 then [c]
     else if n = 7 then [CHR 0x5C, CHR ''a''] else if n = 8 then [CHR 0x5C, CHR ''b'']
     else if n = 12 then [CHR 0x5C, CHR ''f''] else if n = 10 then [CHR 0x5C, CHR ''n'']
     else if n = 13 then [CHR 0x5C, CHR ''r''] else if n = 9 then [CHR 0x5C, CHR ''t'']
     else if n = 11 then [CHR 0x5C, CHR ''v'']
     else [CHR 0x5C, CHR ''x'', hexDigit (n div 16), hexDigit (n mod 16)])"

definition Quote :: "(string \<Rightarrow> string) \<Rightarrow> string \<Rightarrow> string" where
  "Quote unicode s = (if isASCII s then [CHR 0x22] @ concat (map quoteChar s) @ [CHR 0x22] else unicode s)"

definition newline :: string where "newline = [CHR 0x0A]"

end
