(* ===== verification/ModelRepo.thy ===== *)
theory ModelRepo
  imports Runner Strings
begin

text \<open>
  \<^verbatim>\<open>internal/modelrepo\<close> (catalog.go, materialize.go) and \<^verbatim>\<open>prepareModel\<close> of
  \<^verbatim>\<open>internal/runner/run.go\<close>: the catalog of artifacts, their digests, and the runtime model
  repository that is written from them, its configuration files text for text. The disk is an
  explicit store from paths to files and directories; which system calls fail, what a write
  leaves on the disk, the SHA-256 sum and the JSON decoder are parameters.
\<close>

section \<open>The catalog\<close>

text \<open>A dimension is a raw JSON value: a number, or in a catalog built in memory an integer, or a name.\<close>

datatype dim = DimFloat rat | DimInt int | DimName string | DimOther

record Tensor =
  tnName :: string
  tnDataType :: string
  tnDims :: "dim list"

record GraphParams =
  gpKappa :: int
  gpFeatureWidth :: int
  gpPayloadFloats :: int
  gpPayloadMiB :: rat

record Generator =
  gnProducer :: string
  gnProducerVersion :: string
  gnOpset :: int
  gnIRVersion :: int

record IO =
  ioInputs :: "Tensor list"
  ioOutputs :: "Tensor list"

record Artifact =
  arArtifactID :: string
  arDigest :: string
  arBytes :: int
  arPrecision :: string
  arMembershipEvidence :: string
  arGenerator :: Generator
  arGraph :: GraphParams
  arIO :: IO

record Catalog =
  caSchemaVersion :: int
  caArtifacts :: "Artifact list"

definition CatalogSchemaVersion :: int where "CatalogSchemaVersion = 1"

definition SelfAttesting :: "Artifact \<Rightarrow> bool" where
  "SelfAttesting a \<longleftrightarrow> arMembershipEvidence a = ''self_attesting''"

section \<open>The disk\<close>

type_synonym path = "string list"

datatype node = Directory | File string

type_synonym disk = "(path \<times> node) list"

datatype syscall = MkdirAll path | ReadDir path | RemoveAll path | WriteFile path | Open path | Stat path | ReadFile path

text \<open>
  \<^verbatim>\<open>syLands p s\<close> is what a write of \<^verbatim>\<open>s\<close> to \<^verbatim>\<open>p\<close> that reported no error left there,
  \<^verbatim>\<open>syUpper\<close> and \<^verbatim>\<open>syQuote\<close> are \<^verbatim>\<open>strings.ToUpper\<close> and the verb \<^verbatim>\<open>%q\<close> on strings with
  non-ASCII characters, whose tables are Unicode's.
\<close>

record system =
  syFails :: "syscall \<Rightarrow> bool"
  syLands :: "path \<Rightarrow> string \<Rightarrow> string"
  sySum :: "string \<Rightarrow> string"
  syCwd :: path
  syParse :: "string \<Rightarrow> Catalog option"
  syUpper :: "string \<Rightarrow> string"
  syQuote :: "string \<Rightarrow> string"

datatype modelrepo_error =
    SystemError syscall
  | CatalogUnparsed
  | CatalogVersion int
  | CatalogEmpty
  | ArtifactUnnamed
  | DigestForm string string
  | NoArtifact string
  | DigestMismatch path string string
  | SizeMismatch path nat int
  | NoCatalog
  | NoKinds
  | NeedsPositiveBatch EntryKind
  | UnknownKind EntryKind
  | NoTensors string
  | UnsupportedType string string
  | NoDims string
  | DimUnsupported string nat
  | NoDimsLeft string
  | NoEntry EntryKind
  | Regenerated string string
  | NotSelfAttesting string string

subsection \<open>Paths\<close>

definition cleanStep :: "path \<Rightarrow> string \<Rightarrow> path" where
  "cleanStep p c = (if c = [] \<or> c = ''.'' then p else if c = ''..'' then butlast p else p @ [c])"

definition Join_path :: "path \<Rightarrow> string \<Rightarrow> path" where
  "Join_path p name = foldl cleanStep p (splitOn (CHR ''/'') name)"

definition pathOf :: "path \<Rightarrow> string \<Rightarrow> path" where
  "pathOf cwd s = Join_path (if take 1 s = ''/'' then [] else cwd) s"

definition below :: "path \<Rightarrow> path \<Rightarrow> bool" where
  "below p q \<longleftrightarrow> take (length p) q = p"

subsection \<open>Operations\<close>

definition addDir :: "disk \<Rightarrow> path \<Rightarrow> disk" where
  "addDir d p = (if map_of d p = None then (p, Directory) # d else d)"

definition isFile :: "disk \<Rightarrow> path \<Rightarrow> bool" where
  "isFile d p = (case map_of d p of Some (File _) \<Rightarrow> True | _ \<Rightarrow> False)"

definition mkdirAll :: "system \<Rightarrow> path \<Rightarrow> disk \<Rightarrow> disk \<times> modelrepo_error option" where
  "mkdirAll sy p d = (let prefixes = map (\<lambda>n. take n p) [0 ..< Suc (length p)] in
     if syFails sy (MkdirAll p) \<or> list_ex (isFile d) prefixes then (d, Some (SystemError (MkdirAll p)))
     else (foldl addDir d prefixes, None))"

definition childNames :: "disk \<Rightarrow> path \<Rightarrow> string list" where
  "childNames d p = remdups (map (\<lambda>q. q ! length p) (filter (\<lambda>q. below p q \<and> q \<noteq> p) (map fst d)))"

definition removeAll_path :: "system \<Rightarrow> path \<Rightarrow> disk \<Rightarrow> disk \<times> modelrepo_error option" where
  "removeAll_path sy p d = (if syFails sy (RemoveAll p) then (d, Some (SystemError (RemoveAll p)))
     else (filter (\<lambda>(q, _). \<not> below p q) d, None))"

definition writeFile :: "system \<Rightarrow> path \<Rightarrow> string \<Rightarrow> disk \<Rightarrow> disk \<times> modelrepo_error option" where
  "writeFile sy p s d =
     (if syFails sy (WriteFile p) \<or> map_of d p = Some Directory \<or> map_of d (butlast p) \<noteq> Some Directory
      then (d, Some (SystemError (WriteFile p))) else ((p, File (syLands sy p s)) # d, None))"

definition readFile :: "system \<Rightarrow> path \<Rightarrow> disk \<Rightarrow> modelrepo_error + string" where
  "readFile sy p d = (if syFails sy (ReadFile p) then Inl (SystemError (ReadFile p))
     else case map_of d p of Some (File s) \<Rightarrow> Inr s | _ \<Rightarrow> Inl (SystemError (ReadFile p)))"

definition FileDigest :: "system \<Rightarrow> path \<Rightarrow> disk \<Rightarrow> modelrepo_error + string" where
  "FileDigest sy p d = (if syFails sy (Open p) then Inl (SystemError (Open p))
     else case map_of d p of Some (File s) \<Rightarrow> Inr (''sha256:'' @ sySum sy s) | _ \<Rightarrow> Inl (SystemError (Open p)))"

definition fileSize :: "system \<Rightarrow> path \<Rightarrow> disk \<Rightarrow> modelrepo_error + nat" where
  "fileSize sy p d = (if syFails sy (Stat p) then Inl (SystemError (Stat p))
     else case map_of d p of Some (File s) \<Rightarrow> Inr (length s) | _ \<Rightarrow> Inl (SystemError (Stat p)))"

definition Verify :: "system \<Rightarrow> path \<Rightarrow> Artifact \<Rightarrow> disk \<Rightarrow> modelrepo_error option" where
  "Verify sy p a d = (case FileDigest sy p d of Inl e \<Rightarrow> Some e
     | Inr got \<Rightarrow> if got \<noteq> arDigest a then Some (DigestMismatch p got (arDigest a))
         else (case fileSize sy p d of Inl e \<Rightarrow> Some e
           | Inr n \<Rightarrow> if arBytes a \<noteq> 0 \<and> int n \<noteq> arBytes a then Some (SizeMismatch p n (arBytes a)) else None))"

section \<open>Reading the catalog\<close>

definition checkArtifact :: "Artifact \<Rightarrow> modelrepo_error option" where
  "checkArtifact a = (if arArtifactID a = [] then Some ArtifactUnnamed
     else if take 7 (arDigest a) \<noteq> ''sha256:'' then Some (DigestForm (arArtifactID a) (arDigest a)) else None)"

definition LoadCatalog :: "system \<Rightarrow> path \<Rightarrow> disk \<Rightarrow> modelrepo_error + Catalog" where
  "LoadCatalog sy p d = (case readFile sy p d of Inl e \<Rightarrow> Inl e
     | Inr s \<Rightarrow> (case syParse sy s of None \<Rightarrow> Inl CatalogUnparsed
         | Some c \<Rightarrow>
             if caSchemaVersion c \<noteq> CatalogSchemaVersion then Inl (CatalogVersion (caSchemaVersion c))
             else if caArtifacts c = [] then Inl CatalogEmpty
             else (case find (\<lambda>e. e \<noteq> None) (map checkArtifact (caArtifacts c)) of
                 Some (Some e) \<Rightarrow> Inl e | _ \<Rightarrow> Inr c)))"

definition Catalog_Artifact :: "Catalog \<Rightarrow> string \<Rightarrow> modelrepo_error + Artifact" where
  "Catalog_Artifact c artifactID = (case find (\<lambda>a. arArtifactID a = artifactID) (caArtifacts c) of
     Some a \<Rightarrow> Inr a | None \<Rightarrow> Inl (NoArtifact artifactID))"

definition ArtifactPath :: "path \<Rightarrow> string \<Rightarrow> path" where
  "ArtifactPath dir artifactID = Join_path dir (artifactID @ ''.onnx'')"

section \<open>The configuration of an entry\<close>

definition tritonDataType :: "system \<Rightarrow> string \<Rightarrow> string option" where
  "tritonDataType sy s = (let u = ToUpper (syUpper sy) s in
     if u = ''FP32'' then Some ''TYPE_FP32'' else if u = ''FP16'' then Some ''TYPE_FP16''
     else if u = ''INT64'' then Some ''TYPE_INT64'' else if u = ''INT32'' then Some ''TYPE_INT32'' else None)"

fun resolveDim :: "dim \<Rightarrow> string option" where
  "resolveDim (DimFloat v) = Some (Itoa (int64_of_f64 v))"
| "resolveDim (DimInt v) = Some (Itoa v)"
| "resolveDim (DimName _) = Some ''-1''"
| "resolveDim DimOther = None"

fun resolveDims :: "dim list \<Rightarrow> string list \<Rightarrow> nat + string list" where
  "resolveDims [] resolved = Inr resolved"
| "resolveDims (d # ds) resolved = (case resolveDim d of None \<Rightarrow> Inl (length resolved)
     | Some s \<Rightarrow> resolveDims ds (resolved @ [s]))"

definition tritonDims :: "Tensor \<Rightarrow> int \<Rightarrow> modelrepo_error + string" where
  "tritonDims t maxBatch = (if tnDims t = [] then Inl (NoDims (tnName t))
     else case resolveDims (tnDims t) [] of Inl i \<Rightarrow> Inl (DimUnsupported (tnName t) i)
       | Inr resolved \<Rightarrow>
           if 0 < maxBatch then
             (if tl resolved = [] then Inl (NoDimsLeft (tnName t)) else Inr (joined_with '', '' (tl resolved)))
           else Inr (joined_with '', '' resolved))"

definition renderTensor :: "system \<Rightarrow> int \<Rightarrow> Tensor \<Rightarrow> modelrepo_error + string" where
  "renderTensor sy maxBatch t = (case tritonDataType sy (tnDataType t) of
       None \<Rightarrow> Inl (UnsupportedType (tnName t) (tnDataType t))
     | Some dataType \<Rightarrow> (case tritonDims t maxBatch of Inl e \<Rightarrow> Inl e
         | Inr dims \<Rightarrow> Inr (''  {'' @ newline @ ''    name: '' @ Quote (syQuote sy) (tnName t) @ newline @ ''    data_type: '' @ dataType @ newline
             @ ''    dims: [ '' @ dims @ '' ]'' @ newline @ ''  }'')))"

fun renderEach :: "system \<Rightarrow> int \<Rightarrow> Tensor list \<Rightarrow> modelrepo_error + string" where
  "renderEach sy maxBatch [] = Inr []"
| "renderEach sy maxBatch (t # ts) = (case renderTensor sy maxBatch t of Inl e \<Rightarrow> Inl e
     | Inr s \<Rightarrow> (case renderEach sy maxBatch ts of Inl e \<Rightarrow> Inl e
         | Inr rest \<Rightarrow> Inr (s @ (if ts = [] then [] else '','') @ newline @ rest)))"

definition renderTensors :: "system \<Rightarrow> string \<Rightarrow> Tensor list \<Rightarrow> int \<Rightarrow> modelrepo_error + string" where
  "renderTensors sy sect tensors maxBatch = (if tensors = [] then Inl (NoTensors sect)
     else case renderEach sy maxBatch tensors of Inl e \<Rightarrow> Inl e
       | Inr listed \<Rightarrow> Inr (sect @ '' ['' @ newline @ listed @ '']'' @ newline))"

text \<open>The stanza a kind adds: none, the dynamic batcher's, none.\<close>

definition batchingStanza :: "EntryKind \<Rightarrow> int \<Rightarrow> string option" where
  "batchingStanza kind maxBatch =
     (if kind = EntryUnbatched then Some []
      else if kind = EntryDynamic then Some (''dynamic_batching {'' @ newline @ ''  preferred_batch_size: [ '' @ Itoa maxBatch @ '' ]'' @ newline
        @ ''}'' @ newline)
      else if kind = EntryExplicit then Some [] else None)"

definition renderConfig :: "system \<Rightarrow> string \<Rightarrow> EntryKind \<Rightarrow> Artifact \<Rightarrow> int \<Rightarrow> string \<Rightarrow> modelrepo_error + string" where
  "renderConfig sy name kind a maxBatch instanceKind =
     (case renderTensors sy ''input'' (ioInputs (arIO a)) maxBatch of Inl e \<Rightarrow> Inl e
      | Inr inputs \<Rightarrow> (case renderTensors sy ''output'' (ioOutputs (arIO a)) maxBatch of Inl e \<Rightarrow> Inl e
          | Inr outputs \<Rightarrow> (case batchingStanza kind maxBatch of None \<Rightarrow> Inl (UnknownKind kind)
              | Some stanza \<Rightarrow> Inr (
                  ''# Generated by internal/modelrepo. Do not edit: the runtime repository is'' @ newline
                  @ ''# materialized fresh for every run and this file's digest is recorded.'' @ newline
                  @ ''name: '' @ Quote (syQuote sy) name @ newline
                  @ ''backend: '' @ Quote (syQuote sy) ''onnxruntime'' @ newline
                  @ ''max_batch_size: '' @ Itoa maxBatch @ newline
                  @ inputs @ outputs @ stanza
                  @ ''instance_group ['' @ newline @ ''  {'' @ newline @ ''    count: 1'' @ newline @ ''    kind: '' @ instanceKind @ newline
                  @ ''  }'' @ newline @ '']'' @ newline))))"

section \<open>Materializing\<close>

record Repository =
  rpRoot :: path
  rpEntries :: "ModelEntry list"

definition Repository_Entry :: "Repository \<Rightarrow> EntryKind \<Rightarrow> modelrepo_error + ModelEntry" where
  "Repository_Entry r kind = (case find (\<lambda>e. enKind e = kind) (rpEntries r) of Some e \<Rightarrow> Inr e | None \<Rightarrow> Inl (NoEntry kind))"

record Request =
  rqCatalog :: "Catalog option"
  rqArtifactID :: string
  rqArtifactDir :: path
  rqRuntimeDir :: path
  rqKinds :: "EntryKind list"
  rqMaxBatchSize :: int
  rqInstanceKind :: string

fun clearEach :: "system \<Rightarrow> path \<Rightarrow> string list \<Rightarrow> disk \<Rightarrow> disk \<times> modelrepo_error option" where
  "clearEach sy p [] d = (d, None)"
| "clearEach sy p (name # names) d = (case removeAll_path sy (Join_path p name) d of
     (d, Some e) \<Rightarrow> (d, Some e) | (d, None) \<Rightarrow> clearEach sy p names d)"

definition clearDir :: "system \<Rightarrow> path \<Rightarrow> disk \<Rightarrow> disk \<times> modelrepo_error option" where
  "clearDir sy p d = (case mkdirAll sy p d of (d, Some e) \<Rightarrow> (d, Some e)
     | (d, None) \<Rightarrow> if syFails sy (ReadDir p) then (d, Some (SystemError (ReadDir p))) else clearEach sy p (childNames d p) d)"

definition entryBatch :: "EntryKind \<Rightarrow> int \<Rightarrow> int option" where
  "entryBatch kind maxBatch = (if kind = EntryUnbatched then Some 0 else if maxBatch \<le> 0 then None else Some maxBatch)"

definition writeConfig :: "system \<Rightarrow> Request \<Rightarrow> Artifact \<Rightarrow> EntryKind \<Rightarrow> int \<Rightarrow> disk \<Rightarrow> disk \<times> (modelrepo_error + ModelEntry)" where
  "writeConfig sy req a kind maxBatch d =
     (let name = EntryName (arArtifactID a) kind;
          configPath = Join_path (Join_path (rqRuntimeDir req) name) ''config.pbtxt'' in
      case renderConfig sy name kind a maxBatch (rqInstanceKind req) of Inl e \<Rightarrow> (d, Inl e)
      | Inr text \<Rightarrow> (case writeFile sy configPath text d of (d, Some e) \<Rightarrow> (d, Inl e)
          | (d, None) \<Rightarrow> (case FileDigest sy configPath d of Inl e \<Rightarrow> (d, Inl e)
              | Inr digest \<Rightarrow> (d, Inr \<lparr>enName = name, enKind = kind, enArtifactID = arArtifactID a, enArtifactDigest = arDigest a,
                  enConfigDigest = digest, enMaxBatchSize = maxBatch, enInstanceKind = rqInstanceKind req, enInstanceCount = 1\<rparr>))))"

definition materializeEntry :: "system \<Rightarrow> Request \<Rightarrow> Artifact \<Rightarrow> string \<Rightarrow> EntryKind \<Rightarrow> disk \<Rightarrow> disk \<times> (modelrepo_error + ModelEntry)" where
  "materializeEntry sy req a blob kind d =
     (let name = EntryName (arArtifactID a) kind;
          versionDir = Join_path (Join_path (rqRuntimeDir req) name) ''1'';
          modelPath = Join_path versionDir ''model.onnx'' in
      case mkdirAll sy versionDir d of (d, Some e) \<Rightarrow> (d, Inl e)
      | (d, None) \<Rightarrow> (case writeFile sy modelPath blob d of (d, Some e) \<Rightarrow> (d, Inl e)
          | (d, None) \<Rightarrow> (case Verify sy modelPath a d of Some e \<Rightarrow> (d, Inl e)
              | None \<Rightarrow> (case entryBatch kind (rqMaxBatchSize req) of None \<Rightarrow> (d, Inl (NeedsPositiveBatch kind))
                  | Some maxBatch \<Rightarrow> writeConfig sy req a kind maxBatch d))))"

fun materializeEach :: "system \<Rightarrow> Request \<Rightarrow> Artifact \<Rightarrow> string \<Rightarrow> EntryKind list \<Rightarrow> ModelEntry list \<Rightarrow> disk
    \<Rightarrow> disk \<times> (modelrepo_error + ModelEntry list)" where
  "materializeEach sy req a blob [] made d = (d, Inr made)"
| "materializeEach sy req a blob (kind # kinds) made d = (case materializeEntry sy req a blob kind d of
     (d, Inl e) \<Rightarrow> (d, Inl e) | (d, Inr entry) \<Rightarrow> materializeEach sy req a blob kinds (made @ [entry]) d)"

definition defaultKind :: "Request \<Rightarrow> Request" where
  "defaultKind req = (if rqInstanceKind req = [] then req\<lparr>rqInstanceKind := ''KIND_GPU''\<rparr> else req)"

definition Materialize :: "system \<Rightarrow> Request \<Rightarrow> disk \<Rightarrow> disk \<times> (modelrepo_error + Repository)" where
  "Materialize sy req0 d = (case rqCatalog req0 of None \<Rightarrow> (d, Inl NoCatalog)
     | Some catalog \<Rightarrow> if rqKinds req0 = [] then (d, Inl NoKinds) else
         (let req = defaultKind req0; artifactPath = ArtifactPath (rqArtifactDir req) (rqArtifactID req) in
          case Catalog_Artifact catalog (rqArtifactID req) of Inl e \<Rightarrow> (d, Inl e)
          | Inr a \<Rightarrow> (case Verify sy artifactPath a d of Some e \<Rightarrow> (d, Inl e)
              | None \<Rightarrow> (case readFile sy artifactPath d of Inl e \<Rightarrow> (d, Inl e)
                  | Inr blob \<Rightarrow> (case clearDir sy (rqRuntimeDir req) d of (d, Some e) \<Rightarrow> (d, Inl e)
                      | (d, None) \<Rightarrow> (case materializeEach sy req a blob (rqKinds req) [] d of
                          (d, Inl e) \<Rightarrow> (d, Inl e)
                        | (d, Inr made) \<Rightarrow> (d, Inr \<lparr>rpRoot = rqRuntimeDir req, rpEntries = made\<rparr>)))))))"

section \<open>Preparing a run's model\<close>

definition prepareModel :: "system \<Rightarrow> Manifest \<Rightarrow> disk \<Rightarrow> disk \<times> (modelrepo_error + ModelEntry \<times> Artifact)" where
  "prepareModel sy m d = (let model = mnModel m in
     case LoadCatalog sy (pathOf (syCwd sy) (mmCatalog model)) d of Inl e \<Rightarrow> (d, Inl e)
     | Inr catalog \<Rightarrow> (case Catalog_Artifact catalog (mmArtifactID model) of Inl e \<Rightarrow> (d, Inl e)
         | Inr artifact \<Rightarrow>
             if mmExpectedDigest model \<noteq> [] \<and> arDigest artifact \<noteq> mmExpectedDigest model
             then (d, Inl (Regenerated (mmExpectedDigest model) (arDigest artifact)))
             else if \<not> SelfAttesting artifact
             then (d, Inl (NotSelfAttesting (arArtifactID artifact) (arMembershipEvidence artifact)))
             else (case Materialize sy \<lparr>rqCatalog = Some catalog, rqArtifactID = mmArtifactID model,
                   rqArtifactDir = pathOf (syCwd sy) (mmArtifactDir model), rqRuntimeDir = pathOf (syCwd sy) (mmRuntimeDir model),
                   rqKinds = [mmEntry model], rqMaxBatchSize = mcSize (mnCohort m), rqInstanceKind = []\<rparr> d of
                 (d, Inl e) \<Rightarrow> (d, Inl e)
               | (d, Inr repo) \<Rightarrow> (case Repository_Entry repo (mmEntry model) of
                   Inl e \<Rightarrow> (d, Inl e) | Inr entry \<Rightarrow> (d, Inr (entry, artifact))))))"


section \<open>What a repository holds\<close>

text \<open>Names a directory can hold.\<close>

definition properName :: "string \<Rightarrow> bool" where
  "properName s \<longleftrightarrow> CHR ''/'' \<notin> set s \<and> s \<noteq> [] \<and> s \<noteq> ''.'' \<and> s \<noteq> ''..''"

definition disk_wf :: "disk \<Rightarrow> bool" where
  "disk_wf d \<longleftrightarrow> list_all (\<lambda>(q, _). list_all properName q) d"

lemma Join_proper: "properName s \<Longrightarrow> Join_path p s = p @ [s]"
  by (simp add: Join_path_def splitOn_plain properName_def cleanStep_def)

lemma properName_entry: "CHR ''/'' \<notin> set artifactID \<Longrightarrow> CHR ''/'' \<notin> set kind \<Longrightarrow> properName (EntryName artifactID kind)"
proof -
  assume "CHR ''/'' \<notin> set artifactID" "CHR ''/'' \<notin> set kind"
  moreover have "CHR ''_'' \<in> set (EntryName artifactID kind)" by (simp add: EntryName_def)
  then have "EntryName artifactID kind \<noteq> s" if "CHR ''_'' \<notin> set s" for s using that by auto
  then have "EntryName artifactID kind \<notin> {[], ''.'', ''..''}" by auto
  ultimately show ?thesis by (simp add: properName_def EntryName_def)
qed

lemma below_append [simp]: "below p (p @ q)" "below p p"
  by (simp_all add: below_def)

lemma below_iff: "below p q \<longleftrightarrow> (\<exists>r. q = p @ r)"
  unfolding below_def by (metis append_take_drop_id append_eq_conv_conj)

lemma below_snoc_nth: "below p q \<Longrightarrow> q \<noteq> p \<Longrightarrow> below (p @ [q ! length p]) q"
proof -
  assume "below p q" "q \<noteq> p"
  then obtain c r where "q = p @ c # r" by (auto simp: below_iff) (metis append_Nil2 list.exhaust)
  then show ?thesis by (simp add: below_def)
qed

lemma foldl_addDir: "map_of (foldl addDir d ps) q = (if map_of d q = None \<and> q \<in> set ps then Some Directory else map_of d q)"
  by (induction ps arbitrary: d) (auto simp: addDir_def)

lemma mkdirAll_lookup:
  assumes "mkdirAll sy p d = (d', None)"
  shows "map_of d' q = (if map_of d q = None \<and> below q p then Some Directory else map_of d q)"
    and "map_of d' p = Some Directory"
proof -
  let ?ps = "map (\<lambda>n. take n p) [0 ..< Suc (length p)]"
  have d': "d' = foldl addDir d ?ps" and files: "\<not> list_ex (isFile d) ?ps"
    using assms by (auto simp: mkdirAll_def Let_def split: if_splits)
  have "q \<in> set ?ps \<longleftrightarrow> below q p" for q
  proof
    assume "below q p"
    then have "q = take (length q) p" "length q \<le> length p" by (auto simp: below_iff)
    then show "q \<in> set ?ps" by (auto simp del: upt_Suc)
  qed (auto simp: below_iff simp del: upt_Suc intro: append_take_drop_id [symmetric])
  then show "map_of d' q = (if map_of d q = None \<and> below q p then Some Directory else map_of d q)" for q
    by (simp add: d' foldl_addDir del: upt_Suc)
  moreover have "\<not> isFile d p" using files by (auto simp: list_ex_iff)
  ultimately show "map_of d' p = Some Directory"
    by (auto simp: isFile_def split: option.splits node.splits)
qed

lemma writeFile_lookup:
  "writeFile sy p s d = (d', None) \<Longrightarrow> map_of d' q = (if q = p then Some (File (syLands sy p s)) else map_of d q)"
  by (auto simp: writeFile_def split: if_splits)

lemma removeAll_lookup:
  "removeAll_path sy p d = (d', None) \<Longrightarrow> map_of d' q = (if below p q then None else map_of d q)"
proof -
  assume "removeAll_path sy p d = (d', None)"
  then have "d' = filter (\<lambda>(q, _). \<not> below p q) d" by (simp add: removeAll_path_def split: if_splits)
  then show ?thesis by (induction d arbitrary: d') auto
qed

lemma clearEach_lookup:
  assumes "clearEach sy p names d = (d', None)" and "list_all properName names"
  shows "map_of d' q = (if \<exists>name \<in> set names. below (p @ [name]) q then None else map_of d q)"
  using assms
proof (induction names arbitrary: d)
  case (Cons name names)
  obtain d1 where 1: "removeAll_path sy (p @ [name]) d = (d1, None)" and rest: "clearEach sy p names d1 = (d', None)"
    using Cons.prems by (auto simp: Join_proper split: prod.splits option.splits)
  show ?case using Cons.IH [OF rest] Cons.prems(2) removeAll_lookup [OF 1, of q] by auto
qed simp


lemma strictly_below: "below p q \<Longrightarrow> q \<noteq> p \<Longrightarrow> \<not> below q p \<and> length p < length q"
  by (auto simp: below_iff)

lemma lookup_path: "map_of d q \<noteq> None \<longleftrightarrow> q \<in> fst ` set d"
  by (simp add: map_of_eq_None_iff)

text \<open>A cleared directory is there and is empty.\<close>

lemma clearDir_lookup:
  assumes "clearDir sy p d = (d', None)" and "disk_wf d"
  shows "below p q \<Longrightarrow> q \<noteq> p \<Longrightarrow> map_of d' q = None" and "map_of d' p = Some Directory"
proof -
  obtain d1 where 1: "mkdirAll sy p d = (d1, None)" and each: "clearEach sy p (childNames d1 p) d1 = (d', None)"
    using assms(1) by (auto simp: clearDir_def split: prod.splits option.splits if_splits)
  have old: "map_of d1 q = map_of d q" if "below p q" "q \<noteq> p" for q
    using mkdirAll_lookup(1) [OF 1, of q] strictly_below [OF that] by simp
  have children: "set (childNames d1 p) = (\<lambda>q. q ! length p) ` {q. below p q \<and> q \<noteq> p \<and> map_of d1 q \<noteq> None}"
    unfolding childNames_def lookup_path by auto
  have "properName (q ! length p)" if q: "below p q" "q \<noteq> p" "map_of d1 q \<noteq> None" for q
  proof -
    have "q \<in> fst ` set d" using q(3) old [OF q(1,2)] by (simp add: lookup_path [symmetric])
    then have "list_all properName q" using assms(2) by (auto simp: disk_wf_def list_all_iff)
    then show ?thesis using strictly_below [OF q(1,2)] by (simp add: list_all_length)
  qed
  then have names: "list_all properName (childNames d1 p)" by (auto simp: list_all_iff children)
  note cleared = clearEach_lookup [OF each names]
  show "map_of d' q = None" if q: "below p q" "q \<noteq> p"
  proof (cases "map_of d1 q = None")
    case False
    then have "q ! length p \<in> set (childNames d1 p)" using q by (auto simp: children)
    then show ?thesis using below_snoc_nth [OF q] by (auto simp: cleared)
  qed (simp add: cleared)
  have "\<not> below (p @ [name]) p" for name by (auto simp: below_iff)
  then show "map_of d' p = Some Directory" using mkdirAll_lookup(2) [OF 1] by (simp add: cleared)
qed

text \<open>
  An entry's files: its model is the artifact's, byte for byte as its digest and its size tell,
  and its configuration is the one whose digest it records.
\<close>

definition entryFiles :: "system \<Rightarrow> path \<Rightarrow> Artifact \<Rightarrow> disk \<Rightarrow> ModelEntry \<Rightarrow> bool" where
  "entryFiles sy dir a d e \<longleftrightarrow>
     (case map_of d (dir @ [enName e, ''1'', ''model.onnx'']) of
        Some (File blob) \<Rightarrow> ''sha256:'' @ sySum sy blob = arDigest a \<and> (if arBytes a = 0 then True else int (length blob) = arBytes a)
      | _ \<Rightarrow> False)
     \<and> (case map_of d (dir @ [enName e, ''config.pbtxt'']) of
        Some (File config) \<Rightarrow> ''sha256:'' @ sySum sy config = enConfigDigest e
      | _ \<Rightarrow> False)"

lemma entryFiles_cong:
  "(\<And>q. below (dir @ [enName e]) q \<Longrightarrow> map_of d' q = map_of d q) \<Longrightarrow> entryFiles sy dir a d' e = entryFiles sy dir a d e"
proof -
  assume same: "\<And>q. below (dir @ [enName e]) q \<Longrightarrow> map_of d' q = map_of d q"
  have "below (dir @ [enName e]) (dir @ [enName e, ''1'', ''model.onnx''])" "below (dir @ [enName e]) (dir @ [enName e, ''config.pbtxt''])"
    by (simp_all add: below_def)
  then show ?thesis by (simp add: entryFiles_def same)
qed

lemma Verify_None:
  "Verify sy p a d = None \<Longrightarrow> \<exists>s. map_of d p = Some (File s) \<and> ''sha256:'' @ sySum sy s = arDigest a
     \<and> (if arBytes a = 0 then True else int (length s) = arBytes a)"
  by (auto simp: Verify_def FileDigest_def fileSize_def split: if_splits option.splits node.splits)

definition entryOf :: "Request \<Rightarrow> Artifact \<Rightarrow> EntryKind \<Rightarrow> ModelEntry \<Rightarrow> bool" where
  "entryOf req a kind e \<longleftrightarrow> kind \<in> {EntryUnbatched, EntryDynamic, EntryExplicit}
     \<and> e = \<lparr>enName = EntryName (arArtifactID a) kind, enKind = kind, enArtifactID = arArtifactID a, enArtifactDigest = arDigest a,
         enConfigDigest = enConfigDigest e, enMaxBatchSize = (if kind = EntryUnbatched then 0 else rqMaxBatchSize req),
         enInstanceKind = rqInstanceKind req, enInstanceCount = 1\<rparr>
     \<and> (if kind = EntryUnbatched then True else 0 < rqMaxBatchSize req)"

lemma entryOf_fields:
  assumes "entryOf req a kind e"
  shows "enName e = EntryName (arArtifactID a) kind" "enKind e = kind" "enArtifactDigest e = arDigest a"
    "enMaxBatchSize e = (if kind = EntryUnbatched then 0 else rqMaxBatchSize req)"
  using assms by (cases e, simp add: entryOf_def)+

lemma materializeEntry_Inr:
  assumes "materializeEntry sy req a blob kind d = (d', Inr e)" and "CHR ''/'' \<notin> set (arArtifactID a)"
  shows "entryOf req a kind e" and "entryFiles sy (rqRuntimeDir req) a d' e"
    and "\<not> below (rqRuntimeDir req @ [enName e]) q \<Longrightarrow> \<not> below q (rqRuntimeDir req) \<Longrightarrow> map_of d' q = map_of d q"
proof -
  let ?dir = "rqRuntimeDir req" and ?name = "EntryName (arArtifactID a) kind"
  let ?v = "Join_path (Join_path ?dir ?name) ''1''"
  let ?c = "Join_path (Join_path ?dir ?name) ''config.pbtxt''"
  obtain d1 d2 maxBatch where 1: "mkdirAll sy ?v d = (d1, None)" and 2: "writeFile sy (Join_path ?v ''model.onnx'') blob d1 = (d2, None)"
    and verify: "Verify sy (Join_path ?v ''model.onnx'') a d2 = None" and batch: "entryBatch kind (rqMaxBatchSize req) = Some maxBatch"
    and config: "writeConfig sy req a kind maxBatch d2 = (d', Inr e)"
    using assms(1) by (auto simp: materializeEntry_def Let_def split: prod.splits option.splits)
  obtain s where s: "renderConfig sy ?name kind a maxBatch (rqInstanceKind req) = Inr s"
    and 3: "writeFile sy ?c s d2 = (d', None)" and digest: "FileDigest sy ?c d' = Inr (enConfigDigest e)"
    and e: "e = \<lparr>enName = ?name, enKind = kind, enArtifactID = arArtifactID a, enArtifactDigest = arDigest a,
      enConfigDigest = enConfigDigest e, enMaxBatchSize = maxBatch, enInstanceKind = rqInstanceKind req, enInstanceCount = 1\<rparr>"
    using config by (auto simp: writeConfig_def Let_def split: sum.splits prod.splits option.splits)
  have kind: "kind \<in> {EntryUnbatched, EntryDynamic, EntryExplicit}"
    using s by (auto simp: renderConfig_def batchingStanza_def split: sum.splits if_splits)
  then have "CHR ''/'' \<notin> set kind" by auto
  then have name: "properName ?name" using assms(2) by (rule properName_entry [rotated])
  have fixed: "properName ''1''" "properName ''config.pbtxt''" "properName ''model.onnx''" by (simp_all add: properName_def)
  note path = Join_proper [OF name] Join_proper [OF fixed(1)] Join_proper [OF fixed(2)] Join_proper [OF fixed(3)]
  have en: "enName e = ?name" by (subst e) simp
  show "entryOf req a kind e" unfolding entryOf_def
    using batch kind e by (auto simp: entryBatch_def split: if_splits)
  note lookup = writeFile_lookup [OF 3] writeFile_lookup [OF 2] mkdirAll_lookup(1) [OF 1]
  show "map_of d' q = map_of d q" if "\<not> below (?dir @ [enName e]) q" "\<not> below q ?dir"
  proof -
    have "\<not> below q (?dir @ [?name, ''1''])"
      using that unfolding below_iff en by (auto simp: append_eq_append_conv2 Cons_eq_append_conv)
    then show ?thesis using that by (auto simp: lookup path en below_def)
  qed
  show "entryFiles sy ?dir a d' e"
    using Verify_None [OF verify] digest
    by (auto simp: entryFiles_def path lookup en FileDigest_def split: if_splits option.splits node.splits)
qed

lemma materializeEach_Inr:
  assumes "materializeEach sy req a blob kinds made d = (d', Inr out)" and "CHR ''/'' \<notin> set (arArtifactID a)" and "distinct kinds"
  shows "\<exists>new. out = made @ new \<and> list_all2 (entryOf req a) kinds new \<and> list_all (entryFiles sy (rqRuntimeDir req) a d') new
    \<and> (\<forall>q. (\<forall>e \<in> set new. \<not> below (rqRuntimeDir req @ [enName e]) q) \<longrightarrow> \<not> below q (rqRuntimeDir req) \<longrightarrow> map_of d' q = map_of d q)"
  using assms(1,3)
proof (induction kinds arbitrary: made d)
  case (Cons kind kinds)
  let ?dir = "rqRuntimeDir req"
  obtain d1 e where 1: "materializeEntry sy req a blob kind d = (d1, Inr e)"
    and rest: "materializeEach sy req a blob kinds (made @ [e]) d1 = (d', Inr out)"
    using Cons.prems(1) by (auto split: prod.splits sum.splits)
  note one = materializeEntry_Inr [OF 1 assms(2)]
  obtain new where new: "out = (made @ [e]) @ new" "list_all2 (entryOf req a) kinds new" "list_all (entryFiles sy ?dir a d') new"
    and frame: "\<forall>q. (\<forall>f \<in> set new. \<not> below (?dir @ [enName f]) q) \<longrightarrow> \<not> below q ?dir \<longrightarrow> map_of d' q = map_of d1 q"
    using Cons.IH [OF rest] Cons.prems(2) by auto
  have other: "enName f \<noteq> enName e" if "f \<in> set new" for f
  proof -
    note member = that
    obtain i where i: "i < length new" "f = new ! i" using member by (auto simp: in_set_conv_nth)
    have k: "entryOf req a (kinds ! i) f" "i < length kinds" using list_all2_nthD2 [OF new(2) i(1)] list_all2_lengthD [OF new(2)] i by simp_all
    have "kinds ! i \<noteq> kind" using nth_mem [OF k(2)] Cons.prems(2) by auto
    then show ?thesis by (simp add: entryOf_fields(1) [OF k(1)] entryOf_fields(1) [OF one(1)] EntryName_def)
  qed
  have "entryFiles sy ?dir a d' e = entryFiles sy ?dir a d1 e"
  proof (rule entryFiles_cong)
    fix q assume "below (?dir @ [enName e]) q"
    then obtain r where q: "q = ?dir @ enName e # r" by (auto simp: below_iff)
    have "\<not> below (?dir @ [enName f]) q" if "f \<in> set new" for f using other [OF that] by (simp add: below_def q)
    moreover have "\<not> below q ?dir" by (simp add: below_def q)
    ultimately show "map_of d' q = map_of d1 q" using frame by blast
  qed
  then show ?case using new one frame by (intro exI [of _ "e # new"]) auto
qed auto

text \<open>The outcome of \<^verbatim>\<open>Materialize\<close>: one entry per kind, its files in order, nothing else in the directory.\<close>

lemma Materialize_Inr:
  assumes "Materialize sy req d = (d', Inr repo)" and "rqCatalog req = Some c" and "Catalog_Artifact c (rqArtifactID req) = Inr a"
    and "disk_wf d" and "CHR ''/'' \<notin> set (rqArtifactID req)" and "distinct (rqKinds req)"
  shows "list_all2 (entryOf (defaultKind req) a) (rqKinds req) (rpEntries repo)"
    and "list_all (entryFiles sy (rqRuntimeDir req) a d') (rpEntries repo)"
    and "below (rqRuntimeDir req) q \<Longrightarrow> q \<noteq> rqRuntimeDir req \<Longrightarrow> map_of d' q \<noteq> None
      \<Longrightarrow> \<exists>e \<in> set (rpEntries repo). below (rqRuntimeDir req @ [enName e]) q"
proof -
  let ?req = "defaultKind req" and ?dir = "rqRuntimeDir req"
  have req: "rqRuntimeDir ?req = ?dir" "rqKinds ?req = rqKinds req" "rqArtifactID ?req = rqArtifactID req" by (simp_all add: defaultKind_def)
  have "arArtifactID a = rqArtifactID req"
    using assms(3) by (auto simp: Catalog_Artifact_def find_Some_iff split: option.splits)
  then have plain: "CHR ''/'' \<notin> set (arArtifactID a)" using assms(5) by simp
  obtain blob d1 where clear: "clearDir sy ?dir d = (d1, None)"
    and each: "materializeEach sy ?req a blob (rqKinds req) [] d1 = (d', Inr (rpEntries repo))"
    using assms(1) by (auto simp: Materialize_def assms(2,3) req Let_def split: option.splits if_splits sum.splits prod.splits)
  obtain new where new: "rpEntries repo = new" "list_all2 (entryOf ?req a) (rqKinds req) new" "list_all (entryFiles sy ?dir a d') new"
    and frame: "\<forall>q. (\<forall>e \<in> set new. \<not> below (?dir @ [enName e]) q) \<longrightarrow> \<not> below q ?dir \<longrightarrow> map_of d' q = map_of d1 q"
    using materializeEach_Inr [OF each plain assms(6)] by (auto simp: req)
  show "list_all2 (entryOf ?req a) (rqKinds req) (rpEntries repo)" "list_all (entryFiles sy ?dir a d') (rpEntries repo)"
    using new by simp_all
  show "\<exists>e \<in> set (rpEntries repo). below (?dir @ [enName e]) q" if "below ?dir q" "q \<noteq> ?dir" "map_of d' q \<noteq> None"
  proof (rule ccontr)
    assume "\<not> (\<exists>e \<in> set (rpEntries repo). below (?dir @ [enName e]) q)"
    then have "map_of d' q = map_of d1 q" using frame strictly_below [OF that(1,2)] new(1) by blast
    then show False using clearDir_lookup(1) [OF clear assms(4) that(1,2)] that(3) by simp
  qed
qed

text \<open>
  What a run serves is what its manifest names. If \<^verbatim>\<open>prepareModel\<close> returns, the artifact has
  the digest the manifest expects, if it expects one, and attests its membership; the runtime
  directory holds exactly one entry, named after the manifest's model, whose model file has the
  catalog's digest and size and whose configuration file the digest the run records; the entry
  batches only if it is not the unbatched one. Nothing an earlier run left there is left,
  whatever the writes did.
\<close>

lemma prepared_model:
  assumes "prepareModel sy m d = (d', Inr (e, a))" and "disk_wf d" and "CHR ''/'' \<notin> set (mmArtifactID (mnModel m))"
  shows "(let dir = pathOf (syCwd sy) (mmRuntimeDir (mnModel m)) in
       mmExpectedDigest (mnModel m) \<in> {[], arDigest a} \<and> SelfAttesting a
     \<and> enName e = ModelEntryName m \<and> enKind e = mmEntry (mnModel m) \<and> enArtifactDigest e = arDigest a
     \<and> enMaxBatchSize e = (if mmEntry (mnModel m) = EntryUnbatched then 0 else mcSize (mnCohort m))
     \<and> entryFiles sy dir a d' e
     \<and> list_all (\<lambda>(q, _). if below dir q \<and> q \<noteq> dir then below (dir @ [enName e]) q else True) d'
     \<and> (\<exists>c. LoadCatalog sy (pathOf (syCwd sy) (mmCatalog (mnModel m))) d = Inr c
           \<and> Catalog_Artifact c (mmArtifactID (mnModel m)) = Inr a))"
proof -
  let ?dir = "pathOf (syCwd sy) (mmRuntimeDir (mnModel m))" and ?kind = "mmEntry (mnModel m)"
  obtain c repo where catalog: "LoadCatalog sy (pathOf (syCwd sy) (mmCatalog (mnModel m))) d = Inr c"
    and artifact: "Catalog_Artifact c (mmArtifactID (mnModel m)) = Inr a"
    and digest: "mmExpectedDigest (mnModel m) \<in> {[], arDigest a}" "SelfAttesting a"
    and repo: "Materialize sy \<lparr>rqCatalog = Some c, rqArtifactID = mmArtifactID (mnModel m),
      rqArtifactDir = pathOf (syCwd sy) (mmArtifactDir (mnModel m)), rqRuntimeDir = ?dir,
      rqKinds = [?kind], rqMaxBatchSize = mcSize (mnCohort m), rqInstanceKind = []\<rparr> d = (d', Inr repo)" (is "Materialize sy ?req d = _")
    and entry: "Repository_Entry repo ?kind = Inr e"
    using assms(1) by (auto simp: prepareModel_def Let_def split: sum.splits prod.splits if_splits)
  note made = Materialize_Inr [OF repo, simplified, OF refl artifact assms(2,3), simplified]
  obtain f where f: "rpEntries repo = [f]" "entryOf (defaultKind ?req) a ?kind f" using made(1) by (auto simp: list_all2_Cons1)
  have e: "e = f" using entry f(1) by (auto simp: Repository_Entry_def split: if_splits)
  have "arArtifactID a = mmArtifactID (mnModel m)"
    using artifact by (auto simp: Catalog_Artifact_def find_Some_iff split: option.splits)
  then have fields: "enName f = ModelEntryName m" "enKind f = ?kind" "enArtifactDigest f = arDigest a"
    "enMaxBatchSize f = (if ?kind = EntryUnbatched then 0 else mcSize (mnCohort m))"
    using entryOf_fields [OF f(2)] by (simp_all add: ModelEntryName_def defaultKind_def)
  have "below (?dir @ [enName f]) q" if "(q, n) \<in> set d'" "below ?dir q" "q \<noteq> ?dir" for q n
  proof -
    have "map_of d' q \<noteq> None" using weak_map_of_SomeI [OF that(1)] by auto
    then show ?thesis using made(3) [OF that(2,3)] f(1) by auto
  qed
  then show ?thesis using digest fields made(2) catalog artifact by (auto simp: Let_def e f(1) list_all_iff)
qed


text \<open>A disk with a catalog, an artifact and what an earlier run left.\<close>

definition sampleArtifact :: Artifact where
  "sampleArtifact = \<lparr>arArtifactID = ''a'', arDigest = ''sha256:3'', arBytes = 3, arPrecision = ''fp32'',
     arMembershipEvidence = ''self_attesting'',
     arGenerator = \<lparr>gnProducer = ''p'', gnProducerVersion = ''1'', gnOpset = 18, gnIRVersion = 8\<rparr>,
     arGraph = \<lparr>gpKappa = 1, gpFeatureWidth = 1, gpPayloadFloats = 1, gpPayloadMiB = 1\<rparr>,
     arIO = \<lparr>ioInputs = [\<lparr>tnName = ''x'', tnDataType = ''fp32'', tnDims = [DimName ''N'', DimFloat 1]\<rparr>],
       ioOutputs = [\<lparr>tnName = ''y'', tnDataType = ''int64'', tnDims = [DimName ''N'', DimFloat 1]\<rparr>]\<rparr>\<rparr>"

definition sampleSystem :: system where
  "sampleSystem = \<lparr>syFails = (\<lambda>_. False), syLands = (\<lambda>_ s. s), sySum = (\<lambda>s. if length s = 3 then ''3'' else ''4''), syCwd = [''w''],
     syParse = (\<lambda>_. Some \<lparr>caSchemaVersion = 1, caArtifacts = [sampleArtifact]\<rparr>), syUpper = id, syQuote = id\<rparr>"

definition sampleDisk :: "Manifest \<Rightarrow> disk" where
  "sampleDisk m = [(pathOf [''w''] (mmCatalog (mnModel m)), File ''{}''),
     (ArtifactPath (pathOf [''w''] (mmArtifactDir (mnModel m))) ''a'', File ''xyz''),
     (pathOf [''w''] (mmRuntimeDir (mnModel m)) @ [''stale''], File ''old'')]"

lemma sample_prepares: "case snd (prepareModel sampleSystem (sampleManifest CellD0) (sampleDisk (sampleManifest CellD0))) of
    Inl _ \<Rightarrow> False | Inr (_, a) \<Rightarrow> a = sampleArtifact" "disk_wf (sampleDisk (sampleManifest CellD0))"
   by code_simp+

end
