(* ===== verification/ClockDomain.thy ===== *)
theory ClockDomain
  imports Strings
begin

text \<open>
  \<^verbatim>\<open>internal/events/clockdomain/clockdomain.go\<close>: how a process establishes the clock its
  timestamps are read from, and which facts the domain's identity stands for. What the kernel
  answers (files, host name, clock readings) is an argument, \<open>None\<close> where it fails;
  SHA-256 is a parameter.
\<close>

section \<open>Reading the clock\<close>

type_synonym Source = string

abbreviation (input) SourceVDSO :: Source where "SourceVDSO \<equiv> ''CLOCK_MONOTONIC/vdso''"
abbreviation (input) SourceSyscall :: Source where "SourceSyscall \<equiv> ''CLOCK_MONOTONIC/syscall''"

record Domain =
  doID :: string
  doBootID :: string
  doBootTimeUnix :: int
  doHostname :: string
  doSource :: Source
  doResolutionNanos :: int64
  doReadOverheadNanos :: int64

text \<open>
  One look at the clock: the fast reader's value and the system call's, which panics if the
  kernel refuses it.
\<close>

record reading =
  rdFast :: int64
  rdSyscall :: "int64 option"

definition Now :: "Source \<Rightarrow> reading \<Rightarrow> int64 option" where
  "Now source r = (if source = SourceVDSO then Some (rdFast r) else rdSyscall r)"

definition SameDomain :: "Domain option \<Rightarrow> Domain option \<Rightarrow> bool" where
  "SameDomain d other = (case (d, other) of (Some a, Some b) \<Rightarrow> doID a = doID b | _ \<Rightarrow> False)"

definition certifyReads :: nat where "certifyReads = 64"

text \<open>
  \<^verbatim>\<open>certifyFastClock\<close> over its trials, each a system call, a fast read and a system call; the
  value \<open>None\<close> is the panic.
\<close>

fun certifyLoop :: "(int64 option \<times> int64 \<times> int64 option) list \<Rightarrow> bool option" where
  "certifyLoop [] = Some True"
| "certifyLoop ((before, fast, after) # trials) = (case (before, after) of
     (Some lo, Some hi) \<Rightarrow> if fast <s lo \<or> hi <s fast then Some False else certifyLoop trials
   | _ \<Rightarrow> None)"

definition certifyFastClock :: "(int64 option \<times> int64 \<times> int64 option) list \<Rightarrow> bool option" where
  "certifyFastClock trials = certifyLoop (take certifyReads trials)"

definition overheadTrials :: nat where "overheadTrials = 256"
definition perTrial :: nat where "perTrial = 64"

text \<open>One trial of \<^verbatim>\<open>measureReadOverhead\<close>: its first reading, those it discards and its last.\<close>

definition trialElapsed :: "Source \<Rightarrow> reading \<times> reading list \<times> reading \<Rightarrow> int64 option" where
  "trialElapsed source trial = (case trial of (start, discarded, final) \<Rightarrow>
     if list_ex (\<lambda>r. Now source r = None) (start # discarded @ [final]) then None
     else Some (the (Now source final) - the (Now source start)))"

definition overheadSamples :: "int64 list \<Rightarrow> int list" where
  "overheadSamples elapsed = map (\<lambda>e. sint e div int perTrial) (filter (\<lambda>e. 0 <s e) elapsed)"

definition median :: "int list \<Rightarrow> int" where
  "median samples = (if samples = [] then 0 else sort samples ! (length samples div 2))"

definition measureReadOverhead :: "Source \<Rightarrow> (reading \<times> reading list \<times> reading) list \<Rightarrow> int64 option" where
  "measureReadOverhead source trials = (let elapsed = map (trialElapsed source) (take overheadTrials trials) in
     if None \<in> set elapsed then None else Some (of_int (median (overheadSamples (map the elapsed)))))"

section \<open>The facts of a boot\<close>

datatype clock_error = BootIDUnreadable | BootIDEmpty | StatUnreadable | BootTimeMalformed | NoBootTime | HostnameUnreadable
  | ResolutionUnreadable

definition readBootID :: "string option \<Rightarrow> clock_error + string" where
  "readBootID contents = (case contents of None \<Rightarrow> Inl BootIDUnreadable
     | Some b \<Rightarrow> if TrimSpace b = [] then Inl BootIDEmpty else Inr (TrimSpace b))"

fun bootTimeOf :: "string list \<Rightarrow> clock_error + int" where
  "bootTimeOf [] = Inl NoBootTime"
| "bootTimeOf (line # lines) = (case CutPrefix line ''btime '' of None \<Rightarrow> bootTimeOf lines
     | Some rest \<Rightarrow> (case ParseInt64 (TrimSpace rest) of None \<Rightarrow> Inl BootTimeMalformed | Some v \<Rightarrow> Inr v))"

definition readBootTime :: "string option \<Rightarrow> clock_error + int" where
  "readBootTime contents = (case contents of None \<Rightarrow> Inl StatUnreadable | Some b \<Rightarrow> bootTimeOf (splitOn (CHR 0x0A) b))"

definition monotonicClockName :: string where "monotonicClockName = ''CLOCK_MONOTONIC''"

definition domainText :: "string \<Rightarrow> int \<Rightarrow> string \<Rightarrow> string" where
  "domainText bootID bootTime host = ''batch2go/clockdomain/v1'' @ newline @ ''boot='' @ bootID @ newline @ ''btime='' @ Itoa bootTime
     @ newline @ ''host='' @ host @ newline @ ''clock='' @ monotonicClockName @ newline"

definition deriveID :: "(string \<Rightarrow> string) \<Rightarrow> Domain \<Rightarrow> string" where
  "deriveID sha256 d = ''cd-'' @ take 20 (sha256 (domainText (doBootID d) (doBootTimeUnix d) (doHostname d)))"

text \<open>What the kernel tells a process.\<close>

record kernel =
  knBootID :: "string option"
  knStat :: "string option"
  knHostname :: "string option"
  knResolution :: "int64 option"
  knTrials :: "(int64 option \<times> int64 \<times> int64 option) list"
  knReads :: "(reading \<times> reading list \<times> reading) list"

definition Establish :: "(string \<Rightarrow> string) \<Rightarrow> kernel \<Rightarrow> (clock_error + Domain) option" where
  "Establish sha256 k = (case readBootID (knBootID k) of Inl e \<Rightarrow> Some (Inl e)
     | Inr bootID \<Rightarrow> (case readBootTime (knStat k) of Inl e \<Rightarrow> Some (Inl e)
         | Inr bootTime \<Rightarrow> (case knHostname k of None \<Rightarrow> Some (Inl HostnameUnreadable)
             | Some host \<Rightarrow> (case knResolution k of None \<Rightarrow> Some (Inl ResolutionUnreadable)
                 | Some resolution \<Rightarrow> (case certifyFastClock (knTrials k) of None \<Rightarrow> None
                     | Some certified \<Rightarrow>
                         (let source = (if certified then SourceVDSO else SourceSyscall);
                              d = \<lparr>doID = [], doBootID = bootID, doBootTimeUnix = bootTime, doHostname = host, doSource = source,
                                doResolutionNanos = resolution, doReadOverheadNanos = 0\<rparr>;
                              d = d\<lparr>doID := deriveID sha256 d\<rparr> in
                          case measureReadOverhead source (knReads k) of None \<Rightarrow> None
                          | Some overhead \<Rightarrow> Some (Inr (d\<lparr>doReadOverheadNanos := overhead\<rparr>))))))))"

section \<open>What an identity stands for\<close>

lemma domainText_inj:
  assumes "domainText b t h = domainText b' t' h'" and "CHR 0x0A \<notin> set (b @ h)" and "CHR 0x0A \<notin> set (b' @ h')"
  shows "b = b' \<and> t = t' \<and> h = h'"
proof -
  have plain: "CHR 0x0A \<notin> set (Itoa v)" for v
    using AppendUint_plain [of "CHR 0x0A"] by (simp add: Itoa_def isDigit_def)
  have parts: "splitOn (CHR 0x0A) (domainText b t h) = [''batch2go/clockdomain/v1'', ''boot='' @ b, ''btime='' @ Itoa t, ''host='' @ h,
      ''clock='' @ monotonicClockName, []]" if "CHR 0x0A \<notin> set (b @ h)" for b t h
  proof -
    have "CHR 0x0A \<notin> set (''boot='' @ b)" "CHR 0x0A \<notin> set (''btime='' @ Itoa t)" "CHR 0x0A \<notin> set (''host='' @ h)"
      "CHR 0x0A \<notin> set (''clock='' @ monotonicClockName)" "CHR 0x0A \<notin> set ''batch2go/clockdomain/v1''"
      using that plain by (simp_all add: monotonicClockName_def)
    note lines = this [THEN splitOn_append]
    have "domainText b t h = ''batch2go/clockdomain/v1'' @ CHR 0x0A # (''boot='' @ b) @ CHR 0x0A # (''btime='' @ Itoa t)
        @ CHR 0x0A # (''host='' @ h) @ CHR 0x0A # (''clock='' @ monotonicClockName) @ CHR 0x0A # []"
      by (simp add: domainText_def newline_def)
    then show ?thesis by (simp only: lines splitOn.simps(1))
  qed
  have "[''batch2go/clockdomain/v1'', ''boot='' @ b, ''btime='' @ Itoa t, ''host='' @ h, ''clock='' @ monotonicClockName, []]
      = [''batch2go/clockdomain/v1'', ''boot='' @ b', ''btime='' @ Itoa t', ''host='' @ h', ''clock='' @ monotonicClockName, []]"
    using parts [OF assms(2), of t] parts [OF assms(3), of t'] assms(1) by simp
  then show ?thesis by (simp add: Itoa_inj)
qed

fun bracketed :: "int64 option \<times> int64 \<times> int64 option \<Rightarrow> bool" where
  "bracketed (Some lo, fast, Some hi) \<longleftrightarrow> sint lo \<le> sint fast \<and> sint fast \<le> sint hi"
| "bracketed _ \<longleftrightarrow> False"

lemma certifyLoop_True: "certifyLoop trials = Some True \<Longrightarrow> list_all bracketed trials"
proof (induction trials)
  case (Cons trial trials)
  obtain lo fast hi where "trial = (Some lo, fast, Some hi)"
    using Cons.prems by (cases trial) (auto split: option.splits)
  then show ?case using Cons by (auto simp: sless_sint split: if_splits)
qed simp

text \<open>The prefix of the sum that an identity keeps tells two texts apart.\<close>

definition distinguishes :: "(string \<Rightarrow> string) \<Rightarrow> string \<Rightarrow> string \<Rightarrow> bool" where
  "distinguishes sha256 s t \<longleftrightarrow> (if s = t then True else take 20 (sha256 s) \<noteq> take 20 (sha256 t))"

text \<open>
  Timestamps are subtracted only within one boot of one host. If two processes establish
  domains with the same identity, and SHA-256 did not map two different texts to one prefix,
  they read the same boot identity, the same boot time and the same host name; and a process
  uses the fast reader only if each of its trials lay between two system calls.
\<close>

theorem same_domain_same_boot:
  assumes "Establish sha256 k = Some (Inr d)" and "Establish sha256 k' = Some (Inr d')" and "SameDomain (Some d) (Some d')"
    and "CHR 0x0A \<notin> set (doBootID d @ doHostname d)" and "CHR 0x0A \<notin> set (doBootID d' @ doHostname d')"
    and "distinguishes sha256 (domainText (doBootID d) (doBootTimeUnix d) (doHostname d))
      (domainText (doBootID d') (doBootTimeUnix d') (doHostname d'))"
  shows "readBootID (knBootID k) = readBootID (knBootID k') \<and> readBootTime (knStat k) = readBootTime (knStat k')
     \<and> knHostname k = knHostname k' \<and> readBootID (knBootID k) = Inr (doBootID d)
     \<and> (if doSource d = SourceVDSO then list_all bracketed (take certifyReads (knTrials k)) else True)"
proof -
  have fields: "readBootID (knBootID k) = Inr (doBootID d) \<and> readBootTime (knStat k) = Inr (doBootTimeUnix d)
      \<and> knHostname k = Some (doHostname d) \<and> doID d = deriveID sha256 d
      \<and> (doSource d = SourceVDSO \<longrightarrow> certifyFastClock (knTrials k) = Some True)"
    if "Establish sha256 k = Some (Inr d)" for k d
    using that by (auto simp: Establish_def deriveID_def Let_def split: sum.splits option.splits if_splits)
  note one = fields [OF assms(1)] and two = fields [OF assms(2)]
  have "deriveID sha256 d = deriveID sha256 d'" using assms(3) one two by (simp add: SameDomain_def)
  then have "domainText (doBootID d) (doBootTimeUnix d) (doHostname d) = domainText (doBootID d') (doBootTimeUnix d') (doHostname d')"
    using assms(6) by (simp add: deriveID_def distinguishes_def split: if_splits)
  from domainText_inj [OF this assms(4,5)] show ?thesis
    using one two certifyLoop_True by (auto simp: certifyFastClock_def)
qed


definition sampleKernel :: kernel where
  "sampleKernel = \<lparr>knBootID = Some (''b0'' @ newline), knStat = Some (''cpu 1'' @ newline @ ''btime 17'' @ newline), knHostname = Some ''h'',
     knResolution = Some 1, knTrials = [(Some 5, 6, Some 7)],
     knReads = [(\<lparr>rdFast = 100, rdSyscall = None\<rparr>, [], \<lparr>rdFast = 1700, rdSyscall = None\<rparr>)]\<rparr>"

lemma sample_establish: "case Establish id sampleKernel of Some (Inr d) \<Rightarrow> doBootID d = ''b0'' \<and> doHostname d = ''h'' \<and> doSource d = SourceVDSO
    \<and> doReadOverheadNanos d = 25 | _ \<Rightarrow> False"
  by code_simp

theorem same_domain_same_boot_witness:
  "\<exists>d. Establish id sampleKernel = Some (Inr d) \<and> readBootID (knBootID sampleKernel) = Inr (doBootID d)
     \<and> list_all bracketed (take certifyReads (knTrials sampleKernel))"
proof -
  obtain d where d: "Establish id sampleKernel = Some (Inr d)" "doBootID d = ''b0''" "doHostname d = ''h''" "doSource d = SourceVDSO"
    using sample_establish by (auto split: option.splits sum.splits)
  have "SameDomain (Some d) (Some d)" by (simp add: SameDomain_def)
  from same_domain_same_boot [OF d(1) d(1) this] show ?thesis
    using d by (simp add: distinguishes_def)
qed

end
