(* ===== verification/Collector.thy ===== *)
theory Collector
  imports FanOut
begin

text \<open>
  \<^verbatim>\<open>internal/runner/gc.go\<close>: the recorder of the garbage collector's behaviour over a run. The
  readings of \<^verbatim>\<open>runtime/metrics\<close> are arguments; the sampler's goroutine takes the mutex once per
  tick, so a run of the recorder is its start, a list of ticks and its stop. Bucket edges are
  binary64 values, the infinities included; products and sums of finite ones are rounded as in
  the Prelude, whose range durations and counts stay in.
\<close>

section \<open>Histograms\<close>

datatype float64 = NaN | NegInf | Finite rat | PosInf

record histogram =
  hgCounts :: "uint64 list"
  hgBuckets :: "float64 list"

fun addF :: "float64 \<Rightarrow> float64 \<Rightarrow> float64" where
  "addF NaN y = NaN"
| "addF x NaN = NaN"
| "addF (Finite x) (Finite y) = Finite (f64 (x + y))"
| "addF NegInf PosInf = NaN"
| "addF PosInf NegInf = NaN"
| "addF NegInf y = NegInf"
| "addF PosInf y = PosInf"
| "addF x NegInf = NegInf"
| "addF x PosInf = PosInf"

text \<open>The product with a positive value.\<close>

fun scaleF :: "rat \<Rightarrow> float64 \<Rightarrow> float64" where
  "scaleF c (Finite x) = Finite (f64 (c * x))"
| "scaleF c x = x"

definition halfF :: "float64 \<Rightarrow> float64" where
  "halfF x = (case x of Finite v \<Rightarrow> Finite (f64 (v / 2)) | _ \<Rightarrow> x)"

text \<open>\<^verbatim>\<open>int64(v)\<close> when the value may not be finite.\<close>

definition toInt64 :: "float64 \<Rightarrow> int64" where
  "toInt64 x = (case x of Finite v \<Rightarrow> of_int (int64_of_f64 v) | _ \<Rightarrow> of_int (- (2 ^ 63)))"

definition float64_of_count :: "uint64 \<Rightarrow> rat" where
  "float64_of_count c = f64 (of_int (uint c))"

definition Second :: rat where "Second = 10 ^ 9"

definition bucketBounds :: "float64 list \<Rightarrow> nat \<Rightarrow> float64 \<times> float64" where
  "bucketBounds buckets i = (if length buckets \<le> i + 1 then (Finite 0, Finite 0) else (buckets ! i, buckets ! (i + 1)))"

definition bucketMidpoint :: "float64 list \<Rightarrow> nat \<Rightarrow> float64" where
  "bucketMidpoint buckets i = (let (lo, hi) = bucketBounds buckets i in
     if hi = PosInf then lo else if lo = NegInf then hi else halfF (addF lo hi))"

definition bucketUpper :: "float64 list \<Rightarrow> nat \<Rightarrow> float64" where
  "bucketUpper buckets i = (let (_, hi) = bucketBounds buckets i in
     if hi = PosInf then fst (bucketBounds buckets i) else hi)"

definition deltaCounts :: "histogram option \<Rightarrow> histogram \<Rightarrow> uint64 list" where
  "deltaCounts start h = (case start of None \<Rightarrow> hgCounts h
     | Some s \<Rightarrow> if length (hgCounts s) = length (hgCounts h) then map2 (-) (hgCounts h) (hgCounts s) else hgCounts h)"

fun accumulate :: "float64 list \<Rightarrow> nat \<Rightarrow> uint64 list \<Rightarrow> uint64 \<times> float64 \<Rightarrow> uint64 \<times> float64" where
  "accumulate buckets i [] acc = acc"
| "accumulate buckets i (c # cs) (observations, pauses) = accumulate buckets (Suc i) cs
     (if c = 0 then (observations, pauses)
      else (observations + c, addF pauses (scaleF (float64_of_count c) (bucketMidpoint buckets i))))"

fun quantileBucket :: "uint64 \<Rightarrow> nat \<Rightarrow> uint64 list \<Rightarrow> uint64 \<Rightarrow> nat option" where
  "quantileBucket target i [] cumulative = None"
| "quantileBucket target i (c # cs) cumulative =
     (if target \<le> cumulative + c then Some i else quantileBucket target (Suc i) cs (cumulative + c))"

definition p99Target :: "uint64 \<Rightarrow> uint64" where
  "p99Target observations = of_int \<lceil>f64 (f64 (99 / 100) * float64_of_count observations)\<rceil>"

definition pauseDelta :: "histogram option \<Rightarrow> histogram option \<Rightarrow> int64 \<times> int64" where
  "pauseDelta start final = (case final of None \<Rightarrow> (0, 0)
     | Some h \<Rightarrow>
         (let counts = deltaCounts start h;
              (observations, pauses) = accumulate (hgBuckets h) 0 counts (0, Finite 0) in
          if observations = 0 then (0, 0)
          else (toInt64 (scaleF Second pauses),
            case quantileBucket (p99Target observations) 0 counts 0 of None \<Rightarrow> 0
            | Some i \<Rightarrow> toInt64 (scaleF Second (bucketUpper (hgBuckets h) i)))))"

section \<open>The recorder\<close>

record gcSample =
  gsCycles :: uint64
  gsPauses :: "histogram option"
  gsHeapBytes :: uint64

text \<open>A metric of the runtime: absent, or of one of the two kinds that are read.\<close>

datatype metric = KindBad | KindUint64 uint64 | KindHistogram histogram

definition readGC :: "metric \<Rightarrow> metric \<Rightarrow> metric \<Rightarrow> gcSample" where
  "readGC cycles stops heap = \<lparr>
     gsCycles = (case cycles of KindUint64 n \<Rightarrow> n | _ \<Rightarrow> 0),
     gsPauses = (case stops of KindHistogram h \<Rightarrow> Some h | _ \<Rightarrow> None),
     gsHeapBytes = (case heap of KindUint64 n \<Rightarrow> n | _ \<Rightarrow> 0)\<rparr>"

record GCRecorder =
  grGOGC :: int
  grGOMEMLIMIT :: int64
  grInterval :: int64
  grStart :: gcSample
  grHeapPeak :: uint64
  grSamples :: int
  grRunning :: bool

record GCStats =
  gcGOGC :: int
  gcGOMEMLIMIT :: int64
  gcCollections :: uint64
  gcTotalPauseNanos :: int64
  gcPauseP99Nanos :: int64
  gcHeapPeakBytes :: uint64
  gcSampleCount :: int

definition noSample :: gcSample where
  "noSample = \<lparr>gsCycles = 0, gsPauses = None, gsHeapBytes = 0\<rparr>"

definition PinGC :: "int \<Rightarrow> int64 \<Rightarrow> int64 \<Rightarrow> GCRecorder" where
  "PinGC gogc gomemlimit sampleInterval = \<lparr>grGOGC = gogc, grGOMEMLIMIT = gomemlimit,
     grInterval = (if sampleInterval \<le>s 0 then 20000000 else sampleInterval),
     grStart = noSample, grHeapPeak = 0, grSamples = 0, grRunning = False\<rparr>"

definition Start_gc :: "gcSample \<Rightarrow> GCRecorder \<Rightarrow> GCRecorder" where
  "Start_gc s r = r\<lparr>grStart := s, grHeapPeak := gsHeapBytes s, grSamples := 1, grRunning := True\<rparr>"

text \<open>A tick of the sampler, which runs from the start to the stop.\<close>

definition tick :: "gcSample \<Rightarrow> GCRecorder \<Rightarrow> GCRecorder" where
  "tick s r = (if \<not> grRunning r then r
     else r\<lparr>grHeapPeak := (if grHeapPeak r < gsHeapBytes s then gsHeapBytes s else grHeapPeak r), grSamples := grSamples r + 1\<rparr>)"

definition Stop_gc :: "gcSample \<Rightarrow> GCRecorder \<Rightarrow> GCStats \<times> GCRecorder" where
  "Stop_gc final r = (let r' = r\<lparr>grRunning := False\<rparr>; (pauses, p99) = pauseDelta (gsPauses (grStart r)) (gsPauses final) in
     (\<lparr>gcGOGC = grGOGC r, gcGOMEMLIMIT = grGOMEMLIMIT r, gcCollections = gsCycles final - gsCycles (grStart r),
        gcTotalPauseNanos = pauses, gcPauseP99Nanos = p99,
        gcHeapPeakBytes = (if grHeapPeak r < gsHeapBytes final then gsHeapBytes final else grHeapPeak r),
        gcSampleCount = grSamples r + 1\<rparr>, r'))"

definition recordGC :: "GCRecorder \<Rightarrow> gcSample \<Rightarrow> gcSample list \<Rightarrow> gcSample \<Rightarrow> GCStats" where
  "recordGC r s0 ticks s1 = fst (Stop_gc s1 (fold tick ticks (Start_gc s0 r)))"

section \<open>Rounding a quantile's rank\<close>

lemma half_even_error: "\<bar>of_int (half_even x) - x\<bar> \<le> (1 / 2 :: rat)"
proof -
  have "of_int \<lfloor>x\<rfloor> \<le> x" "x < of_int \<lfloor>x\<rfloor> + 1" by linarith+
  then show ?thesis by (auto simp: half_even_def Let_def abs_le_iff)
qed

lemma f64_scale_error:
  assumes "2 ^ 52 \<le> x * 2 ^ n"
  shows "\<bar>f64_scale n x - x\<bar> \<le> x / 2 ^ 53"
  using assms
proof (induction n arbitrary: x)
  case 0
  then show ?case using half_even_error [of x] by simp
next
  case (Suc n)
  consider "2 ^ 53 \<le> x" | "x < 2 ^ 52" | "2 ^ 52 \<le> x" "x < 2 ^ 53" by linarith
  then show ?case
  proof cases
    case 1
    then have "2 ^ 52 * 1 \<le> x / 2 * 2 ^ n" by (intro mult_mono) (simp_all add: one_le_power)
    then have "\<bar>f64_scale n (x / 2) - x / 2\<bar> \<le> x / 2 / 2 ^ 53" using Suc.IH [of "x / 2"] by simp
    then have "\<bar>2 * (f64_scale n (x / 2) - x / 2)\<bar> \<le> x / 2 ^ 53" by (simp only: abs_mult) simp
    then show ?thesis using 1 by (simp add: algebra_simps)
  next
    case 2
    have "2 ^ 52 \<le> 2 * x * 2 ^ n" using Suc.prems by (simp add: mult.commute mult.left_commute)
    then have "\<bar>f64_scale n (2 * x) - 2 * x\<bar> \<le> 2 * (x / 2 ^ 53)" using Suc.IH [of "2 * x"] by simp
    then have "\<bar>f64_scale n (2 * x) / 2 - x\<bar> \<le> x / 2 ^ 53" unfolding abs_le_iff by (intro conjI; linarith)
    then show ?thesis using 2 by simp
  next
    case 3
    then show ?thesis using half_even_error [of x] by (simp add: abs_le_iff)
  qed
qed

lemma half_even_le: "x \<le> of_int k \<Longrightarrow> half_even x \<le> k"
proof -
  assume "x \<le> of_int k"
  then have "\<lfloor>x\<rfloor> \<le> k" "x - of_int \<lfloor>x\<rfloor> = 0 \<or> \<lfloor>x\<rfloor> + 1 \<le> k" by linarith+
  then show ?thesis by (auto simp: half_even_def Let_def)
qed

lemma f64_scale_le:
  assumes "x \<le> of_int k" and "x < 2 ^ 53"
  shows "f64_scale n x \<le> of_int k"
  using assms
proof (induction n arbitrary: x k)
  case (Suc n)
  show ?case
  proof (cases "x < 2 ^ 52")
    case True
    then have "f64_scale n (2 * x) \<le> of_int (2 * k)" using Suc.prems by (intro Suc.IH) simp_all
    then show ?thesis using True Suc.prems by simp
  next
    case False
    then show ?thesis using Suc.prems half_even_le [OF Suc.prems(1)] by simp
  qed
qed (simp add: half_even_le)

lemma f64_scale_doubling:
  "2 ^ 52 \<le> x * 2 ^ k \<Longrightarrow> x * 2 ^ k < 2 ^ 53 \<Longrightarrow> k < n \<Longrightarrow> f64_scale n x = of_int (half_even (x * 2 ^ k)) / 2 ^ k"
proof (induction k arbitrary: x n)
  case 0
  then obtain m where "n = Suc m" by (cases n) auto
  then show ?case using 0 by simp
next
  case (Suc k)
  obtain m where n: "n = Suc m" using Suc.prems(3) by (cases n) auto
  have twice: "2 * x * 2 ^ k = x * 2 ^ Suc k" by simp
  have "0 < x" using Suc.prems(1) by (cases "0 < x") (auto simp: not_less dest: mult_right_mono [of x 0 "2 ^ Suc k"])
  then have "x * 2 \<le> x * 2 ^ Suc k" by (simp add: one_le_power)
  then have "x < 2 ^ 52" using Suc.prems(2) by simp
  moreover have "f64_scale m (2 * x) = of_int (half_even (x * 2 ^ Suc k)) / 2 ^ k"
    using Suc.IH [of "2 * x" m] Suc.prems n unfolding twice by simp
  ultimately show ?case by (simp add: n)
qed

lemma literal_99: "f64 (99 / 100) = 4458563631096791 / 2 ^ 52"
proof -
  have "f64_scale 240 (99 / 100) = of_int (half_even (99 / 100 * 2 ^ 53)) / 2 ^ 53"
    by (rule f64_scale_doubling) simp_all
  moreover have "\<lfloor>222928181554839552 / 25 :: rat\<rfloor> = 8917127262193582" by (rule floor_unique) simp_all
  then have "half_even (99 / 100 * 2 ^ 53 :: rat) = 8917127262193582" by (simp add: half_even_def)
  ultimately show ?thesis by (simp add: f64_def)
qed

lemma f64_error: "0 < x \<Longrightarrow> 2 ^ 52 \<le> x * 2 ^ 240 \<Longrightarrow> \<bar>f64 x - x\<bar> \<le> x / 2 ^ 53"
proof -
  assume x: "0 < x" "2 ^ 52 \<le> x * 2 ^ 240"
  then have "f64 x = f64_scale 240 x" by (auto simp: f64_def)
  then show ?thesis using f64_scale_error [OF x(2)] by (simp only:)
qed

lemma f64_le: "0 < x \<Longrightarrow> x < 2 ^ 53 \<Longrightarrow> x \<le> of_int k \<Longrightarrow> f64 x \<le> of_int k"
  using f64_scale_le [of x k 240] by (simp add: f64_def)

text \<open>For fewer than \<open>2^45\<close> pauses the rank is the exact one: rounding neither skips nor adds one.\<close>

lemma rank_exact:
  assumes "0 < n" and "n < 2 ^ 45"
  shows "\<lceil>f64 (f64 (99 / 100) * of_int n)\<rceil> = (99 * n + 99) div 100"
proof (rule ceiling_unique)
  define t where "t = (99 * n + 99) div 100"
  let ?t = t and ?x = "f64 (99 / 100) * of_int n"
  have "99 * n \<le> 100 * t" "100 * t \<le> 99 * n + 99" by (simp_all add: t_def)
  then have "(of_int (99 * n) :: rat) \<le> of_int (100 * t)" "(of_int (100 * t) :: rat) \<le> of_int (99 * n + 99)"
    by (simp_all only: of_int_le_iff)
  then have rat_t: "99 * of_int n \<le> 100 * (of_int t :: rat)" "100 * (of_int t :: rat) \<le> 99 * of_int n + 99" by simp_all
  have n: "(1 :: rat) \<le> of_int n" "of_int n < (35184372088832 :: rat)"
    using assms by (simp_all add: of_int_less_numeral_iff)
  have x: "?x = 4458563631096791 / 2 ^ 52 * of_int n" by (simp only: literal_99)
  have range: "0 < ?x" "?x < 2 ^ 53" "2 ^ 52 \<le> ?x * 2 ^ 240" using n unfolding x by simp_all
  have "?x \<le> of_int ?t" using rat_t(1) n unfolding x by simp
  then show "f64 ?x \<le> of_int ((99 * n + 99) div 100)" using f64_le [OF range(1,2)] unfolding t_def by blast
  have "?x - ?x / 2 ^ 53 \<le> f64 ?x" using f64_error [OF range(1,3)] unfolding abs_le_iff by linarith
  moreover have "of_int ?t - 1 < ?x - ?x / 2 ^ 53" using rat_t(2) n unfolding x by simp
  ultimately show "of_int ((99 * n + 99) div 100) - 1 < f64 ?x" unfolding t_def by linarith
qed

lemma p99Target_exact:
  assumes "0 < unat n" and "unat n < 2 ^ 45"
  shows "unat (p99Target n) = (99 * unat n + 99) div 100"
proof -
  have u: "uint n = int (unat n)" by simp
  have "int (unat n) < int (2 ^ 45)" using assms(2) by (simp only: of_nat_less_iff)
  then have n: "0 < uint n" "uint n < 2 ^ 45" using assms(1) unfolding u by (simp_all only: of_nat_0_less_iff) simp
  have "float64_of_count n = of_int (uint n)" using f64_exact [of "uint n" 0] n by (simp add: float64_of_count_def)
  then have "p99Target n = of_int (int ((99 * unat n + 99) div 100))"
    using rank_exact [OF n] unfolding u by (simp add: p99Target_def zdiv_int)
  moreover have "(99 * unat n + 99) div 100 < 2 ^ 64" using assms(2) by simp
  ultimately show ?thesis by (simp add: unat_of_nat64)
qed

lemma quantileBucket_spec:
  assumes "unat cumulative + sum_list (map unat cs) < 2 ^ 64" and "unat target \<le> unat cumulative + sum_list (map unat cs)"
    and "unat cumulative < unat target"
  shows "\<exists>k < length cs. quantileBucket target i cs cumulative = Some (i + k)
    \<and> unat cumulative + sum_list (take k (map unat cs)) < unat target
    \<and> unat target \<le> unat cumulative + sum_list (take (Suc k) (map unat cs))"
  using assms
proof (induction cs arbitrary: i cumulative)
  case (Cons c cs)
  have sum: "unat (cumulative + c) = unat cumulative + unat c" using Cons.prems(1) by (intro unat_add_lem [THEN iffD1]) simp
  show ?case
  proof (cases "target \<le> cumulative + c")
    case True
    then show ?thesis using Cons.prems(3) sum by (intro exI [of _ 0]) (simp add: word_le_nat_alt)
  next
    case False
    then have "unat (cumulative + c) < unat target" by (simp add: word_less_nat_alt not_le)
    then obtain k where "k < length cs" "quantileBucket target (Suc i) cs (cumulative + c) = Some (Suc i + k)"
      "unat (cumulative + c) + sum_list (take k (map unat cs)) < unat target"
      "unat target \<le> unat (cumulative + c) + sum_list (take (Suc k) (map unat cs))"
      using Cons.IH [of "cumulative + c" "Suc i"] Cons.prems(1,2) sum by auto
    then show ?thesis using False sum by (intro exI [of _ "Suc k"]) (simp add: add.assoc)
  qed
qed simp

lemma accumulate_count: "fst (accumulate buckets i cs (n, pauses)) = n + sum_list cs"
  by (induction cs arbitrary: i n pauses) (auto simp: add.assoc)

lemma unat_sum_list: "sum_list (map unat (cs :: uint64 list)) < 2 ^ 64 \<Longrightarrow> unat (sum_list cs) = sum_list (map unat cs)"
proof (induction cs)
  case (Cons c cs)
  then have "unat (sum_list cs) = sum_list (map unat cs)" by simp
  then show ?case using Cons.prems by (simp add: unat_add_lem [THEN iffD1])
qed simp

lemma fold_tick:
  "grRunning r \<Longrightarrow> grHeapPeak (fold tick ticks r) = fold (\<lambda>s peak. max peak (gsHeapBytes s)) ticks (grHeapPeak r)
     \<and> grSamples (fold tick ticks r) = grSamples r + int (length ticks) \<and> grStart (fold tick ticks r) = grStart r"
proof (induction ticks arbitrary: r)
  case (Cons s ticks)
  have "grRunning (tick s r)" "grHeapPeak (tick s r) = max (grHeapPeak r) (gsHeapBytes s)" "grSamples (tick s r) = grSamples r + 1"
    "grStart (tick s r) = grStart r" using Cons.prems by (auto simp: tick_def max_def)
  then show ?case using Cons.IH [of "tick s r"] by simp
qed simp

lemma fold_max: "fold (\<lambda>s peak. max peak (f s)) xs (b :: uint64) = Max (insert b (f ` set xs))"
proof (induction xs arbitrary: b)
  case (Cons x xs)
  have "Max (insert (max b (f x)) (f ` set xs)) = Max (insert b (insert (f x) (f ` set xs)))"
    by (cases "xs = []") (simp_all add: max.assoc)
  then show ?case using Cons.IH by simp
qed simp

text \<open>
  C38. What a run reports of its collector. The heap's peak is the largest of all its readings
  and the sample count their number. And of \<open>N\<close> pauses, fewer than \<open>2^45\<close>, in a histogram with
  one more edge than buckets and none of them in a bucket that is open above, the reported 99th
  percentile is the upper edge, in nanoseconds, of the bucket where the count of pauses reaches 99 percent of
  \<open>N\<close> and not before: the binary64 arithmetic on the rank loses nothing. (Pauses in the
  last, open bucket are left out: what is reported of it is its lower edge, \<^verbatim>\<open>open_bucket_lower\<close>.)
\<close>

theorem recorded_collector:
  assumes "gsPauses s1 = Some h" and "0 < sum_list (map unat (deltaCounts (gsPauses s0) h))"
    and "sum_list (map unat (deltaCounts (gsPauses s0) h)) < 2 ^ 45"
    and "length (hgBuckets h) = Suc (length (hgCounts h))"
    and "\<forall>i < length (hgCounts h). deltaCounts (gsPauses s0) h ! i \<noteq> 0 \<longrightarrow> hgBuckets h ! Suc i \<noteq> PosInf"
  shows "(let st = recordGC r s0 ticks s1; counts = map unat (deltaCounts (gsPauses s0) h) in
     gcHeapPeakBytes st = Max (gsHeapBytes ` set (s0 # ticks @ [s1])) \<and> gcSampleCount st = int (length (s0 # ticks @ [s1]))
     \<and> (\<exists>i < length counts. gcPauseP99Nanos st = toInt64 (scaleF Second (hgBuckets h ! Suc i))
         \<and> 100 * sum_list (take i counts) < 99 * sum_list counts \<and> 99 * sum_list counts \<le> 100 * sum_list (take (Suc i) counts)))"
proof -
  let ?st = "recordGC r s0 ticks s1" and ?cs = "deltaCounts (gsPauses s0) h"
  let ?counts = "map unat ?cs" and ?n = "sum_list ?cs"
  have n: "unat ?n = sum_list ?counts" using assms(3) by (intro unat_sum_list) simp
  then have rank: "unat (p99Target ?n) = (99 * sum_list ?counts + 99) div 100" using p99Target_exact [of ?n] assms(2,3) by simp
  have start: "grRunning (Start_gc s0 r)" "grStart (Start_gc s0 r) = s0" "grHeapPeak (Start_gc s0 r) = gsHeapBytes s0" "grSamples (Start_gc s0 r) = 1"
    by (simp_all add: Start_gc_def)
  note run = fold_tick [OF start(1), of ticks, unfolded start fold_max]
  have "gsHeapBytes ` set (s0 # ticks @ [s1]) = insert (gsHeapBytes s1) (insert (gsHeapBytes s0) (gsHeapBytes ` set ticks))" by auto
  then have "Max (gsHeapBytes ` set (s0 # ticks @ [s1])) = max (Max (insert (gsHeapBytes s0) (gsHeapBytes ` set ticks))) (gsHeapBytes s1)"
    by (simp only:) (subst Max_insert, simp_all only: finite_insert finite_imageI List.finite_set insert_not_empty max.commute simp_thms)
  moreover have "gcHeapPeakBytes ?st = max (Max (insert (gsHeapBytes s0) (gsHeapBytes ` set ticks))) (gsHeapBytes s1)"
    unfolding run [THEN conjunct1, symmetric] by (auto simp: recordGC_def Stop_gc_def Let_def split: prod.split)
  ultimately have peak: "gcHeapPeakBytes ?st = Max (gsHeapBytes ` set (s0 # ticks @ [s1]))" by simp
  have samples: "gcSampleCount ?st = int (length (s0 # ticks @ [s1]))"
    using run by (simp add: recordGC_def Stop_gc_def Let_def split: prod.split)
  have "0 < unat (p99Target ?n)" "unat (p99Target ?n) \<le> sum_list ?counts" "sum_list ?counts < 2 ^ 64"
    using assms(2,3) unfolding rank by simp_all
  then obtain i where i: "i < length ?cs" "quantileBucket (p99Target ?n) 0 ?cs 0 = Some i"
    "sum_list (take i ?counts) < unat (p99Target ?n)" "unat (p99Target ?n) \<le> sum_list (take (Suc i) ?counts)"
    using quantileBucket_spec [of 0 ?cs "p99Target ?n" 0] by auto
  have "length ?cs = length (hgCounts h)" by (auto simp: deltaCounts_def split: option.split)
  moreover have "?cs ! i \<noteq> 0"
  proof
    assume "?cs ! i = 0"
    then have "sum_list (take (Suc i) ?counts) = sum_list (take i ?counts)" using i(1) by (simp add: take_Suc_conv_app_nth)
    then show False using i(3,4) by simp
  qed
  ultimately have "bucketUpper (hgBuckets h) i = hgBuckets h ! Suc i"
    using assms(4,5) i(1) by (simp add: bucketUpper_def bucketBounds_def)
  note upper = this
  have "?n \<noteq> 0" using n assms(2) by (metis unat_0 less_irrefl)
  moreover obtain t where "accumulate (hgBuckets h) 0 ?cs (0, Finite 0) = (?n, t)"
    using accumulate_count [of "hgBuckets h" 0 ?cs 0 "Finite 0"] by (cases "accumulate (hgBuckets h) 0 ?cs (0, Finite 0)") simp
  ultimately have "snd (pauseDelta (gsPauses s0) (gsPauses s1)) = toInt64 (scaleF Second (hgBuckets h ! Suc i))"
    using i(2) by (simp add: pauseDelta_def assms(1) Let_def upper)
  moreover have "gcPauseP99Nanos ?st = snd (pauseDelta (gsPauses s0) (gsPauses s1))"
    using run by (simp add: recordGC_def Stop_gc_def Let_def split_beta)
  moreover have "100 * sum_list (take i ?counts) < 99 * sum_list ?counts" "99 * sum_list ?counts \<le> 100 * sum_list (take (Suc i) ?counts)"
    using i(3,4) unfolding rank by linarith+
  ultimately show ?thesis using peak samples i(1) by (auto simp: Let_def)
qed

text \<open>In the bucket without an upper edge the reported percentile is the lower edge, below the pauses it holds.\<close>

lemma open_bucket_lower:
  "i + 1 < length buckets \<Longrightarrow> buckets ! (i + 1) = PosInf \<Longrightarrow> bucketUpper buckets i = buckets ! i"
  by (simp add: bucketUpper_def bucketBounds_def)

definition sampleHistogram :: histogram where
  "sampleHistogram = \<lparr>hgCounts = [98, 2, 0], hgBuckets = [Finite 0, Finite (1 / 1024), Finite (1 / 512), PosInf]\<rparr>"

definition sampleEnd :: gcSample where
  "sampleEnd = \<lparr>gsCycles = 3, gsPauses = Some sampleHistogram, gsHeapBytes = 7\<rparr>"

theorem recorded_collector_witness:
  "gcPauseP99Nanos (recordGC (PinGC 100 0 0) noSample [] sampleEnd) = 1953125
    \<and> gcHeapPeakBytes (recordGC (PinGC 100 0 0) noSample [] sampleEnd) = 7"
proof -
  let ?st = "recordGC (PinGC 100 0 0) noSample [] sampleEnd"
  have h: "gsPauses sampleEnd = Some sampleHistogram" by (simp add: sampleEnd_def)
  have counts: "map unat (deltaCounts (gsPauses noSample) sampleHistogram) = [98, 2, 0]"
    by (simp add: deltaCounts_def noSample_def sampleHistogram_def)
  have few: "0 < sum_list [98, 2, 0 :: nat]" "sum_list [98, 2, 0 :: nat] < 2 ^ 45" by simp_all
  have edges: "length (hgBuckets sampleHistogram) = Suc (length (hgCounts sampleHistogram))"
    "\<forall>i < length (hgCounts sampleHistogram). deltaCounts (gsPauses noSample) sampleHistogram ! i \<noteq> 0
       \<longrightarrow> hgBuckets sampleHistogram ! Suc i \<noteq> PosInf"
    by (auto simp: sampleHistogram_def deltaCounts_def noSample_def less_Suc_eq numeral_3_eq_3)
  note run = recorded_collector [OF h, of noSample "PinGC 100 0 0" "[]", unfolded counts Let_def, OF few edges]
  then obtain i where i: "i < length [98, 2, 0 :: nat]" "gcPauseP99Nanos ?st = toInt64 (scaleF Second (hgBuckets sampleHistogram ! Suc i))"
    "100 * sum_list (take i [98, 2, 0]) < 99 * sum_list [98, 2, 0 :: nat]" "99 * sum_list [98, 2, 0 :: nat] \<le> 100 * sum_list (take (Suc i) [98, 2, 0])"
    by blast
  have peak: "gcHeapPeakBytes ?st = Max (gsHeapBytes ` set (noSample # [] @ [sampleEnd]))" using run by blast
  have "i = 1" using i(1,3,4) by (auto simp: numeral_3_eq_3 less_Suc_eq)
  moreover have "f64 (1953125 :: rat) = 1953125" using f64_exact [of 1953125 0] by simp
  ultimately have "gcPauseP99Nanos ?st = 1953125"
    using i(2) by (simp add: sampleHistogram_def Second_def toInt64_def int64_of_f64_def Let_def)
  then show ?thesis using peak by (simp add: noSample_def sampleEnd_def)
qed

end
