(* ===== verification/Orchestration.thy ===== *)
theory Orchestration
  imports Pipeline ModelRepo ClockDomain Collector
begin

text \<open>
  \<^verbatim>\<open>Run\<close> of \<^verbatim>\<open>internal/runner/run.go\<close>: one run from its manifest to its verdict, over the
  phases of the theories before. What a phase meets outside the program is an argument. A
  bundle that could be written is what a later reader of the run's directory finds.
\<close>

section \<open>The server\<close>

record ServerRecord =
  srName :: string
  srVersion :: string
  srEndpoint :: string
  srImageDigest :: string

text \<open>What the calls of \<^verbatim>\<open>prepareServer\<close> are answered.\<close>

record serverMet =
  smLive :: "bool option poll list"
  smMetadata :: "(string \<times> string) option"
  smIndex :: "string list option"
  smUnloads :: "string \<Rightarrow> bool"
  smQuiescing :: "(bool option \<times> string list option) poll list"
  smLoads :: "string \<Rightarrow> bool"
  smModelMetadata :: "string \<Rightarrow> ModelMetadata option"
  smModelConfig :: "string \<Rightarrow> ModelConfig option"

datatype prepare_error = GatewayRefused gateway_error | ServesWrong runner_error

definition prepareServer :: "Manifest \<Rightarrow> ModelEntry \<Rightarrow> serverMet \<Rightarrow> (prepare_error + ModelIdentity \<times> ServerRecord) option" where
  "prepareServer m entry s = (case WaitLive [] (smLive s) of None \<Rightarrow> None
     | Some (Some e) \<Rightarrow> Some (Inl (GatewayRefused e))
     | Some None \<Rightarrow> (case smMetadata s of None \<Rightarrow> Some (Inl (GatewayRefused (CallFailed ''metadata'')))
         | Some (name, version) \<Rightarrow>
             (case Quiesce (smIndex s) (smUnloads s) (smQuiescing s) of None \<Rightarrow> None
             | Some (Some e) \<Rightarrow> Some (Inl (GatewayRefused e))
             | Some None \<Rightarrow>
                 if \<not> smLoads s (enName entry) then Some (Inl (GatewayRefused (CallFailed (enName entry))))
                 else (case servedIdentity (enName entry) (smModelMetadata s (enName entry)) (smModelConfig s (enName entry)) of
                     Inl e \<Rightarrow> Some (Inl (GatewayRefused e))
                   | Inr i \<Rightarrow> (case verifyServedEntry i entry m of Some e \<Rightarrow> Some (Inl (ServesWrong e))
                       | None \<Rightarrow> Some (Inr (i, \<lparr>srName = name, srVersion = version, srEndpoint = mtTritonEndpoint (mnTransport m),
                           srImageDigest = []\<rparr>)))))))"

definition transportConfig :: "Manifest \<Rightarrow> TransportConfig" where
  "transportConfig m = (let t = mnTransport m in \<lparr>tpEndpoint = mtTritonEndpoint t, tpMaxMessageBytes = mtMaxMessageBytes t,
     tpInitialWindowSize = mtInitialWindowSize t, tpInitialConnWindowSize = mtInitialConnWindowSize t,
     tpDialTimeoutNanos = 30 * 10 ^ 9\<rparr>)"

section \<open>A run\<close>

text \<open>
  \<^verbatim>\<open>roWrites n\<close> says whether the \<open>n\<close>th writing of the bundle succeeds, \<^verbatim>\<open>roLoad\<close> and
  \<^verbatim>\<open>roFile\<close> what the bundle's description and the archive's file give back.
\<close>

record runOutside =
  roKernel :: kernel
  roSystem :: system
  roDisk :: disk
  roDials :: bool
  roServer :: serverMet
  roLayout :: bool
  roExecute :: outside
  roGC :: "gcSample \<times> gcSample list \<times> gcSample"
  roWrites :: "nat \<Rightarrow> bool"
  roLoad :: "Bundle \<Rightarrow> Bundle option"
  roFile :: "Row list \<Rightarrow> Row list option"
  roVerdictWrites :: bool

datatype run_error =
    CellRefused cell_error
  | ClockRefused clock_error
  | ModelRefused modelrepo_error
  | NotDialled
  | ServerRefused prepare_error
  | NoLayout
  | ExecuteFailed execute_error bool
  | BundleUnwritten
  | BundleUnread
  | ArchiveUnread
  | ArchiveMalformed row_error
  | NotJudged runner_error
  | VerdictUnwritten
  | RunRejected rejection

record ran =
  rnBundle :: "Bundle option"
  rnStored :: "Bundle option"
  rnVerdict :: "Verdict option"
  rnGC :: "GCStats option"
  rnTransport :: TransportConfig
  rnServer :: ServerRecord
  rnDisk :: disk
  rnError :: "run_error option"

definition noServer :: ServerRecord where
  "noServer = \<lparr>srName = [], srVersion = [], srEndpoint = [], srImageDigest = []\<rparr>"

definition refused :: "disk \<Rightarrow> run_error \<Rightarrow> ran" where
  "refused d e = \<lparr>rnBundle = None, rnStored = None, rnVerdict = None, rnGC = None, rnTransport = DefaultConfig [], rnServer = noServer,
     rnDisk = d, rnError = Some e\<rparr>"

text \<open>\<^verbatim>\<open>finalizeVerdict\<close>, from the files: the verdict on the archive, stored, then the one on the streams.\<close>

definition judge :: "runOutside \<Rightarrow> Bundle \<Rightarrow> Decoded list \<Rightarrow> Decoded list option list \<Rightarrow> run_error + Verdict" where
  "judge w stored archived streams = (case roLoad w stored of None \<Rightarrow> Inl BundleUnread
     | Some b \<Rightarrow> (case roFile w (writeArchive archived) of None \<Rightarrow> Inl ArchiveUnread
         | Some rows \<Rightarrow> (case readRows rows of Inl e \<Rightarrow> Inl (ArchiveMalformed e)
             | Inr records \<Rightarrow> (case ValidateBundle b records of Inl e \<Rightarrow> Inl (NotJudged e)
                 | Inr _ \<Rightarrow> if \<not> roVerdictWrites w then Inl VerdictUnwritten
                     else (case finalizeVerdict b records streams of Inl e \<Rightarrow> Inl (NotJudged e) | Inr v \<Rightarrow> Inr v)))))"

definition runStreams :: "Manifest \<Rightarrow> Emitter list" where
  "runStreams m = [EmitterLoadGen, EmitterTriton] @ (if UsesProxy (mnCell m) then [EmitterProxy, EmitterAdapter] else [])"

text \<open>The bundle as it is written in one of its terminal states.\<close>

definition written_as :: "string \<Rightarrow> Bundle \<Rightarrow> Bundle" where
  "written_as state b = b\<lparr>bnState := state, bnEnvelopeSchemaVersion := int (unat envSchemaVersion)\<rparr>"

text \<open>The end of a run whose workload is done: the bundle is written and judged.\<close>

definition conclude :: "Manifest \<Rightarrow> runOutside \<Rightarrow> executed \<Rightarrow> ran \<Rightarrow> ran" where
  "conclude m w x r = (let b = written_as StateCompleted (edBundle x);
       r = r\<lparr>rnBundle := Some b\<rparr> in
     if \<not> roWrites w 0 then r\<lparr>rnError := Some BundleUnwritten\<rparr>
     else let r = r\<lparr>rnStored := Some b\<rparr> in
       case judge w b (edArchived x) (map (oStream (roExecute w)) (runStreams m)) of
         Inl e \<Rightarrow> r\<lparr>rnError := Some e\<rparr>
       | Inr v \<Rightarrow> if vdPassed v then r\<lparr>rnVerdict := Some v\<rparr>
           else let b = written_as StateFailed b; r = r\<lparr>rnVerdict := Some v, rnBundle := Some b\<rparr> in
             if \<not> roWrites w 1 then r\<lparr>rnError := Some BundleUnwritten\<rparr>
             else r\<lparr>rnStored := Some b, rnError := Some (RunRejected (describeRejection v))\<rparr>)"

text \<open>
  A failed workload: the bundle says so, if it can be written. (Of what the workload had put
  into the bundle by then only what it started with is modelled.)
\<close>

definition abandon :: "runOutside \<Rightarrow> Bundle \<Rightarrow> execute_error \<Rightarrow> ran \<Rightarrow> ran" where
  "abandon w b e r = (let b = written_as StateFailed b in
     r\<lparr>rnBundle := Some b, rnStored := (if roWrites w 0 then Some b else None), rnError := Some (ExecuteFailed e (roWrites w 0))\<rparr>)"

definition startBundle :: "Manifest \<Rightarrow> Domain \<Rightarrow> ModelEntry \<Rightarrow> ModelIdentity \<Rightarrow> Bundle" where
  "startBundle m clock entry i = \<lparr>bnRun = mnRun m, bnCell = mnCell m, bnState = [], bnManifest = Some m, bnClockDomain = Some (doID clock),
     bnEnvelopeSchemaVersion = 0, bnAdapter = None, bnModelEntry = entry, bnModelIdentity = i,
     bnTritonStats = \<lparr>snModel = [], snInferenceCount = 0, snExecutionCount = 0, snBatchSizes = []\<rparr>, bnStreams = [],
     bnFirstRecordedCohort = 0\<rparr>"

definition withGraph :: "Artifact \<Rightarrow> outside \<Rightarrow> outside" where
  "withGraph a w = w\<lparr>oFeatureWidth := gpFeatureWidth (arGraph a), oPayloadFloats := gpPayloadFloats (arGraph a)\<rparr>"

definition pinned :: "Manifest \<Rightarrow> GCRecorder" where
  "pinned m = PinGC (mgGOGC (mnGC m)) (of_int (mgGOMEMLIMIT (mnGC m))) (of_int (mgSampleMillis (mnGC m)) * 1000000)"

definition Run :: "Manifest \<Rightarrow> runOutside \<Rightarrow> ran option" where
  "Run m w = (case CheckImplemented (mnCell m) of Some e \<Rightarrow> Some (refused (roDisk w) (CellRefused e))
     | None \<Rightarrow> (case Establish (sySum (roSystem w)) (roKernel w) of None \<Rightarrow> None
     | Some (Inl e) \<Rightarrow> Some (refused (roDisk w) (ClockRefused e))
     | Some (Inr clock) \<Rightarrow> (case prepareModel (roSystem w) m (roDisk w) of (d, Inl e) \<Rightarrow> Some (refused d (ModelRefused e))
     | (d, Inr (entry, artifact)) \<Rightarrow>
         if \<not> roDials w then Some (refused d NotDialled)
         else (case prepareServer m entry (roServer w) of None \<Rightarrow> None
     | Some (Inl e) \<Rightarrow> Some (refused d (ServerRefused e))
     | Some (Inr (i, server)) \<Rightarrow>
         if \<not> roLayout w then Some (refused d NoLayout)
         else (let b = startBundle m clock entry i;
                   r = \<lparr>rnBundle = Some b, rnStored = None, rnVerdict = None, rnGC = None, rnTransport = dialConfig (transportConfig m),
                     rnServer = server, rnDisk = d, rnError = None\<rparr> in
           case execute m (withGraph artifact (roExecute w)) b of None \<Rightarrow> None
           | Some (Inl e) \<Rightarrow> Some (abandon w b e r)
           | Some (Inr x) \<Rightarrow> (case roGC w of (s0, ticks, s1) \<Rightarrow>
               Some (conclude m w x (r\<lparr>rnGC := Some (recordGC (pinned m) s0 ticks s1)\<rparr>))))))))"

section \<open>What a run that returns promises\<close>

lemma finishExecute_keeps:
  "finishExecute m w c before acc b = Some (Inr x) \<Longrightarrow>
     bnModelEntry (edBundle x) = bnModelEntry b \<and> bnModelIdentity (edBundle x) = bnModelIdentity b \<and> bnRun (edBundle x) = bnRun b"
  by (auto simp: finishExecute_def Let_def split_beta simp del: not_None_eq split: if_splits option.splits sum.splits)

lemma prepareServer_Inr:
  "prepareServer m entry s = Some (Inr (i, server)) \<Longrightarrow> verifyServedEntry i entry m = None \<and> srEndpoint server = mtTritonEndpoint (mnTransport m)"
  by (auto simp: prepareServer_def simp del: not_None_eq split: option.splits sum.splits prod.splits if_splits)

lemma judge_Inr:
  assumes "judge w b archived streams = Inr v"
  obtains b' rows records where "roLoad w b = Some b'" "roFile w (writeArchive archived) = Some rows" "readRows rows = Inr records"
    "finalizeVerdict b' records streams = Inr v"
  using assms by (auto simp: judge_def split: option.splits sum.splits if_splits)

lemma conclude_None:
  assumes "rnError (conclude m w x r) = None" and "rnError r = None"
  obtains b v where "b = written_as StateCompleted (edBundle x)"
    "judge w b (edArchived x) (map (oStream (roExecute w)) (runStreams m)) = Inr v" "vdPassed v"
    "conclude m w x r = r\<lparr>rnBundle := Some b, rnStored := Some b, rnVerdict := Some v\<rparr>"
  using assms by (auto simp: conclude_def Let_def split: if_splits sum.splits)

lemma Run_returns:
  assumes "Run m w = Some r" and "rnError r = None"
  obtains clock entry artifact i server d x s where "Identity.Implemented (mnCell m)" "Establish (sySum (roSystem w)) (roKernel w) = Some (Inr clock)"
    "prepareModel (roSystem w) m (roDisk w) = (d, Inr (entry, artifact))" "prepareServer m entry (roServer w) = Some (Inr (i, server))"
    "execute m (withGraph artifact (roExecute w)) (startBundle m clock entry i) = Some (Inr x)"
    "r = conclude m w x s" "rnError s = None" "rnDisk s = d"
proof -
  have none: "CheckImplemented (mnCell m) = None"
    using assms by (auto simp: Run_def refused_def simp del: CheckImplemented_None_iff split: option.splits)
  obtain clock where clock: "Establish (sySum (roSystem w)) (roKernel w) = Some (Inr clock)"
    using assms none by (auto simp: Run_def refused_def simp del: CheckImplemented_None_iff split: option.splits sum.splits)
  obtain d entry artifact where model: "prepareModel (roSystem w) m (roDisk w) = (d, Inr (entry, artifact))"
    using assms by (cases "prepareModel (roSystem w) m (roDisk w)")
      (auto simp: Run_def none clock refused_def simp del: CheckImplemented_None_iff split: sum.splits)
  note run = assms(1) [unfolded Run_def none clock model option.case sum.case prod.case]
  obtain i server where server: "prepareServer m entry (roServer w) = Some (Inr (i, server))" and up: "roDials w" "roLayout w"
    using run assms(2) by (auto simp: refused_def split: option.splits sum.splits if_splits)
  show ?thesis
    using run assms(2) none by (auto simp: server up Let_def abandon_def split: option.splits sum.splits prod.splits
      intro!: that [OF _ clock model server])
qed

text \<open>
  C22. A run that returns without an error is what its manifest says, where the artifact id is a
  file's name (no slash) and the disk the run met is well formed. Its cell is implemented;
  the model it served passed the runner's check and is the entry on the disk of the artifact that
  the manifest's catalog, as it was read, names under the manifest's artifact id: the model file has that
  artifact's digest, which is the one the manifest expects where it expects one. The bundle it
  returns is the one it wrote last, is recorded as completed and carries the manifest, the cell
  and the clock that was established. What was archived is the recorded cohorts' records of the
  run's streams, in their order; the verdict is the validator's on the rows that archive's file gives
  back, and it passed, as it passed on the streams themselves.
\<close>

theorem completed_run:
  assumes "Run m w = Some r" and "rnError r = None" and "disk_wf (roDisk w)" and "CHR ''/'' \<notin> set (mmArtifactID (mnModel m))"
  shows "case (rnBundle r, rnVerdict r, Establish (sySum (roSystem w)) (roKernel w)) of
      (Some b, Some v, Some (Inr clock)) \<Rightarrow>
        rnStored r = Some b \<and> bnState b = StateCompleted \<and> bnManifest b = Some m \<and> bnCell b = mnCell m \<and> Identity.Implemented (mnCell m)
        \<and> bnClockDomain b = Some (doID clock) \<and> vdPassed v
        \<and> enName (bnModelEntry b) = ModelEntryName m \<and> verifyServedEntry (bnModelIdentity b) (bnModelEntry b) m = None
        \<and> (\<exists>c a. LoadCatalog (roSystem w) (pathOf (syCwd (roSystem w)) (mmCatalog (mnModel m))) (roDisk w) = Inr c
             \<and> Catalog_Artifact c (mmArtifactID (mnModel m)) = Inr a
             \<and> mmExpectedDigest (mnModel m) \<in> {[], arDigest a} \<and> SelfAttesting a
             \<and> entryFiles (roSystem w) (pathOf (syCwd (roSystem w)) (mmRuntimeDir (mnModel m))) a (rnDisk r) (bnModelEntry b))
        \<and> (\<exists>b' rows records. let streams = map (oStream (roExecute w)) (runStreams m);
               archived = RecordedOnly (concat (map the streams)) (of_int (mcWarmupCount (mnCohort m))) in
             None \<notin> set streams \<and> roLoad w b = Some b' \<and> roFile w (writeArchive archived) = Some rows
             \<and> readRows rows = Inr records \<and> ValidateBundle b' records = Inr v
             \<and> (case ValidateStreams b' streams of Inl _ \<Rightarrow> False | Inr v' \<Rightarrow> vdPassed v'))
    | _ \<Rightarrow> False"
proof -
  obtain clock entry artifact i server d x s where run: "Identity.Implemented (mnCell m)" "Establish (sySum (roSystem w)) (roKernel w) = Some (Inr clock)"
    "prepareModel (roSystem w) m (roDisk w) = (d, Inr (entry, artifact))" "prepareServer m entry (roServer w) = Some (Inr (i, server))"
    "execute m (withGraph artifact (roExecute w)) (startBundle m clock entry i) = Some (Inr x)"
    and s: "r = conclude m w x s" "rnError s = None" "rnDisk s = d"
    by (rule Run_returns [OF assms(1,2)])
  obtain b v where b: "b = written_as StateCompleted (edBundle x)"
    and judged: "judge w b (edArchived x) (map (oStream (roExecute w)) (runStreams m)) = Inr v" "vdPassed v"
    and r: "conclude m w x s = s\<lparr>rnBundle := Some b, rnStored := Some b, rnVerdict := Some v\<rparr>"
    using conclude_None [of m w x s] assms(2) s by metis
  obtain b' rows records where verdict: "roLoad w b = Some b'" "readRows rows = Inr records"
    and given_back: "roFile w (writeArchive (edArchived x)) = Some rows"
    and final: "finalizeVerdict b' records (map (oStream (roExecute w)) (runStreams m)) = Inr v" by (rule judge_Inr [OF judged(1)])
  then have both: "ValidateBundle b' records = Inr v" "case ValidateStreams b' (map (oStream (roExecute w)) (runStreams m)) of
      Inl _ \<Rightarrow> False | Inr v' \<Rightarrow> vdPassed v'"
    using judged(2) final by (auto simp: finalizeVerdict_def split: sum.splits if_splits)
  obtain bytes c before acc where fin: "finishExecute m (withGraph artifact (roExecute w)) c before acc (startBundle m clock entry i) = Some (Inr x)"
    by (rule execute_Inr [OF run(5)])
  have kept: "bnManifest b = Some m" "bnCell b = mnCell m" "bnClockDomain b = Some (doID clock)" "bnModelEntry b = entry" "bnModelIdentity b = i"
    using finishExecute_Inr(5-7) [OF fin] finishExecute_keeps [OF fin] by (simp_all add: b startBundle_def written_as_def)
  have "archiveRecords (edBundle x) (map (oStream (roExecute w)) (runStreams m)) = Inr (edArchived x)"
    using finishExecute_Inr(10) [OF fin] by (simp add: withGraph_def runStreams_def)
  then have archived: "None \<notin> set (map (oStream (roExecute w)) (runStreams m))"
    "edArchived x = RecordedOnly (concat (map the (map (oStream (roExecute w)) (runStreams m)))) (of_int (mcWarmupCount (mnCohort m)))"
    using finishExecute_Inr(4) [OF fin] by (auto simp: archiveRecords_def simp del: map_map split: if_splits)
  note model = prepared_model [OF run(3) assms(3,4), unfolded Let_def] and served = prepareServer_Inr [OF run(4)]
  have "bnState b = StateCompleted" by (simp add: b written_as_def)
  moreover have "\<exists>b' rows records. let streams = map (oStream (roExecute w)) (runStreams m);
      archived = RecordedOnly (concat (map the streams)) (of_int (mcWarmupCount (mnCohort m))) in
      None \<notin> set streams \<and> roLoad w b = Some b' \<and> roFile w (writeArchive archived) = Some rows
      \<and> readRows rows = Inr records \<and> ValidateBundle b' records = Inr v
      \<and> (case ValidateStreams b' streams of Inl _ \<Rightarrow> False | Inr v' \<Rightarrow> vdPassed v')"
    using verdict both given_back archived unfolding Let_def by metis
  ultimately show ?thesis using run(1,2) judged(2) model served
    by (simp add: s(1,3) r kept Let_def del: map_map) blast
qed

text \<open>
  A run whose verdict could not be made, because the archive and the streams disagree or a file
  could not be read, returns an error and yet is stored as completed.
\<close>

lemma unjudged_run_stored_completed:
  assumes "execute m (withGraph a (roExecute w)) b = Some (Inr x)" and "roWrites w 0"
    and "judge w (written_as StateCompleted (edBundle x)) (edArchived x)
      (map (oStream (roExecute w)) (runStreams m)) = Inl e"
  shows "rnError (conclude m w x r) = Some e \<and> map_option bnState (rnStored (conclude m w x r)) = Some StateCompleted"
  using assms(2,3) by (simp add: conclude_def Let_def written_as_def)

section \<open>What a run in order comes to\<close>

lemma Run_concludes:
  assumes "Identity.Implemented (mnCell m)" and "Establish (sySum (roSystem w)) (roKernel w) = Some (Inr clock)"
    and "prepareModel (roSystem w) m (roDisk w) = (d, Inr (entry, a))" and "prepareServer m entry (roServer w) = Some (Inr (i, server))"
    and "roDials w" and "roLayout w" and "execute m (withGraph a (roExecute w)) (startBundle m clock entry i) = Some (Inr x)"
  obtains s where "Run m w = Some (conclude m w x s)" "rnError s = None"
proof -
  obtain s0 ticks s1 where gc: "roGC w = (s0, ticks, s1)" by (cases "roGC w")
  let ?s = "\<lparr>rnBundle = Some (startBundle m clock entry i), rnStored = None, rnVerdict = None,
    rnGC = Some (recordGC (pinned m) s0 ticks s1), rnTransport = dialConfig (transportConfig m), rnServer = server, rnDisk = d, rnError = None\<rparr>"
  have "CheckImplemented (mnCell m) = None" using assms(1) by simp
  then have "Run m w = Some (conclude m w x ?s)" by (simp add: Run_def assms(2-7) gc Let_def del: CheckImplemented_None_iff)
  then show thesis by (rule that) simp
qed

text \<open>
  The phases before the verdict went well: the clock was established, the model and the server
  were prepared, the workload returned, and what was stored reads back as it was.
\<close>

definition went_well :: "Manifest \<Rightarrow> runOutside \<Rightarrow> Domain \<Rightarrow> disk \<Rightarrow> ModelEntry \<Rightarrow> Artifact \<Rightarrow> ModelIdentity \<Rightarrow> ServerRecord \<Rightarrow> executed
    \<Rightarrow> bool" where
  "went_well m w clock d entry a i server x \<longleftrightarrow>
     Establish (sySum (roSystem w)) (roKernel w) = Some (Inr clock)
     \<and> prepareModel (roSystem w) m (roDisk w) = (d, Inr (entry, a)) \<and> prepareServer m entry (roServer w) = Some (Inr (i, server))
     \<and> execute m (withGraph a (roExecute w)) (startBundle m clock entry i) = Some (Inr x)
     \<and> roDials w \<and> roLayout w \<and> roWrites w 0 \<and> roVerdictWrites w \<and> roLoad w = Some \<and> roFile w = Some"

text \<open>
  The workload was in order: each member was answered alone and at instants that only go
  forward, no two executions of a cohort met, the streams' files hold what was handed over and
  nothing was dropped, and the server's counters account for the run.
\<close>

definition in_order :: "Manifest \<Rightarrow> outside \<Rightarrow> RunHeader \<Rightarrow> RunHeader \<Rightarrow> executed \<Rightarrow> bool" where
  "in_order m w hL hT x \<longleftrightarrow> orders (oRecorded w)
     \<and> list_all (\<lambda>i. list_all (answeredAlone (oRecorded w i) (edServed x)) (cMembers (recordedCohort m i))) [0 ..< nat (mcCount (mnCohort m))]
     \<and> executedApart (edServed x)
     \<and> fileHolds hL (edSent x) (oStream w EmitterLoadGen) \<and> fileHolds hT (edServed x) (oStream w EmitterTriton)
     \<and> snd (oStats w EmitterLoadGen) = 0 \<and> snd (oStats w EmitterTriton) = 0
     \<and> snExecutionCount (bnTritonStats (edBundle x)) = of_int (meExecutions (mnExpectedEvidence m))
     \<and> snInferenceCount (bnTritonStats (edBundle x)) = of_int (mcCount (mnCohort m) * mcSize (mnCohort m))
     \<and> map fst (snBatchSizes (bnTritonStats (edBundle x))) = [1]"

lemma in_order_judged:
  assumes "Manifest_Validate m = None" and "mnCell m = CellD0" and "mcWarmupCount (mnCohort m) + mcCount (mnCohort m) \<le> 2 ^ 32"
    and "went_well m w clock d entry a i server x" and "in_order m (roExecute w) hL hT x"
    and "hClockDomain hL = doID clock" and "hClockDomain hT = doID clock"
  obtains v s where "judge w (written_as StateCompleted (edBundle x)) (edArchived x) (map (oStream (roExecute w)) (runStreams m)) = Inr v"
    and "vdPassed v" and "Run m w = Some (conclude m w x s)" and "rnError s = None"
proof -
  note well = assms(4) [unfolded went_well_def] and order = assms(5) [unfolded in_order_def]
  let ?w = "withGraph a (roExecute w)" and ?b = "written_as StateCompleted (edBundle x)"
  have same: "oRecorded ?w = oRecorded (roExecute w)" "oStream ?w = oStream (roExecute w)" "oStats ?w = oStats (roExecute w)"
    by (simp_all add: withGraph_def)
  have start: "bnManifest (startBundle m clock entry i) = Some m" "bnCell (startBundle m clock entry i) = CellD0"
    "bnClockDomain (startBundle m clock entry i) = Some (doID clock)" by (simp_all add: startBundle_def assms(2))
  have pass: "case readRows (writeArchive (edArchived x)) of Inl _ \<Rightarrow> False
    | Inr archived \<Rightarrow> (case finalizeVerdict (edBundle x) archived
          [oStream (roExecute w) EmitterLoadGen, oStream (roExecute w) EmitterTriton] of Inl _ \<Rightarrow> False | Inr v \<Rightarrow> vdPassed v)"
    by (rule run_passes [where m = m and w = ?w and hL = hL and hT = hT, unfolded same, OF assms(1-3) _ start])
      (use well order assms(6,7) in simp_all)
  have "runExpectation ?b = runExpectation (edBundle x)" "bnFirstRecordedCohort ?b = bnFirstRecordedCohort (edBundle x)"
    by (simp_all add: runExpectation_def written_as_def split: option.split)
  then have ones: "ValidateBundle ?b = ValidateBundle (edBundle x)" "ValidateStreams ?b = ValidateStreams (edBundle x)"
    unfolding fun_eq_iff ValidateBundle_def ValidateStreams_def by metis+
  then have stored: "finalizeVerdict ?b = finalizeVerdict (edBundle x)"
    unfolding fun_eq_iff finalizeVerdict_def by metis
  have streams: "runStreams m = [EmitterLoadGen, EmitterTriton]" by (simp add: runStreams_def assms(2) UsesProxy_def)
  have "case judge w ?b (edArchived x) (map (oStream (roExecute w)) (runStreams m)) of Inl _ \<Rightarrow> False | Inr v \<Rightarrow> vdPassed v"
    using pass well by (auto simp: judge_def ones(1) stored streams finalizeVerdict_def split: sum.splits if_splits)
  then obtain v where v: "judge w ?b (edArchived x) (map (oStream (roExecute w)) (runStreams m)) = Inr v" "vdPassed v"
    by (auto split: sum.splits)
  have "Identity.Implemented (mnCell m)" by (simp add: assms(2) Identity.Implemented_def implementedCells_def)
  then obtain s where "Run m w = Some (conclude m w x s)" "rnError s = None"
    using Run_concludes well by metis
  then show thesis using that v by blast
qed

text \<open>
  C23. A run in order completes. On the direct path, for a valid manifest: if the phases went
  well and the workload was in order, then \<^verbatim>\<open>Run\<close> returns no error, the verdict on its archive
  is a pass and the bundle is stored as completed; whatever order the goroutines finish in.
\<close>

theorem run_in_order_completes:
  assumes "Manifest_Validate m = None" and "mnCell m = CellD0" and "mcWarmupCount (mnCohort m) + mcCount (mnCohort m) \<le> 2 ^ 32"
    and "went_well m w clock d entry a i server x" and "in_order m (roExecute w) hL hT x"
    and "hClockDomain hL = doID clock" and "hClockDomain hT = doID clock"
  shows "case Run m w of None \<Rightarrow> False
    | Some r \<Rightarrow> rnError r = None \<and> map_option vdPassed (rnVerdict r) = Some True
        \<and> map_option bnState (rnStored r) = Some StateCompleted"
proof -
  obtain v s where "judge w (written_as StateCompleted (edBundle x)) (edArchived x) (map (oStream (roExecute w)) (runStreams m)) = Inr v"
    "vdPassed v" "Run m w = Some (conclude m w x s)" "rnError s = None" by (rule in_order_judged [OF assms])
  then show ?thesis using assms(4) by (simp add: conclude_def Let_def went_well_def written_as_def)
qed

section \<open>A sample run\<close>

definition sampleServer :: serverMet where
  "sampleServer = \<lparr>smLive = [\<lparr>plSeen = Some True, plExpired = False, plEnded = False\<rparr>], smMetadata = Some (''triton'', ''2''),
     smIndex = Some [], smUnloads = (\<lambda>_. True),
     smQuiescing = [\<lparr>plSeen = (Some True, Some []), plExpired = False, plEnded = False\<rparr>], smLoads = (\<lambda>_. True),
     smModelMetadata = (\<lambda>name. Some \<lparr>mdName = name, mdVersions = [''1''], mdPlatform = [],
       mdInputs = [InputData, InputPadding, InputUID], mdOutputs = [OutputData, OutputUIDSet]\<rparr>),
     smModelConfig = (\<lambda>_. Some \<lparr>mcBackend = ''onnxruntime'', mcMaxBatchSize = 0, mcDynamicBatching = False,
       mcInstanceGroups = [(1, ''KIND_GPU'')]\<rparr>)\<rparr>"

definition sampleWorld :: runOutside where
  "sampleWorld = \<lparr>roKernel = sampleKernel, roSystem = sampleSystem, roDisk = sampleDisk (sampleManifest CellD0), roDials = True,
     roServer = sampleServer, roLayout = True, roExecute = sampleOutside, roGC = (noSample, [], sampleEnd), roWrites = (\<lambda>_. True),
     roLoad = Some, roFile = Some, roVerdictWrites = True\<rparr>"

lemma sample_clock: "\<exists>clock. Establish (sySum sampleSystem) sampleKernel = Some (Inr clock) \<and> doID clock = ''cd-4''"
proof -
  have "case Establish (sySum sampleSystem) sampleKernel of Some (Inr d) \<Rightarrow> doID d = ''cd-4'' | _ \<Rightarrow> False" by code_simp
  then show ?thesis by (auto split: option.splits sum.splits)
qed

lemma sample_served: "enName entry = ''a_unbatched'' \<Longrightarrow> \<exists>r. prepareServer (sampleManifest CellD0) entry sampleServer = Some (Inr r)"
  by (simp add: prepareServer_def sampleServer_def Quiesce_def servedIdentity_def verifyServedEntry_def containsString_def)

lemma sample_goes_well: "\<exists>clock d entry a i server x. went_well (sampleManifest CellD0) sampleWorld clock d entry a i server x
    \<and> hClockDomain sampleRunHeader = doID clock
    \<and> in_order (sampleManifest CellD0) (roExecute sampleWorld) sampleRunHeader sampleRunHeader x"
proof -
  let ?m = "sampleManifest CellD0"
  obtain clock where clock: "Establish (sySum sampleSystem) sampleKernel = Some (Inr clock)" "doID clock = ''cd-4''"
    using sample_clock by blast
  obtain d entry where model: "prepareModel sampleSystem ?m (sampleDisk ?m) = (d, Inr (entry, sampleArtifact))"
    using sample_prepares(1) by (cases "prepareModel sampleSystem ?m (sampleDisk ?m)") (auto split: sum.splits)
  have fields: "mmArtifactID (mnModel ?m) = ''a''" "mmEntry (mnModel ?m) = EntryUnbatched" by (simp_all add: sampleManifest_def)
  have name: "enName entry = ''a_unbatched''"
    using prepared_model [OF model sample_prepares(2)] by (simp add: fields ModelEntryName_def EntryName_def Let_def)
  obtain i server where server: "prepareServer ?m entry sampleServer = Some (Inr (i, server))"
    using sample_served [OF name] by (metis surj_pair)
  have graph: "withGraph sampleArtifact sampleOutside = sampleOutside" by (simp add: withGraph_def sampleArtifact_def sampleOutside_def)
  have "enName (bnModelEntry (startBundle ?m clock entry i)) = ''a_unbatched''" by (simp add: startBundle_def name)
  from sample_executes [OF this] obtain x where x: "execute ?m sampleOutside (startBundle ?m clock entry i) = Some (Inr x)"
    "edSent x = sampleSent" "edServed x = sampleServed" "snExecutionCount (bnTritonStats (edBundle x)) = 4"
    "snInferenceCount (bnTritonStats (edBundle x)) = 4" "map fst (snBatchSizes (bnTritonStats (edBundle x))) = [1]"
    by (elim exE conjE) (rule that)
  have run: "oRecorded sampleOutside i = sampleMet" "oStream sampleOutside EmitterLoadGen = sampleFile sampleSent"
    "oStream sampleOutside EmitterTriton = sampleFile sampleServed" "snd (oStats sampleOutside e) = 0" for i e
    by (simp_all add: sampleOutside_def)
  have "in_order ?m sampleOutside sampleRunHeader sampleRunHeader x"
    using sample_orders(2) sample_apart
    by (simp add: in_order_def x run sample_answered sample_file list_all_iff) (simp add: sampleManifest_def)
  moreover have "went_well ?m sampleWorld clock d entry sampleArtifact i server x"
    by (simp add: went_well_def sampleWorld_def clock(1) model server graph x(1))
  moreover have "hClockDomain sampleRunHeader = doID clock" "roExecute sampleWorld = sampleOutside"
    by (simp_all add: clock(2) sampleRunHeader_def sampleWorld_def)
  ultimately show ?thesis by metis
qed

lemma sample_valid: "Manifest_Validate (sampleManifest CellD0) = None" "mnCell (sampleManifest CellD0) = CellD0"
  "mcWarmupCount (mnCohort (sampleManifest CellD0)) + mcCount (mnCohort (sampleManifest CellD0)) \<le> 2 ^ 32"
  by (rule sampleManifest_valid, simp) (simp_all add: sampleManifest_def)

theorem run_in_order_completes_witness:
  "case Run (sampleManifest CellD0) sampleWorld of None \<Rightarrow> False
    | Some r \<Rightarrow> rnError r = None \<and> map_option vdPassed (rnVerdict r) = Some True
        \<and> map_option bnState (rnStored r) = Some StateCompleted"
proof -
  obtain clock d entry a i server x where run: "went_well (sampleManifest CellD0) sampleWorld clock d entry a i server x"
    "in_order (sampleManifest CellD0) (roExecute sampleWorld) sampleRunHeader sampleRunHeader x"
    and clock: "hClockDomain sampleRunHeader = doID clock" using sample_goes_well by blast
  show ?thesis by (rule run_in_order_completes [OF sample_valid run clock clock])
qed

lemma sample_completes: "\<exists>r. Run (sampleManifest CellD0) sampleWorld = Some r \<and> rnError r = None"
proof -
  let ?m = "sampleManifest CellD0"
  obtain clock d entry a i server x where well: "went_well ?m sampleWorld clock d entry a i server x"
    and order: "in_order ?m (roExecute sampleWorld) sampleRunHeader sampleRunHeader x"
    and clock: "hClockDomain sampleRunHeader = doID clock" using sample_goes_well by blast
  obtain v s where "judge sampleWorld (written_as StateCompleted (edBundle x)) (edArchived x) (map (oStream (roExecute sampleWorld)) (runStreams ?m)) = Inr v"
    "vdPassed v" "Run ?m sampleWorld = Some (conclude ?m sampleWorld x s)" "rnError s = None"
    by (rule in_order_judged [OF sample_valid well order clock clock])
  then show ?thesis using well by (simp add: conclude_def Let_def went_well_def)
qed

theorem completed_run_witness:
  "\<exists>r b v. Run (sampleManifest CellD0) sampleWorld = Some r \<and> rnBundle r = Some b \<and> rnStored r = Some b \<and> rnVerdict r = Some v
     \<and> vdPassed v \<and> enName (bnModelEntry b) = ModelEntryName (sampleManifest CellD0)"
proof -
  obtain r where r: "Run (sampleManifest CellD0) sampleWorld = Some r" "rnError r = None" using sample_completes by blast
  have "disk_wf (roDisk sampleWorld)" using sample_prepares(2) by (simp add: sampleWorld_def)
  moreover have "CHR ''/'' \<notin> set (mmArtifactID (mnModel (sampleManifest CellD0)))" by (simp add: sampleManifest_def)
  ultimately show ?thesis using completed_run [OF r] r(1) by (auto split: option.splits sum.splits)
qed

end
