(* ===== verification/RecordWriter.thy ===== *)
theory RecordWriter
  imports CodecProofs
begin

text \<open>
  \<^verbatim>\<open>internal/events/writer.go\<close>: the append-only record stream. A bank is the bytes
  \<^verbatim>\<open>buf[:n]\<close> written so far, the channels are queues, and every point where the code
  releases control is a step: taking a sequence number, the locked section of
  \<^verbatim>\<open>Record\<close>, counting its outcome, the flusher taking, writing and freeing a bank, and
  \<^verbatim>\<open>Close\<close>. The sink is outside: a flush step says whether its write succeeded.
  Opening and closing the file and the JSON of the counters are not modelled.
\<close>

section \<open>Construction\<close>

definition DefaultBankBytes :: nat where "DefaultBankBytes = 4 * 2 ^ 20"

record Writer =
  wHeader :: "byte list"
  wWriterID :: WriterID
  wBankBytes :: nat
  wBanks :: nat
  wActive :: "byte list"
  wClosed :: bool
  wFree :: nat
  wPending :: "byte list list"
  wPendingClosed :: bool
  wFlushing :: "byte list option"
  wSeq :: uint64
  wDropped :: uint64
  wWritten :: uint64
  wFlusherDone :: bool
  wFlushErr :: bool
  wSink :: "byte list"

datatype writer_error = BadHeader header_error | TooFewBanks int | BankTooSmall int

definition NewWriter :: "RunHeader \<Rightarrow> int \<Rightarrow> int \<Rightarrow> writer_error + Writer" where
  "NewWriter h bankBytes banks =
     (case RunHeader_Validate h of Some e \<Rightarrow> Inl (BadHeader e)
      | None \<Rightarrow>
          if banks < 2 then Inl (TooFewBanks banks)
          else if bankBytes < int maxBodySize * 4 then Inl (BankTooSmall bankBytes)
          else Inr \<lparr>wHeader = encodeHeader h, wWriterID = hWriterID h,
                 wBankBytes = nat bankBytes, wBanks = nat banks, wActive = [], wClosed = False,
                 wFree = nat banks - 1, wPending = [], wPendingClosed = False, wFlushing = None,
                 wSeq = 0, wDropped = 0, wWritten = 0, wFlusherDone = False, wFlushErr = False,
                 wSink = []\<rparr>)"

section \<open>Recording\<close>

definition maxFrameSize :: "Writer \<Rightarrow> nat" where
  "maxFrameSize w = 10 + length (wHeader w) + maxBodySize"

datatype locked =
    SendBlocks \<comment> \<open>the send on \<^verbatim>\<open>pending\<close> would wait for the flusher, under the lock\<close>
  | BankOverflow \<comment> \<open>the encoding does not fit the bank it was appended to\<close>
  | Locked Writer bool

definition rotateLocked :: "Writer \<Rightarrow> locked" where
  "rotateLocked w =
     (if 0 < wFree w
      then if length (wPending w) = wBanks w then SendBlocks
           else Locked (w\<lparr>wFree := wFree w - 1, wPending := wPending w @ [wActive w],
                         wActive := []\<rparr>) True
      else Locked w False)"

definition appendFrame :: "Record \<Rightarrow> Writer \<Rightarrow> locked" where
  "appendFrame r w =
     (let body = appendRecord (wHeader w) r (wWriterID w);
          start = length (wActive w) + 10
      in if wBankBytes w < start + length body then BankOverflow
         else Locked (w\<lparr>wActive := AppendUvarint (wActive w) (of_nat (length body)) @ body\<rparr>) True)"

definition Record_locked :: "Record \<Rightarrow> Writer \<Rightarrow> locked" where
  "Record_locked r w =
     (if wClosed w then Locked w False
      else if wBankBytes w < length (wActive w) + maxFrameSize w
      then (case rotateLocked w of
              Locked w' True \<Rightarrow> appendFrame r w'
            | Locked w' False \<Rightarrow> Locked w' False
            | SendBlocks \<Rightarrow> SendBlocks
            | BankOverflow \<Rightarrow> BankOverflow)
      else appendFrame r w)"

section \<open>Reading a stream back\<close>

datatype read_error = BadLength | LenOutOfRange uint64 | ShortBody | BadRecord decode_error

function ReadStream_loop :: "Decoded list \<Rightarrow> byte list \<Rightarrow> read_error + Decoded list" where
  "ReadStream_loop out b =
     (if length b = 0 then Inr out
      else let (sz, n) = Uvarint b in
        if n \<le> 0 then Inl BadLength
        else if 2 ^ 63 \<le> unat sz then Inl (LenOutOfRange sz)
        else if length (drop (nat n) b) < unat sz then Inl ShortBody
        else (case Decode (take (unat sz) (drop (nat n) b)) of
                Inl e \<Rightarrow> Inl (BadRecord e)
              | Inr d \<Rightarrow> ReadStream_loop (out @ [d]) (drop (nat n + unat sz) b)))"
  by pat_completeness auto

termination ReadStream_loop
  by (relation "measure (\<lambda>(_, b). length b)") auto

declare ReadStream_loop.simps [simp del]

definition ReadStream :: "byte list \<Rightarrow> read_error + Decoded list" where
  "ReadStream b = ReadStream_loop [] b"

section \<open>Runs\<close>

text \<open>
  A call of \<^verbatim>\<open>Record\<close> is \<open>Taken\<close> between its sequence number and the lock, then
  \<open>Accepted\<close> or \<open>Rejected\<close> until its counter is incremented. \<open>wsLog\<close> is the sequence of
  accepted records, in lock order.
\<close>

datatype wcall = Taken Record | Accepted | Rejected

record writer_state =
  wsW :: Writer
  wsCalls :: "wcall list"
  wsLog :: "Record list"

definition remove_at :: "nat \<Rightarrow> 'a list \<Rightarrow> 'a list" where
  "remove_at i xs = take i xs @ drop (Suc i) xs"

definition flush_write :: "bool \<Rightarrow> byte list \<Rightarrow> Writer \<Rightarrow> Writer" where
  "flush_write ok b w = w\<lparr>wSink := (if ok then wSink w @ b else wSink w),
     wFlushErr := (wFlushErr w \<or> \<not> ok), wFlushing := None, wFree := wFree w + 1\<rparr>"

definition Close :: "Writer \<Rightarrow> locked" where
  "Close w =
     (if 0 < length (wActive w)
      then if length (wPending w) = wBanks w then SendBlocks
           else Locked (w\<lparr>wClosed := True, wPending := wPending w @ [wActive w],
                         wPendingClosed := True\<rparr>) True
      else Locked (w\<lparr>wClosed := True, wPendingClosed := True\<rparr>) True)"

inductive writer_step :: "writer_state \<Rightarrow> writer_state \<Rightarrow> bool" where
  take_seq: "record_wf r \<Longrightarrow> wsW s = w \<Longrightarrow>
     writer_step s (s\<lparr>wsW := w\<lparr>wSeq := wSeq w + 1\<rparr>,
       wsCalls := wsCalls s @ [Taken (r\<lparr>rSeq := wSeq w + 1\<rparr>)]\<rparr>)"
| record_locked: "i < length (wsCalls s) \<Longrightarrow> wsCalls s ! i = Taken r \<Longrightarrow>
     Record_locked r (wsW s) = Locked w' ok \<Longrightarrow>
     writer_step s (s\<lparr>wsW := w', wsCalls := (wsCalls s)[i := if ok then Accepted else Rejected],
       wsLog := (if ok then wsLog s @ [r] else wsLog s)\<rparr>)"
| count_written: "i < length (wsCalls s) \<Longrightarrow> wsCalls s ! i = Accepted \<Longrightarrow>
     writer_step s (s\<lparr>wsW := (wsW s)\<lparr>wWritten := wWritten (wsW s) + 1\<rparr>,
       wsCalls := remove_at i (wsCalls s)\<rparr>)"
| count_dropped: "i < length (wsCalls s) \<Longrightarrow> wsCalls s ! i = Rejected \<Longrightarrow>
     writer_step s (s\<lparr>wsW := (wsW s)\<lparr>wDropped := wDropped (wsW s) + 1\<rparr>,
       wsCalls := remove_at i (wsCalls s)\<rparr>)"
| flusher_takes: "wFlushing (wsW s) = None \<Longrightarrow> wPending (wsW s) = b # bs \<Longrightarrow>
     \<not> wFlusherDone (wsW s) \<Longrightarrow>
     writer_step s (s\<lparr>wsW := (wsW s)\<lparr>wFlushing := Some b, wPending := bs\<rparr>\<rparr>)"
| flusher_writes: "wFlushing (wsW s) = Some b \<Longrightarrow> wFree (wsW s) < wBanks (wsW s) \<Longrightarrow>
     writer_step s (s\<lparr>wsW := flush_write ok b (wsW s)\<rparr>)"
| close: "\<not> wClosed (wsW s) \<Longrightarrow> Close (wsW s) = Locked w' ok \<Longrightarrow> writer_step s (s\<lparr>wsW := w'\<rparr>)"
| flusher_ends: "wPendingClosed (wsW s) \<Longrightarrow> wPending (wsW s) = [] \<Longrightarrow> wFlushing (wsW s) = None \<Longrightarrow>
     writer_step s (s\<lparr>wsW := (wsW s)\<lparr>wFlusherDone := True,
       wFlushErr := (wFlushErr (wsW s) \<or> \<not> ok)\<rparr>\<rparr>)"

definition writer_start :: "RunHeader \<Rightarrow> int \<Rightarrow> int \<Rightarrow> writer_state \<Rightarrow> bool" where
  "writer_start h bankBytes banks s \<longleftrightarrow>
     NewWriter h bankBytes banks = Inr (wsW s) \<and> wsCalls s = [] \<and> wsLog s = []"

section \<open>The stream invariant\<close>

definition frame :: "RunHeader \<Rightarrow> Record \<Rightarrow> byte list" where
  "frame h r = (let b = encodeHeader h @ appendRecord [] r (hWriterID h)
     in varint (of_nat (length b)) @ b)"

definition in_flight :: "Writer \<Rightarrow> byte list" where
  "in_flight w = (case wFlushing w of None \<Rightarrow> [] | Some b \<Rightarrow> b) @ concat (wPending w)
     @ (if wClosed w then [] else wActive w)"

definition circulating :: "Writer \<Rightarrow> nat" where
  "circulating w = wFree w + length (wPending w) + (if wFlushing w = None then 0 else 1)"

definition fits :: "RunHeader \<Rightarrow> Writer \<Rightarrow> bool" where
  "fits h w \<longleftrightarrow> wHeader w = encodeHeader h \<and> wWriterID w = hWriterID h
     \<and> 10 + length (encodeHeader h) + maxBodySize \<le> wBankBytes w \<and> 2 \<le> wBanks w"

definition writer_inv :: "RunHeader \<Rightarrow> writer_state \<Rightarrow> bool" where
  "writer_inv h s \<longleftrightarrow> (let w = wsW s in
     fits h w
     \<and> (if wClosed w then circulating w \<le> wBanks w else Suc (circulating w) = wBanks w)
     \<and> wPendingClosed w = wClosed w
     \<and> (wFlusherDone w \<longrightarrow> wClosed w \<and> wPending w = [] \<and> wFlushing w = None)
     \<and> (\<forall>r. Taken r \<in> set (wsCalls s) \<or> r \<in> set (wsLog s) \<longrightarrow> record_wf r)
     \<and> wSeq w = of_nat (length (wsCalls s)) + wWritten w + wDropped w
     \<and> of_nat (length (wsLog s)) = wWritten w
         + of_nat (length (filter (\<lambda>c. c = Accepted) (wsCalls s)))
     \<and> (\<not> wFlushErr w \<longrightarrow> wSink w @ in_flight w = concat (map (frame h) (wsLog s))))"

text \<open>What each part of the invariant does not read.\<close>

lemma writer_frame_simps [simp]:
  "fits h (wSeq_update f w) = fits h w" "fits h (wWritten_update f w) = fits h w"
  "fits h (wDropped_update f w) = fits h w" "fits h (wActive_update g w) = fits h w"
  "fits h (wFree_update k w) = fits h w" "fits h (wPending_update q w) = fits h w"
  "fits h (wFlushing_update e w) = fits h w" "fits h (wSink_update g w) = fits h w"
  "fits h (wFlushErr_update c w) = fits h w" "fits h (wFlusherDone_update c w) = fits h w"
  "fits h (wClosed_update c w) = fits h w" "fits h (wPendingClosed_update c w) = fits h w"
  "circulating (wSeq_update f w) = circulating w" "circulating (wWritten_update f w) = circulating w"
  "circulating (wDropped_update f w) = circulating w" "circulating (wActive_update g w) = circulating w"
  "circulating (wSink_update g w) = circulating w" "circulating (wFlushErr_update c w) = circulating w"
  "circulating (wFlusherDone_update c w) = circulating w" "circulating (wClosed_update c w) = circulating w"
  "circulating (wPendingClosed_update c w) = circulating w"
  "in_flight (wSeq_update f w) = in_flight w" "in_flight (wWritten_update f w) = in_flight w"
  "in_flight (wDropped_update f w) = in_flight w" "in_flight (wFree_update k w) = in_flight w"
  "in_flight (wSink_update g w) = in_flight w" "in_flight (wFlushErr_update c w) = in_flight w"
  "in_flight (wFlusherDone_update c w) = in_flight w" "in_flight (wPendingClosed_update c w) = in_flight w"
  by (simp_all add: fits_def circulating_def in_flight_def)

lemma appendRecord_dst: "record_wf r \<Longrightarrow> appendRecord dst r w = dst @ appendRecord [] r w"
  by (simp add: appendRecord_eq)

lemma length_appendRecord: "record_wf r \<Longrightarrow> length (appendRecord [] r w) \<le> maxBodySize"
  by (rule body_bound)

lemma appendFrame_fits:
  assumes "fits h w" and "record_wf r" and "length (wActive w) + maxFrameSize w \<le> wBankBytes w"
  shows "appendFrame r w = Locked (w\<lparr>wActive := wActive w @ frame h r\<rparr>) True"
  using assms length_appendRecord [OF assms(2), of "wWriterID w"]
    appendRecord_dst [OF assms(2), of "wHeader w" "wWriterID w"]
  by (simp add: appendFrame_def Let_def maxFrameSize_def AppendUvarint_append frame_def fits_def)

text \<open>Every outcome of the locked section, in a state that satisfies the invariant.\<close>

lemma Record_locked_cases:
  assumes "fits h w" and "record_wf r" and "\<not> wClosed w \<Longrightarrow> Suc (circulating w) = wBanks w"
  shows "Record_locked r w =
    (if wClosed w then Locked w False
     else if length (wActive w) + maxFrameSize w \<le> wBankBytes w
     then Locked (w\<lparr>wActive := wActive w @ frame h r\<rparr>) True
     else if 0 < wFree w
     then Locked (w\<lparr>wFree := wFree w - 1, wPending := wPending w @ [wActive w],
                   wActive := frame h r\<rparr>) True
     else Locked w False)"
proof -
  let ?w = "w\<lparr>wFree := wFree w - 1, wPending := wPending w @ [wActive w], wActive := []\<rparr>"
  have "fits h ?w" and "length (wActive ?w) + maxFrameSize ?w \<le> wBankBytes ?w"
    using assms(1) by (simp_all add: fits_def maxFrameSize_def)
  then have a: "appendFrame r ?w = Locked (?w\<lparr>wActive := frame h r\<rparr>) True"
    using appendFrame_fits [of h ?w r] assms(2) by simp
  have p: "length (wPending w) \<noteq> wBanks w" if "\<not> wClosed w" "0 < wFree w"
    using assms(3) [OF that(1)] that(2) by (simp add: circulating_def)
  show ?thesis
    using a p appendFrame_fits [OF assms(1,2)]
    by (auto simp: Record_locked_def rotateLocked_def not_le)
qed

lemma Close_cases:
  assumes "Suc (circulating w) = wBanks w"
  shows "Close w = Locked (w\<lparr>wClosed := True, wPendingClosed := True,
     wPending := wPending w @ (if wActive w = [] then [] else [wActive w])\<rparr>) True"
  using assms by (cases w) (simp add: Close_def circulating_def)

lemma length_remove_at: "i < length xs \<Longrightarrow> Suc (length (remove_at i xs)) = length xs"
  by (simp add: remove_at_def)

lemma filter_remove_at:
  assumes "i < length xs"
  shows "length (filter P (remove_at i xs)) + (if P (xs ! i) then 1 else 0) = length (filter P xs)"
proof -
  have "xs = take i xs @ xs ! i # drop (Suc i) xs" using assms by (simp add: id_take_nth_drop)
  then have "filter P xs = filter P (take i xs @ xs ! i # drop (Suc i) xs)" by simp
  then show ?thesis by (simp add: remove_at_def)
qed

lemma set_remove_at: "set (remove_at i xs) \<subseteq> set xs"
  by (auto simp: remove_at_def dest: in_set_takeD in_set_dropD)

lemma filter_update:
  assumes "i < length xs" and "\<not> P (xs ! i)"
  shows "length (filter P (xs[i := x])) = length (filter P xs) + (if P x then 1 else 0)"
proof -
  have "xs = take i xs @ xs ! i # drop (Suc i) xs" using assms by (simp add: id_take_nth_drop)
  then have "filter P xs = filter P (take i xs @ xs ! i # drop (Suc i) xs)" by simp
  then show ?thesis using assms by (simp add: upd_conv_take_nth_drop)
qed

lemma writer_inv_locked:
  assumes inv: "writer_inv h s" and i: "i < length (wsCalls s)" "wsCalls s ! i = Taken r"
    and rec: "Record_locked r (wsW s) = Locked w' ok"
  shows "writer_inv h (s\<lparr>wsW := w', wsCalls := (wsCalls s)[i := if ok then Accepted else Rejected],
      wsLog := (if ok then wsLog s @ [r] else wsLog s)\<rparr>)"
proof -
  let ?w = "wsW s"
  have "Taken r \<in> set (wsCalls s)" using i nth_mem by metis
  with inv have wf: "record_wf r" and f: "fits h ?w"
    and c: "\<not> wClosed ?w \<Longrightarrow> Suc (circulating ?w) = wBanks ?w"
    by (auto simp: writer_inv_def Let_def)
  have set: "Taken q \<in> set ((wsCalls s)[i := if ok then Accepted else Rejected]) \<Longrightarrow>
      Taken q \<in> set (wsCalls s)" for q
    using set_update_subset_insert by fastforce
  have acc: "length (filter (\<lambda>c. c = Accepted) ((wsCalls s)[i := if ok then Accepted else Rejected]))
      = length (filter (\<lambda>c. c = Accepted) (wsCalls s)) + (if ok then 1 else 0)"
    using i by (subst filter_update) auto
  note R = Record_locked_cases [OF f wf c] rec
  consider (rejected) "w' = ?w" "\<not> ok"
    | (appended) "\<not> wClosed ?w" "ok" "w' = ?w\<lparr>wActive := wActive ?w @ frame h r\<rparr>"
    | (rotated) "\<not> wClosed ?w" "ok" "0 < wFree ?w" "w' = ?w\<lparr>wFree := wFree ?w - 1,
        wPending := wPending ?w @ [wActive ?w], wActive := frame h r\<rparr>"
    using R by (auto split: if_splits)
  then show ?thesis
  proof cases
    case rejected
    then show ?thesis using inv acc set by (auto simp: writer_inv_def Let_def)
  next
    case appended
    then show ?thesis using inv acc set wf
      by (auto simp: writer_inv_def Let_def fits_def circulating_def in_flight_def)
  next
    case rotated
    then show ?thesis using inv acc set wf
      by (auto simp: writer_inv_def Let_def fits_def circulating_def in_flight_def)
  qed
qed

lemma writer_inv_step:
  assumes "writer_step s t" and inv: "writer_inv h s"
  shows "writer_inv h t"
  using assms(1)
proof cases
  case (take_seq r w)
  then show ?thesis using inv by (auto simp: writer_inv_def Let_def record_wf_def)
next
  case (record_locked i r w' ok)
  then show ?thesis using writer_inv_locked [OF inv] by simp
next
  case (count_written i)
  then have n: "length (wsCalls s) = Suc (length (remove_at i (wsCalls s)))"
    and a: "length (filter (\<lambda>c. c = Accepted) (wsCalls s))
      = Suc (length (filter (\<lambda>c. c = Accepted) (remove_at i (wsCalls s))))"
    using filter_remove_at [of i "wsCalls s" "\<lambda>c. c = Accepted"]
    by (simp_all add: length_remove_at)
  have "\<forall>r. Taken r \<in> set (remove_at i (wsCalls s)) \<longrightarrow> Taken r \<in> set (wsCalls s)"
    using set_remove_at [of i "wsCalls s"] by blast
  then show ?thesis using count_written inv by (simp add: writer_inv_def Let_def n a)
next
  case (count_dropped i)
  then have n: "length (wsCalls s) = Suc (length (remove_at i (wsCalls s)))"
    and a: "length (filter (\<lambda>c. c = Accepted) (wsCalls s))
      = length (filter (\<lambda>c. c = Accepted) (remove_at i (wsCalls s)))"
    using filter_remove_at [of i "wsCalls s" "\<lambda>c. c = Accepted"]
    by (simp_all add: length_remove_at)
  have "\<forall>r. Taken r \<in> set (remove_at i (wsCalls s)) \<longrightarrow> Taken r \<in> set (wsCalls s)"
    using set_remove_at [of i "wsCalls s"] by blast
  then show ?thesis using count_dropped inv by (simp add: writer_inv_def Let_def n a)
next
  case (flusher_takes b bs)
  then have "circulating ((wsW s)\<lparr>wFlushing := Some b, wPending := bs\<rparr>) = circulating (wsW s)"
    "in_flight ((wsW s)\<lparr>wFlushing := Some b, wPending := bs\<rparr>) = in_flight (wsW s)"
    by (simp_all add: circulating_def in_flight_def)
  then show ?thesis using flusher_takes inv by (simp add: writer_inv_def Let_def)
next
  case (flusher_writes b ok)
  then show ?thesis using inv
    by (simp add: writer_inv_def Let_def flush_write_def) (auto simp: circulating_def in_flight_def)
next
  case (close w' ok)
  then have "Suc (circulating (wsW s)) = wBanks (wsW s)" using inv by (simp add: writer_inv_def Let_def)
  then show ?thesis using close inv Close_cases [of "wsW s"]
    by (simp add: writer_inv_def Let_def) (auto simp: circulating_def in_flight_def)
next
  case (flusher_ends ok)
  then show ?thesis using inv by (simp add: writer_inv_def Let_def)
qed

lemma writer_inv_start:
  assumes "writer_start h bankBytes banks s"
    and "int (10 + length (encodeHeader h) + maxBodySize) \<le> bankBytes"
  shows "writer_inv h s"
  using assms
  by (cases s) (auto simp: writer_start_def NewWriter_def writer_inv_def fits_def circulating_def
      in_flight_def split: option.splits if_splits)

text \<open>
  The writer's interface to the step invariant: the bank size of a start state is one that
  fits a whole frame.
\<close>

definition writer_fits :: "RunHeader \<Rightarrow> int \<Rightarrow> int \<Rightarrow> writer_state \<Rightarrow> bool" where
  "writer_fits h bankBytes banks s \<longleftrightarrow> writer_start h bankBytes banks s
     \<and> int (10 + length (encodeHeader h) + maxBodySize) \<le> bankBytes"

interpretation recorder: step_invariant "writer_fits h bankBytes banks" writer_step "writer_inv h"
  for h bankBytes banks
  by unfold_locales (auto simp: writer_fits_def intro: writer_inv_start writer_inv_step)

section \<open>Reading the stream back\<close>

definition header_fits :: "RunHeader \<Rightarrow> bool" where
  "header_fits h \<longleftrightarrow> length (encodeHeader h) + maxBodySize < 2 ^ 63
     \<and> (\<forall>s \<in> {hExperiment h, hSession h, hRun h, hCell h, hClockDomain h}. length s < 2 ^ 63)"

definition archived :: "RunHeader \<Rightarrow> Record \<Rightarrow> Decoded" where
  "archived h r = \<lparr>dSchemaVersion = of_nat SchemaVersion, dHeader = h, dRecord = canon r\<rparr>"

lemma ReadStream_one:
  assumes "length b < 2 ^ 63" and "Decode b = Inr d"
  shows "ReadStream_loop out (varint (of_nat (length b)) @ b @ rest)
       = ReadStream_loop (out @ [d]) rest"
proof -
  have u: "unat (of_nat (length b) :: uint64) = length b"
    using assms(1) by (simp add: unat_of_nat take_bit_nat_eq_self_iff)
  show ?thesis
    by (subst ReadStream_loop.simps)
       (simp only: Uvarint_varint Let_def prod.case, use assms u in simp)
qed

lemma ReadStream_frame:
  assumes "header_fits h" and "record_wf r"
  shows "ReadStream_loop out (frame h r @ rest) = ReadStream_loop (out @ [archived h r]) rest"
  using ReadStream_one [of "encodeHeader h @ appendRecord [] r (hWriterID h)" "archived h r" out rest]
    Decode_encode_canon [OF assms(2), of h] length_appendRecord [OF assms(2), of "hWriterID h"] assms(1)
  by (simp add: header_fits_def archived_def frame_def Let_def)

lemma ReadStream_frames:
  "header_fits h \<Longrightarrow> \<forall>r \<in> set rs. record_wf r \<Longrightarrow>
   ReadStream_loop out (concat (map (frame h) rs)) = Inr (out @ map (archived h) rs)"
proof (induction rs arbitrary: out)
  case Nil
  show ?case by (subst ReadStream_loop.simps) simp
next
  case (Cons r rs)
  then show ?case by (simp add: ReadStream_frame)
qed

lemma reach_writer_inv:
  assumes "reach (writer_fits h bankBytes banks) writer_step s"
  shows "writer_inv h s"
  by (rule recorder.reach_inv [OF assms])

section \<open>Properties\<close>

text \<open>
  C4. A completed stream is exactly the accepted records. In every interleaving of any
  number of recording goroutines, the flusher and \<^verbatim>\<open>Close\<close>: once the flusher has ended with
  no write error, reading the sink back gives one decoded record per accepted call, in the
  order of the critical sections and under the run's header; and once no call is in
  progress, the written counter is their number and written plus dropped is the number of
  sequence numbers handed out.
\<close>

theorem stream_complete:
  assumes "reach (writer_fits h bankBytes banks) writer_step s"
    and "header_fits h" and "wFlusherDone (wsW s)" and "\<not> wFlushErr (wsW s)"
  shows "ReadStream (wSink (wsW s)) = Inr (map (archived h) (wsLog s))
    \<and> (wsCalls s = [] \<longrightarrow> wWritten (wsW s) = of_nat (length (wsLog s))
                       \<and> wWritten (wsW s) + wDropped (wsW s) = wSeq (wsW s))"
proof -
  have inv: "writer_inv h s" by (rule reach_writer_inv [OF assms(1)])
  then have "in_flight (wsW s) = []" using assms(3) by (simp add: writer_inv_def Let_def in_flight_def)
  with inv assms(4) have "wSink (wsW s) = concat (map (frame h) (wsLog s))"
    by (simp add: writer_inv_def Let_def)
  moreover have "\<forall>r \<in> set (wsLog s). record_wf r" using inv by (simp add: writer_inv_def Let_def)
  ultimately show ?thesis
    using inv ReadStream_frames [OF assms(2)] by (simp add: ReadStream_def writer_inv_def Let_def)
qed

text \<open>
  C5. The record path never waits and never writes outside its bank: when a bank holds one
  whole frame, the locked section of \<^verbatim>\<open>Record\<close> and \<^verbatim>\<open>Close\<close> always finish in every
  reachable state, and a record is refused exactly when the writer is closed, or the
  active bank is full while every other bank is with the flusher.
\<close>

theorem record_never_blocks:
  assumes "reach (writer_fits h bankBytes banks) writer_step s" and "record_wf r"
  shows "\<exists>w' ok. Record_locked r (wsW s) = Locked w' ok
      \<and> (ok \<longleftrightarrow> \<not> wClosed (wsW s)
             \<and> (length (wActive (wsW s)) + maxFrameSize (wsW s) \<le> wBankBytes (wsW s) \<or> 0 < wFree (wsW s)))
      \<and> (\<not> wClosed (wsW s) \<longrightarrow> (\<exists>w''. Close (wsW s) = Locked w'' True))"
proof -
  have inv: "writer_inv h s" by (rule reach_writer_inv [OF assms(1)])
  then have f: "fits h (wsW s)" and c: "\<not> wClosed (wsW s) \<Longrightarrow> Suc (circulating (wsW s)) = wBanks (wsW s)"
    by (simp_all add: writer_inv_def Let_def)
  show ?thesis
    using Record_locked_cases [OF f assms(2) c] Close_cases [OF c] by simp
qed

definition sampleWriter :: Writer where
  "sampleWriter = (case NewWriter sampleHeader 8192 2 of Inr w \<Rightarrow> w | Inl _ \<Rightarrow> undefined)"

lemma length_bfield_le: "length b < 128 \<Longrightarrow> field \<le> 48 \<Longrightarrow> length (bfield field b) \<le> 3 + length b"
  using length_tag [of field wireLen] length_varint_small [of "length b" 0]
  by (simp add: bfield_def wireLen_def)

lemma length_encodeHeader_sample: "length (encodeHeader sampleHeader) \<le> 40"
  using length_bfield_le [of "string_bytes ''e''" fieldExperimentID]
    length_bfield_le [of "string_bytes ''s''" fieldSessionID]
    length_bfield_le [of "string_bytes ''r''" fieldRunID]
    length_bfield_le [of "string_bytes CellF10" fieldCell]
    length_bfield_le [of "string_bytes ''clk''" fieldClockDomainID]
    length_vfield_le [of fieldSchemaVersion "of_nat SchemaVersion"]
  by (simp add: encodeHeader_eq sampleHeader_def field_defs maxVarintField_def)

lemma writer_fits_sample: "writer_fits sampleHeader 8192 2 \<lparr>wsW = sampleWriter, wsCalls = [], wsLog = []\<rparr>"
  using length_encodeHeader_sample
  by (simp add: writer_fits_def writer_start_def sampleWriter_def NewWriter_def RunHeader_Validate_def
      sampleHeader_def maxBodySize_def varintFields_def maxVarintField_def StageCount_def
      tritonRequestIDMax_def MaxMembership_def)

lemma sampleWriter_fields [simp]:
  "wPending sampleWriter = []" "wFlushing sampleWriter = None" "wClosed sampleWriter = False"
  "wActive sampleWriter = []" "wSink sampleWriter = []" "wFlushErr sampleWriter = False"
  by (simp_all add: sampleWriter_def NewWriter_def RunHeader_Validate_def sampleHeader_def
      maxBodySize_def varintFields_def maxVarintField_def StageCount_def tritonRequestIDMax_def
      MaxMembership_def)

abbreviation (input) sampleRun :: "writer_state \<Rightarrow> bool" where
  "sampleRun \<equiv> reach (writer_fits sampleHeader 8192 2) writer_step"

lemma sampleRun_start: "sampleRun \<lparr>wsW = sampleWriter, wsCalls = [], wsLog = []\<rparr>"
  by (rule reach_start, rule writer_fits_sample)

theorem record_never_blocks_witness:
  "\<exists>w'. Record_locked sampleRecord sampleWriter = Locked w' True"
proof -
  have "length (wActive sampleWriter) + maxFrameSize sampleWriter \<le> wBankBytes sampleWriter"
    using writer_inv_start [of sampleHeader 8192 2 "\<lparr>wsW = sampleWriter, wsCalls = [], wsLog = []\<rparr>"]
      writer_fits_sample
    by (simp add: writer_fits_def writer_inv_def fits_def maxFrameSize_def)
  then show ?thesis
    using record_never_blocks [OF sampleRun_start record_wf_sample] by auto
qed

lemma sampleRun_recorded:
  "\<exists>s. sampleRun s \<and> wsCalls s = [] \<and> length (wsLog s) = 1 \<and> \<not> wClosed (wsW s)
     \<and> wPending (wsW s) = [] \<and> wFlushing (wsW s) = None \<and> \<not> wFlushErr (wsW s)
     \<and> \<not> wFlusherDone (wsW s) \<and> wActive (wsW s) \<noteq> []"
proof -
  let ?s0 = "\<lparr>wsW = sampleWriter, wsCalls = [], wsLog = []\<rparr>"
  let ?r = "sampleRecord\<lparr>rSeq := wSeq sampleWriter + 1\<rparr>"
  let ?w1 = "sampleWriter\<lparr>wSeq := wSeq sampleWriter + 1\<rparr>"
  let ?w2 = "?w1\<lparr>wActive := frame sampleHeader ?r\<rparr>"
  have r0: "sampleRun ?s0" by (rule sampleRun_start)
  have r1: "sampleRun \<lparr>wsW = ?w1, wsCalls = [Taken ?r], wsLog = []\<rparr>"
    using reach_step [OF r0 take_seq [OF record_wf_sample refl]] by simp
  have wf: "record_wf ?r" using record_wf_sample by (simp add: record_wf_def)
  have inv: "writer_inv sampleHeader ?s0" by (rule reach_writer_inv [OF r0])
  then have f: "fits sampleHeader ?w1" by (simp add: writer_inv_def)
  then have "length (wActive ?w1) + maxFrameSize ?w1 \<le> wBankBytes ?w1"
    by (simp add: fits_def maxFrameSize_def)
  then have l: "Record_locked ?r ?w1 = Locked ?w2 True"
    using appendFrame_fits [OF f wf] by (simp add: Record_locked_def)
  let ?s1 = "\<lparr>wsW = ?w1, wsCalls = [Taken ?r], wsLog = []\<rparr>"
  have "writer_step ?s1 \<lparr>wsW = ?w2, wsCalls = [Accepted], wsLog = [?r]\<rparr>"
    using record_locked [of 0 ?s1 ?r ?w2 True] l by simp
  with r1 have r2: "sampleRun \<lparr>wsW = ?w2, wsCalls = [Accepted], wsLog = [?r]\<rparr>"
    by (rule reach_step)
  have "sampleRun \<lparr>wsW = ?w2\<lparr>wWritten := wWritten ?w2 + 1\<rparr>, wsCalls = [], wsLog = [?r]\<rparr>"
    using reach_step [OF r2 count_written [where i = 0]] by (simp add: remove_at_def)
  moreover have "frame sampleHeader ?r \<noteq> []" by (simp add: frame_def Let_def)
  moreover have "\<not> wFlusherDone sampleWriter" by (simp add: sampleWriter_def NewWriter_def
      RunHeader_Validate_def sampleHeader_def maxBodySize_def varintFields_def maxVarintField_def
      StageCount_def tritonRequestIDMax_def MaxMembership_def)
  ultimately show ?thesis by (intro exI conjI) (assumption, simp_all)
qed

lemma sampleRun_done:
  "\<exists>s. sampleRun s \<and> wsCalls s = [] \<and> length (wsLog s) = 1 \<and> wFlusherDone (wsW s)
     \<and> \<not> wFlushErr (wsW s)"
proof -
  obtain s where r: "sampleRun s" and s: "wsCalls s = []" "length (wsLog s) = 1"
      "\<not> wClosed (wsW s)" "wPending (wsW s) = []" "wFlushing (wsW s) = None"
      "\<not> wFlushErr (wsW s)" "\<not> wFlusherDone (wsW s)" "wActive (wsW s) \<noteq> []"
    using sampleRun_recorded by blast
  have inv: "writer_inv sampleHeader s" by (rule reach_writer_inv [OF r])
  then have c: "Suc (circulating (wsW s)) = wBanks (wsW s)"
    using s by (simp add: writer_inv_def Let_def)
  let ?w1 = "(wsW s)\<lparr>wClosed := True, wPendingClosed := True, wPending := [wActive (wsW s)]\<rparr>"
  have "Close (wsW s) = Locked ?w1 True" using Close_cases [OF c] s by simp
  then have r1: "sampleRun (s\<lparr>wsW := ?w1\<rparr>)" using reach_step [OF r close [OF s(3)]] by simp
  let ?w2 = "?w1\<lparr>wFlushing := Some (wActive (wsW s)), wPending := []\<rparr>"
  have r2: "sampleRun (s\<lparr>wsW := ?w2\<rparr>)"
    using reach_step [OF r1 flusher_takes] s by simp
  have "wFree (wsW s) < wBanks (wsW s)" using c by (simp add: circulating_def)
  then have r3: "sampleRun (s\<lparr>wsW := flush_write True (wActive (wsW s)) ?w2\<rparr>)"
    using reach_step [OF r2 flusher_writes [where ok = True]] s by simp
  have "sampleRun (s\<lparr>wsW := (flush_write True (wActive (wsW s)) ?w2)\<lparr>wFlusherDone := True,
      wFlushErr := False\<rparr>\<rparr>)"
    using reach_step [OF r3 flusher_ends [where ok = True]] s by (simp add: flush_write_def)
  then show ?thesis using s by (intro exI conjI) (assumption, simp_all)
qed

theorem stream_complete_witness:
  "\<exists>s ds. sampleRun s \<and> ReadStream (wSink (wsW s)) = Inr ds \<and> length ds = 1 \<and> wWritten (wsW s) = 1"
proof -
  obtain s where s: "sampleRun s" "wsCalls s = []" "length (wsLog s) = 1" "wFlusherDone (wsW s)"
      "\<not> wFlushErr (wsW s)"
    using sampleRun_done by blast
  have "header_fits sampleHeader"
    using length_encodeHeader_sample
    by (simp add: header_fits_def maxBodySize_def varintFields_def maxVarintField_def StageCount_def
        tritonRequestIDMax_def MaxMembership_def) (simp add: sampleHeader_def)
  from stream_complete [OF s(1) this s(4,5)] s show ?thesis by auto
qed

text \<open>
  \<^verbatim>\<open>NewWriter\<close>'s size check leaves the header out: it accepts a bank that a long enough
  header cannot be written to, and the first record then overflows the fresh bank instead
  of being refused or dropped. With a header that leaves room for a whole frame (the other
  properties' assumption, which the default bank meets by three orders of magnitude) this
  cannot happen.
\<close>

theorem small_bank_accepted:
  "\<exists>h w. NewWriter h (4 * int maxBodySize) 2 = Inr w
     \<and> (\<forall>r. record_wf r \<longrightarrow> Record_locked r w = BankOverflow)"
proof -
  let ?h = "sampleHeader\<lparr>hExperiment := replicate 5000 (CHR ''x'')\<rparr>"
  have size: "maxBodySize = 1055"
    by (simp add: maxBodySize_def varintFields_def maxVarintField_def StageCount_def
        tritonRequestIDMax_def MaxMembership_def)
  obtain w where w: "NewWriter ?h (4 * int maxBodySize) 2 = Inr w" and wf: "wBankBytes w = 4220"
      "wHeader w = encodeHeader ?h" "wActive w = []" "\<not> wClosed w" "wFree w = 1"
      "wPending w = []" "wBanks w = 2"
    by (auto simp: NewWriter_def RunHeader_Validate_def sampleHeader_def size)
  have big: "5000 \<le> length (wHeader w)"
    unfolding wf(2) encodeHeader_eq by (simp add: bfield_def)
  have "Record_locked r w = BankOverflow" if "record_wf r" for r
    using big wf appendRecord_dst [OF that, of "wHeader w"]
    by (simp add: Record_locked_def rotateLocked_def appendFrame_def maxFrameSize_def Let_def)
  with w show ?thesis by blast
qed

theorem small_bank_accepted_witness:
  "\<exists>h w. NewWriter h (4 * int maxBodySize) 2 = Inr w \<and> Record_locked zeroRecord w = BankOverflow"
proof -
  obtain h w where "NewWriter h (4 * int maxBodySize) 2 = Inr w"
      "\<forall>r. record_wf r \<longrightarrow> Record_locked r w = BankOverflow"
    using small_bank_accepted by blast
  then show ?thesis using record_wf_zero by blast
qed

end
