(* ===== verification/Suite.thy ===== *)
theory Suite
  imports Runner
begin

text \<open>
  The acceptance suite: which manifests it runs (\<^verbatim>\<open>internal/runner/suite.go\<close>), and whether two
  archived runs were built the same (\<^verbatim>\<open>internal/runner/implementation.go\<close>). Files and the JSON
  decoder are functions; a property's JSON value is a value of its Go type, which is what the
  encoder keeps apart, and the digest is a function of the encoding.
\<close>

section \<open>Lexical paths\<close>

text \<open>\<^verbatim>\<open>filepath.Join\<close> of two elements, with \<^verbatim>\<open>Clean\<close>'s treatment of dots and separators.\<close>

fun splitPath :: "string \<Rightarrow> string \<Rightarrow> string list" where
  "splitPath part [] = [rev part]"
| "splitPath part (c # cs) = (if c = CHR ''/'' then rev part # splitPath [] cs else splitPath (c # part) cs)"

fun cleanParts :: "bool \<Rightarrow> string list \<Rightarrow> string list \<Rightarrow> string list" where
  "cleanParts rooted kept [] = rev kept"
| "cleanParts rooted kept (p # ps) =
     cleanParts rooted
       (if p = [] \<or> p = ''.'' then kept
        else if p = ''..'' then
          (case kept of q # qs \<Rightarrow> if q \<noteq> ''..'' then qs else p # kept
           | [] \<Rightarrow> if rooted then [] else [p])
        else p # kept) ps"

definition joinWith :: "string \<Rightarrow> string list \<Rightarrow> string" where
  "joinWith sep xs = (case xs of [] \<Rightarrow> [] | x # xs \<Rightarrow> x @ concat (map (\<lambda>y. sep @ y) xs))"

definition cleanPath :: "string \<Rightarrow> string" where
  "cleanPath p =
     (let rooted = (p \<noteq> [] \<and> p ! 0 = CHR ''/'');
          out = joinWith ''/'' (cleanParts rooted [] (splitPath [] p))
      in if rooted then CHR ''/'' # out else if out = [] then ''.'' else out)"

definition joinPath :: "string \<Rightarrow> string \<Rightarrow> string" where
  "joinPath a b = (if a \<noteq> [] then cleanPath (a @ ''/'' @ b) else if b \<noteq> [] then cleanPath b else [])"

definition Dir :: "Manifest \<Rightarrow> string" where
  "Dir m = joinPath (mnBundleDir m) (mnRun m)"

section \<open>Loading a suite\<close>

definition SuiteSchemaVersion :: int where "SuiteSchemaVersion = 2"

record CellPair =
  cpA :: Cell
  cpB :: Cell

record Suite =
  suSchemaVersion :: int
  suManifests :: "string list"
  suSameImplementation :: "CellPair list"

datatype load_error = CannotRead string | CannotParse string | Invalid string manifest_error

datatype suite_error =
    SuiteVersion int
  | EmptySuite
  | DeclaredTwice string
  | BadManifest load_error
  | SameBundle string string string
  | ComparesItself Cell
  | ComparesUnrun Cell

text \<open>\<^verbatim>\<open>manifest.Load\<close>\<close>

definition Load :: "(string \<Rightarrow> byte list option) \<Rightarrow> (byte list \<Rightarrow> Manifest option) \<Rightarrow> string \<Rightarrow> load_error + Manifest" where
  "Load readFile decode path =
     (case readFile path of None \<Rightarrow> Inl (CannotRead path)
      | Some b \<Rightarrow>
          (case decode b of None \<Rightarrow> Inl (CannotParse path)
           | Some m \<Rightarrow> (case Manifest_Validate m of Some e \<Rightarrow> Inl (Invalid path e) | None \<Rightarrow> Inr m)))"

fun loadContracts :: "(string \<Rightarrow> load_error + Manifest) \<Rightarrow> string list \<Rightarrow> string list \<Rightarrow> (string \<times> string) list
    \<Rightarrow> Manifest list \<Rightarrow> suite_error + Manifest list" where
  "loadContracts load [] seen bundles contracts = Inr contracts"
| "loadContracts load (p # ps) seen bundles contracts =
     (if p \<in> set seen then Inl (DeclaredTwice p)
      else case load p of Inl e \<Rightarrow> Inl (BadManifest e)
      | Inr m \<Rightarrow>
          let dir = Dir m;
              first = (case map_of bundles dir of None \<Rightarrow> [] | Some q \<Rightarrow> q)
          in if first \<noteq> [] then Inl (SameBundle first p dir)
             else loadContracts load ps (p # seen) (AList.update dir p bundles) (contracts @ [m]))"

definition checkPair :: "Cell list \<Rightarrow> CellPair \<Rightarrow> suite_error option" where
  "checkPair declared pair =
     (if cpA pair = cpB pair then Some (ComparesItself (cpA pair))
      else map_option ComparesUnrun (find (\<lambda>cell. cell \<notin> set declared) [cpA pair, cpB pair]))"

definition LoadSuite :: "(string \<Rightarrow> load_error + Manifest) \<Rightarrow> Suite \<Rightarrow> suite_error + Manifest list" where
  "LoadSuite load s =
     (if suSchemaVersion s \<noteq> SuiteSchemaVersion then Inl (SuiteVersion (suSchemaVersion s))
      else if length (suManifests s) = 0 then Inl EmptySuite
      else case loadContracts load (suManifests s) [] [] [] of Inl e \<Rightarrow> Inl e
      | Inr contracts \<Rightarrow>
          (case List.map_filter (checkPair (map mnCell contracts)) (suSameImplementation s) of
             e # _ \<Rightarrow> Inl e | [] \<Rightarrow> Inr contracts))"

section \<open>What a run's processes were built as\<close>

definition ImplementationSchemaVersion :: int where "ImplementationSchemaVersion = 1"

record Implementation =
  imSchemaVersion :: int
  imExecutorKind :: string
  imModelEntry :: string
  imFeatureWidth :: int
  imPayloadFloats :: int
  imDownstreamMaxMessageBytes :: int
  imDownstreamInitialWindowSize :: int
  imDownstreamInitialConnWindowSize :: int
  imServingMaxMessageBytes :: int
  imServingInitialWindowSize :: int
  imServingInitialConnWindowSize :: int
  imArtifactID :: string
  imArtifactDigest :: string
  imConfigDigest :: string
  imEntryKind :: string
  imMaxBatchSize :: int
  imDynamicBatchingEnabled :: bool
  imInstanceKind :: string
  imInstanceCount :: int
  imEnvelopeSchemaVersion :: int

datatype impl_error =
    NoBundle
  | NoAdapterRecord Cell
  | NotCompleted Cell string
  | SameCell Cell

definition ImplementationOf :: "Bundle option \<Rightarrow> impl_error + Implementation" where
  "ImplementationOf bundle =
     (case bundle of None \<Rightarrow> Inl NoBundle
      | Some b \<Rightarrow>
          (case bnAdapter b of None \<Rightarrow> Inl (NoAdapterRecord (bnCell b))
           | Some a \<Rightarrow>
               Inr \<lparr>imSchemaVersion = ImplementationSchemaVersion,
                 imExecutorKind = prExecutor a, imModelEntry = prModelEntry a,
                 imFeatureWidth = prFeatureWidth a, imPayloadFloats = prPayloadFloats a,
                 imDownstreamMaxMessageBytes = tpMaxMessageBytes (prDownstream a),
                 imDownstreamInitialWindowSize = tpInitialWindowSize (prDownstream a),
                 imDownstreamInitialConnWindowSize = tpInitialConnWindowSize (prDownstream a),
                 imServingMaxMessageBytes = svMaxMessageBytes (prServing a),
                 imServingInitialWindowSize = svInitialWindowSize (prServing a),
                 imServingInitialConnWindowSize = svInitialConnWindowSize (prServing a),
                 imArtifactID = enArtifactID (bnModelEntry b), imArtifactDigest = enArtifactDigest (bnModelEntry b),
                 imConfigDigest = enConfigDigest (bnModelEntry b), imEntryKind = enKind (bnModelEntry b),
                 imMaxBatchSize = miMaxBatchSize (bnModelIdentity b),
                 imDynamicBatchingEnabled = miDynamicBatchingEnabled (bnModelIdentity b),
                 imInstanceKind = miInstanceKind (bnModelIdentity b),
                 imInstanceCount = miInstanceCount (bnModelIdentity b),
                 imEnvelopeSchemaVersion = bnEnvelopeSchemaVersion b\<rparr>))"

datatype json = JInt int | JStr string | JBool bool

definition implementationFields :: "Implementation \<Rightarrow> (string \<times> json) list" where
  "implementationFields i =
     [(''schema_version'', JInt (imSchemaVersion i)),
      (''executor_kind'', JStr (imExecutorKind i)),
      (''model_entry'', JStr (imModelEntry i)),
      (''feature_width'', JInt (imFeatureWidth i)),
      (''payload_floats'', JInt (imPayloadFloats i)),
      (''downstream_max_message_bytes'', JInt (imDownstreamMaxMessageBytes i)),
      (''downstream_initial_window_size'', JInt (imDownstreamInitialWindowSize i)),
      (''downstream_initial_conn_window_size'', JInt (imDownstreamInitialConnWindowSize i)),
      (''serving_max_message_bytes'', JInt (imServingMaxMessageBytes i)),
      (''serving_initial_window_size'', JInt (imServingInitialWindowSize i)),
      (''serving_initial_conn_window_size'', JInt (imServingInitialConnWindowSize i)),
      (''artifact_id'', JStr (imArtifactID i)),
      (''artifact_digest'', JStr (imArtifactDigest i)),
      (''config_digest'', JStr (imConfigDigest i)),
      (''entry_kind'', JStr (imEntryKind i)),
      (''max_batch_size'', JInt (imMaxBatchSize i)),
      (''dynamic_batching_enabled'', JBool (imDynamicBatchingEnabled i)),
      (''instance_kind'', JStr (imInstanceKind i)),
      (''instance_count'', JInt (imInstanceCount i)),
      (''envelope_schema_version'', JInt (imEnvelopeSchemaVersion i))]"

definition implementationFieldOrder :: "Implementation \<Rightarrow> string list" where
  "implementationFieldOrder i = map fst (implementationFields i)"

record PropertyDifference =
  pdProperty :: string
  pdA :: "json option"
  pdB :: "json option"

definition diffImplementations :: "Implementation \<Rightarrow> Implementation \<Rightarrow> PropertyDifference list" where
  "diffImplementations a b =
     List.map_filter (\<lambda>name.
         let va = map_of (implementationFields a) name; vb = map_of (implementationFields b) name in
         if va \<noteq> vb then Some \<lparr>pdProperty = name, pdA = va, pdB = vb\<rparr> else None)
       (implementationFieldOrder a)"

record Comparison =
  cmCellA :: Cell
  cmCellB :: Cell
  cmSame :: bool
  cmDigest :: string
  cmDifferences :: "PropertyDifference list"

definition checkCompleted :: "Bundle option \<Rightarrow> impl_error option" where
  "checkCompleted bundle =
     (case bundle of None \<Rightarrow> Some NoBundle
      | Some b \<Rightarrow> if bnState b \<noteq> StateCompleted then Some (NotCompleted (bnCell b) (bnState b)) else None)"

definition SameImplementation :: "((string \<times> json) list \<Rightarrow> string) \<Rightarrow> Bundle option \<Rightarrow> Bundle option \<Rightarrow> impl_error + Comparison" where
  "SameImplementation digest a b =
     (case checkCompleted a of Some e \<Rightarrow> Inl e
      | None \<Rightarrow>
     (case checkCompleted b of Some e \<Rightarrow> Inl e
      | None \<Rightarrow>
          if bnCell (the a) = bnCell (the b) then Inl (SameCell (bnCell (the a)))
          else
     (case ImplementationOf a of Inl e \<Rightarrow> Inl e
      | Inr implA \<Rightarrow>
     (case ImplementationOf b of Inl e \<Rightarrow> Inl e
      | Inr implB \<Rightarrow>
          let differences = diffImplementations implA implB; same = (length differences = 0)
          in Inr \<lparr>cmCellA = bnCell (the a), cmCellB = bnCell (the b), cmSame = same,
               cmDigest = (if same then digest (implementationFields implA) else []),
               cmDifferences = differences\<rparr>))))"

section \<open>The adapter's account of itself\<close>

datatype process_error = ProcessVersion int | NoRun | NoCell | NoExecutor | NoModel

definition ProcessRecord_Validate :: "int \<Rightarrow> ProcessRecord \<Rightarrow> process_error option" where
  "ProcessRecord_Validate version r =
     (if prSchemaVersion r \<noteq> version then Some (ProcessVersion (prSchemaVersion r))
      else if prRun r = [] then Some NoRun
      else if prCell r = [] then Some NoCell
      else if prExecutor r = [] then Some NoExecutor
      else if prModelEntry r = [] then Some NoModel
      else None)"

section \<open>A comparison says exactly whether the implementations are the same\<close>

lemma diff_names:
  "map pdProperty (diffImplementations a b)
     = filter (\<lambda>name. map_of (implementationFields a) name \<noteq> map_of (implementationFields b) name)
         (implementationFieldOrder a)"
proof -
  have "map pdProperty (List.map_filter (\<lambda>name. if f name \<noteq> g name then Some \<lparr>pdProperty = name, pdA = f name, pdB = g name\<rparr> else None) names)
      = filter (\<lambda>name. f name \<noteq> g name) names" for f g :: "string \<Rightarrow> json option" and names
    by (induction names) (simp_all add: List.map_filter_simps)
  then show ?thesis by (simp add: diffImplementations_def Let_def)
qed

lemma fields_inj: "implementationFields a = implementationFields b \<longleftrightarrow> a = b"
  by (cases a; cases b) (simp add: implementationFields_def)

lemma diff_Nil: "diffImplementations a b = [] \<longleftrightarrow> a = b"
proof
  assume "diffImplementations a b = []"
  then have "map pdProperty (diffImplementations a b) = []" by simp
  then have same: "map_of (implementationFields a) name = map_of (implementationFields b) name"
    if "name \<in> set (implementationFieldOrder a)" for name
    using that unfolding diff_names by (auto simp: filter_empty_conv)
  have order: "implementationFieldOrder a = implementationFieldOrder b" "distinct (implementationFieldOrder a)"
    by (simp_all add: implementationFieldOrder_def implementationFields_def)
  have lookup: "xs = ys" if "map fst xs = map fst ys" "distinct (map fst xs)" "\<And>n. n \<in> set (map fst xs) \<Longrightarrow> map_of xs n = map_of ys n"
    for xs ys :: "(string \<times> json) list"
    using that
  proof (induction xs ys rule: list_induct2')
    case (4 x xs y ys)
    have rest: "map_of xs n = map_of ys n" if "n \<in> set (map fst xs)" for n
    proof -
      have "n \<noteq> fst x" using 4(3) that by (metis distinct.simps(2) list.simps(9))
      then show ?thesis using 4(4) [of n] 4(2) that by (cases x; cases y) simp
    qed
    have "snd x = snd y" using 4(4) [of "fst x"] 4(2) by (cases x; cases y) auto
    moreover have "xs = ys"
    proof (rule 4(1))
      show "map fst xs = map fst ys" "distinct (map fst xs)" using 4(2,3) by simp_all
    qed (rule rest)
    ultimately show ?case using 4(2) by (simp add: prod_eq_iff)
  qed simp_all
  have "implementationFields a = implementationFields b"
    by (rule lookup [OF order [unfolded implementationFieldOrder_def] same [unfolded implementationFieldOrder_def]])
  then show "a = b" by (simp add: fields_inj)
next
  assume "a = b"
  then show "diffImplementations a b = []" using diff_names [of a b] by simp
qed


section \<open>Which suites load\<close>

lemma loadContracts_Inr:
  assumes "\<forall>d. map_of bundles d \<noteq> Some []" and "load [] = Inl e"
  shows "loadContracts load ps seen bundles contracts = Inr ms \<longleftrightarrow>
     list_all (\<lambda>p. \<not> isl (load p)) ps \<and> ms = contracts @ map (\<lambda>p. projr (load p)) ps \<and> distinct ps \<and> set ps \<inter> set seen = {}
        \<and> distinct (map (\<lambda>p. Dir (projr (load p))) ps) \<and> (\<lambda>p. Dir (projr (load p))) ` set ps \<inter> dom (map_of bundles) = {}"
  using assms(1)
proof (induction ps arbitrary: seen bundles contracts)
  case (Cons p ps)
  show ?case
  proof (cases "load p")
    case (Inl f)
    then show ?thesis by auto
  next
    case (Inr m)
    then have p: "p \<noteq> []" using assms(2) by auto
    have new: "\<forall>d. map_of (AList.update (Dir m) p bundles) d \<noteq> Some []" using Cons.prems p by (auto simp: update_conv')
    have free: "(case map_of bundles (Dir m) of None \<Rightarrow> [] | Some q \<Rightarrow> q) = [] \<longleftrightarrow> Dir m \<notin> dom (map_of bundles)"
      using Cons.prems by (auto split: option.splits)
    have dom: "dom (map_of (AList.update (Dir m) p bundles)) = insert (Dir m) (dom (map_of bundles))"
      by (auto simp: update_conv')
    show ?thesis
      using Inr free
      by (auto simp: Let_def Cons.IH [OF new] dom)
  qed
qed auto


text \<open>
  C37. A suite that loads is one whose assertions can all be executed: it is of this version,
  declares at least one contract and none twice, every contract loads as a valid manifest, no
  two write the same bundle directory, and every declared comparison is between two different
  cells the suite runs; such a suite always loads, with its contracts in declared order.
\<close>

theorem suite_loads:
  assumes "readFile [] = None"
  shows "(LoadSuite (Load readFile decode) s = Inr contracts) = (suSchemaVersion s = SuiteSchemaVersion \<and> suManifests s \<noteq> []
     \<and> distinct (suManifests s) \<and> map (Load readFile decode) (suManifests s) = map Inr contracts
     \<and> distinct (map Dir contracts)
     \<and> list_all (\<lambda>pair. cpA pair \<noteq> cpB pair \<and> list_ex (\<lambda>m. mnCell m = cpA pair) contracts
           \<and> list_ex (\<lambda>m. mnCell m = cpB pair) contracts) (suSameImplementation s))"
proof -
  have empty: "Load readFile decode [] = Inl (CannotRead [])" by (simp add: Load_def assms)
  have loads: "map f ps = map Inr ms \<longleftrightarrow> list_all (\<lambda>p. \<not> isl (f p)) ps \<and> ms = map (\<lambda>p. projr (f p)) ps"
    for f :: "string \<Rightarrow> load_error + Manifest" and ps ms
    by (induction ps arbitrary: ms) (auto simp: Cons_eq_map_conv isl_def)
  have all: "loadContracts (Load readFile decode) ps [] [] [] = Inr ms \<longleftrightarrow>
      distinct ps \<and> map (Load readFile decode) ps = map Inr ms \<and> distinct (map Dir ms)" for ps ms
    by (subst loadContracts_Inr [where load = "Load readFile decode" and bundles = "[]", OF _ empty]) (auto simp: loads comp_def)
  have pairs: "List.map_filter (checkPair cells) ps = [] \<longleftrightarrow>
      list_all (\<lambda>pair. cpA pair \<noteq> cpB pair \<and> cpA pair \<in> set cells \<and> cpB pair \<in> set cells) ps" for cells ps
    by (induction ps) (auto simp: List.map_filter_simps checkPair_def)
  have "LoadSuite (Load readFile decode) s = Inr contracts \<longleftrightarrow> suSchemaVersion s = SuiteSchemaVersion \<and> suManifests s \<noteq> []
      \<and> loadContracts (Load readFile decode) (suManifests s) [] [] [] = Inr contracts
      \<and> List.map_filter (checkPair (map mnCell contracts)) (suSameImplementation s) = []"
    by (auto simp: LoadSuite_def split: sum.splits list.splits)
  moreover have "list_ex (\<lambda>m. mnCell m = c) contracts \<longleftrightarrow> c \<in> set (map mnCell contracts)" for c
    by (auto simp: list_ex_iff)
  ultimately show ?thesis unfolding all pairs by auto
qed


definition sampleSuite :: Suite where
  "sampleSuite = \<lparr>suSchemaVersion = 2, suManifests = [''f00.json'', ''f10.json''],
     suSameImplementation = [\<lparr>cpA = CellF00, cpB = CellF10\<rparr>]\<rparr>"

definition sampleFiles :: "string \<Rightarrow> byte list option" where
  "sampleFiles path = (if path = ''f00.json'' then Some [0] else if path = ''f10.json'' then Some [1] else None)"

definition sampleDecode :: "byte list \<Rightarrow> Manifest option" where
  "sampleDecode b = (if b = [0] then Some (sampleManifest CellF00)
     else Some ((sampleManifest CellF10)\<lparr>mnRun := ''r2''\<rparr>))"

theorem suite_loads_witness:
  "LoadSuite (Load sampleFiles sampleDecode) sampleSuite
     = Inr [sampleManifest CellF00, (sampleManifest CellF10)\<lparr>mnRun := ''r2''\<rparr>]"
proof -
  have "Manifest_Validate (sampleManifest CellF00) = None" by (rule sampleManifest_valid) simp
  moreover have "Manifest_Validate ((sampleManifest CellF10)\<lparr>mnRun := ''r2''\<rparr>) = None"
    unfolding Manifest_Validate_None Let_def
    by (auto simp: sampleManifest_def requiredFields_def Identity.Implemented_def implementedCells_def UsesProxy_def
        AggregatesEnvelopes_def VectorizesCompute_def MaxOrdinal_def wrap64_def)
  ultimately have "map (Load sampleFiles sampleDecode) (suManifests sampleSuite)
      = map Inr [sampleManifest CellF00, (sampleManifest CellF10)\<lparr>mnRun := ''r2''\<rparr>]"
    by (simp add: Load_def sampleFiles_def sampleDecode_def sampleSuite_def)
  moreover have "Dir (sampleManifest CellF00) = ''out/r''" "Dir ((sampleManifest CellF10)\<lparr>mnRun := ''r2''\<rparr>) = ''out/r2''"
    by (simp_all add: Dir_def joinPath_def cleanPath_def joinWith_def sampleManifest_def)
  ultimately show ?thesis
    by (subst suite_loads) (simp_all add: sampleFiles_def sampleSuite_def SuiteSchemaVersion_def, simp_all add: sampleManifest_def)
qed

end
