(* ===== verification/ProxyProofs.thy ===== *)
theory ProxyProofs
  imports Proxy
begin

text \<open>
  The invariant of cohort formation and its preservation, one critical section at a time:
  first what each section does to a registry that satisfies the invariant, then the
  goroutines around it.
\<close>

section \<open>The registry\<close>

definition admitted :: "formation \<Rightarrow> nat" where
  "admitted f = length (filter slAdmitted (fmSlots f))"

definition open_form :: "int \<Rightarrow> formation \<Rightarrow> bool" where
  "open_form B f \<longleftrightarrow> fmTerminal f = None \<and> \<not> fmSealed f \<and> \<not> fmDone f \<and> fmTargetB f = B
     \<and> length (fmSlots f) = nat B \<and> fmArrived f = int (admitted f) \<and> admitted f < nat B
     \<and> fmEnv f = None \<and> fmDeadline f"

definition failed_form :: "formation \<Rightarrow> bool" where
  "failed_form f \<longleftrightarrow> fmTerminal f \<noteq> None \<and> \<not> fmSealed f \<and> fmDone f \<and> fmSlots f = [] \<and> fmEnv f = None"

definition sealed_form :: "int \<Rightarrow> formation \<Rightarrow> bool" where
  "sealed_form B f \<longleftrightarrow> fmTerminal f = None \<and> fmSealed f \<and> fmTargetB f = B
     \<and> length (fmSlots f) = nat B \<and> (\<forall>x \<in> set (fmSlots f). slAdmitted x)
     \<and> (fmDone f \<longrightarrow> fmEnv f \<noteq> None)"

definition form_ok :: "int \<Rightarrow> formation \<Rightarrow> bool" where
  "form_ok B f \<longleftrightarrow> open_form B f \<or> failed_form f \<or> sealed_form B f"

definition env_of :: "Config \<Rightarrow> formation \<Rightarrow> RequestEnvelope \<Rightarrow> bool" where
  "env_of bc f env \<longleftrightarrow> (\<exists>b a. bldCfg b = bc \<and> env = (sealedEnvelope b (fst (assembled f))
     (snd (assembled f)) (fmSealAt f) (fmSendAt f))\<lparr>eAuxiliaryBytes := a\<rparr>)"

definition form_inv :: "int \<Rightarrow> Config \<Rightarrow> byte list set \<Rightarrow> formation \<Rightarrow> bool" where
  "form_inv B bc P f \<longleftrightarrow> form_ok B f
     \<and> (\<forall>x \<in> set (fmSlots f). slAdmitted x \<longrightarrow> slPayload x \<in> P)
     \<and> (\<forall>env. fmEnv f = Some env \<longrightarrow> env_of bc f env)"

definition reg_inv :: "formation list \<Rightarrow> (CohortID \<times> nat) list \<Rightarrow> bool" where
  "reg_inv H R \<longleftrightarrow> distinct (map fst R)
     \<and> (\<forall>c fid. map_of R c = Some fid \<longrightarrow> fid < length H \<and> fmCohort (H ! fid) = c \<and> \<not> fmSealed (H ! fid))
     \<and> (\<forall>fid < length H. fmSealed (H ! fid) \<longrightarrow>
          (\<exists>m. map_of R (fmCohort (H ! fid)) = Some m \<and> fmTerminal (H ! m) \<noteq> None))
     \<and> (\<forall>fid < length H. fmTerminal (H ! fid) = None \<and> \<not> fmSealed (H ! fid) \<longrightarrow>
          map_of R (fmCohort (H ! fid)) = Some fid)
     \<and> (\<forall>i < length H. \<forall>j < length H. fmSealed (H ! i) \<and> fmSealed (H ! j)
          \<and> fmCohort (H ! i) = fmCohort (H ! j) \<longrightarrow> i = j)"

definition svc_inv :: "int \<Rightarrow> Config \<Rightarrow> byte list set \<Rightarrow> Service \<Rightarrow> bool" where
  "svc_inv B bc P s \<longleftrightarrow> 0 < B \<and> pcTargetB (svCfg s) = B \<and> bldCfg (svBuilder s) = bc
     \<and> (\<forall>f \<in> set (svHeap s). form_inv B bc P f) \<and> reg_inv (svHeap s) (svForming s)"

text \<open>How one formation may change while other goroutines hold it.\<close>

definition keeps :: "formation \<Rightarrow> formation \<Rightarrow> bool" where
  "keeps f f' \<longleftrightarrow> fmCohort f' = fmCohort f
     \<and> (fmTerminal f' = None \<longrightarrow> fmTerminal f = None \<and> length (fmSlots f') = length (fmSlots f)
        \<and> (\<forall>k < length (fmSlots f). slAdmitted (fmSlots f ! k) \<longrightarrow> fmSlots f' ! k = fmSlots f ! k))"

lemma keeps_refl [simp]: "keeps f f"
  by (simp add: keeps_def)

lemma failLocked_open:
  "\<not> fmDone f \<Longrightarrow> failLocked e f = Some (f\<lparr>fmTerminal := Some e, fmSlots := [], fmDone := True\<rparr>)"
  by (simp add: failLocked_def closeDone_def)

lemma form_inv_failed:
  assumes "open_form B f"
  shows "form_inv B bc P (f\<lparr>fmTerminal := Some e, fmSlots := [], fmDone := True\<rparr>)"
    and "keeps f (f\<lparr>fmTerminal := Some e, fmSlots := [], fmDone := True\<rparr>)"
  using assms by (simp_all add: form_inv_def form_ok_def failed_form_def open_form_def keeps_def)

lemma form_inv_new: "0 < B \<Longrightarrow> form_inv B bc P ((newFormation c B)\<lparr>fmDeadline := True\<rparr>)"
  by (auto simp: form_inv_def form_ok_def open_form_def newFormation_def admitted_def)

lemma form_inv_marker: "form_inv B bc P (sealedAlready c B)"
  by (simp add: form_inv_def form_ok_def failed_form_def sealedAlready_def newFormation_def)

lemma set_update_inv: "\<forall>x \<in> set xs. Q x \<Longrightarrow> Q y \<Longrightarrow> \<forall>x \<in> set (xs[i := y]). Q x"
  using set_update_subset_insert [of xs i y] by auto

text \<open>Replacing one unsealed formation by one that stays unsealed keeps the registry's shape.\<close>

lemma reg_inv_put:
  assumes "reg_inv H R" and "fid < length H"
    and "fmCohort f = fmCohort (H ! fid)" "fmSealed f = fmSealed (H ! fid)"
    and "fmTerminal f = None \<longrightarrow> fmTerminal (H ! fid) = None"
  shows "reg_inv (H[fid := f]) R"
  unfolding reg_inv_def length_list_update
proof (intro conjI allI impI)
  note r = assms(1) [unfolded reg_inv_def]
  show "distinct (map fst R)" using r by blast
  fix c i
  show "i < length H" if "map_of R c = Some i" using r that by blast
  show "fmCohort (H[fid := f] ! i) = c" if "map_of R c = Some i"
    using r that assms(2,3) by (cases "i = fid") auto
  show "\<not> fmSealed (H[fid := f] ! i)" if "map_of R c = Some i"
    using r that assms(2,4) by (cases "i = fid") auto
next
  note r = assms(1) [unfolded reg_inv_def]
  fix i assume i: "i < length H" and s: "fmSealed (H[fid := f] ! i)"
  then have "fmSealed (H ! i)" "fmCohort (H[fid := f] ! i) = fmCohort (H ! i)"
    using assms(2-4) by (cases "i = fid"; simp)+
  with r i obtain m where "map_of R (fmCohort (H ! i)) = Some m" "fmTerminal (H ! m) \<noteq> None" by blast
  then show "\<exists>m. map_of R (fmCohort (H[fid := f] ! i)) = Some m \<and> fmTerminal (H[fid := f] ! m) \<noteq> None"
    using \<open>fmCohort (H[fid := f] ! i) = fmCohort (H ! i)\<close> assms(2,5)
    by (intro exI [of _ m]) (cases "m = fid"; auto)
next
  note r = assms(1) [unfolded reg_inv_def]
  fix i assume i: "i < length H"
    and o: "fmTerminal (H[fid := f] ! i) = None \<and> \<not> fmSealed (H[fid := f] ! i)"
  then have "fmTerminal (H ! i) = None \<and> \<not> fmSealed (H ! i)" "fmCohort (H[fid := f] ! i) = fmCohort (H ! i)"
    using assms(2-5) by (cases "i = fid"; simp)+
  with r i show "map_of R (fmCohort (H[fid := f] ! i)) = Some i" by simp
next
  note r = assms(1) [unfolded reg_inv_def]
  fix i j assume ij: "i < length H" "j < length H"
    "fmSealed (H[fid := f] ! i) \<and> fmSealed (H[fid := f] ! j) \<and> fmCohort (H[fid := f] ! i) = fmCohort (H[fid := f] ! j)"
  then have "fmSealed (H ! i) \<and> fmSealed (H ! j) \<and> fmCohort (H ! i) = fmCohort (H ! j)"
    using assms(2-4) by (cases "i = fid"; cases "j = fid"; simp)
  with r ij(1,2) show "i = j" by blast
qed

lemma svc_inv_put:
  assumes "svc_inv B bc P s" and "fid < length (svHeap s)" and "form_inv B bc P f"
    and "fmCohort f = fmCohort (svHeap s ! fid)" "fmSealed f = fmSealed (svHeap s ! fid)"
    and "fmTerminal f = None \<longrightarrow> fmTerminal (svHeap s ! fid) = None"
  shows "svc_inv B bc P (put fid f s)"
  using assms reg_inv_put [of "svHeap s" "svForming s" fid f]
    set_update_inv [of "svHeap s" "form_inv B bc P" f fid]
  by (simp add: svc_inv_def put_def)

lemma reg_inv_open:
  assumes "reg_inv H R" and "map_of R (fmCohort f) = None" and "\<not> fmSealed f"
  shows "reg_inv (H @ [f]) (AList.update (fmCohort f) (length H) R)"
proof -
  note r = assms(1) [unfolded reg_inv_def]
  have none: "fmCohort (H ! i) \<noteq> fmCohort f" if "i < length H" "fmTerminal (H ! i) = None \<or> fmSealed (H ! i)" for i
    using r that assms(2) by (metis option.distinct(1))
  show ?thesis
    unfolding reg_inv_def
    using r none assms(3)
    by (auto simp: update_conv' nth_append less_Suc_eq distinct_update split: if_splits) metis+
qed

lemma reg_inv_seal:
  assumes "reg_inv H R" and "fid < length H" and "map_of R (fmCohort (H ! fid)) = Some fid"
    and open_fid: "fmTerminal (H ! fid) = None" and "fmCohort f = fmCohort (H ! fid)" "fmSealed f" "fmTerminal f = None"
    and "fmCohort g = fmCohort (H ! fid)" "\<not> fmSealed g" "fmTerminal g \<noteq> None"
  shows "reg_inv (H[fid := f] @ [g]) (AList.update (fmCohort (H ! fid)) (length H) R)"
proof -
  note r = assms(1) [unfolded reg_inv_def]
  let ?c = "fmCohort (H ! fid)"
  let ?H = "H[fid := f] @ [g]" and ?R = "AList.update ?c (length H) R"
  have nt: "\<not> fmSealed (H ! fid)" using r assms(2,3) by blast
  have at: "?H ! i = (if i = fid then f else if i = length H then g else H ! i)" if "i \<le> length H" for i
    using that assms(2) by (auto simp: nth_append)
  have other: "fmCohort (H ! i) \<noteq> ?c" if si: "i < length H" "fmSealed (H ! i)" for i
  proof
    assume "fmCohort (H ! i) = ?c"
    moreover obtain m where "map_of R (fmCohort (H ! i)) = Some m" "fmTerminal (H ! m) \<noteq> None"
      using r si by blast
    ultimately show False using assms(3) open_fid by simp
  qed
  have c1: "i < length ?H \<and> fmCohort (?H ! i) = c \<and> \<not> fmSealed (?H ! i)" if "map_of ?R c = Some i" for c i
  proof (cases "c = ?c")
    case True
    with that have "i = length H" by (simp add: update_conv')
    with True show ?thesis using at [of i] assms(2,8,9) by simp
  next
    case False
    with that have "map_of R c = Some i" by (simp add: update_conv')
    with r have "i < length H" "fmCohort (H ! i) = c" "\<not> fmSealed (H ! i)" by blast+
    with False show ?thesis using at [of i] by auto
  qed
  have c2: "\<exists>m. map_of ?R (fmCohort (?H ! i)) = Some m \<and> fmTerminal (?H ! m) \<noteq> None"
    if "i \<le> length H" "fmSealed (?H ! i)" for i
  proof (cases "i = fid")
    case True
    then show ?thesis using at [of i] at [of "length H"] that(1) assms(2,5,10) by (simp add: update_conv')
  next
    case False
    with that at [of i] assms(9) have i: "i < length H" "fmSealed (H ! i)" by (auto split: if_splits)
    then obtain m where m: "map_of R (fmCohort (H ! i)) = Some m" "fmTerminal (H ! m) \<noteq> None"
      using r by blast
    have "m < length H" using r m(1) by blast
    moreover have "m \<noteq> fid" using m(2) open_fid by auto
    ultimately show ?thesis using at [of i] at [of m] i m False other [OF i] by (simp add: update_conv')
  qed
  have c3: "map_of ?R (fmCohort (?H ! i)) = Some i"
    if "i \<le> length H" "fmTerminal (?H ! i) = None" "\<not> fmSealed (?H ! i)" for i
  proof -
    from that at [of i] assms(6,10) have i: "i < length H" "i \<noteq> fid" "?H ! i = H ! i"
      by (auto split: if_splits)
    with that r have "map_of R (fmCohort (H ! i)) = Some i" by simp
    with i assms(3) show ?thesis by (auto simp: update_conv')
  qed
  have c4: "i = j" if ij: "i \<le> length H" "j \<le> length H" "fmSealed (?H ! i)" "fmSealed (?H ! j)"
      "fmCohort (?H ! i) = fmCohort (?H ! j)" for i j
  proof -
    have k: "k = fid \<or> (k < length H \<and> k \<noteq> fid \<and> ?H ! k = H ! k)"
      if "k \<le> length H" "fmSealed (?H ! k)" for k
      using that at [of k] assms(9) by (auto split: if_splits)
    have f: "?H ! fid = f" using at [of fid] assms(2) by simp
    consider "i = fid" "j = fid" | "i = fid" "j < length H" "?H ! j = H ! j"
      | "j = fid" "i < length H" "?H ! i = H ! i"
      | "i < length H" "j < length H" "?H ! i = H ! i" "?H ! j = H ! j"
      using k [of i] k [of j] ij(1-4) by blast
    then show ?thesis
    proof cases
      case 2
      with ij f other [of j] assms(5) show ?thesis by simp
    next
      case 3
      with ij f other [of i] assms(5) show ?thesis by simp
    next
      case 4
      with ij have "fmSealed (H ! i) \<and> fmSealed (H ! j) \<and> fmCohort (H ! i) = fmCohort (H ! j)" by simp
      with r 4(1,2) show ?thesis by blast
    qed simp
  qed
  show ?thesis
    unfolding reg_inv_def
    using r c1 c2 c3 c4 by (auto simp: distinct_update less_Suc_eq_le)
qed

text \<open>The part of \<^verbatim>\<open>join\<close> after the registry lookup, on an open formation.\<close>

definition admits :: "int64 \<Rightarrow> LogicalRequest \<Rightarrow> byte list \<Rightarrow> nat \<Rightarrow> Service
    \<Rightarrow> form_error + nat \<times> bool \<Rightarrow> Service \<Rightarrow> bool" where
  "admits now m p fid s r s' \<longleftrightarrow>
     (let f = svHeap s ! fid; f' = svHeap s' ! fid in
      length (svHeap s) \<le> length (svHeap s') \<and> svCfg s' = svCfg s
      \<and> (\<forall>i < length (svHeap s). i \<noteq> fid \<longrightarrow> svHeap s' ! i = svHeap s ! i)
      \<and> (\<forall>i < length (svHeap s'). length (svHeap s) \<le> i \<longrightarrow> \<not> fmSealed (svHeap s' ! i))
      \<and> keeps f f' \<and> (fmSealed f' \<longrightarrow> r = Inr (fid, True))
      \<and> (case r of Inl e \<Rightarrow> fmTerminal f' = Some e
         | Inr (i, full) \<Rightarrow> i = fid \<and> fmTerminal f' = None \<and> fmEnv f' = None \<and> \<not> fmDone f'
             \<and> full = fmSealed f' \<and> unat (Ordinal m) < length (fmSlots f')
             \<and> fmSlots f' ! unat (Ordinal m) = \<lparr>slPayload = p, slAdmitted = True\<rparr>))"

lemma admitted_update:
  assumes "k < length (fmSlots f)" and "\<not> slAdmitted (fmSlots f ! k)"
  shows "admitted (f\<lparr>fmSlots := (fmSlots f)[k := \<lparr>slPayload = p, slAdmitted = True\<rparr>], fmArrived := n\<rparr>)
       = Suc (admitted f)"
proof -
  have "fmSlots f = take k (fmSlots f) @ fmSlots f ! k # drop (Suc k) (fmSlots f)"
    using assms(1) by (simp add: id_take_nth_drop)
  then have "filter slAdmitted (fmSlots f)
      = filter slAdmitted (take k (fmSlots f) @ fmSlots f ! k # drop (Suc k) (fmSlots f))" by simp
  then show ?thesis using assms by (simp add: admitted_def upd_conv_take_nth_drop)
qed

lemma all_admitted:
  "length (filter slAdmitted xs) = length xs \<Longrightarrow> \<forall>x \<in> set xs. slAdmitted x"
  by (metis length_filter_less nat_neq_iff)

lemma svc_inv_form:
  assumes "svc_inv B bc P s" and "fid < length (svHeap s)"
  shows "form_inv B bc P (svHeap s ! fid)"
  using assms by (simp add: svc_inv_def)

lemma open_form_of:
  assumes "svc_inv B bc P s" and "fid < length (svHeap s)"
    and "fmTerminal (svHeap s ! fid) = None" and "\<not> fmSealed (svHeap s ! fid)"
  shows "open_form B (svHeap s ! fid)"
  using svc_inv_form [OF assms(1,2)] assms(3,4)
  by (auto simp: form_inv_def form_ok_def failed_form_def sealed_form_def)

lemma joinFailed_ok:
  assumes inv: "svc_inv B bc P s" and fid: "fid < length (svHeap s)" and o: "open_form B (svHeap s ! fid)"
  shows "\<exists>s'. joinFailed fid e s = Some (Inl e, s') \<and> svc_inv B bc P s' \<and> admits now m p fid s (Inl e) s'"
proof -
  let ?f = "(svHeap s ! fid)\<lparr>fmTerminal := Some e, fmSlots := [], fmDone := True\<rparr>"
  have "joinFailed fid e s = Some (Inl e, put fid ?f s)"
    using o failLocked_open [of "svHeap s ! fid" e] by (simp add: joinFailed_def open_form_def)
  moreover have "svc_inv B bc P (put fid ?f s)"
    using form_inv_failed(1) [OF o] by (intro svc_inv_put [OF inv fid]) simp_all
  moreover have "admits now m p fid s (Inl e) (put fid ?f s)"
    using form_inv_failed(2) [OF o] fid o by (simp add: admits_def put_def Let_def open_form_def)
  ultimately show ?thesis by blast
qed

lemma admitMember_ok:
  assumes inv: "svc_inv B bc P s" and reg: "map_of (svForming s) (Cohort m) = Some fid"
    and o: "open_form B (svHeap s ! fid)" and p: "p \<in> P"
  shows "\<exists>r s'. admitMember now m p fid s = Some (r, s') \<and> svc_inv B bc P s' \<and> admits now m p fid s r s'
           \<and> fmCohort (svHeap s ! fid) = Cohort m"
proof -
  let ?f = "svHeap s ! fid" and ?o = "unat (Ordinal m)"
  have fid: "fid < length (svHeap s)" and c: "fmCohort ?f = Cohort m"
    using inv reg by (auto simp: svc_inv_def reg_inv_def)
  note fi = svc_inv_form [OF inv fid]
  note of = o [unfolded open_form_def]
  show ?thesis
  proof (cases "fmTargetB ?f \<le> int ?o")
    case True
    then show ?thesis using joinFailed_ok [OF inv fid o] c of by (simp add: admitMember_def Let_def) blast
  next
    case False
    have t: "fmTargetB ?f = B" and l: "length (fmSlots ?f) = nat B" using of by simp_all
    have ord: "?o < length (fmSlots ?f)" using False unfolding t stray_iff l not_le .
    show ?thesis
    proof (cases "slAdmitted (fmSlots ?f ! ?o)")
      case True
      then show ?thesis using joinFailed_ok [OF inv fid o] c of False ord
        by (simp add: admitMember_def Let_def) blast
    next
      case new: False
      let ?g = "?f\<lparr>fmSlots := (fmSlots ?f)[?o := \<lparr>slPayload = p, slAdmitted = True\<rparr>],
                   fmArrived := fmArrived ?f + 1\<rparr>"
      have adm: "admitted ?g = Suc (admitted ?f)" by (rule admitted_update [OF ord new])
      have keeps: "keeps ?f ?g"
      proof -
        have "(fmSlots ?f)[?o := y] ! k = fmSlots ?f ! k" if "slAdmitted (fmSlots ?f ! k)" for k y
          using new that by (cases "k = ?o") simp_all
        then show ?thesis using of by (simp add: keeps_def)
      qed
      have slots: "\<forall>x \<in> set (fmSlots ?g). slAdmitted x \<longrightarrow> slPayload x \<in> P"
        using fi p set_update_inv [of "fmSlots ?f" "\<lambda>x. slAdmitted x \<longrightarrow> slPayload x \<in> P"
            "\<lparr>slPayload = p, slAdmitted = True\<rparr>" ?o]
        by (simp add: form_inv_def)
      show ?thesis
      proof (cases "fmArrived ?g < fmTargetB ?g")
        case True
        then have "form_inv B bc P ?g"
          using of slots adm by (simp add: form_inv_def form_ok_def open_form_def nat_less_iff zless_nat_eq_int_zless)
        then have "svc_inv B bc P (put fid ?g s)" by (intro svc_inv_put [OF inv fid]) simp_all
        moreover have "admits now m p fid s (Inr (fid, False)) (put fid ?g s)"
          using keeps of fid ord by (simp add: admits_def put_def Let_def)
        moreover have "admitMember now m p fid s = Some (Inr (fid, False), put fid ?g s)"
          using False new ord of True by (simp add: admitMember_def Let_def)
        ultimately show ?thesis using c by blast
      next
        case full: False
        let ?h = "?g\<lparr>fmSealAt := now, fmSealed := True\<rparr>"
        let ?s = "s\<lparr>svHeap := (svHeap s)[fid := ?h] @ [sealedAlready (Cohort m) B],
                    svForming := AList.update (Cohort m) (length (svHeap s)) (svForming s)\<rparr>"
        have "length (filter slAdmitted (fmSlots ?g)) = length (fmSlots ?g)"
          using full of adm length_filter_le [of slAdmitted "fmSlots ?g"]
          by (simp add: admitted_def) linarith
        then have all: "\<forall>x \<in> set (fmSlots ?h). slAdmitted x"
          using all_admitted [of "fmSlots ?g"] by simp
        have h: "form_inv B bc P ?h"
          using of slots all by (simp add: form_inv_def form_ok_def sealed_form_def)
        have "reg_inv (svHeap ?s) (svForming ?s)"
          using reg_inv_seal [of "svHeap s" "svForming s" fid ?h "sealedAlready (Cohort m) B"] inv reg fid c of
          by (simp add: svc_inv_def sealedAlready_def newFormation_def)
        then have "svc_inv B bc P ?s"
          using inv h form_inv_marker set_update_inv [of "svHeap s" "form_inv B bc P" ?h fid]
          by (simp add: svc_inv_def)
        moreover have "admits now m p fid s (Inr (fid, True)) ?s"
          using keeps of fid ord
          by (simp add: admits_def Let_def nth_append sealedAlready_def newFormation_def keeps_def)
        moreover have "admitMember now m p fid s = Some (Inr (fid, True), ?s)"
          using False new ord of full c by (simp add: admitMember_def Let_def put_def)
        ultimately show ?thesis using c by blast
      qed
    qed
  qed
qed

text \<open>What every critical section guarantees the goroutines that do not run it.\<close>

definition evolves :: "Service \<Rightarrow> Service \<Rightarrow> bool" where
  "evolves s s' \<longleftrightarrow> length (svHeap s) \<le> length (svHeap s') \<and> svCfg s' = svCfg s
     \<and> (\<forall>i < length (svHeap s). keeps (svHeap s ! i) (svHeap s' ! i)
          \<and> (fmSealed (svHeap s ! i) \<longrightarrow> svHeap s' ! i = svHeap s ! i))"

definition newly_sealed :: "Service \<Rightarrow> Service \<Rightarrow> nat set" where
  "newly_sealed s s' = {i. i < length (svHeap s') \<and> fmSealed (svHeap s' ! i)
     \<and> (i < length (svHeap s) \<longrightarrow> \<not> fmSealed (svHeap s ! i))}"

definition holds :: "Service \<Rightarrow> nat \<Rightarrow> LogicalRequest \<Rightarrow> byte list \<Rightarrow> bool" where
  "holds s fid m p \<longleftrightarrow> fid < length (svHeap s) \<and> fmCohort (svHeap s ! fid) = Cohort m
     \<and> (fmTerminal (svHeap s ! fid) = None \<longrightarrow> unat (Ordinal m) < length (fmSlots (svHeap s ! fid))
        \<and> fmSlots (svHeap s ! fid) ! unat (Ordinal m) = \<lparr>slPayload = p, slAdmitted = True\<rparr>)"

definition join_result :: "LogicalRequest \<Rightarrow> byte list \<Rightarrow> Service \<Rightarrow> form_error + nat \<times> bool
    \<Rightarrow> Service \<Rightarrow> bool" where
  "join_result m p s r s' \<longleftrightarrow>
     (case r of Inl _ \<Rightarrow> newly_sealed s s' = {}
      | Inr (fid, full) \<Rightarrow> holds s' fid m p \<and> fmTerminal (svHeap s' ! fid) = None
          \<and> \<not> fmDone (svHeap s' ! fid) \<and> fmEnv (svHeap s' ! fid) = None
          \<and> (fid < length (svHeap s) \<longrightarrow> \<not> fmSealed (svHeap s ! fid))
          \<and> full = fmSealed (svHeap s' ! fid)
          \<and> newly_sealed s s' = (if full then {fid} else {}))"

lemma evolves_refl [simp]: "evolves s s"
  by (simp add: evolves_def)

lemma keeps_trans: "keeps a b \<Longrightarrow> keeps b c \<Longrightarrow> keeps a c"
  by (auto simp: keeps_def)

lemma evolves_trans:
  assumes "evolves a b" and "evolves b c"
  shows "evolves a c"
  unfolding evolves_def
proof (intro conjI allI impI)
  show "length (svHeap a) \<le> length (svHeap c)" "svCfg c = svCfg a" using assms by (simp_all add: evolves_def)
  fix i assume i: "i < length (svHeap a)"
  then have ib: "i < length (svHeap b)" using assms(1) by (simp add: evolves_def)
  show "keeps (svHeap a ! i) (svHeap c ! i)"
    using assms i ib by (auto simp: evolves_def intro: keeps_trans)
  show "svHeap c ! i = svHeap a ! i" if "fmSealed (svHeap a ! i)"
    using assms i ib that by (simp add: evolves_def)
qed

lemma admits_evolves:
  assumes "admits now m p fid s r s'" and "fid < length (svHeap s)" and "\<not> fmSealed (svHeap s ! fid)"
  shows "evolves s s'"
  unfolding evolves_def
proof (intro conjI allI impI)
  show "length (svHeap s) \<le> length (svHeap s')" "svCfg s' = svCfg s" using assms(1) by (simp_all add: admits_def Let_def)
  fix i assume i: "i < length (svHeap s)"
  show "keeps (svHeap s ! i) (svHeap s' ! i)"
    using assms i by (cases "i = fid") (simp_all add: admits_def Let_def)
  show "svHeap s' ! i = svHeap s ! i" if "fmSealed (svHeap s ! i)"
    using assms i that by (cases "i = fid") (simp_all add: admits_def Let_def)
qed

lemma admits_newly_sealed:
  assumes "admits now m p fid s r s'" and "fid < length (svHeap s)" and "\<not> fmSealed (svHeap s ! fid)"
  shows "newly_sealed s s' = (if fmSealed (svHeap s' ! fid) then {fid} else {})"
  using assms unfolding newly_sealed_def admits_def Let_def
  by (auto simp: not_less) (metis not_less)+

lemma admits_result:
  assumes "admits now m p fid s r s'" and "fid < length (svHeap s)" and "\<not> fmSealed (svHeap s ! fid)"
    and "fmCohort (svHeap s ! fid) = Cohort m"
  shows "join_result m p s r s'"
  using assms(1) admits_newly_sealed [OF assms(1-3)] assms(2-4)
  by (cases r) (auto simp: admits_def join_result_def holds_def keeps_def Let_def split: prod.splits)

lemma join_ok:
  assumes inv: "svc_inv B bc P s" and p: "p \<in> P"
  shows "\<exists>r s'. join now m p s = Some (r, s') \<and> svc_inv B bc P s' \<and> evolves s s' \<and> join_result m p s r s'"
proof (cases "svClosed s")
  case True
  then show ?thesis using inv by (simp add: join_def join_result_def newly_sealed_def)
next
  case open_service: False
  show ?thesis
  proof (cases "map_of (svForming s) (Cohort m)")
    case (Some fid)
    have fid: "fid < length (svHeap s)" "fmCohort (svHeap s ! fid) = Cohort m" "\<not> fmSealed (svHeap s ! fid)"
      using inv Some by (auto simp: svc_inv_def reg_inv_def)
    show ?thesis
    proof (cases "fmTerminal (svHeap s ! fid)")
      case None
      then have "open_form B (svHeap s ! fid)" using open_form_of [OF inv fid(1)] fid by simp
      from admitMember_ok [OF inv Some this p, of now] obtain r s' where
        "admitMember now m p fid s = Some (r, s')" "svc_inv B bc P s'" "admits now m p fid s r s'" by blast
      moreover from this have "evolves s s'" "join_result m p s r s'"
        using admits_evolves admits_result fid by blast+
      ultimately show ?thesis using open_service Some by (simp add: join_def)
    next
      case terminal: (Some e)
      then show ?thesis using open_service Some inv
        by (simp add: join_def admitMember_def Let_def join_result_def newly_sealed_def)
    qed
  next
    case None
    let ?fid = "length (svHeap s)"
    let ?f = "(newFormation (Cohort m) B)\<lparr>fmDeadline := True\<rparr>"
    let ?s = "s\<lparr>svHeap := svHeap s @ [?f], svForming := AList.update (Cohort m) ?fid (svForming s)\<rparr>"
    have f: "fmCohort ?f = Cohort m" "\<not> fmSealed ?f" by (simp_all add: newFormation_def)
    have B: "pcTargetB (svCfg s) = B" "0 < B" using inv by (simp_all add: svc_inv_def)
    have "reg_inv (svHeap ?s) (svForming ?s)"
      using reg_inv_open [of "svHeap s" "svForming s" ?f] inv None f by (simp add: svc_inv_def)
    then have inv': "svc_inv B bc P ?s"
      using inv form_inv_new [OF B(2)] by (simp add: svc_inv_def)
    have reg: "map_of (svForming ?s) (Cohort m) = Some ?fid" by (simp add: update_conv')
    have at: "svHeap ?s ! ?fid = ?f" "?fid < length (svHeap ?s)" by simp_all
    have "open_form B (svHeap ?s ! ?fid)"
      using open_form_of [OF inv' at(2)] f by (simp add: newFormation_def)
    from admitMember_ok [OF inv' reg this p, of now] obtain r s' where
      a: "admitMember now m p ?fid ?s = Some (r, s')" "svc_inv B bc P s'" "admits now m p ?fid ?s r s'" by blast
    have e: "evolves s ?s" by (simp add: evolves_def nth_append)
    have "evolves ?s s'" using admits_evolves [OF a(3) at(2)] f by simp
    then have "evolves s s'" by (rule evolves_trans [OF e])
    moreover have jr: "join_result m p ?s r s'" using admits_result [OF a(3) at(2)] f at by simp
    have "newly_sealed s s' = newly_sealed ?s s'"
      using f by (auto simp: newly_sealed_def nth_append less_Suc_eq)
    with jr have "join_result m p s r s'"
      by (cases r) (auto simp: join_result_def nth_append split: prod.splits)
    ultimately show ?thesis using open_service None a B by (simp add: join_def openFormation_def Let_def)
  qed
qed

text \<open>The deadline and the shutdown settle open formations and touch nothing else.\<close>

lemma fail_open:
  assumes inv: "svc_inv B bc P s" and fid: "fid < length (svHeap s)"
    and o: "fmTerminal (svHeap s ! fid) = None" "\<not> fmSealed (svHeap s ! fid)"
  shows "\<exists>f. failLocked e (svHeap s ! fid) = Some f \<and> fmTerminal f = Some e \<and> fmDone f
    \<and> svc_inv B bc P (put fid f s)
    \<and> evolves s (put fid f s) \<and> newly_sealed s (put fid f s) = {}"
proof -
  let ?f = "(svHeap s ! fid)\<lparr>fmTerminal := Some e, fmSlots := [], fmDone := True\<rparr>"
  have op: "open_form B (svHeap s ! fid)" by (rule open_form_of [OF inv fid o])
  then have "failLocked e (svHeap s ! fid) = Some ?f"
    by (intro failLocked_open) (simp add: open_form_def)
  moreover have "svc_inv B bc P (put fid ?f s)"
    using form_inv_failed(1) [OF op] by (intro svc_inv_put [OF inv fid]) simp_all
  moreover have "evolves s (put fid ?f s)"
    using form_inv_failed(2) [OF op] o(2) by (auto simp: evolves_def put_def nth_list_update fid)
  moreover have "newly_sealed s (put fid ?f s) = {}"
    using o(2) fid by (auto simp: newly_sealed_def put_def nth_list_update split: if_splits)
  ultimately show ?thesis by (intro exI [of _ ?f]) simp
qed

lemma expire_ok:
  assumes inv: "svc_inv B bc P s" and fid: "fid < length (svHeap s)"
  shows "\<exists>s'. expire fid s = Some s' \<and> svc_inv B bc P s' \<and> evolves s s' \<and> newly_sealed s s' = {}
    \<and> (fmSealed (svHeap s ! fid) \<or> fmDone (svHeap s' ! fid))"
proof (cases "fmSealed (svHeap s ! fid) \<or> fmTerminal (svHeap s ! fid) \<noteq> None")
  case True
  then have "fmSealed (svHeap s ! fid) \<or> fmDone (svHeap s ! fid)"
    using svc_inv_form [OF inv fid] by (auto simp: form_inv_def form_ok_def open_form_def failed_form_def sealed_form_def)
  with True show ?thesis using inv by (auto simp: expire_def newly_sealed_def)
next
  case False
  then show ?thesis
    using fail_open [OF inv fid, of "NotAssembled (fmCohort (svHeap s ! fid)) (absent (svHeap s ! fid))"] fid
    by (auto simp: expire_def Let_def put_def)
qed

lemma newly_sealed_trans:
  "newly_sealed a b = {} \<Longrightarrow> newly_sealed b c = {} \<Longrightarrow> newly_sealed a c = {}"
  by (auto simp: newly_sealed_def)

lemma closeAll_ok:
  assumes "svc_inv B bc P s" and "\<forall>fid \<in> set fids. fid < length (svHeap s)"
  shows "\<exists>s'. closeAll fids s = Some s' \<and> svc_inv B bc P s' \<and> evolves s s' \<and> newly_sealed s s' = {}
    \<and> svClosed s' = svClosed s \<and> svForming s' = svForming s
    \<and> (\<forall>fid < length (svHeap s). fmTerminal (svHeap s ! fid) \<noteq> None \<longrightarrow> fmTerminal (svHeap s' ! fid) \<noteq> None)
    \<and> (\<forall>fid \<in> set fids. fmSealed (svHeap s' ! fid) \<or> fmTerminal (svHeap s' ! fid) \<noteq> None)"
  using assms
proof (induction fids arbitrary: s)
  case Nil
  then show ?case by (auto simp: newly_sealed_def)
next
  case (Cons fid fids)
  then have fid: "fid < length (svHeap s)" by simp
  show ?case
  proof (cases "fmSealed (svHeap s ! fid) \<or> fmTerminal (svHeap s ! fid) \<noteq> None")
    case True
    with Cons.IH [OF Cons.prems(1)] Cons.prems(2) fid show ?thesis
      by (fastforce simp: Let_def evolves_def)
  next
    case False
    then obtain f where f: "failLocked (ShutdownWhileForming (fmCohort (svHeap s ! fid)) (absent (svHeap s ! fid)))
        (svHeap s ! fid) = Some f" "fmTerminal f \<noteq> None" "svc_inv B bc P (put fid f s)"
        "evolves s (put fid f s)" "newly_sealed s (put fid f s) = {}"
      using fail_open [OF Cons.prems(1) fid] by fastforce
    have len: "length (svHeap (put fid f s)) = length (svHeap s)" by (simp add: put_def)
    then obtain s' where s': "closeAll fids (put fid f s) = Some s'" "svc_inv B bc P s'"
        "evolves (put fid f s) s'" "newly_sealed (put fid f s) s' = {}"
        "svClosed s' = svClosed s" "svForming s' = svForming s"
        "\<forall>i < length (svHeap s). fmTerminal (svHeap (put fid f s) ! i) \<noteq> None \<longrightarrow> fmTerminal (svHeap s' ! i) \<noteq> None"
        "\<forall>i \<in> set fids. fmSealed (svHeap s' ! i) \<or> fmTerminal (svHeap s' ! i) \<noteq> None"
      using Cons.IH [OF f(3)] Cons.prems(2) by (auto simp: put_def)
    have keep: "\<forall>i < length (svHeap s). fmTerminal (svHeap s ! i) \<noteq> None \<longrightarrow> fmTerminal (svHeap (put fid f s) ! i) \<noteq> None"
      using f(2) fid by (auto simp: put_def nth_list_update)
    have "fmTerminal (svHeap s' ! fid) \<noteq> None" using s'(7) f(2) fid by (simp add: put_def)
    then show ?thesis
      using False f s' keep evolves_trans [OF f(4) s'(3)] newly_sealed_trans [OF f(5) s'(4)]
      by (intro exI [of _ s']) (auto simp: Let_def)
  qed
qed

lemma CloseService_ok:
  assumes inv: "svc_inv B bc P s"
  shows "\<exists>s'. CloseService s = Some s' \<and> svc_inv B bc P s' \<and> evolves s s' \<and> newly_sealed s s' = {}
    \<and> svClosed s' \<and> (\<forall>fid < length (svHeap s). fmSealed (svHeap s' ! fid) \<or> fmDone (svHeap s' ! fid))"
proof -
  let ?s = "s\<lparr>svClosed := True\<rparr>"
  have inv1: "svc_inv B bc P ?s" using inv by (simp add: svc_inv_def)
  have "distinct (map fst (svForming s))" using inv by (simp add: svc_inv_def reg_inv_def)
  then have reg: "fid < length (svHeap s)" if "(c, fid) \<in> set (svForming s)" for c fid
    using inv that by (auto simp: svc_inv_def reg_inv_def)
  obtain s' where s': "closeAll (map snd (svForming s)) ?s = Some s'" "svc_inv B bc P s'" "evolves ?s s'"
      "newly_sealed ?s s' = {}" "svClosed s'"
      "\<forall>fid < length (svHeap s). fmTerminal (svHeap s ! fid) \<noteq> None \<longrightarrow> fmTerminal (svHeap s' ! fid) \<noteq> None"
      "\<forall>fid \<in> set (map snd (svForming s)). fmSealed (svHeap s' ! fid) \<or> fmTerminal (svHeap s' ! fid) \<noteq> None"
  proof -
    have "\<forall>fid \<in> set (map snd (svForming s)). fid < length (svHeap ?s)" using reg by auto
    from closeAll_ok [OF inv1 this] obtain s' where
      "closeAll (map snd (svForming s)) ?s = Some s' \<and> svc_inv B bc P s' \<and> evolves ?s s'
        \<and> newly_sealed ?s s' = {} \<and> svClosed s' = svClosed ?s \<and> svForming s' = svForming ?s
        \<and> (\<forall>fid < length (svHeap ?s). fmTerminal (svHeap ?s ! fid) \<noteq> None \<longrightarrow> fmTerminal (svHeap s' ! fid) \<noteq> None)
        \<and> (\<forall>fid \<in> set (map snd (svForming s)). fmSealed (svHeap s' ! fid) \<or> fmTerminal (svHeap s' ! fid) \<noteq> None)"
      by blast
    then show thesis by (intro that [of s']) simp_all
  qed
  have len: "length (svHeap s) \<le> length (svHeap s')" using s'(3) by (simp add: evolves_def)
  have "fmSealed (svHeap s' ! fid) \<or> fmDone (svHeap s' ! fid)" if "fid < length (svHeap s)" for fid
  proof -
    have "fmSealed (svHeap s' ! fid) \<or> fmTerminal (svHeap s' ! fid) \<noteq> None"
    proof (cases "fmTerminal (svHeap s ! fid) = None \<and> \<not> fmSealed (svHeap s ! fid)")
      case True
      with inv that have "map_of (svForming s) (fmCohort (svHeap s ! fid)) = Some fid"
        by (simp add: svc_inv_def reg_inv_def)
      then have "fid \<in> set (map snd (svForming s))" by (auto dest!: map_of_SomeD intro: rev_image_eqI)
      with s'(7) show ?thesis by blast
    next
      case False
      with s'(3,6) that show ?thesis by (auto simp: evolves_def)
    qed
    moreover have "form_inv B bc P (svHeap s' ! fid)" using svc_inv_form [OF s'(2)] that len by simp
    ultimately show ?thesis
      by (auto simp: form_inv_def form_ok_def open_form_def failed_form_def sealed_form_def)
  qed
  moreover have "evolves s s'" using s'(3) by (simp add: evolves_def)
  moreover have "newly_sealed s s' = {}" using s'(4) by (simp add: newly_sealed_def)
  ultimately show ?thesis using s' by (simp add: CloseService_def)
qed

section \<open>Sealing\<close>

text \<open>The protobuf size of an envelope of the run stays in range, whatever its members.\<close>

definition sizes_ok :: "(RequestEnvelope \<Rightarrow> nat) \<Rightarrow> Config \<Rightarrow> byte list set \<Rightarrow> bool" where
  "sizes_ok psize bc P \<longleftrightarrow> (\<forall>b ms ps seal sent. bldCfg b = bc \<longrightarrow> set ps \<subseteq> P \<longrightarrow>
     length ps = nat (cfgTargetB bc) \<longrightarrow> length ms = nat (cfgTargetB bc) \<longrightarrow>
     psize ((sealedEnvelope b ms ps seal sent)\<lparr>eAuxiliaryBytes := 0\<rparr>) < 2 ^ 62)"

definition run_ok :: "(RequestEnvelope \<Rightarrow> nat) \<Rightarrow> int \<Rightarrow> Config \<Rightarrow> byte list set \<Rightarrow> bool" where
  "run_ok psize B bc P \<longleftrightarrow> proto_size psize \<and> sizes_ok psize bc P \<and> Config_Validate bc = None
     \<and> cfgTargetB bc = B \<and> B < 2 ^ 32"

lemma assembled_cong:
  "fmCohort g = fmCohort f \<Longrightarrow> fmSlots g = fmSlots f \<Longrightarrow> fmTargetB g = fmTargetB f \<Longrightarrow>
   assembled g = assembled f"
  by (simp add: assembled_def)

lemma assembled_sealed:
  assumes "sealed_form B f"
  shows "assembled f = (map (\<lambda>k. LogicalRequest (fmCohort f) (of_nat k)) [0 ..< nat B], map slPayload (fmSlots f))"
proof -
  have "map (\<lambda>k. if k < length (fmSlots f) then slPayload (fmSlots f ! k) else []) [0 ..< nat B]
      = map slPayload (fmSlots f)"
    using assms by (intro nth_equalityI) (simp_all add: sealed_form_def)
  then show ?thesis using assms by (simp add: assembled_def sealed_form_def)
qed

lemma cohort_of_assembled:
  assumes "0 < B" and "B < 2 ^ 32"
  shows "cohort_of B (map (\<lambda>k. LogicalRequest c (of_nat k)) [0 ..< nat B])"
proof -
  have "unat (of_nat k :: uint32) = k" if "k < nat B" for k
  proof -
    have "nat B < 2 ^ 32" using assms by (simp add: nat_less_iff)
    with that show ?thesis by (intro unat_of_nat32) linarith
  qed
  then have "map (\<lambda>k. unat (of_nat k :: uint32)) [0 ..< nat B] = [0 ..< nat B]"
    by (intro map_idI) simp
  then show ?thesis using assms(1) by (auto simp: cohort_of_def o_def)
qed

lemma sealBegin_ok:
  assumes inv: "svc_inv B bc P s" and run: "run_ok psize B bc P" and fid: "fid < length (svHeap s)"
    and f: "fmSealed (svHeap s ! fid)" "\<not> fmDone (svHeap s ! fid)"
  shows "\<exists>env b. sealBegin psize t fid s = Some (True,
      put fid ((svHeap s ! fid)\<lparr>fmSendAt := t, fmEnv := Some env\<rparr>) (s\<lparr>svBuilder := b\<rparr>))
    \<and> svc_inv B bc P (put fid ((svHeap s ! fid)\<lparr>fmSendAt := t, fmEnv := Some env\<rparr>) (s\<lparr>svBuilder := b\<rparr>))"
proof -
  let ?f = "svHeap s ! fid"
  have B: "0 < B" "bldCfg (svBuilder s) = bc" using inv by (simp_all add: svc_inv_def)
  have B32: "B < 2 ^ 32" "cfgTargetB bc = B" "proto_size psize" using run by (simp_all add: run_ok_def)
  have fi: "form_inv B bc P ?f" by (rule svc_inv_form [OF inv fid])
  then have sf: "sealed_form B ?f"
    using f by (auto simp: form_inv_def form_ok_def open_form_def failed_form_def)
  let ?ms = "map (\<lambda>k. LogicalRequest (fmCohort ?f) (of_nat k)) [0 ..< nat B]"
  let ?ps = "map slPayload (fmSlots ?f)"
  have asm: "assembled ?f = (?ms, ?ps)" by (rule assembled_sealed [OF sf])
  have len: "length ?ms = length ?ps" "length ?ps = nat B" using sf by (simp_all add: sealed_form_def)
  have ne: "?ms \<noteq> []" using B(1) by simp
  have sub: "set ?ps \<subseteq> P" using fi sf by (auto simp: form_inv_def sealed_form_def)
  have small: "psize ((sealedEnvelope (svBuilder s) ?ms ?ps (fmSealAt ?f) t)\<lparr>eAuxiliaryBytes := 0\<rparr>) < 2 ^ 62"
    using run sub len B B32(2) by (simp add: run_ok_def sizes_ok_def)
  have coh: "cohort_of (cfgTargetB (bldCfg (svBuilder s))) ?ms"
    using cohort_of_assembled [OF B(1) B32(1)] B B32 by simp
  obtain a where ag: "Aggregate psize (svBuilder s) ?ms ?ps (fmSealAt ?f) t
      = Some (Inr ((sealedEnvelope (svBuilder s) ?ms ?ps (fmSealAt ?f) t)\<lparr>eAuxiliaryBytes := a\<rparr>),
          snd (base (svBuilder s)))"
    using Aggregate_cohort [OF B32(3) len(1) ne coh small] by blast
  let ?env = "(sealedEnvelope (svBuilder s) ?ms ?ps (fmSealAt ?f) t)\<lparr>eAuxiliaryBytes := a\<rparr>"
  let ?g = "?f\<lparr>fmSendAt := t, fmEnv := Some ?env\<rparr>"
  let ?s = "s\<lparr>svBuilder := snd (base (svBuilder s))\<rparr>"
  have run_eq: "sealBegin psize t fid s = Some (True, put fid ?g ?s)"
    by (simp add: sealBegin_def asm ag)
  have "bldCfg (snd (base (svBuilder s))) = bc" using B by (simp add: base_def Let_def)
  then have inv': "svc_inv B bc P ?s" using inv by (simp add: svc_inv_def)
  have "sealed_form B ?g" using sf by (simp add: sealed_form_def)
  moreover have "assembled ?g = (?ms, ?ps)" using asm assembled_cong [of ?g ?f] by simp
  ultimately have "form_inv B bc P ?g"
    using fi B(2) by (auto simp: form_inv_def form_ok_def env_of_def)
  then have "svc_inv B bc P (put fid ?g ?s)"
    using fid by (intro svc_inv_put [OF inv']) simp_all
  with run_eq show ?thesis by blast
qed

lemma sealEnd_ok:
  assumes inv: "svc_inv B bc P s" and fid: "fid < length (svHeap s)"
    and f: "fmSealed (svHeap s ! fid)" "\<not> fmDone (svHeap s ! fid)" "fmEnv (svHeap s ! fid) \<noteq> None"
  shows "\<exists>g. sealEnd psize out t fid s = Some (put fid g s) \<and> svc_inv B bc P (put fid g s)
    \<and> fmSealed g \<and> fmDone g \<and> fmCohort g = fmCohort (svHeap s ! fid) \<and> fmSlots g = fmSlots (svHeap s ! fid)
    \<and> fmTerminal g = fmTerminal (svHeap s ! fid) \<and> fmEnv g = fmEnv (svHeap s ! fid)
    \<and> fmResp g = (case out of Inr r \<Rightarrow> Some r | Inl _ \<Rightarrow> None)"
proof -
  let ?f = "svHeap s ! fid"
  obtain env where env: "fmEnv ?f = Some env" using f(3) by blast
  let ?g = "?f\<lparr>fmRespRecvAt := t, fmResp := (case out of Inr r \<Rightarrow> Some r | Inl _ \<Rightarrow> None),
      fmEnvelopeBytes := of_nat (WireBytes psize env),
      fmSendErr := (case out of Inl e \<Rightarrow> Some (eEnvelopeId env, e) | Inr _ \<Rightarrow> None), fmDone := True\<rparr>"
  have fi: "form_inv B bc P ?f" by (rule svc_inv_form [OF inv fid])
  then have sf: "sealed_form B ?f"
    using f by (auto simp: form_inv_def form_ok_def open_form_def failed_form_def)
  have "sealEnd psize out t fid s = Some (put fid ?g s)"
    using f(2) by (simp add: sealEnd_def env closeDone_def Let_def)
  moreover have "sealed_form B ?g" using sf env by (simp add: sealed_form_def)
  then have "form_inv B bc P ?g"
    using fi assembled_cong [of ?g ?f] by (auto simp: form_inv_def form_ok_def env_of_def)
  then have "svc_inv B bc P (put fid ?g s)" by (intro svc_inv_put [OF inv fid]) simp_all
  ultimately show ?thesis using f by (intro exI [of _ ?g]) simp
qed

section \<open>Goroutines\<close>

definition answered_by :: "Service \<Rightarrow> caller \<Rightarrow> ClientResponse \<Rightarrow> bool" where
  "answered_by s c resp \<longleftrightarrow> (\<exists>fid re r. holds s fid (caMember c) (caPayload c)
     \<and> fmTerminal (svHeap s ! fid) = None \<and> fmSealed (svHeap s ! fid) \<and> fmDone (svHeap s ! fid)
     \<and> fmResp (svHeap s ! fid) = Some re \<and> r \<in> set (reResults re)
     \<and> lrCohortId r = Cohort (caMember c) \<and> lrOrdinal r = Ordinal (caMember c)
     \<and> resp = clientResponse (caMember c) r)"

text \<open>The path \<^verbatim>\<open>Submit\<close> picked for a request it did not refuse.\<close>

definition admitted_to :: "bool \<Rightarrow> Service \<Rightarrow> caller \<Rightarrow> bool" where
  "admitted_to aggregates s c \<longleftrightarrow> SubmitCheck (svCfg s) (caRequest c) = Inr aggregates"

definition own_result :: "caller \<Rightarrow> ClientResponse \<Rightarrow> bool" where
  "own_result c resp \<longleftrightarrow> (\<exists>r. lrCohortId r = Cohort (caMember c) \<and> lrOrdinal r = Ordinal (caMember c)
     \<and> resp = clientResponse (caMember c) r)"

definition finished_ok :: "Service \<Rightarrow> caller \<Rightarrow> submit_error + ClientResponse \<Rightarrow> bool" where
  "finished_ok s c answer \<longleftrightarrow> (case SubmitCheck (svCfg s) (caRequest c) of
     Inl e \<Rightarrow> answer = Inl e \<and> caRecords c = []
   | Inr aggregates \<Rightarrow> length (caRecords c) = 1 \<and> recRequest (caRecords c ! 0) = caMember c
       \<and> (\<forall>resp. answer = Inr resp \<longrightarrow> (if aggregates then answered_by s c resp else own_result c resp)))"

definition caller_ok :: "Service \<Rightarrow> caller \<Rightarrow> bool" where
  "caller_ok s c \<longleftrightarrow> (case caPhase c of
     Submitting \<Rightarrow> caRecords c = []
   | Forwarding \<Rightarrow> caRecords c = [] \<and> admitted_to False s c
   | Arriving \<Rightarrow> caRecords c = [] \<and> admitted_to True s c
   | Sealing fid \<Rightarrow> caRecords c = [] \<and> admitted_to True s c \<and> holds s fid (caMember c) (caPayload c)
       \<and> fmSealed (svHeap s ! fid) \<and> \<not> fmDone (svHeap s ! fid) \<and> fmEnv (svHeap s ! fid) = None
   | Sending fid \<Rightarrow> caRecords c = [] \<and> admitted_to True s c \<and> holds s fid (caMember c) (caPayload c)
       \<and> fmSealed (svHeap s ! fid) \<and> \<not> fmDone (svHeap s ! fid) \<and> fmEnv (svHeap s ! fid) \<noteq> None
   | Waiting fid \<Rightarrow> caRecords c = [] \<and> admitted_to True s c \<and> holds s fid (caMember c) (caPayload c)
   | Finished answer \<Rightarrow> finished_ok s c answer)"

lemma caller_fields [simp]:
  "caMember (c\<lparr>caPhase := p\<rparr>) = caMember c" "caPayload (c\<lparr>caPhase := p\<rparr>) = caPayload c"
  "caMember (c\<lparr>caRecvAt := t\<rparr>) = caMember c" "caPayload (c\<lparr>caRecvAt := t\<rparr>) = caPayload c"
  "caMember (c\<lparr>caRecords := rs\<rparr>) = caMember c" "caPayload (c\<lparr>caRecords := rs\<rparr>) = caPayload c"
  by (simp_all add: caMember_def caPayload_def)

lemma admitted_to_fields [simp]: "admitted_to a s (c\<lparr>caPhase := p\<rparr>) = admitted_to a s c"
  by (simp add: admitted_to_def)

definition sealer :: "caller \<Rightarrow> nat option" where
  "sealer c = (case caPhase c of Sealing fid \<Rightarrow> Some fid | Sending fid \<Rightarrow> Some fid | _ \<Rightarrow> None)"

definition sealers_ok :: "Service \<Rightarrow> caller list \<Rightarrow> bool" where
  "sealers_ok s cs \<longleftrightarrow>
     (\<forall>i < length cs. \<forall>j < length cs. sealer (cs ! i) \<noteq> None \<and> sealer (cs ! i) = sealer (cs ! j) \<longrightarrow> i = j)
     \<and> (\<forall>fid < length (svHeap s). fmSealed (svHeap s ! fid) \<and> \<not> fmDone (svHeap s ! fid) \<longrightarrow>
          (\<exists>i < length cs. sealer (cs ! i) = Some fid))"

definition proxy_inv :: "int \<Rightarrow> Config \<Rightarrow> byte list set \<Rightarrow> proxy_state \<Rightarrow> bool" where
  "proxy_inv B bc P = (\<lambda>(s, cs). svc_inv B bc P s
     \<and> (\<forall>c \<in> set cs. caller_ok s c \<and> caPayload c \<in> P) \<and> sealers_ok s cs)"

lemma holds_evolves: "holds s fid m p \<Longrightarrow> evolves s s' \<Longrightarrow> holds s' fid m p"
  unfolding holds_def evolves_def keeps_def by (auto simp: Let_def)

lemma caller_ok_evolves:
  assumes "caller_ok s c" and "evolves s s'"
  shows "caller_ok s' c"
proof -
  have same: "svHeap s' ! fid = svHeap s ! fid" if "holds s fid m p" "fmSealed (svHeap s ! fid)" for fid m p
    using assms(2) that by (simp add: evolves_def holds_def)
  have h: "holds s' fid m p" if "holds s fid m p" for fid m p
    by (rule holds_evolves [OF that assms(2)])
  have cfg: "svCfg s' = svCfg s" using assms(2) by (simp add: evolves_def)
  have "answered_by s' c resp" if "answered_by s c resp" for resp
    using that unfolding answered_by_def by (metis same h)
  then have "finished_ok s' c answer" if "finished_ok s c answer" for answer
    using that by (auto simp: finished_ok_def cfg split: sum.splits)
  then show ?thesis
    using assms(1) h same unfolding caller_ok_def admitted_to_def cfg by (cases "caPhase c") auto
qed

text \<open>A sealed formation that is filled in by its sealer looks the same to everyone else.\<close>

lemma caller_ok_put:
  assumes "caller_ok s c" and "sealer c \<noteq> Some fid" and "\<not> fmDone (svHeap s ! fid)"
    and "svHeap s' = (svHeap s)[fid := g]" and "fmCohort g = fmCohort (svHeap s ! fid)"
    and "fmSlots g = fmSlots (svHeap s ! fid)" and "fmTerminal g = fmTerminal (svHeap s ! fid)"
    and cfg: "svCfg s' = svCfg s"
  shows "caller_ok s' c"
proof -
  have h: "holds s i m p \<Longrightarrow> holds s' i m p" for i m p
    using assms(4-7) by (cases "i = fid") (auto simp: holds_def)
  have other: "i \<noteq> fid \<Longrightarrow> svHeap s' ! i = svHeap s ! i" for i using assms(4) by simp
  have "answered_by s c resp \<Longrightarrow> answered_by s' c resp" for resp
    unfolding answered_by_def using h other assms(3) by metis
  then have "finished_ok s c answer \<Longrightarrow> finished_ok s' c answer" for answer
    by (auto simp: finished_ok_def cfg split: sum.splits)
  then show ?thesis
    using assms(1,2) h other by (auto simp: caller_ok_def sealer_def admitted_to_def cfg split: phase.splits)
qed

lemma sealers_ok_phase:
  assumes "sealers_ok s cs" and "i < length cs" and "sealer c = sealer (cs ! i)"
    and "length (svHeap s') = length (svHeap s)"
    and "\<forall>k < length (svHeap s). fmSealed (svHeap s' ! k) \<and> \<not> fmDone (svHeap s' ! k) \<longrightarrow>
           fmSealed (svHeap s ! k) \<and> \<not> fmDone (svHeap s ! k)"
  shows "sealers_ok s' (cs[i := c])"
proof -
  have "sealer (cs[i := c] ! j) = sealer (cs ! j)" if "j < length cs" for j
    using assms(2,3) that by (cases "j = i") simp_all
  then have eq: "\<forall>j < length cs. sealer (cs[i := c] ! j) = sealer (cs ! j)" by blast
  show ?thesis
    unfolding sealers_ok_def length_list_update assms(4)
  proof (intro conjI allI impI)
    fix j k assume "j < length cs" "k < length cs"
      "sealer (cs[i := c] ! j) \<noteq> None \<and> sealer (cs[i := c] ! j) = sealer (cs[i := c] ! k)"
    with eq assms(1) show "j = k" unfolding sealers_ok_def by metis
  next
    fix fid assume "fid < length (svHeap s)" "fmSealed (svHeap s' ! fid) \<and> \<not> fmDone (svHeap s' ! fid)"
    with assms(1,5) obtain j where "j < length cs" "sealer (cs ! j) = Some fid"
      unfolding sealers_ok_def by blast
    with eq show "\<exists>j < length cs. sealer (cs[i := c] ! j) = Some fid" by auto
  qed
qed

lemma finishes_fields [simp]:
  "caMember (finishes c x) = caMember c" "caPayload (finishes c x) = caPayload c"
  "caRequest (finishes c x) = caRequest c" "caPhase (finishes c x) = Finished (fst x)" "caRecords (finishes c x) = caRecords c @ [snd x]"
  by (simp_all add: finishes_def split_beta)

lemma recRequest_writes [simp]:
  "recRequest (writeRec rec m p st) = m" "recRequest (recordArrival m p t st) = m"
  "recRequest (memberRecord f m p t u st) = m"
  by (simp_all add: recRequest_def writeRec_def recordArrival_def memberRecord_def Let_def)

lemma finishMember_request: "recRequest (snd (finishMember f m p t u)) = m"
  by (simp add: finishMember_def Let_def split: option.split sum.split prod.split)

lemma find_SomeD: "find P xs = Some x \<Longrightarrow> P x \<and> x \<in> set xs"
  by (induction xs) (auto split: if_splits)

lemma finishMember_answer:
  assumes "fst (finishMember f m p t u) = Inr resp"
  shows "fmTerminal f = None \<and> (\<exists>re r. fmResp f = Some re \<and> r \<in> set (reResults re)
    \<and> lrCohortId r = Cohort m \<and> lrOrdinal r = Ordinal m \<and> resp = clientResponse m r)"
  using assms
  by (auto simp: finishMember_def memberResult_def Let_def
      split: option.splits sum.splits prod.splits dest: find_SomeD)

lemma sealers_ok_evolves:
  assumes "sealers_ok s cs" and "evolves s s'" and "newly_sealed s s' = {}"
  shows "sealers_ok s' cs"
  unfolding sealers_ok_def
proof (intro conjI allI impI)
  fix i j assume "i < length cs" "j < length cs" "sealer (cs ! i) \<noteq> None \<and> sealer (cs ! i) = sealer (cs ! j)"
  with assms(1) show "i = j" unfolding sealers_ok_def by blast
next
  fix k assume k: "k < length (svHeap s')" "fmSealed (svHeap s' ! k) \<and> \<not> fmDone (svHeap s' ! k)"
  with assms(3) have o: "k < length (svHeap s)" "fmSealed (svHeap s ! k)"
    by (auto simp: newly_sealed_def)
  with assms(2) have "svHeap s' ! k = svHeap s ! k" by (simp add: evolves_def)
  with assms(1) o k show "\<exists>i < length cs. sealer (cs ! i) = Some k" by (simp add: sealers_ok_def)
qed

lemma caller_of: "proxy_inv B bc P (s, cs) \<Longrightarrow> i < length cs \<Longrightarrow> caller_ok s (cs ! i) \<and> caPayload (cs ! i) \<in> P"
  by (simp add: proxy_inv_def)

lemma sealers_unique:
  "sealers_ok s cs \<Longrightarrow> k < length cs \<Longrightarrow> l < length cs \<Longrightarrow>
   sealer (cs ! k) \<noteq> None \<and> sealer (cs ! k) = sealer (cs ! l) \<Longrightarrow> k = l"
  unfolding sealers_ok_def by blast

lemma proxy_inv_join:
  assumes inv: "proxy_inv B bc P (s, cs)" and i: "i < length cs" "caPhase (cs ! i) = Arriving"
    and j: "join now (caMember (cs ! i)) (caPayload (cs ! i)) s = Some (r, s')"
  shows "proxy_inv B bc P (s', cs[i := afterJoin (cs ! i) r])"
proof -
  let ?c = "cs ! i" and ?c' = "afterJoin (cs ! i) r"
  have sv: "svc_inv B bc P s" and so: "sealers_ok s cs" using inv by (simp_all add: proxy_inv_def)
  have c: "caller_ok s ?c" "caPayload ?c \<in> P" using caller_of [OF inv i(1)] by simp_all
  have sv': "svc_inv B bc P s'" and ev: "evolves s s'"
    and jr: "join_result (caMember ?c) (caPayload ?c) s r s'"
    using join_ok [OF sv c(2), of now "caMember ?c"] j by auto
  have old: "\<forall>c \<in> set cs. caller_ok s' c \<and> caPayload c \<in> P"
    using inv caller_ok_evolves [OF _ ev] by (simp add: proxy_inv_def)
  have none: "sealer ?c = None" using i by (simp add: sealer_def)
  have arr: "caRecords ?c = []" "SubmitCheck (svCfg s') (caRequest ?c) = Inr True"
    using c(1) i(2) ev by (simp_all add: caller_ok_def admitted_to_def evolves_def)
  have new: "caller_ok s' ?c' \<and> caPayload ?c' \<in> P"
    using jr c(2) arr i(2)
    by (cases r) (auto simp: afterJoin_def caller_ok_def finished_ok_def admitted_to_def join_result_def split: prod.splits)
  have "\<forall>c \<in> set (cs[i := ?c']). caller_ok s' c \<and> caPayload c \<in> P"
    using set_update_inv [OF old new] .
  moreover have "sealers_ok s' (cs[i := ?c'])"
  proof (cases "newly_sealed s s' = {}")
    case True
    have "sealer ?c' = None"
      using jr True i(2) by (cases r) (auto simp: afterJoin_def sealer_def join_result_def split: prod.splits if_splits)
    then show ?thesis
      using sealers_ok_phase [OF sealers_ok_evolves [OF so ev True] i(1), of ?c' s'] none by simp
  next
    case False
    then obtain fid where r: "r = Inr (fid, True)" and ns: "newly_sealed s s' = {fid}"
      and unsealed: "fid < length (svHeap s) \<longrightarrow> \<not> fmSealed (svHeap s ! fid)"
      using jr by (auto simp: join_result_def split: sum.splits prod.splits if_splits)
    have mine: "sealer ?c' = Some fid" by (simp add: r afterJoin_def sealer_def)
    have other: "sealer (cs ! k) \<noteq> Some fid" if "k < length cs" for k
      using caller_of [OF inv that] unsealed
      by (auto simp: sealer_def caller_ok_def holds_def split: phase.splits)
    show ?thesis
      unfolding sealers_ok_def length_list_update
    proof (intro conjI allI impI)
      fix k l assume kl: "k < length cs" "l < length cs"
        "sealer (cs[i := ?c'] ! k) \<noteq> None \<and> sealer (cs[i := ?c'] ! k) = sealer (cs[i := ?c'] ! l)"
      show "k = l"
      proof (cases "k = i \<or> l = i")
        case True
        then have "sealer (cs[i := ?c'] ! k) = Some fid" "sealer (cs[i := ?c'] ! l) = Some fid"
          using kl mine by auto
        then show ?thesis using other kl(1,2) by (metis nth_list_update_neq)
      next
        case False
        then have "cs[i := ?c'] ! k = cs ! k" "cs[i := ?c'] ! l = cs ! l" by simp_all
        with kl(3) have "sealer (cs ! k) \<noteq> None \<and> sealer (cs ! k) = sealer (cs ! l)" by argo
        then show ?thesis by (rule sealers_unique [OF so kl(1,2)])
      qed
    next
      fix k assume k: "k < length (svHeap s')" "fmSealed (svHeap s' ! k) \<and> \<not> fmDone (svHeap s' ! k)"
      show "\<exists>l < length cs. sealer (cs[i := ?c'] ! l) = Some k"
      proof (cases "k = fid")
        case True
        then show ?thesis using mine i by (intro exI [of _ i]) simp
      next
        case False
        with ns k have o: "k < length (svHeap s)" "fmSealed (svHeap s ! k)"
          by (auto simp: newly_sealed_def)
        with ev have "svHeap s' ! k = svHeap s ! k" by (simp add: evolves_def)
        with so o k obtain l where "l < length cs" "sealer (cs ! l) = Some k" by (auto simp: sealers_ok_def)
        moreover from this none have "l \<noteq> i" by auto
        ultimately show ?thesis by (intro exI [of _ l]) simp
      qed
    qed
  qed
  ultimately show ?thesis using sv' by (simp add: proxy_inv_def)
qed

lemma other_sealer:
  assumes "sealers_ok s cs" and "i < length cs" and "sealer (cs ! i) = Some fid"
  shows "\<forall>k < length cs. k \<noteq> i \<longrightarrow> sealer (cs ! k) \<noteq> Some fid"
  using assms unfolding sealers_ok_def by (metis option.distinct(1))

lemma proxy_inv_seal:
  assumes inv: "proxy_inv B bc P (s, cs)" and run: "run_ok psize B bc P"
    and i: "i < length cs" "caPhase (cs ! i) = Sealing fid"
    and b: "sealBegin psize t fid s = Some (sent, s')"
  shows "proxy_inv B bc P (s', cs[i := (cs ! i)\<lparr>caPhase := (if sent then Sending fid else Waiting fid)\<rparr>])"
proof -
  let ?c = "cs ! i" and ?c' = "(cs ! i)\<lparr>caPhase := Sending fid\<rparr>"
  have sv: "svc_inv B bc P s" and so: "sealers_ok s cs" using inv by (simp_all add: proxy_inv_def)
  have c: "caller_ok s ?c" "caPayload ?c \<in> P" using caller_of [OF inv i(1)] by simp_all
  then have f: "fid < length (svHeap s)" "fmSealed (svHeap s ! fid)" "\<not> fmDone (svHeap s ! fid)"
    and h: "holds s fid (caMember ?c) (caPayload ?c)" and nr: "caRecords ?c = []" "admitted_to True s ?c"
    using i(2) by (auto simp: caller_ok_def holds_def)
  obtain env b' where sent: "sent" and s': "s' = put fid ((svHeap s ! fid)\<lparr>fmSendAt := t, fmEnv := Some env\<rparr>)
      (s\<lparr>svBuilder := b'\<rparr>)" and sv': "svc_inv B bc P s'"
    using sealBegin_ok [OF sv run f, of t] b by auto
  have heap: "svHeap s' = (svHeap s)[fid := (svHeap s ! fid)\<lparr>fmSendAt := t, fmEnv := Some env\<rparr>]"
    by (simp add: s' put_def)
  have cfg: "svCfg s' = svCfg s" by (simp add: s' put_def)
  have me: "sealer ?c = Some fid" "sealer ?c' = Some fid" using i by (simp_all add: sealer_def)
  have "caller_ok s' c \<and> caPayload c \<in> P" if "k < length cs" "c = (cs[i := ?c']) ! k" for k c
  proof (cases "k = i")
    case True
    then show ?thesis using that i(1) c(2) f h nr heap
      by (auto simp: caller_ok_def holds_def admitted_to_def cfg)
  next
    case False
    then show ?thesis
      using that other_sealer [OF so i(1) me(1)] caller_of [OF inv that(1)] caller_ok_put [OF _ _ f(3) heap _ _ _ cfg, of c]
      by simp
  qed
  then have "\<forall>c \<in> set (cs[i := ?c']). caller_ok s' c \<and> caPayload c \<in> P"
    by (metis in_set_conv_nth length_list_update)
  moreover have "sealers_ok s' (cs[i := ?c'])"
    using heap f by (intro sealers_ok_phase [OF so i(1)]) (auto simp: me nth_list_update)
  ultimately show ?thesis using sv' sent by (simp add: proxy_inv_def)
qed

lemma proxy_inv_answered:
  assumes inv: "proxy_inv B bc P (s, cs)" and i: "i < length cs" "caPhase (cs ! i) = Sending fid"
    and e: "sealEnd psize out t fid s = Some s'"
  shows "proxy_inv B bc P (s', cs[i := (cs ! i)\<lparr>caPhase := Waiting fid\<rparr>])"
proof -
  let ?c = "cs ! i" and ?c' = "(cs ! i)\<lparr>caPhase := Waiting fid\<rparr>"
  have sv: "svc_inv B bc P s" and so: "sealers_ok s cs" using inv by (simp_all add: proxy_inv_def)
  have c: "caller_ok s ?c" "caPayload ?c \<in> P" using caller_of [OF inv i(1)] by simp_all
  then have f: "fid < length (svHeap s)" "fmSealed (svHeap s ! fid)" "\<not> fmDone (svHeap s ! fid)"
      "fmEnv (svHeap s ! fid) \<noteq> None"
    and h: "holds s fid (caMember ?c) (caPayload ?c)" and nr: "caRecords ?c = []" "admitted_to True s ?c"
    using i(2) by (auto simp: caller_ok_def holds_def)
  obtain g where s': "s' = put fid g s" and sv': "svc_inv B bc P s'"
    and g: "fmSealed g" "fmDone g" "fmCohort g = fmCohort (svHeap s ! fid)"
      "fmSlots g = fmSlots (svHeap s ! fid)" "fmTerminal g = fmTerminal (svHeap s ! fid)"
    using sealEnd_ok [OF sv f, of psize out t] e by auto
  have heap: "svHeap s' = (svHeap s)[fid := g]" and cfg: "svCfg s' = svCfg s" by (simp_all add: s' put_def)
  have me: "sealer ?c = Some fid" "sealer ?c' = None" using i by (simp_all add: sealer_def)
  have others: "\<forall>k < length cs. k \<noteq> i \<longrightarrow> sealer (cs ! k) \<noteq> Some fid" by (rule other_sealer [OF so i(1) me(1)])
  have "caller_ok s' c \<and> caPayload c \<in> P" if "k < length cs" "c = (cs[i := ?c']) ! k" for k c
  proof (cases "k = i")
    case True
    then show ?thesis using that i(1) c(2) f h nr heap g
      by (auto simp: caller_ok_def holds_def admitted_to_def cfg)
  next
    case False
    then show ?thesis
      using that others caller_of [OF inv that(1)] caller_ok_put [OF _ _ f(3) heap g(3-5) cfg, of c] by simp
  qed
  then have cs: "\<forall>c \<in> set (cs[i := ?c']). caller_ok s' c \<and> caPayload c \<in> P"
    by (metis in_set_conv_nth length_list_update)
  have "sealers_ok s' (cs[i := ?c'])"
    unfolding sealers_ok_def length_list_update
  proof (intro conjI allI impI)
    fix k l assume kl: "k < length cs" "l < length cs"
      "sealer (cs[i := ?c'] ! k) \<noteq> None \<and> sealer (cs[i := ?c'] ! k) = sealer (cs[i := ?c'] ! l)"
    then have "k \<noteq> i" "l \<noteq> i" using me(2) by (auto simp: nth_list_update split: if_splits)
    then have "cs[i := ?c'] ! k = cs ! k" "cs[i := ?c'] ! l = cs ! l" by simp_all
    with kl(3) have "sealer (cs ! k) \<noteq> None \<and> sealer (cs ! k) = sealer (cs ! l)" by argo
    then show "k = l" by (rule sealers_unique [OF so kl(1,2)])
  next
    fix k assume k: "k < length (svHeap s')" "fmSealed (svHeap s' ! k) \<and> \<not> fmDone (svHeap s' ! k)"
    then have "k \<noteq> fid" using heap g by auto
    with k heap so obtain l where l: "l < length cs" "sealer (cs ! l) = Some k" by (auto simp: sealers_ok_def)
    with me(1) \<open>k \<noteq> fid\<close> have "l \<noteq> i" by auto
    with l show "\<exists>l < length cs. sealer (cs[i := ?c'] ! l) = Some k" by (intro exI [of _ l]) simp
  qed
  with sv' cs show ?thesis by (simp add: proxy_inv_def)
qed

lemma proxy_inv_finishes:
  assumes inv: "proxy_inv B bc P (s, cs)" and i: "i < length cs" "caPhase (cs ! i) = Waiting fid"
    and a: "recRequest (snd x) = caMember (cs ! i)"
      "\<And>resp. fst x = Inr resp \<Longrightarrow> answered_by s (cs ! i) resp"
  shows "proxy_inv B bc P (s, cs[i := finishes (cs ! i) x])"
proof -
  let ?c = "cs ! i" and ?c' = "finishes (cs ! i) x"
  have so: "sealers_ok s cs" and all: "\<forall>c \<in> set cs. caller_ok s c \<and> caPayload c \<in> P"
    using inv by (simp_all add: proxy_inv_def)
  have c: "caRecords ?c = []" "SubmitCheck (svCfg s) (caRequest ?c) = Inr True" "caPayload ?c \<in> P"
    using caller_of [OF inv i(1)] i(2) by (simp_all add: caller_ok_def admitted_to_def)
  have "caller_ok s ?c' \<and> caPayload ?c' \<in> P"
    using a c by (auto simp: caller_ok_def finished_ok_def answered_by_def)
  then have "\<forall>c \<in> set (cs[i := ?c']). caller_ok s c \<and> caPayload c \<in> P"
    by (intro set_update_inv [OF all])
  moreover have "sealers_ok s (cs[i := ?c'])"
    using i(2) by (intro sealers_ok_phase [OF so i(1)]) (simp_all add: sealer_def)
  ultimately show ?thesis using inv by (simp add: proxy_inv_def)
qed

text \<open>A request of the A=off path touches nothing of the registry.\<close>

lemma forward_kept:
  assumes "forward psize backend b m p recvAt sendAt respRecvAt fanoutAt = Some (answer, rec, b')"
  shows "bldCfg b' = bldCfg b \<and> recRequest rec = m
    \<and> (\<forall>resp. answer = Inr resp \<longrightarrow> (\<exists>r. lrCohortId r = Cohort m \<and> lrOrdinal r = Ordinal m \<and> resp = clientResponse m r))"
proof -
  obtain env where env: "Independent psize b m p sendAt = Some (env, b')"
    using assms by (auto simp: forward_def Let_def split: option.splits sum.splits)
  then have "bldCfg b' = bldCfg b" by (auto simp: Independent_def base_def Let_def)
  moreover have "\<exists>re r. memberResult re m = Inr r \<and> resp = clientResponse m r" if "answer = Inr resp" for resp
    using assms that by (fastforce simp: forward_def Let_def split: option.splits sum.splits)
  then have "\<exists>r. lrCohortId r = Cohort m \<and> lrOrdinal r = Ordinal m \<and> resp = clientResponse m r" if "answer = Inr resp" for resp
    using that by (fastforce simp: memberResult_def split: option.splits dest: find_SomeD)
  moreover have "recRequest rec = m" using assms by (auto simp: forward_def Let_def split: option.splits sum.splits)
  ultimately show ?thesis by blast
qed

lemma caller_ok_same:
  assumes "svCfg s' = svCfg s" and "svHeap s' = svHeap s"
  shows "caller_ok s' c = caller_ok s c"
proof -
  have h: "holds s' fid m p = holds s fid m p" for fid m p using assms by (simp add: holds_def)
  then have "answered_by s' c = answered_by s c" using assms by (intro ext) (simp add: answered_by_def)
  then have "finished_ok s' c = finished_ok s c" unfolding finished_ok_def assms by (intro ext) (simp split: sum.split)
  then show ?thesis using assms h unfolding caller_ok_def by (simp add: admitted_to_def split: phase.split)
qed

lemma proxy_inv_unshared:
  assumes inv: "proxy_inv B bc P (s, cs)" and i: "i < length cs" "sealer (cs ! i) = None" "sealer c = None"
    and s': "svc_inv B bc P s'" "svCfg s' = svCfg s" "svHeap s' = svHeap s"
    and c: "caller_ok s c" "caPayload c \<in> P"
  shows "proxy_inv B bc P (s', cs[i := c])"
proof -
  have so: "sealers_ok s cs" and all: "\<forall>c \<in> set cs. caller_ok s' c \<and> caPayload c \<in> P"
    using inv caller_ok_same [OF s'(2,3)] by (simp_all add: proxy_inv_def)
  have "\<forall>c \<in> set (cs[i := c]). caller_ok s' c \<and> caPayload c \<in> P"
    using c caller_ok_same [OF s'(2,3)] by (intro set_update_inv [OF all]) simp
  moreover have "sealers_ok s' (cs[i := c])"
    using i s'(3) by (intro sealers_ok_phase [OF so i(1)]) simp_all
  ultimately show ?thesis using s'(1) by (simp add: proxy_inv_def)
qed

lemma proxy_inv_step:
  assumes "proxy_step psize st st'" and run: "run_ok psize B bc P" and inv: "proxy_inv B bc P st"
  shows "proxy_inv B bc P st'"
  using assms(1)
proof cases
  case (submits i cs s recvAt)
  let ?c = "cs ! i"
  have inv': "proxy_inv B bc P (s, cs)" using inv submits by simp
  have c: "caRecords ?c = []" "caPayload ?c \<in> P"
    using caller_of [OF inv' submits(3)] submits(4) by (simp_all add: caller_ok_def)
  have "caller_ok s (afterCheck recvAt (SubmitCheck (svCfg s) (caRequest ?c)) ?c)"
    using c by (auto simp: afterCheck_def caller_ok_def finished_ok_def admitted_to_def split: sum.splits)
  then show ?thesis
    unfolding submits(2) using inv' c submits(3,4)
    by (intro proxy_inv_unshared) (auto simp: sealer_def afterCheck_def proxy_inv_def split: sum.splits)
next
  case (forwards i cs backend s sendAt respRecvAt fanoutAt answer rec b)
  let ?c = "cs ! i"
  have inv': "proxy_inv B bc P (s, cs)" using inv forwards by simp
  have c: "caRecords ?c = []" "caPayload ?c \<in> P" "SubmitCheck (svCfg s) (caRequest ?c) = Inr False"
    using caller_of [OF inv' forwards(3)] forwards(4) by (simp_all add: caller_ok_def admitted_to_def)
  note f = forward_kept [OF forwards(5)]
  have "caller_ok s (finishes ?c (answer, rec))"
    using c f by (auto simp: caller_ok_def finished_ok_def own_result_def)
  then show ?thesis
    unfolding forwards(2) using inv' c f forwards(3,4)
    by (intro proxy_inv_unshared) (auto simp: sealer_def proxy_inv_def svc_inv_def)
next
  case (joins i cs now s r s')
  with proxy_inv_join inv show ?thesis by blast
next
  case (seals i cs fid sendAt s sent s')
  with proxy_inv_seal run inv show ?thesis by blast
next
  case (answered i cs fid outcome t s s')
  with proxy_inv_answered inv show ?thesis by blast
next
  case (wakes i cs fid s fanoutAt)
  let ?x = "finishMember (svHeap s ! fid) (caMember (cs ! i)) (caPayload (cs ! i)) (caRecvAt (cs ! i)) fanoutAt"
  have inv': "proxy_inv B bc P (s, cs)" using inv wakes by simp
  have h: "holds s fid (caMember (cs ! i)) (caPayload (cs ! i))"
    using caller_of [OF inv' wakes(3)] wakes(4) by (simp add: caller_ok_def)
  then have "form_inv B bc P (svHeap s ! fid)"
    using inv' svc_inv_form by (auto simp: proxy_inv_def holds_def)
  then have "fmTerminal (svHeap s ! fid) = None \<Longrightarrow> fmSealed (svHeap s ! fid)"
    using wakes(5) by (auto simp: form_inv_def form_ok_def open_form_def failed_form_def sealed_form_def)
  note sealed = this
  have "answered_by s (cs ! i) resp" if a: "fst ?x = Inr resp" for resp
    using finishMember_answer [OF a] sealed h wakes(5) unfolding answered_by_def by blast
  then show ?thesis
    using proxy_inv_finishes [OF inv' wakes(3,4), of ?x] wakes(2) by (simp add: finishMember_request)
next
  case (leaves i cs fid s e)
  have "proxy_inv B bc P (s, cs)" using inv leaves by simp
  then show ?thesis unfolding leaves(2) by (rule proxy_inv_finishes [OF _ leaves(3,4)]) simp_all
next
  case (expires fid s s' cs)
  then have sv: "svc_inv B bc P s" using inv by (simp add: proxy_inv_def)
  obtain t where "expire fid s = Some t" "svc_inv B bc P t" "evolves s t" "newly_sealed s t = {}"
    using expire_ok [OF sv expires(3)] by blast
  then show ?thesis using expires inv sealers_ok_evolves caller_ok_evolves
    by (auto simp: proxy_inv_def)
next
  case (closes s s' cs)
  then have sv: "svc_inv B bc P s" using inv by (simp add: proxy_inv_def)
  obtain t where "CloseService s = Some t" "svc_inv B bc P t" "evolves s t" "newly_sealed s t = {}"
    using CloseService_ok [OF sv] by blast
  then show ?thesis using closes inv sealers_ok_evolves caller_ok_evolves
    by (auto simp: proxy_inv_def)
qed

text \<open>
  A run starts with a fresh service and any number of requests on their way to it.
\<close>

definition proxy_start :: "(RequestEnvelope \<Rightarrow> nat) \<Rightarrow> ProxyConfig \<Rightarrow> Config \<Rightarrow> byte list set
    \<Rightarrow> proxy_state \<Rightarrow> bool" where
  "proxy_start psize pc bc P = (\<lambda>(s, cs).
     run_ok psize (pcTargetB pc) bc P
     \<and> (\<exists>b. NewBuilder bc = Inr b \<and> NewService pc (Some b) True = Inr s)
     \<and> (\<forall>c \<in> set cs. caPhase c = Submitting \<and> caRecords c = [] \<and> caPayload c \<in> P))"

lemma proxy_inv_start:
  assumes "proxy_start psize pc bc P st"
  shows "proxy_inv (pcTargetB pc) bc P st"
proof -
  obtain s cs where st: "st = (s, cs)" by (cases st)
  have "sealer c = None" if "c \<in> set cs" for c
    using assms that by (simp add: st proxy_start_def sealer_def)
  then have "\<forall>i < length cs. sealer (cs ! i) = None" by simp
  then show ?thesis
    using assms
    by (auto simp: st proxy_start_def proxy_inv_def svc_inv_def reg_inv_def sealers_ok_def NewService_def
        ProxyConfig_Validate_def NewBuilder_def caller_ok_def split: if_splits option.splits)
qed

interpretation proxy: step_invariant "proxy_start psize pc bc P" "\<lambda>st st'. run_ok psize (pcTargetB pc) bc P \<and> proxy_step psize st st'"
  "proxy_inv (pcTargetB pc) bc P" for psize pc bc P
  by unfold_locales (auto intro: proxy_inv_start proxy_inv_step)

definition proxy_run :: "(RequestEnvelope \<Rightarrow> nat) \<Rightarrow> ProxyConfig \<Rightarrow> Config \<Rightarrow> byte list set
    \<Rightarrow> proxy_state \<Rightarrow> bool" where
  "proxy_run psize pc bc P = reach (proxy_start psize pc bc P) (proxy_step psize)"

lemma proxy_run_inv:
  assumes "proxy_run psize pc bc P st"
  shows "run_ok psize (pcTargetB pc) bc P \<and> proxy_inv (pcTargetB pc) bc P st"
  using assms unfolding proxy_run_def
proof (induction rule: reach.induct)
  case (reach_start s)
  then show ?case using proxy.start_inv by (cases s) (auto simp: proxy_start_def)
next
  case (reach_step s t)
  then show ?case using proxy.step_inv by blast
qed

text \<open>No section changes the configuration.\<close>

lemma proxy_run_cfg:
  assumes "proxy_run psize pc bc P st"
  shows "svCfg (fst st) = pc"
  using assms unfolding proxy_run_def
proof (induction rule: reach.induct)
  case (reach_start st)
  then show ?case by (auto simp: proxy_start_def NewService_def split: if_splits option.splits)
next
  case (reach_step st st')
  then have inv: "proxy_inv (pcTargetB pc) bc P st" using proxy_run_inv [unfolded proxy_run_def] by blast
  then have sv: "svc_inv (pcTargetB pc) bc P (fst st)" by (auto simp: proxy_inv_def)
  note kept = join_ok [OF sv] expire_ok [OF sv] CloseService_ok [OF sv]
  from reach_step(2) have "svCfg (fst st') = svCfg (fst st)"
  proof cases
    case (joins i cs now s r s')
    then show ?thesis using kept(1) [of "caPayload (cs ! i)" now "caMember (cs ! i)"] inv
      by (auto simp: evolves_def proxy_inv_def)
  next
    case (seals i cs fid sendAt s sent s')
    then show ?thesis
      by (auto simp: sealBegin_def put_def Let_def split: prod.splits option.splits sum.splits)
  next
    case (answered i cs fid outcome t s s')
    then show ?thesis by (auto simp: sealEnd_def put_def Let_def split: option.splits)
  next
    case (expires fid s s' cs)
    then show ?thesis using kept(2) [of fid] by (auto simp: evolves_def)
  next
    case (closes s s' cs)
    then show ?thesis using kept(3) by (auto simp: evolves_def)
  qed auto
  with reach_step(3) show ?case by simp
qed

end
