(* ===== verification/CohortContract.thy ===== *)
theory CohortContract
  imports ProxyProofs
begin

text \<open>
  What the proxy promises of cohort formation in every state a run can reach, whatever
  order the requests arrive in, whichever timers fire and contexts end, and whatever the
  backend answers. A run is any interleaving of the critical sections (\<open>proxy_step\<close>) from a
  fresh service; \<open>run_ok\<close> holds the wiring facts: the builder's config is valid, both parts
  agree on B, and message sizes stay in range.
\<close>

text \<open>
  C8. No critical section panics. In every reachable state an arriving member's \<^verbatim>\<open>join\<close>,
  the sealer's construction of the envelope (which the builder accepts) and its
  completion, a deadline firing on any formation, and \<^verbatim>\<open>Close\<close> all return: no ordinal
  indexes outside the slots and no done channel is closed twice.
\<close>

theorem proxy_never_panics:
  assumes "proxy_run psize pc bc P (s, cs)"
  shows "list_all (\<lambda>c. case caPhase c of
             Arriving \<Rightarrow> join now (caMember c) (caPayload c) s \<noteq> None
           | Sealing fid \<Rightarrow> map_option fst (sealBegin psize now fid s) = Some True
           | Sending fid \<Rightarrow> sealEnd psize outcome now fid s \<noteq> None
           | _ \<Rightarrow> True) cs
    \<and> list_all (\<lambda>fid. expire fid s \<noteq> None) [0 ..< length (svHeap s)]
    \<and> CloseService s \<noteq> None"
proof (intro conjI)
  have run: "run_ok psize (pcTargetB pc) bc P" and inv: "proxy_inv (pcTargetB pc) bc P (s, cs)"
    using proxy_run_inv [OF assms] by blast+
  then have sv: "svc_inv (pcTargetB pc) bc P s" by (simp add: proxy_inv_def)
  show "list_all (\<lambda>c. case caPhase c of
             Arriving \<Rightarrow> join now (caMember c) (caPayload c) s \<noteq> None
           | Sealing fid \<Rightarrow> map_option fst (sealBegin psize now fid s) = Some True
           | Sending fid \<Rightarrow> sealEnd psize outcome now fid s \<noteq> None
           | _ \<Rightarrow> True) cs"
    unfolding list_all_length
  proof (intro allI impI)
    fix i assume i: "i < length cs"
    note c = caller_of [OF inv i]
    show "case caPhase (cs ! i) of
             Arriving \<Rightarrow> join now (caMember (cs ! i)) (caPayload (cs ! i)) s \<noteq> None
           | Sealing fid \<Rightarrow> map_option fst (sealBegin psize now fid s) = Some True
           | Sending fid \<Rightarrow> sealEnd psize outcome now fid s \<noteq> None
           | _ \<Rightarrow> True"
    proof (cases "caPhase (cs ! i)")
      case Arriving
      then show ?thesis using join_ok [OF sv, of "caPayload (cs ! i)" now "caMember (cs ! i)"] c by auto
    next
      case (Sealing fid)
      then show ?thesis using sealBegin_ok [OF sv run, of fid now] c by (auto simp: caller_ok_def holds_def)
    next
      case (Sending fid)
      then show ?thesis using sealEnd_ok [OF sv, of fid psize outcome now] c by (auto simp: caller_ok_def holds_def)
    qed simp_all
  qed
  show "list_all (\<lambda>fid. expire fid s \<noteq> None) [0 ..< length (svHeap s)]"
    using expire_ok [OF sv] by (fastforce simp: list_all_iff)
  show "CloseService s \<noteq> None" using CloseService_ok [OF sv] by auto
qed

text \<open>What an envelope of the run holds.\<close>

lemma sent_envelope:
  assumes run: "run_ok psize B bc P" and inv: "svc_inv B bc P s" and fid: "fid < length (svHeap s)"
    and env: "fmEnv (svHeap s ! fid) = Some env"
  shows "sealed_form B (svHeap s ! fid)"
    and "cohort_of B (fst (assembled (svHeap s ! fid)))"
    and "eRequests env = map (\<lambda>k. pbRequest (LogicalRequest (fmCohort (svHeap s ! fid)) (of_nat k))
           (slPayload (fmSlots (svHeap s ! fid) ! k))) [0 ..< nat B]"
proof -
  let ?f = "svHeap s ! fid"
  have fi: "form_inv B bc P ?f" by (rule svc_inv_form [OF inv fid])
  then show sf: "sealed_form B ?f"
    using env by (auto simp: form_inv_def form_ok_def open_form_def failed_form_def)
  have B: "0 < B" "B < 2 ^ 32" using inv run by (simp_all add: svc_inv_def run_ok_def)
  let ?ms = "map (\<lambda>k. LogicalRequest (fmCohort ?f) (of_nat k)) [0 ..< nat B]"
  have asm: "assembled ?f = (?ms, map slPayload (fmSlots ?f))" by (rule assembled_sealed [OF sf])
  show "cohort_of B (fst (assembled ?f))" using cohort_of_assembled [OF B] by (simp add: asm)
  have "sorted (map (\<lambda>i. Ordinal (?ms ! i)) [0 ..< length ?ms])"
  unfolding sorted_iff_nth_mono_less
  proof (intro allI impI)
    fix i j assume ij: "i < j" "j < length (map (\<lambda>i. Ordinal (?ms ! i)) [0 ..< length ?ms])"
    then have "j < nat B" by simp
    moreover have "nat B \<le> 2 ^ 32" using B(2) by (simp add: nat_le_iff)
    ultimately have "unat (of_nat k :: uint32) = k" if "k \<le> j" for k
      using that by (intro unat_of_nat32) linarith
    with ij show "map (\<lambda>i. Ordinal (?ms ! i)) [0 ..< length ?ms] ! i
        \<le> map (\<lambda>i. Ordinal (?ms ! i)) [0 ..< length ?ms] ! j"
      by (simp add: word_le_nat_alt)
  qed
  then have "canonicalOrder ?ms = [0 ..< length ?ms]"
    unfolding canonicalOrder_def by (rule sort_key_id_if_sorted)
  moreover have "eRequests env = canonicalRequests ?ms (map slPayload (fmSlots ?f))"
    using fi env by (auto simp: form_inv_def env_of_def asm sealedEnvelope_def)
  ultimately show "eRequests env = map (\<lambda>k. pbRequest (LogicalRequest (fmCohort ?f) (of_nat k))
      (slPayload (fmSlots ?f ! k))) [0 ..< nat B]"
    using sf by (simp add: canonicalRequests_def sealed_form_def)
qed

lemma sent_accepted:
  assumes "proxy_run psize pc bc P (s, cs)" and "[] \<notin> P" and "AggregatesEnvelopes (cfgCell bc)"
    and "fid < length (svHeap s)" and "fmEnv (svHeap s ! fid) = Some env"
  shows "Validate (Some env) (expectationOf bc) = None
    \<and> Members env = map (\<lambda>k. LogicalRequest (fmCohort (svHeap s ! fid)) (of_nat k)) [0 ..< nat (pcTargetB pc)]
    \<and> list_all (\<lambda>c. if caPhase c \<in> {Sending fid, Waiting fid}
        then eRequests env ! unat (Ordinal (caMember c)) = pbRequest (caMember c) (caPayload c) else True) cs"
proof -
  let ?f = "svHeap s ! fid" and ?B = "pcTargetB pc"
  have run: "run_ok psize ?B bc P" and inv: "proxy_inv ?B bc P (s, cs)"
    using proxy_run_inv [OF assms(1)] by blast+
  then have sv: "svc_inv ?B bc P s" by (simp add: proxy_inv_def)
  note sent = sent_envelope [OF run sv assms(4,5)]
  have bc: "Config_Validate bc = None" "cfgTargetB bc = ?B" "?B < 2 ^ 32" using run by (simp_all add: run_ok_def)
  obtain b a where b: "bldCfg b = bc" and env: "env = (sealedEnvelope b (fst (assembled ?f))
      (snd (assembled ?f)) (fmSealAt ?f) (fmSendAt ?f))\<lparr>eAuxiliaryBytes := a\<rparr>"
    using svc_inv_form [OF sv assms(4)] assms(5) by (auto simp: form_inv_def env_of_def)
  have ps: "snd (assembled ?f) = map slPayload (fmSlots ?f)" using assembled_sealed [OF sent(1)] by simp
  have "set (snd (assembled ?f)) \<subseteq> P"
    using svc_inv_form [OF sv assms(4)] sent(1) by (auto simp: ps form_inv_def sealed_form_def)
  then have "env_contract env (expectationOf bc)"
    unfolding env using bc sent assms(2) ps length_cohort_of [OF sent(2)]
    by (intro sealed_contract [OF bc(1) _ b assms(3)]) (auto simp: sealed_form_def)
  then have "Validate (Some env) (expectationOf bc) = None" by (simp add: Validate_None_iff)
  moreover have "Members env = map (\<lambda>k. LogicalRequest (fmCohort ?f) (of_nat k)) [0 ..< nat ?B]"
    by (simp add: Members_def sent(3))
  moreover have "eRequests env ! unat (Ordinal (caMember c)) = pbRequest (caMember c) (caPayload c)"
    if c: "c \<in> set cs" "caPhase c \<in> {Sending fid, Waiting fid}" for c
  proof -
    have "holds s fid (caMember c) (caPayload c)"
      using inv c by (auto simp: proxy_inv_def caller_ok_def split: phase.splits)
    with sent(1) have h: "unat (Ordinal (caMember c)) < nat ?B" "fmCohort ?f = Cohort (caMember c)"
      "slPayload (fmSlots ?f ! unat (Ordinal (caMember c))) = caPayload c"
      by (auto simp: holds_def sealed_form_def)
    then show ?thesis by (cases "caMember c") (simp add: sent(3))
  qed
  ultimately show ?thesis by (simp add: list_all_iff)
qed

text \<open>
  C9. Whatever the proxy sends, the adapter accepts, and it is one cohort: in every
  reachable state of a run at an aggregating cell with non-empty payloads, an envelope
  that was built passes \<^verbatim>\<open>Validate\<close> against the run's expectation, carries the cohort's
  ordinals 0 to B-1 in order, and each member that waits on that formation (or sends it)
  finds its own UID and its own payload at its own ordinal.
\<close>

theorem sent_envelope_accepted:
  assumes "proxy_run psize pc bc P (s, cs)" and "[] \<notin> P" and "AggregatesEnvelopes (cfgCell bc)"
    and "fid < length (svHeap s)" and "fmEnv (svHeap s ! fid) = Some env"
  shows "Validate (Some env) (expectationOf bc) = None
    \<and> Members env = map (\<lambda>k. LogicalRequest (fmCohort (svHeap s ! fid)) (of_nat k)) [0 ..< nat (pcTargetB pc)]
    \<and> list_all (\<lambda>c. if caPhase c \<in> {Sending fid, Waiting fid}
        then eRequests env ! unat (Ordinal (caMember c)) = pbRequest (caMember c) (caPayload c) else True) cs"
  using assms by (rule sent_accepted)

text \<open>
  C10. A cohort is sealed at most once. In every reachable state two sealed formations
  are of different cohorts, and once a cohort is sealed every further member of it is
  refused by \<^verbatim>\<open>join\<close> with an error, the registry unchanged.
\<close>

theorem cohort_sealed_once:
  assumes "proxy_run psize pc bc P (s, cs)" and "fid < length (svHeap s)" and "fmSealed (svHeap s ! fid)"
  shows "list_all (\<lambda>i. if fmSealed (svHeap s ! i) \<and> fmCohort (svHeap s ! i) = fmCohort (svHeap s ! fid)
        then i = fid else True) [0 ..< length (svHeap s)]
    \<and> (\<exists>e. join now (LogicalRequest (fmCohort (svHeap s ! fid)) ord) payload s = Some (Inl e, s))"
proof -
  have "svc_inv (pcTargetB pc) bc P s"
    using proxy_run_inv [OF assms(1)] by (simp add: proxy_inv_def)
  then have r: "reg_inv (svHeap s) (svForming s)" by (simp add: svc_inv_def)
  then obtain m where m: "map_of (svForming s) (fmCohort (svHeap s ! fid)) = Some m"
    "fmTerminal (svHeap s ! m) \<noteq> None"
    using assms(2,3) unfolding reg_inv_def by blast
  have "i = fid" if "i < length (svHeap s)"
    "fmSealed (svHeap s ! i) \<and> fmCohort (svHeap s ! i) = fmCohort (svHeap s ! fid)" for i
    using r assms(2,3) that unfolding reg_inv_def by blast
  then show ?thesis using m by (auto simp: list_all_iff join_def admitMember_def Let_def)
qed

text \<open>
  C11. One record and an honest answer per request, on both paths. In every reachable state a
  submission still under way has written nothing. One whose UID is not the one its cohort and
  ordinal encode, or that is of another run, is refused at once with the error that says so and
  leaves no record. Every other one that has returned wrote exactly one record, about its own
  request, and its answer, when it is not an error, is a result for that very request; where the cell
  aggregates that result is the one the backend gave for it in the response to the envelope
  whose slot held its payload.
\<close>

theorem one_record_per_request:
  assumes "proxy_run psize pc bc P (s, cs)"
  shows "list_all (\<lambda>c. case caPhase c of
      Finished answer \<Rightarrow>
        (let req = caRequest c; member = LogicalRequest (crCohortId req) (crOrdinal req) in
         if crUid req \<noteq> UID member then answer = Inl (BadUID member) \<and> caRecords c = []
         else if crRunId req \<noteq> pcRun pc then answer = Inl (WrongRunID (crRunId req)) \<and> caRecords c = []
         else map recRequest (caRecords c) = [member]
           \<and> (case answer of Inl _ \<Rightarrow> True
              | Inr resp \<Rightarrow> (\<exists>r. lrCohortId r = crCohortId req \<and> lrOrdinal r = crOrdinal req
                  \<and> resp = clientResponse member r
                  \<and> (if AggregatesEnvelopes (pcCell pc) then \<exists>fid re. fid < length (svHeap s)
                       \<and> fmSlots (svHeap s ! fid) ! unat (crOrdinal req) = \<lparr>slPayload = crPayload req, slAdmitted = True\<rparr>
                       \<and> fmSealed (svHeap s ! fid) \<and> fmResp (svHeap s ! fid) = Some re
                       \<and> r \<in> set (reResults re)
                     else True))))
    | _ \<Rightarrow> caRecords c = []) cs"
  unfolding list_all_iff
proof
  fix c assume c: "c \<in> set cs"
  have "proxy_inv (pcTargetB pc) bc P (s, cs)" using proxy_run_inv [OF assms] by blast
  then have co: "caller_ok s c" using c by (simp add: proxy_inv_def)
  have cfg: "svCfg s = pc" using proxy_run_cfg [OF assms] by simp
  let ?req = "caRequest c"
  let ?member = "LogicalRequest (crCohortId ?req) (crOrdinal ?req)"
  have member: "caMember c = ?member" by (simp add: caMember_def requestMember_def)
  have one: "map recRequest rs = [m]" if "length rs = 1" "recRequest (rs ! 0) = m" for rs m
    using that by (cases rs) auto
  show "case caPhase c of
      Finished answer \<Rightarrow>
        (let req = ?req; member = LogicalRequest (crCohortId req) (crOrdinal req) in
         if crUid req \<noteq> UID member then answer = Inl (BadUID member) \<and> caRecords c = []
         else if crRunId req \<noteq> pcRun pc then answer = Inl (WrongRunID (crRunId req)) \<and> caRecords c = []
         else map recRequest (caRecords c) = [member]
           \<and> (case answer of Inl _ \<Rightarrow> True
              | Inr resp \<Rightarrow> (\<exists>r. lrCohortId r = crCohortId req \<and> lrOrdinal r = crOrdinal req
                  \<and> resp = clientResponse member r
                  \<and> (if AggregatesEnvelopes (pcCell pc) then \<exists>fid re. fid < length (svHeap s)
                       \<and> fmSlots (svHeap s ! fid) ! unat (crOrdinal req) = \<lparr>slPayload = crPayload req, slAdmitted = True\<rparr>
                       \<and> fmSealed (svHeap s ! fid) \<and> fmResp (svHeap s ! fid) = Some re
                       \<and> r \<in> set (reResults re)
                     else True))))
    | _ \<Rightarrow> caRecords c = []"
  proof (cases "caPhase c")
    case (Finished answer)
    with co have fin: "finished_ok s c answer" by (simp add: caller_ok_def)
    show ?thesis
    proof (cases "crUid ?req = UID ?member \<and> crRunId ?req = pcRun pc")
      case True
      then have "SubmitCheck pc ?req = Inr (AggregatesEnvelopes (pcCell pc))"
        by (simp add: SubmitCheck_def requestMember_def)
      then have f: "length (caRecords c) = 1" "recRequest (caRecords c ! 0) = ?member"
        "\<And>resp. answer = Inr resp \<Longrightarrow> (if AggregatesEnvelopes (pcCell pc) then answered_by s c resp else own_result c resp)"
        using fin by (simp_all add: finished_ok_def cfg member)
      have "case answer of Inl _ \<Rightarrow> True
          | Inr resp \<Rightarrow> (\<exists>r. lrCohortId r = crCohortId ?req \<and> lrOrdinal r = crOrdinal ?req \<and> resp = clientResponse ?member r
              \<and> (if AggregatesEnvelopes (pcCell pc) then \<exists>fid re. fid < length (svHeap s)
                   \<and> fmSlots (svHeap s ! fid) ! unat (crOrdinal ?req) = \<lparr>slPayload = crPayload ?req, slAdmitted = True\<rparr>
                   \<and> fmSealed (svHeap s ! fid) \<and> fmResp (svHeap s ! fid) = Some re
                   \<and> r \<in> set (reResults re)
                 else True))"
      proof (cases answer)
        case (Inr resp)
        show ?thesis
        proof (cases "AggregatesEnvelopes (pcCell pc)")
          case True
          then have "answered_by s c resp" using f(3) Inr by simp
          then obtain fid re r where "holds s fid (caMember c) (caPayload c)" "fmTerminal (svHeap s ! fid) = None"
            "fmSealed (svHeap s ! fid)" "fmResp (svHeap s ! fid) = Some re" "r \<in> set (reResults re)"
            "lrCohortId r = Cohort (caMember c)" "lrOrdinal r = Ordinal (caMember c)" "resp = clientResponse (caMember c) r"
            unfolding answered_by_def by blast
          then show ?thesis
            using Inr True by (auto simp: holds_def member caPayload_def intro!: exI [of _ r] exI [of _ fid])
        next
          case False
          then show ?thesis using f(3) Inr by (auto simp: own_result_def member)
        qed
      qed simp
      with True f(1,2) one show ?thesis by (simp add: Finished Let_def)
    next
      case False
      then show ?thesis
        using fin by (auto simp: Finished Let_def finished_ok_def cfg SubmitCheck_def requestMember_def)
    qed
  qed (use co in \<open>simp_all add: caller_ok_def\<close>)
qed

text \<open>
  C12. No member waits for nothing. In every reachable state, of a member that waits on a
  formation: either the formation is done and it can return, or it is sealed and another
  submission is building or sending its envelope, or it is still forming, its deadline is
  armed, and both the deadline firing and \<^verbatim>\<open>Close\<close> make it done.
\<close>

theorem no_member_stuck:
  assumes "proxy_run psize pc bc P (s, cs)"
  shows "list_all (\<lambda>c. case caPhase c of
      Waiting fid \<Rightarrow>
        (if fmDone (svHeap s ! fid) then True
         else if fmSealed (svHeap s ! fid)
         then list_ex (\<lambda>d. caPhase d \<in> {Sealing fid, Sending fid}) cs
         else fmDeadline (svHeap s ! fid)
           \<and> map_option (\<lambda>t. fmDone (svHeap t ! fid)) (expire fid s) = Some True
           \<and> map_option (\<lambda>t. fmDone (svHeap t ! fid)) (CloseService s) = Some True)
    | _ \<Rightarrow> True) cs"
  unfolding list_all_iff
proof
  fix c assume c: "c \<in> set cs"
  have inv: "proxy_inv (pcTargetB pc) bc P (s, cs)" using proxy_run_inv [OF assms] by blast
  then have sv: "svc_inv (pcTargetB pc) bc P s" and so: "sealers_ok s cs" and co: "caller_ok s c"
    using c by (simp_all add: proxy_inv_def)
  have "list_ex (\<lambda>d. caPhase d \<in> {Sealing fid, Sending fid}) cs"
    if "fid < length (svHeap s)" "fmSealed (svHeap s ! fid)" "\<not> fmDone (svHeap s ! fid)" for fid
  proof -
    from so that obtain l where "l < length cs" "sealer (cs ! l) = Some fid"
      unfolding sealers_ok_def by blast
    then show ?thesis
      unfolding list_ex_length by (auto simp: sealer_def split: phase.splits intro!: exI [of _ l])
  qed
  moreover have "fmDeadline (svHeap s ! fid)
      \<and> map_option (\<lambda>t. fmDone (svHeap t ! fid)) (expire fid s) = Some True
      \<and> map_option (\<lambda>t. fmDone (svHeap t ! fid)) (CloseService s) = Some True"
    if f: "fid < length (svHeap s)" "\<not> fmSealed (svHeap s ! fid)" "\<not> fmDone (svHeap s ! fid)" for fid
  proof -
    have op: "open_form (pcTargetB pc) (svHeap s ! fid)"
      using svc_inv_form [OF sv f(1)] f by (auto simp: form_inv_def form_ok_def failed_form_def sealed_form_def)
    obtain t where t: "CloseService s = Some t" "newly_sealed s t = {}" "evolves s t"
        "fmSealed (svHeap t ! fid) \<or> fmDone (svHeap t ! fid)"
      using CloseService_ok [OF sv] f(1) by blast
    have "fid < length (svHeap t)" using t(3) f(1) by (simp add: evolves_def)
    then have "fid \<in> newly_sealed s t" if "fmSealed (svHeap t ! fid)"
      using f(2) that by (simp add: newly_sealed_def)
    then have "\<not> fmSealed (svHeap t ! fid)" using t(2) by blast
    with t expire_ok [OF sv f(1)] op f show ?thesis by (auto simp: open_form_def)
  qed
  ultimately show "case caPhase c of
      Waiting fid \<Rightarrow>
        (if fmDone (svHeap s ! fid) then True
         else if fmSealed (svHeap s ! fid)
         then list_ex (\<lambda>d. caPhase d \<in> {Sealing fid, Sending fid}) cs
         else fmDeadline (svHeap s ! fid)
           \<and> map_option (\<lambda>t. fmDone (svHeap t ! fid)) (expire fid s) = Some True
           \<and> map_option (\<lambda>t. fmDone (svHeap t ! fid)) (CloseService s) = Some True)
    | _ \<Rightarrow> True"
    using co by (auto simp: caller_ok_def holds_def split: phase.splits)
qed

section \<open>The path without aggregation\<close>

text \<open>
  C13. The A=off path keeps its promises, at every call of a run: for a valid config, of a cohort
  size below 2^32, of a cell that does not aggregate, whatever the builder has numbered before, and for a non-empty payload
  whose envelope stays under 2^62 bytes, \<^verbatim>\<open>forward\<close> returns; the envelope it gives the backend
  passes \<^verbatim>\<open>Validate\<close>, has the next number and holds just this member with its payload; the one record is
  about this request and that envelope; an answer that is not an error is a result the
  backend gave for this request, with the status of the record telling success from failure; and the
  builder is left with the same config, one number further.
\<close>

theorem forward_contract:
  assumes "proto_size psize" and "Config_Validate cfg = None" and "bldCfg b = cfg" and "cfgTargetB cfg < 2 ^ 32"
    and "\<not> AggregatesEnvelopes (cfgCell cfg)" and "payload \<noteq> []"
    and "psize ((fst (base b))\<lparr>eCohortId := Cohort m, eExpectedMembers := 1, eAggregate := False,
           eTProxySend := sendAt, eRequests := [pbRequest m payload],
           eLogicalBytes := of_nat (length payload), eAuxiliaryBytes := 0\<rparr>) < 2 ^ 62"
  shows "\<exists>env ans rec b'. forward psize backend b m payload recvAt sendAt respRecvAt fanoutAt = Some (ans, rec, b')
    \<and> b' = b\<lparr>bldNextID := bldNextID b + 1\<rparr> \<and> eEnvelopeId env = bldNextID b + 1
    \<and> Validate (Some env) (expectationOf cfg) = None \<and> eRequests env = [pbRequest m payload]
    \<and> recRequest rec = m \<and> rEnvelopeID rec = eEnvelopeId env \<and> rEmitter rec = EmitterProxy
    \<and> (case ans of Inl _ \<Rightarrow> rStatus rec = StatusError
       | Inr resp \<Rightarrow> (\<exists>re r. backend env = Inr re \<and> r \<in> set (reResults re)
           \<and> lrCohortId r = Cohort m \<and> lrOrdinal r = Ordinal m
           \<and> resp = clientResponse m r \<and> rStatus rec = resultStatus r))"
proof -
  obtain env b' where env: "Independent psize b m payload sendAt = Some (env, b')"
    "b' = b\<lparr>bldNextID := bldNextID b + 1\<rparr>" "eEnvelopeId env = bldNextID b + 1"
    "Validate (Some env) (expectationOf cfg) = None" "eRequests env = [pbRequest m payload]"
    using Independent_ok [OF assms] by fastforce
  have found: "r \<in> set (reResults re) \<and> lrCohortId r = Cohort m \<and> lrOrdinal r = Ordinal m"
    if "memberResult (Some re) m = Inr r" for re r
    using that by (auto simp: memberResult_def split: option.splits dest: find_SomeD)
  have "rEnvelopeID (SetStage st t r) = rEnvelopeID r" for st t r by (simp add: SetStage_def)
  with env found show ?thesis
    by (intro exI [of _ env])
       (auto simp: forward_def env(1) Let_def writeRec_def recRequest_def split: sum.splits)
qed

section \<open>Witnesses\<close>

text \<open>
  A run of two requests of cohort 4 at cell F10 with B = 2: both join, the second seals and
  sends, the backend answers both members, and the sealer is woken and returns.
\<close>

definition sampleProxyConfig :: ProxyConfig where
  "sampleProxyConfig = \<lparr>pcCell = CellF10, pcRun = ''r'', pcTargetB = 2, pcFormationDeadline = 1000\<rparr>"

definition sampleCaller :: "uint32 \<Rightarrow> byte \<Rightarrow> caller" where
  "sampleCaller k p = \<lparr>caRequest = \<lparr>crRunId = ''r'', crCohortId = 4, crOrdinal = k, crUid = UID (LogicalRequest 4 k),
     crPayload = [p]\<rparr>, caRecvAt = 1, caPhase = Submitting, caRecords = []\<rparr>"

definition sampleService :: Service where
  "sampleService = \<lparr>svCfg = sampleProxyConfig, svBuilder = sampleBuilder CellF10, svHeap = [],
     svForming = [], svClosed = False\<rparr>"

definition sampleJoin1 :: Service where
  "sampleJoin1 = snd (the (join 5 (LogicalRequest 4 1) [7] sampleService))"

definition sampleJoin2 :: Service where
  "sampleJoin2 = snd (the (join 6 (LogicalRequest 4 0) [8] sampleJoin1))"

lemma sample_joins:
  "join 5 (LogicalRequest 4 1) [7] sampleService = Some (Inr (0, False), sampleJoin1)"
  "join 6 (LogicalRequest 4 0) [8] sampleJoin1 = Some (Inr (0, True), sampleJoin2)"
  by code_simp+

lemma sample_run_ok: "run_ok wire_size 2 (sampleConfig CellF10) {[7], [8]}"
  unfolding run_ok_def sizes_ok_def
proof (intro conjI allI impI)
  show "proto_size wire_size" by (rule wire.proto_size_axioms)
  fix b :: Builder and seal sent :: int64 and ms :: "LogicalRequest list" and ps :: "byte list list"
  assume a: "bldCfg b = sampleConfig CellF10" "set ps \<subseteq> {[7], [8]}"
    "length ps = nat (cfgTargetB (sampleConfig CellF10))" "length ms = nat (cfgTargetB (sampleConfig CellF10))"
  then have two: "length ps = 2" "length ms = 2" by (simp_all add: sampleConfig_def)
  then obtain p q where ps: "ps = [p, q]" by (auto simp: numeral_2_eq_2 length_Suc_conv)
  then have "sum_list (map length ps) = 2" using a(2) by auto
  then have "payload_bytes (canonicalRequests ms ps) = 2"
    using payload_bytes_canonical [of ms ps] two by simp
  moreover have "length (canonicalRequests ms ps) = 2"
    using two by (simp add: canonicalRequests_def canonicalOrder_def)
  ultimately show "wire_size ((sealedEnvelope b ms ps seal sent)\<lparr>eAuxiliaryBytes := 0\<rparr>) < 2 ^ 62"
    by (intro le_less_trans [OF wire_size_le])
       (simp add: sealedEnvelope_def base_def Let_def a(1), simp add: sampleConfig_def)
qed (simp_all add: sampleConfig_def Config_Validate_def)

definition sampleCallers :: "phase \<Rightarrow> phase \<Rightarrow> caller list" where
  "sampleCallers p q = [(sampleCaller 1 7)\<lparr>caPhase := p\<rparr>, (sampleCaller 0 8)\<lparr>caPhase := q\<rparr>]"

abbreviation (input) sample_reach :: "proxy_state \<Rightarrow> bool" where
  "sample_reach \<equiv> proxy_run wire_size sampleProxyConfig (sampleConfig CellF10) {[7], [8]}"

lemma sample_fresh: "sample_reach (sampleService, sampleCallers Submitting Submitting)"
proof -
  have "NewService sampleProxyConfig (Some (sampleBuilder CellF10)) True = Inr sampleService"
    by (simp add: NewService_def ProxyConfig_Validate_def sampleProxyConfig_def sampleService_def
        AggregatesEnvelopes_def)
  moreover have "NewBuilder (sampleConfig CellF10) = Inr (sampleBuilder CellF10)"
    by (rule NewBuilder_sample) simp
  ultimately show ?thesis
    unfolding proxy_run_def
    by (intro reach_start) (auto simp: proxy_start_def sampleCallers_def sampleCaller_def caPayload_def sample_run_ok
        sampleProxyConfig_def)
qed

text \<open>The callers of a step, written out.\<close>

lemmas sample_simps = sampleCallers_def sampleCaller_def afterJoin_def caMember_def caPayload_def requestMember_def

lemma sample_step:
  "sample_reach st \<Longrightarrow> proxy_step wire_size st st' \<Longrightarrow> sample_reach st'"
  unfolding proxy_run_def by (rule reach_step)

lemma sample_start: "sample_reach (sampleService, sampleCallers Arriving Arriving)"
proof -
  have check: "SubmitCheck (svCfg sampleService) (caRequest (sampleCaller k p)) = Inr True" for k p
    by (simp add: SubmitCheck_def requestMember_def sampleCaller_def sampleService_def sampleProxyConfig_def AggregatesEnvelopes_def)
  have "sample_reach (sampleService, sampleCallers Arriving Submitting)"
    using proxy_step.submits [where i = 0 and cs = "sampleCallers Submitting Submitting" and s = sampleService
        and psize = wire_size and recvAt = 1] check [of 1 7]
    by (intro sample_step [OF sample_fresh]) (simp add: sampleCallers_def afterCheck_def sampleCaller_def)
  then show ?thesis
    using proxy_step.submits [where i = 1 and cs = "sampleCallers Arriving Submitting" and s = sampleService
        and psize = wire_size and recvAt = 1] check [of 0 8]
    by (elim sample_step) (simp add: sampleCallers_def afterCheck_def sampleCaller_def)
qed

lemma sample_formed: "sample_reach (sampleJoin2, sampleCallers (Waiting 0) (Sealing 0))"
proof -
  have "sample_reach (sampleJoin1, sampleCallers (Waiting 0) Arriving)"
    using proxy_step.joins [where i = 0 and cs = "sampleCallers Arriving Arriving" and now = 5
        and s = sampleService and r = "Inr (0, False)" and s' = sampleJoin1 and psize = wire_size] sample_joins
    by (intro sample_step [OF sample_start]) (simp add: sample_simps)
  then show ?thesis
    using proxy_step.joins [where i = 1 and cs = "sampleCallers (Waiting 0) Arriving" and now = 6
        and s = sampleJoin1 and r = "Inr (0, True)" and s' = sampleJoin2 and psize = wire_size] sample_joins
    by (elim sample_step) (simp add: sample_simps)
qed

lemma sample_heap: "length (svHeap sampleJoin2) = 2" "fmSealed (svHeap sampleJoin2 ! 0)"
  "\<not> fmDone (svHeap sampleJoin2 ! 0)" "fmTerminal (svHeap sampleJoin2 ! 0) = None"
  "fmCohort (svHeap sampleJoin2 ! 0) = 4"
  by code_simp+

lemma sample_svc: "sample_reach (s, cs) \<Longrightarrow> svc_inv 2 (sampleConfig CellF10) {[7], [8]} s"
  using proxy_run_inv [of wire_size sampleProxyConfig "sampleConfig CellF10" "{[7], [8]}" "(s, cs)"]
  by (simp add: proxy_inv_def sampleProxyConfig_def)

lemma sample_sent: "\<exists>s env. sample_reach (s, sampleCallers (Waiting 0) (Sending 0))
  \<and> length (svHeap s) = 2 \<and> fmEnv (svHeap s ! 0) = Some env \<and> fmSealed (svHeap s ! 0)
  \<and> \<not> fmDone (svHeap s ! 0) \<and> fmTerminal (svHeap s ! 0) = None \<and> fmCohort (svHeap s ! 0) = 4"
proof -
  obtain env b where b: "sealBegin wire_size 20 0 sampleJoin2 = Some (True,
      put 0 ((svHeap sampleJoin2 ! 0)\<lparr>fmSendAt := 20, fmEnv := Some env\<rparr>) (sampleJoin2\<lparr>svBuilder := b\<rparr>))"
    using sealBegin_ok [OF sample_svc [OF sample_formed] sample_run_ok, of 0 20] sample_heap by auto
  let ?s = "put 0 ((svHeap sampleJoin2 ! 0)\<lparr>fmSendAt := 20, fmEnv := Some env\<rparr>) (sampleJoin2\<lparr>svBuilder := b\<rparr>)"
  have "sample_reach (?s, sampleCallers (Waiting 0) (Sending 0))"
    using proxy_step.seals [where i = 1 and cs = "sampleCallers (Waiting 0) (Sealing 0)", OF _ _ b]
    by (intro sample_step [OF sample_formed]) (simp add: sample_simps)
  then show ?thesis using sample_heap by (intro exI [of _ ?s] exI [of _ env]) (simp add: put_def)
qed

definition sampleResponse :: ResponseEnvelope where
  "sampleResponse = \<lparr>reSchemaVersion = 1, reRunId = ''r'', reCohortId = 4, reEnvelopeId = 1,
     reResults = map (\<lambda>k. \<lparr>lrCohortId = 4, lrOrdinal = k, lrStatus = STATUS_OK, lrError = [],
       lrMembershipUids = [UID (LogicalRequest 4 k)], lrBatchSize = 1, lrDataOutBytes = 4\<rparr>) [0, 1],
     reEvidence = None, reTAdapterRecv = 30, reTAdapterSend = 40\<rparr>"

lemma sample_finished: "\<exists>s r1 resp. sample_reach (s, [(sampleCaller 1 7)\<lparr>caPhase := Waiting 0\<rparr>,
    (sampleCaller 0 8)\<lparr>caPhase := Finished (Inr resp), caRecords := [r1]\<rparr>])"
proof -
  obtain s env where s: "sample_reach (s, sampleCallers (Waiting 0) (Sending 0))"
    "length (svHeap s) = 2" "fmEnv (svHeap s ! 0) = Some env" "fmSealed (svHeap s ! 0)"
    "\<not> fmDone (svHeap s ! 0)" "fmTerminal (svHeap s ! 0) = None"
    using sample_sent by blast
  let ?g = "(svHeap s ! 0)\<lparr>fmRespRecvAt := 50, fmResp := Some sampleResponse,
      fmEnvelopeBytes := of_nat (WireBytes wire_size env), fmSendErr := None, fmDone := True\<rparr>"
  have e: "sealEnd wire_size (Inr sampleResponse) 50 0 s = Some (put 0 ?g s)"
    using s by (simp add: sealEnd_def closeDone_def Let_def)
  have g: "svHeap (put 0 ?g s) ! 0 = ?g" using s(2) by (simp add: put_def)
  have w: "sample_reach (put 0 ?g s, sampleCallers (Waiting 0) (Waiting 0))"
    using proxy_step.answered [where i = 1 and cs = "sampleCallers (Waiting 0) (Sending 0)", OF _ _ e]
    by (intro sample_step [OF s(1)]) (simp add: sample_simps)
  obtain resp r1 where fin: "finishMember ?g (LogicalRequest 4 0) [8] 1 60 = (Inr resp, r1)"
    using s(6) by (simp add: finishMember_def Let_def memberResult_def sampleResponse_def)
  show ?thesis
    using proxy_step.wakes [where i = 1 and cs = "sampleCallers (Waiting 0) (Waiting 0)" and fid = 0
        and s = "put 0 ?g s" and fanoutAt = 60 and psize = wire_size] fin g
    by (intro exI [of _ "put 0 ?g s"] exI [of _ r1] exI [of _ resp] sample_step [OF w])
       (simp add: sample_simps finishes_def)
qed

theorem proxy_never_panics_witness:
  "map_option fst (sealBegin wire_size 20 0 sampleJoin2) = Some True \<and> CloseService sampleJoin2 \<noteq> None"
  using proxy_never_panics [OF sample_formed, where now = 20] by (simp add: sample_simps)

theorem sent_envelope_accepted_witness:
  "\<exists>s env. sample_reach (s, sampleCallers (Waiting 0) (Sending 0))
    \<and> Validate (Some env) (expectationOf (sampleConfig CellF10)) = None
    \<and> eRequests env ! 1 = pbRequest (LogicalRequest 4 1) [7]"
proof -
  obtain s env where s: "sample_reach (s, sampleCallers (Waiting 0) (Sending 0))"
    "0 < length (svHeap s)" "fmEnv (svHeap s ! 0) = Some env"
    using sample_sent by fastforce
  show ?thesis
    using sent_envelope_accepted [OF s(1) _ _ s(2,3)] s(1)
    by (intro exI [of _ s] exI [of _ env]) (simp add: sample_simps sampleConfig_def AggregatesEnvelopes_def)
qed

theorem cohort_sealed_once_witness:
  "\<exists>e. join 9 (LogicalRequest 4 1) [7] sampleJoin2 = Some (Inl e, sampleJoin2)"
  using cohort_sealed_once [OF sample_formed, of 0 9 1 "[7]"] sample_heap by simp

theorem one_record_per_request_witness:
  "\<exists>s r1 resp. sample_reach (s, [(sampleCaller 1 7)\<lparr>caPhase := Waiting 0\<rparr>,
      (sampleCaller 0 8)\<lparr>caPhase := Finished (Inr resp), caRecords := [r1]\<rparr>])
    \<and> recRequest r1 = LogicalRequest 4 0 \<and> csOrdinal resp = 0"
proof -
  obtain s r1 resp where s: "sample_reach (s, [(sampleCaller 1 7)\<lparr>caPhase := Waiting 0\<rparr>,
      (sampleCaller 0 8)\<lparr>caPhase := Finished (Inr resp), caRecords := [r1]\<rparr>])"
    using sample_finished by blast
  show ?thesis
    using one_record_per_request [OF s] s
    by (intro exI [of _ s] exI [of _ r1] exI [of _ resp])
       (auto simp: sampleCaller_def sampleProxyConfig_def clientResponse_def Let_def)
qed

theorem no_member_stuck_witness:
  "list_ex (\<lambda>d. caPhase d \<in> {Sealing 0, Sending 0}) (sampleCallers (Waiting 0) (Sealing 0))"
  using no_member_stuck [OF sample_formed] sample_heap by (simp add: sample_simps)

text \<open>A builder that has numbered 41 envelopes already.\<close>

theorem forward_contract_witness:
  "\<exists>ans rec b'. forward wire_size (\<lambda>_. Inl ''down'') ((sampleBuilder CellF00)\<lparr>bldNextID := 41\<rparr>) (LogicalRequest 4 1) [7, 8, 9]
      10 20 30 40 = Some (ans, rec, b') \<and> recRequest rec = LogicalRequest 4 1 \<and> rEnvelopeID rec = 42 \<and> bldNextID b' = 42"
proof -
  let ?b = "(sampleBuilder CellF00)\<lparr>bldNextID := 41\<rparr>"
  have small: "wire_size ((fst (base ?b))\<lparr>eCohortId := Cohort (LogicalRequest 4 1),
      eExpectedMembers := 1, eAggregate := False, eTProxySend := 20,
      eRequests := [pbRequest (LogicalRequest 4 1) [7, 8, 9]],
      eLogicalBytes := of_nat (length [7, 8, 9 :: byte]), eAuxiliaryBytes := 0\<rparr>) < 2 ^ 62"
    by (intro le_less_trans [OF wire_size_le])
       (simp add: base_def sampleBuilder_def sampleConfig_def Let_def payload_bytes_def)
  have valid: "Config_Validate (sampleConfig CellF00) = None" by (simp add: sampleConfig_def Config_Validate_def)
  have "bldCfg ?b = sampleConfig CellF00" by (simp add: sampleBuilder_def)
  from forward_contract [OF wire.proto_size_axioms valid this _ _ _ small, where backend = "\<lambda>_. Inl ''down''"
      and recvAt = 10 and respRecvAt = 30 and fanoutAt = 40]
  show ?thesis by (fastforce simp: sampleConfig_def AggregatesEnvelopes_def)
qed

end
