(* ===== verification/Commands.thy ===== *)
theory Commands
  imports Orchestration RecordWriter Suite Adapter Proxy CohortContract "HOL-Library.Sublist"
begin

text \<open>
  The programs: \<^verbatim>\<open>cmd/adapter\<close>, \<^verbatim>\<open>cmd/proxy\<close> and \<^verbatim>\<open>cmd/runner\<close>. How a command line becomes a
  configuration (Go's \<^verbatim>\<open>flag\<close> and \<^verbatim>\<open>strconv.ParseInt\<close> in base 0), what the two processes of the
  shared path are wired to and what comes up on any command line, and the runner's subcommands
  with their exit status. What the operating system, the files and the runs are is an argument
  (\<^verbatim>\<open>processMet\<close>, \<^verbatim>\<open>runnerMet\<close>); what is printed, and what the image digest is recorded as, is not
  modelled. \<^verbatim>\<open>d (Dir m)\<close> is one directory: a suite that loads names each only once.
\<close>

section \<open>Integers in any base\<close>

definition lowerChar :: "char \<Rightarrow> char" where
  "lowerChar c = (let n = (of_char c :: nat) in if 65 \<le> n \<and> n \<le> 90 then char_of (n + 32) else c)"

definition digitOf :: "char \<Rightarrow> nat option" where
  "digitOf c = (if isDigit c then Some (of_char c - 48)
     else let n = (of_char (lowerChar c) :: nat) in if 97 \<le> n \<and> n \<le> 122 then Some (n - 87) else None)"

fun baseValue :: "nat \<Rightarrow> nat \<Rightarrow> string \<Rightarrow> nat option" where
  "baseValue b n [] = Some n"
| "baseValue b n (c # cs) = (if c = CHR ''_'' then baseValue b n cs
     else case digitOf c of None \<Rightarrow> None | Some d \<Rightarrow> if b \<le> d then None else baseValue b (n * b + d) cs)"

text \<open>The base a prefix announces, and the digits after it.\<close>

definition splitBase :: "string \<Rightarrow> nat \<times> string" where
  "splitBase s = (if s = [] \<or> hd s \<noteq> CHR ''0'' then (10, s)
     else if 3 \<le> length s \<and> lowerChar (s ! 1) = CHR ''b'' then (2, drop 2 s)
     else if 3 \<le> length s \<and> lowerChar (s ! 1) = CHR ''o'' then (8, drop 2 s)
     else if 3 \<le> length s \<and> lowerChar (s ! 1) = CHR ''x'' then (16, drop 2 s)
     else (8, tl s))"

text \<open>Underscores only between digits; a base prefix counts as a digit.\<close>

datatype before = Start | AfterDigit | AfterUnderscore | AfterOther

fun underscores :: "bool \<Rightarrow> before \<Rightarrow> string \<Rightarrow> bool" where
  "underscores hex i [] \<longleftrightarrow> i \<noteq> AfterUnderscore"
| "underscores hex i (c # cs) \<longleftrightarrow>
     (if isDigit c \<or> hex \<and> (let n = (of_char (lowerChar c) :: nat) in 97 \<le> n \<and> n \<le> 102) then underscores hex AfterDigit cs
      else if c = CHR ''_'' then i = AfterDigit \<and> underscores hex AfterUnderscore cs
      else i \<noteq> AfterUnderscore \<and> underscores hex AfterOther cs)"

definition underscoreOK :: "string \<Rightarrow> bool" where
  "underscoreOK s = (if 2 \<le> length s \<and> s ! 0 = CHR ''0'' \<and> lowerChar (s ! 1) \<in> {CHR ''b'', CHR ''o'', CHR ''x''}
     then underscores (lowerChar (s ! 1) = CHR ''x'') AfterDigit (drop 2 s) else underscores False Start s)"

definition ParseInt0 :: "string \<Rightarrow> int option" where
  "ParseInt0 s = (let (negative, body) = (case s of [] \<Rightarrow> (False, [])
         | c # cs \<Rightarrow> if c = CHR ''-'' then (True, cs) else if c = CHR ''+'' then (False, cs) else (False, s)) in
     if body = [] \<or> CHR ''_'' \<in> set body \<and> \<not> underscoreOK body then None
     else case splitBase body of (b, digits) \<Rightarrow> (case baseValue b 0 digits of None \<Rightarrow> None
       | Some n \<Rightarrow> let v = (if negative then - int n else int n) in if - (2 ^ 63) \<le> v \<and> v < 2 ^ 63 then Some v else None))"

lemma baseValue_digits: "list_all isDigit s \<Longrightarrow> baseValue 10 n s = digitsValue n s"
proof (induction s arbitrary: n)
  case (Cons c s)
  then have "c \<noteq> CHR ''_''" "of_char c - 48 < (10 :: nat)" by (auto simp: isDigit_def)
  then show ?case using Cons by (simp add: digitOf_def)
qed simp

lemma AppendUint_isDigit: "list_all isDigit (AppendUint n)"
  using AppendUint_plain [of _ n] by (auto simp: list_all_iff)

lemma AppendUint_head: "hd (AppendUint n) = CHR ''0'' \<Longrightarrow> n = 0"
proof (induction n rule: AppendUint.induct)
  case (1 n)
  show ?case
  proof (cases "n < 10")
    case True
    then have "hd (AppendUint n) = char_of (48 + n)" by (subst AppendUint.simps) simp
    then have "(of_char (char_of (48 + n) :: char) :: nat) = of_char (CHR ''0'')" using 1(2) by simp
    then show ?thesis using True by simp
  next
    case False
    then have "hd (AppendUint n) = hd (AppendUint (n div 10))" by (subst AppendUint.simps) simp
    then show ?thesis using 1 False by simp
  qed
qed

lemma ParseInt0_Itoa:
  assumes "- (2 ^ 63) \<le> v" and "v < 2 ^ 63"
  shows "ParseInt0 (Itoa v) = Some v"
proof -
  have plain: "c \<notin> set (AppendUint n)" if "c \<in> {CHR ''_'', CHR ''-'', CHR ''+''}" for c n
    using that by (auto simp: isDigit_def intro!: AppendUint_plain)
  have digits: "(case splitBase (AppendUint n) of (b, ds) \<Rightarrow> baseValue b 0 ds) = Some n" for n
  proof (cases "n = 0")
    case True
    moreover have "AppendUint 0 = ''0''" by code_simp
    ultimately show ?thesis by (simp add: splitBase_def)
  next
    case False
    then have "splitBase (AppendUint n) = (10, AppendUint n)" using AppendUint_head [of n] by (auto simp: splitBase_def)
    then show ?thesis using baseValue_digits [OF AppendUint_isDigit] digitsValue_AppendUint [of n "[]"] by simp
  qed
  obtain c cs where c: "AppendUint (nat v) = c # cs" using AppendUint_nonempty(1) [of "nat v"] by (cases "AppendUint (nat v)") auto
  have "c \<noteq> CHR ''-''" "c \<noteq> CHR ''+''" using plain [of _ "nat v"] unfolding c by auto
  then show ?thesis
    using assms digits [of "nat v"] digits [of "nat (- v)"] plain [of "CHR ''_''" "nat v"] plain [of "CHR ''_''" "nat (- v)"]
    by (auto simp: ParseInt0_def Itoa_def c split: prod.splits)
qed

section \<open>Flags\<close>

datatype flag_value = VString string | VInt int | VBool bool

type_synonym flags = "(string \<times> flag_value) list"

datatype flag_error = BadSyntax string | HelpRequested | NotDefined string | NeedsArgument string | InvalidValue string string

definition ParseBool :: "string \<Rightarrow> bool option" where
  "ParseBool s = (if s \<in> {''1'', ''t'', ''T'', ''true'', ''TRUE'', ''True''} then Some True
     else if s \<in> {''0'', ''f'', ''F'', ''false'', ''FALSE'', ''False''} then Some False else None)"

fun setFlag :: "flag_value \<Rightarrow> string \<Rightarrow> flag_value option" where
  "setFlag (VString _) s = Some (VString s)"
| "setFlag (VInt _) s = map_option VInt (ParseInt0 s)"
| "setFlag (VBool _) s = map_option VBool (ParseBool s)"

definition assign :: "string \<Rightarrow> flag_value \<Rightarrow> string \<Rightarrow> flags \<Rightarrow> flag_error + flags" where
  "assign name old s fs = (case setFlag old s of None \<Rightarrow> Inl (InvalidValue name s) | Some v \<Rightarrow> Inr (AList.update name v fs))"

text \<open>The name of a flag argument and the value after its first \<^verbatim>\<open>=\<close>.\<close>

definition splitFlag :: "string \<Rightarrow> string \<times> string option" where
  "splitFlag s = (let name = takeWhile (\<lambda>c. c \<noteq> CHR ''='') s; rest = dropWhile (\<lambda>c. c \<noteq> CHR ''='') s in
     (name, if rest = [] then None else Some (tl rest)))"

function parseFlags :: "flags \<Rightarrow> string list \<Rightarrow> flag_error + flags \<times> string list" where
  "parseFlags fs [] = Inr (fs, [])"
| "parseFlags fs (s # args) =
     (if length s < 2 \<or> hd s \<noteq> CHR ''-'' then Inr (fs, s # args)
      else if s = ''--'' then Inr (fs, args)
      else let text = (if s ! 1 = CHR ''-'' then drop 2 s else drop 1 s) in
        if text = [] \<or> hd text = CHR ''-'' \<or> hd text = CHR ''='' then Inl (BadSyntax s)
        else case splitFlag text of (name, given) \<Rightarrow>
          (case map_of fs name of
             None \<Rightarrow> Inl (if name = ''help'' \<or> name = ''h'' then HelpRequested else NotDefined name)
           | Some old \<Rightarrow>
               (case (given, old) of
                  (Some v, _) \<Rightarrow> (case assign name old v fs of Inl e \<Rightarrow> Inl e | Inr fs \<Rightarrow> parseFlags fs args)
                | (None, VBool _) \<Rightarrow> parseFlags (AList.update name (VBool True) fs) args
                | (None, _) \<Rightarrow> if args = [] then Inl (NeedsArgument name)
                    else (case assign name old (hd args) fs of Inl e \<Rightarrow> Inl e | Inr fs \<Rightarrow> parseFlags fs (tl args)))))"
  by pat_completeness auto
termination by (relation "measure (\<lambda>(_, args). length args)") auto

declare parseFlags.simps [simp del]

definition stringFlag :: "flags \<Rightarrow> string \<Rightarrow> string" where
  "stringFlag fs name = (case map_of fs name of Some (VString s) \<Rightarrow> s | _ \<Rightarrow> [])"

definition intFlag :: "flags \<Rightarrow> string \<Rightarrow> int" where
  "intFlag fs name = (case map_of fs name of Some (VInt n) \<Rightarrow> n | _ \<Rightarrow> 0)"

definition boolFlag :: "flags \<Rightarrow> string \<Rightarrow> bool" where
  "boolFlag fs name = (case map_of fs name of Some (VBool b) \<Rightarrow> b | _ \<Rightarrow> False)"

text \<open>\<^verbatim>\<open>int32(n)\<close>.\<close>

definition toInt32 :: "int \<Rightarrow> int" where
  "toInt32 n = sint (of_int n :: 32 word)"

section \<open>The processes of the shared path\<close>

definition adapterDefaults :: flags where
  "adapterDefaults = [(''listen'', VString ''127.0.0.1:9101''), (''triton'', VString ''127.0.0.1:8001''), (''model'', VString []),
     (''events'', VString []), (''experiment'', VString []), (''session'', VString []), (''run'', VString []), (''cell'', VString []),
     (''clock-domain'', VString []), (''target-b'', VInt 0), (''feature-width'', VInt 0), (''payload-floats'', VInt 0),
     (''max-message-bytes'', VInt MaxMessageBytes), (''initial-window-size'', VInt (4 * 2 ^ 20)),
     (''initial-conn-window-size'', VInt (16 * 2 ^ 20))]"

definition proxyDefaults :: flags where
  "proxyDefaults = [(''listen'', VString ''127.0.0.1:9100''), (''backend'', VString ''127.0.0.1:9101''), (''events'', VString []),
     (''experiment'', VString []), (''session'', VString []), (''run'', VString []), (''cell'', VString []),
     (''clock-domain'', VString []), (''target-b'', VInt 0), (''formation-deadline-millis'', VInt 0),
     (''max-message-bytes'', VInt (256 * 2 ^ 20)), (''initial-window-size'', VInt (4 * 2 ^ 20)),
     (''initial-conn-window-size'', VInt (16 * 2 ^ 20))]"

text \<open>What a process meets while it starts and serves.\<close>

record processMet =
  pmKernel :: kernel
  pmSha :: "string \<Rightarrow> string"
  pmDials :: bool
  pmCreates :: bool
  pmWritesRecord :: bool
  pmListens :: bool
  pmServes :: bool
  pmCloses :: bool
  pmWritesStats :: bool

datatype process_failure =
    BadFlags flag_error
  | MissingFlags
  | BadCell cell_error
  | NoClock clock_error
  | OtherDomain string string
  | CannotDial
  | BadShape submitter_error
  | NoExecutorFor Cell
  | BadBuilder config_error
  | StreamUncreated
  | BadStream writer_error
  | BadAdapter adapter_config_error
  | BadService new_error
  | BadRecord process_error
  | RecordUnwritten
  | CannotListen
  | ServeFailed
  | StreamUnclosed
  | StatsUnwritten

text \<open>The cell, the clock and the check that they are the run's, shared by the two processes.\<close>

definition ownClock :: "flags \<Rightarrow> processMet \<Rightarrow> (process_failure + Cell \<times> Domain) option" where
  "ownClock fs p = (case ParseCell (stringFlag fs ''cell'') of Inl e \<Rightarrow> Some (Inl (BadCell e))
     | Inr cell \<Rightarrow> (case CheckImplemented cell of Some e \<Rightarrow> Some (Inl (BadCell e))
         | None \<Rightarrow> (case Establish (pmSha p) (pmKernel p) of None \<Rightarrow> None
             | Some (Inl e) \<Rightarrow> Some (Inl (NoClock e))
             | Some (Inr clock) \<Rightarrow>
                 if stringFlag fs ''clock-domain'' \<noteq> [] \<and> doID clock \<noteq> stringFlag fs ''clock-domain''
                 then Some (Inl (OtherDomain (doID clock) (stringFlag fs ''clock-domain'')))
                 else Some (Inr (cell, clock)))))"

definition streamHeader :: "flags \<Rightarrow> Cell \<Rightarrow> Domain \<Rightarrow> WriterID \<Rightarrow> RunHeader" where
  "streamHeader fs cell clock writer = \<lparr>hExperiment = stringFlag fs ''experiment'', hSession = stringFlag fs ''session'',
     hRun = stringFlag fs ''run'', hCell = cell, hClockDomain = doID clock, hWriterID = writer\<rparr>"

definition NewFileWriter :: "processMet \<Rightarrow> RunHeader \<Rightarrow> process_failure + Writer" where
  "NewFileWriter p h = (if \<not> pmCreates p then Inl StreamUncreated
     else case NewWriter h (int DefaultBankBytes) 2 of Inl e \<Rightarrow> Inl (BadStream e) | Inr w \<Rightarrow> Inr w)"

definition newExecutor :: "Cell \<Rightarrow> process_failure + Kind" where
  "newExecutor cell = (case SelectKind cell of Inl _ \<Rightarrow> Inl (NoExecutorFor cell)
     | Inr kind \<Rightarrow> if kind = KindIndividual then Inr kind else Inl (NoExecutorFor cell))"

definition ProcessRecordSchemaVersion :: int where "ProcessRecordSchemaVersion = 1"

definition gatewayFlags :: "flags \<Rightarrow> TransportConfig" where
  "gatewayFlags fs = \<lparr>tpEndpoint = stringFlag fs ''triton'', tpMaxMessageBytes = intFlag fs ''max-message-bytes'',
     tpInitialWindowSize = toInt32 (intFlag fs ''initial-window-size''),
     tpInitialConnWindowSize = toInt32 (intFlag fs ''initial-conn-window-size''), tpDialTimeoutNanos = 0\<rparr>"

definition servingFlags :: "flags \<Rightarrow> ServingConfig" where
  "servingFlags fs = \<lparr>svMaxMessageBytes = intFlag fs ''max-message-bytes'', svInitialWindowSize = toInt32 (intFlag fs ''initial-window-size''),
     svInitialConnWindowSize = toInt32 (intFlag fs ''initial-conn-window-size'')\<rparr>"

record adapterProcess =
  apHeader :: RunHeader
  apConfig :: AdapterConfig
  apRecord :: ProcessRecord

text \<open>The adapter up to its process record: what it wired, and the record made of what it wired.\<close>

definition wireAdapter :: "flags \<Rightarrow> processMet \<Rightarrow> (process_failure + adapterProcess) option" where
  "wireAdapter fs p =
     (if stringFlag fs ''model'' = [] \<or> stringFlag fs ''events'' = [] \<or> stringFlag fs ''run'' = [] \<or> stringFlag fs ''cell'' = []
      then Some (Inl MissingFlags)
      else case ownClock fs p of None \<Rightarrow> None | Some (Inl e) \<Rightarrow> Some (Inl e)
      | Some (Inr (cell, clock)) \<Rightarrow>
          if \<not> pmDials p then Some (Inl CannotDial)
          else (case NewSubmitter (intFlag fs ''feature-width'') (intFlag fs ''payload-floats'') of Inl e \<Rightarrow> Some (Inl (BadShape e))
          | Inr submitter \<Rightarrow> (case newExecutor cell of Inl e \<Rightarrow> Some (Inl e)
          | Inr kind \<Rightarrow> (case NewFileWriter p (streamHeader fs cell clock 3) of Inl e \<Rightarrow> Some (Inl e)
          | Inr _ \<Rightarrow>
              let cfg = \<lparr>acExpectation = \<lparr>xpRun = stringFlag fs ''run'', xpCell = cell, xpClockDomain = doID clock,
                    xpTargetB = intFlag fs ''target-b''\<rparr>, acModel = stringFlag fs ''model''\<rparr>;
                  rec = \<lparr>prSchemaVersion = ProcessRecordSchemaVersion, prExperiment = stringFlag fs ''experiment'',
                    prSession = stringFlag fs ''session'', prRun = stringFlag fs ''run'', prCell = cell, prClockDomain = doID clock,
                    prExecutor = kind, prModelEntry = acModel cfg, prDownstream = dialConfig (gatewayFlags fs),
                    prServing = servingFlags fs, prFeatureWidth = sbFeatureWidth submitter, prPayloadFloats = sbPayloadFloats submitter\<rparr>
              in case NewAdapter cfg True True True of Some e \<Rightarrow> Some (Inl (BadAdapter e))
              | None \<Rightarrow> (case ProcessRecord_Validate ProcessRecordSchemaVersion rec of Some e \<Rightarrow> Some (Inl (BadRecord e))
              | None \<Rightarrow> if \<not> pmWritesRecord p then Some (Inl RecordUnwritten)
                  else Some (Inr \<lparr>apHeader = streamHeader fs cell clock 3, apConfig = cfg, apRecord = rec\<rparr>))))))"

text \<open>Serving until it is told to stop, then closing the stream and leaving its counters.\<close>

definition serveProcess :: "processMet \<Rightarrow> process_failure option" where
  "serveProcess p = (if \<not> pmListens p then Some CannotListen else if \<not> pmServes p then Some ServeFailed
     else if \<not> pmCloses p then Some StreamUnclosed else if \<not> pmWritesStats p then Some StatsUnwritten else None)"

definition adapterMain :: "string list \<Rightarrow> processMet \<Rightarrow> (process_failure option \<times> adapterProcess option) option" where
  "adapterMain args p = (case parseFlags adapterDefaults args of Inl e \<Rightarrow> Some (Some (BadFlags e), None)
     | Inr (fs, _) \<Rightarrow> (case wireAdapter fs p of None \<Rightarrow> None
         | Some (Inl e) \<Rightarrow> Some (Some e, None)
         | Some (Inr a) \<Rightarrow> Some (serveProcess p, Some a)))"

record proxyProcess =
  ppHeader :: RunHeader
  ppService :: Service

definition wireProxy :: "flags \<Rightarrow> processMet \<Rightarrow> (process_failure + proxyProcess) option" where
  "wireProxy fs p =
     (if stringFlag fs ''events'' = [] \<or> stringFlag fs ''run'' = [] \<or> stringFlag fs ''cell'' = [] then Some (Inl MissingFlags)
      else case ownClock fs p of None \<Rightarrow> None | Some (Inl e) \<Rightarrow> Some (Inl e)
      | Some (Inr (cell, clock)) \<Rightarrow>
          if \<not> pmDials p then Some (Inl CannotDial)
          else (case NewBuilder \<lparr>cfgExperiment = stringFlag fs ''experiment'', cfgSession = stringFlag fs ''session'',
              cfgRun = stringFlag fs ''run'', cfgCell = cell, cfgClockDomain = doID clock, cfgTargetB = intFlag fs ''target-b''\<rparr> of
            Inl e \<Rightarrow> Some (Inl (BadBuilder e))
          | Inr builder \<Rightarrow> (case NewFileWriter p (streamHeader fs cell clock 2) of Inl e \<Rightarrow> Some (Inl e)
          | Inr _ \<Rightarrow> (case NewService \<lparr>pcCell = cell, pcRun = stringFlag fs ''run'', pcTargetB = intFlag fs ''target-b'',
                  pcFormationDeadline = wrap64 (intFlag fs ''formation-deadline-millis'' * 1000000)\<rparr> (Some builder) True of
                Inl e \<Rightarrow> Some (Inl (BadService e))
              | Inr service \<Rightarrow> Some (Inr \<lparr>ppHeader = streamHeader fs cell clock 2, ppService = service\<rparr>)))))"

definition proxyMain :: "string list \<Rightarrow> processMet \<Rightarrow> (process_failure option \<times> proxyProcess option) option" where
  "proxyMain args p = (case parseFlags proxyDefaults args of Inl e \<Rightarrow> Some (Some (BadFlags e), None)
     | Inr (fs, _) \<Rightarrow> (case wireProxy fs p of None \<Rightarrow> None
         | Some (Inl e) \<Rightarrow> Some (Some e, None)
         | Some (Inr a) \<Rightarrow> Some (serveProcess p, Some a)))"

section \<open>The runner\<close>

datatype command_error =
    FlagMissing string
  | NotLoaded load_error
  | SuiteUnreadable
  | BadSuite suite_error
  | BadRepository modelrepo_error
  | UnknownEntryKind string
  | NoEntryKinds
  | RunFailed run_error
  | BundleUnreadable
  | BundleUnjudged runner_error
  | NotStored
  | NotValidated string
  | NoContractFor Cell
  | NotCompared impl_error
  | PropertiesDiffer nat
  | InContract Cell command_error
  | InComparison Cell Cell command_error

text \<open>\<^verbatim>\<open>parseEntryKinds\<close>, over the parts of the list.\<close>

fun parseKinds :: "string list \<Rightarrow> command_error + EntryKind list" where
  "parseKinds [] = Inr []"
| "parseKinds (raw # raws) = (let kind = TrimSpace raw in
     if kind = EntryUnbatched \<or> kind = EntryDynamic \<or> kind = EntryExplicit
     then (case parseKinds raws of Inl e \<Rightarrow> Inl e | Inr kinds \<Rightarrow> Inr (kind # kinds))
     else if kind = [] then parseKinds raws else Inl (UnknownEntryKind raw))"

definition parseEntryKinds :: "string \<Rightarrow> command_error + EntryKind list" where
  "parseEntryKinds s = (case parseKinds (splitOn (CHR '','') s) of Inl e \<Rightarrow> Inl e
     | Inr kinds \<Rightarrow> if kinds = [] then Inl NoEntryKinds else Inr kinds)"

text \<open>What a run's directory holds: its bundle and its archive, as they are read back.\<close>

record stored =
  stBundle :: "Bundle option"
  stArchive :: "Row list option"
  stVerdictWrites :: bool

definition readStored :: "stored \<Rightarrow> command_error + Verdict" where
  "readStored d = (case stBundle d of None \<Rightarrow> Inl BundleUnreadable
     | Some b \<Rightarrow> (case runExpectation b of Inl e \<Rightarrow> Inl (BundleUnjudged e)
     | Inr _ \<Rightarrow> (case stArchive d of None \<Rightarrow> Inl BundleUnreadable
     | Some rows \<Rightarrow> (case readRows rows of Inl _ \<Rightarrow> Inl BundleUnreadable
     | Inr records \<Rightarrow> (case ValidateBundle b records of Inl e \<Rightarrow> Inl (BundleUnjudged e) | Inr v \<Rightarrow> Inr v)))))"

definition judgeBundle :: "stored \<Rightarrow> command_error option" where
  "judgeBundle d = (case readStored d of Inl e \<Rightarrow> Some e
     | Inr v \<Rightarrow> if \<not> stVerdictWrites d then Some NotStored
         else if \<not> vdPassed v then Some (NotValidated (case stBundle d of Some b \<Rightarrow> bnRun b | None \<Rightarrow> [])) else None)"

fun runContracts :: "(nat \<Rightarrow> runOutside) \<Rightarrow> (string \<Rightarrow> stored) \<Rightarrow> nat \<Rightarrow> Manifest list \<Rightarrow> command_error option option" where
  "runContracts w d i [] = Some None"
| "runContracts w d i (m # ms) = (case Run m (w i) of None \<Rightarrow> None
     | Some r \<Rightarrow> (case rnError r of Some e \<Rightarrow> Some (Some (InContract (mnCell m) (RunFailed e)))
     | None \<Rightarrow> (case judgeBundle (d (Dir m)) of Some e \<Rightarrow> Some (Some (InContract (mnCell m) e))
     | None \<Rightarrow> runContracts w d (Suc i) ms)))"

definition bundleForCell :: "(string \<Rightarrow> stored) \<Rightarrow> Manifest list \<Rightarrow> Cell \<Rightarrow> command_error + Bundle" where
  "bundleForCell d declared cell = (case find (\<lambda>m. mnCell m = cell) declared of None \<Rightarrow> Inl (NoContractFor cell)
     | Some m \<Rightarrow> (case stBundle (d (Dir m)) of None \<Rightarrow> Inl BundleUnreadable | Some b \<Rightarrow> Inr b))"

definition reportComparison :: "((string \<times> json) list \<Rightarrow> string) \<Rightarrow> Bundle \<Rightarrow> Bundle \<Rightarrow> command_error option" where
  "reportComparison digest a b = (case SameImplementation digest (Some a) (Some b) of Inl e \<Rightarrow> Some (NotCompared e)
     | Inr c \<Rightarrow> if cmSame c then None else Some (PropertiesDiffer (length (cmDifferences c))))"

fun comparePairs :: "((string \<times> json) list \<Rightarrow> string) \<Rightarrow> (string \<Rightarrow> stored) \<Rightarrow> Manifest list \<Rightarrow> CellPair list \<Rightarrow> command_error option" where
  "comparePairs digest d declared [] = None"
| "comparePairs digest d declared (pair # pairs) = (case bundleForCell d declared (cpA pair) of Inl e \<Rightarrow> Some e
     | Inr a \<Rightarrow> (case bundleForCell d declared (cpB pair) of Inl e \<Rightarrow> Some e
     | Inr b \<Rightarrow> (case reportComparison digest a b of Some e \<Rightarrow> Some (InComparison (cpA pair) (cpB pair) e)
     | None \<Rightarrow> comparePairs digest d declared pairs)))"

text \<open>\<^verbatim>\<open>contracts\<close>, once its suite is loaded; \<^verbatim>\<open>d\<close> is what the directories hold when they are read.\<close>

definition contracts :: "((string \<times> json) list \<Rightarrow> string) \<Rightarrow> (nat \<Rightarrow> runOutside) \<Rightarrow> (string \<Rightarrow> stored) \<Rightarrow> Manifest list \<Rightarrow> CellPair list
    \<Rightarrow> command_error option option" where
  "contracts digest w d declared pairs = (case runContracts w d 0 declared of None \<Rightarrow> None
     | Some (Some e) \<Rightarrow> Some (Some e) | Some None \<Rightarrow> Some (comparePairs digest d declared pairs))"



text \<open>What the subcommands meet: \<^verbatim>\<open>manifest.Load\<close>, the suite file, the runs in order, the directories.\<close>

record runnerMet =
  rmLoad :: "string \<Rightarrow> load_error + Manifest"
  rmSuite :: "string \<Rightarrow> Suite option"
  rmRuns :: "nat \<Rightarrow> runOutside"
  rmStored :: "string \<Rightarrow> stored"
  rmDigest :: "(string \<times> json) list \<Rightarrow> string"
  rmSystem :: system
  rmDisk :: disk

definition sameImplementationDefaults :: flags where
  "sameImplementationDefaults = [(''a'', VString []), (''b'', VString [])]"

definition sameImplementation :: "runnerMet \<Rightarrow> flags \<Rightarrow> command_error option" where
  "sameImplementation o' fs = (let a = stringFlag fs ''a''; b = stringFlag fs ''b'' in
     if a = [] \<or> b = [] then Some (FlagMissing ''--a and --b'')
     else case stBundle (rmStored o' a) of None \<Rightarrow> Some BundleUnreadable
     | Some bundleA \<Rightarrow> (case stBundle (rmStored o' b) of None \<Rightarrow> Some BundleUnreadable
         | Some bundleB \<Rightarrow> reportComparison (rmDigest o') bundleA bundleB))"

definition validateBundleDefaults :: flags where
  "validateBundleDefaults = [(''bundle'', VString []), (''verbose'', VBool False)]"

definition validateBundle :: "runnerMet \<Rightarrow> flags \<Rightarrow> command_error option" where
  "validateBundle o' fs = (if stringFlag fs ''bundle'' = [] then Some (FlagMissing ''--bundle'')
     else judgeBundle (rmStored o' (stringFlag fs ''bundle'')))"

definition runDefaults :: flags where
  "runDefaults = [(''manifest'', VString []), (''image-digest'', VString []), (''quiet'', VBool False)]"

definition runCommand :: "runnerMet \<Rightarrow> flags \<Rightarrow> command_error option option" where
  "runCommand o' fs = (if stringFlag fs ''manifest'' = [] then Some (Some (FlagMissing ''--manifest''))
     else case rmLoad o' (stringFlag fs ''manifest'') of Inl e \<Rightarrow> Some (Some (NotLoaded e))
     | Inr m \<Rightarrow> (case Run m (rmRuns o' 0) of None \<Rightarrow> None | Some r \<Rightarrow> Some (map_option RunFailed (rnError r))))"

definition contractsDefaults :: flags where
  "contractsDefaults = [(''suite'', VString ''experiments/contracts.json''), (''image-digest'', VString []), (''quiet'', VBool False),
     (''verbose'', VBool False)]"

definition contractsCommand :: "runnerMet \<Rightarrow> flags \<Rightarrow> command_error option option" where
  "contractsCommand o' fs = (case rmSuite o' (stringFlag fs ''suite'') of None \<Rightarrow> Some (Some SuiteUnreadable)
     | Some s \<Rightarrow> (case LoadSuite (rmLoad o') s of Inl e \<Rightarrow> Some (Some (BadSuite e))
     | Inr declared \<Rightarrow> contracts (rmDigest o') (rmRuns o') (rmStored o') declared (suSameImplementation s)))"

definition validateManifest :: "runnerMet \<Rightarrow> flags \<Rightarrow> command_error option" where
  "validateManifest o' fs = (if stringFlag fs ''manifest'' = [] then Some (FlagMissing ''--manifest'')
     else case rmLoad o' (stringFlag fs ''manifest'') of Inl e \<Rightarrow> Some (NotLoaded e) | Inr _ \<Rightarrow> None)"

definition materializeDefaults :: flags where
  "materializeDefaults = [(''catalog'', VString ''artifacts/catalog.json''), (''artifact-dir'', VString ''artifacts/generated''),
     (''runtime-dir'', VString ''results/runtime-models''), (''artifact-id'', VString []), (''entries'', VString ''unbatched''),
     (''max-batch-size'', VInt 4), (''instance-kind'', VString ''KIND_GPU'')]"

definition materializeCommand :: "runnerMet \<Rightarrow> flags \<Rightarrow> disk \<times> (command_error + Repository)" where
  "materializeCommand o' fs = (let sy = rmSystem o'; d = rmDisk o'; path = (\<lambda>name. pathOf (syCwd sy) (stringFlag fs name)) in
     if stringFlag fs ''artifact-id'' = [] then (d, Inl (FlagMissing ''--artifact-id''))
     else case LoadCatalog sy (path ''catalog'') d of Inl e \<Rightarrow> (d, Inl (BadRepository e))
     | Inr catalog \<Rightarrow> (case parseEntryKinds (stringFlag fs ''entries'') of Inl e \<Rightarrow> (d, Inl e)
         | Inr kinds \<Rightarrow> (case Materialize sy \<lparr>rqCatalog = Some catalog, rqArtifactID = stringFlag fs ''artifact-id'',
               rqArtifactDir = path ''artifact-dir'', rqRuntimeDir = path ''runtime-dir'', rqKinds = kinds,
               rqMaxBatchSize = intFlag fs ''max-batch-size'', rqInstanceKind = stringFlag fs ''instance-kind''\<rparr> d of
             (d, Inl e) \<Rightarrow> (d, Inl (BadRepository e)) | (d, Inr repo) \<Rightarrow> (d, Inr repo))))"

text \<open>
  The exit status of a subcommand: a flag that does not parse ends the process in \<^verbatim>\<open>Parse\<close>, with
  2, or 0 where help was asked for; an error is 1.
\<close>

definition exitStatus :: "flags \<Rightarrow> string list \<Rightarrow> (flags \<Rightarrow> command_error option option) \<Rightarrow> nat option" where
  "exitStatus defaults args command = (case parseFlags defaults args of
     Inl e \<Rightarrow> Some (if e = HelpRequested then 0 else 2)
   | Inr (fs, _) \<Rightarrow> (case command fs of None \<Rightarrow> None | Some None \<Rightarrow> Some 0 | Some (Some _) \<Rightarrow> Some 1))"

definition runnerMain :: "runnerMet \<Rightarrow> string list \<Rightarrow> nat option" where
  "runnerMain o' args = (case args of [] \<Rightarrow> Some 2 | name # args \<Rightarrow>
     if name = ''materialize'' then exitStatus materializeDefaults args (\<lambda>fs. Some (case snd (materializeCommand o' fs) of
         Inl e \<Rightarrow> Some e | Inr _ \<Rightarrow> None))
     else if name = ''run'' then exitStatus runDefaults args (runCommand o')
     else if name = ''validate'' then exitStatus validateBundleDefaults args (Some \<circ> validateBundle o')
     else if name = ''validate-manifest'' then exitStatus [(''manifest'', VString [])] args (Some \<circ> validateManifest o')
     else if name = ''contracts'' then exitStatus contractsDefaults args (contractsCommand o')
     else if name = ''same-implementation'' then exitStatus sameImplementationDefaults args (Some \<circ> sameImplementation o')
     else if name \<in> {''-h'', ''--help'', ''help''} then Some 0 else Some 2)"

section \<open>What a green suite says\<close>

lemma runContracts_green:
  "runContracts w d i ms = Some None \<longleftrightarrow> list_all (\<lambda>(k, m). (case Run m (w k) of Some r \<Rightarrow> rnError r = None | None \<Rightarrow> False)
     \<and> judgeBundle (d (Dir m)) = None) (enumerate i ms)"
  by (induction ms arbitrary: i) (auto split: option.splits)

text \<open>The runs after the first that fails are not started.\<close>

lemma runContracts_stops:
  assumes "runContracts w d i ms = Some (Some e)"
  shows "\<exists>k < length ms. runContracts w d i (take k ms) = Some None
    \<and> (\<forall>w'. (\<forall>j \<le> i + k. w' j = w j) \<longrightarrow> runContracts w' d i ms = Some (Some e))"
  using assms
proof (induction ms arbitrary: i)
  case (Cons m ms)
  show ?case
  proof (cases "runContracts w d i [m] = Some None")
    case True
    then obtain k where k: "k < length ms" "runContracts w d (Suc i) (take k ms) = Some None"
      "\<And>w'. (\<forall>j \<le> Suc i + k. w' j = w j) \<Longrightarrow> runContracts w' d (Suc i) ms = Some (Some e)"
      using Cons.IH [of "Suc i"] Cons.prems by (auto split: option.splits)
    then show ?thesis using True by (intro exI [of _ "Suc k"]) (auto split: option.splits)
  next
    case False
    then show ?thesis using Cons.prems by (intro exI [of _ 0]) (auto split: option.splits)
  qed
qed simp

lemma comparePairs_None:
  "comparePairs digest d declared pairs = None \<longleftrightarrow> list_all (\<lambda>pair.
     case (bundleForCell d declared (cpA pair), bundleForCell d declared (cpB pair)) of
       (Inr a, Inr b) \<Rightarrow> reportComparison digest a b = None | _ \<Rightarrow> False) pairs"
  by (induction pairs) (auto split: option.splits sum.splits)

lemma judgeBundle_None:
  "judgeBundle d = None \<longleftrightarrow> (case readStored d of Inr v \<Rightarrow> vdPassed v | Inl _ \<Rightarrow> False) \<and> stVerdictWrites d"
  by (auto simp: judgeBundle_def split: sum.splits)

lemma reportComparison_None:
  "reportComparison digest a b = None \<longleftrightarrow> (case SameImplementation digest (Some a) (Some b) of Inr c \<Rightarrow> cmSame c | Inl _ \<Rightarrow> False)"
  by (auto simp: reportComparison_def split: sum.splits)

text \<open>
  A green acceptance suite, exactly: \<^verbatim>\<open>runner contracts\<close> exits 0 on flags that parse when and
  only when the suite loads, every contract it declares was run, in order, without an error and
  its archive, read back, passed the validator with the verdict stored, and for every declared
  pair the archives of the two cells were compared and found to be one implementation.
\<close>

theorem contracts_green:
  "(case parseFlags contractsDefaults args of Inl e \<Rightarrow> e = HelpRequested
     | Inr (fs, _) \<Rightarrow> (case rmSuite o' (stringFlag fs ''suite'') of None \<Rightarrow> False
         | Some s \<Rightarrow> (case LoadSuite (rmLoad o') s of Inl _ \<Rightarrow> False
             | Inr declared \<Rightarrow>
                 list_all (\<lambda>(i, m). (case Run m (rmRuns o' i) of Some r \<Rightarrow> rnError r = None | None \<Rightarrow> False)
                   \<and> (case readStored (rmStored o' (Dir m)) of Inr v \<Rightarrow> vdPassed v | Inl _ \<Rightarrow> False)
                   \<and> stVerdictWrites (rmStored o' (Dir m))) (enumerate 0 declared)
                 \<and> list_all (\<lambda>pair. case (bundleForCell (rmStored o') declared (cpA pair), bundleForCell (rmStored o') declared (cpB pair)) of
                     (Inr a, Inr b) \<Rightarrow> (case SameImplementation (rmDigest o') (Some a) (Some b) of Inr c \<Rightarrow> cmSame c | Inl _ \<Rightarrow> False)
                   | _ \<Rightarrow> False) (suSameImplementation s))))
   = (runnerMain o' (''contracts'' # args) = Some 0)"
proof -
  have "contracts digest w d declared pairs = Some None \<longleftrightarrow> runContracts w d 0 declared = Some None \<and> comparePairs digest d declared pairs = None"
    for digest w d declared pairs
    by (auto simp: contracts_def split: option.splits)
  note green = this [unfolded runContracts_green comparePairs_None judgeBundle_None reportComparison_None]
  have status: "exitStatus defaults args command = Some 0 \<longleftrightarrow> (case parseFlags defaults args of Inl e \<Rightarrow> e = HelpRequested
      | Inr (fs, _) \<Rightarrow> command fs = Some None)" for defaults command
    by (auto simp: exitStatus_def split: sum.splits option.splits)
  have command: "contractsCommand o' fs = Some None \<longleftrightarrow> (case rmSuite o' (stringFlag fs ''suite'') of None \<Rightarrow> False
      | Some s \<Rightarrow> (case LoadSuite (rmLoad o') s of Inl _ \<Rightarrow> False | Inr declared \<Rightarrow>
          contracts (rmDigest o') (rmRuns o') (rmStored o') declared (suSameImplementation s) = Some None))" for fs
    by (auto simp: contractsCommand_def split: sum.splits option.splits)
  have "runnerMain o' (''contracts'' # args) = exitStatus contractsDefaults args (contractsCommand o')"
    by (simp add: runnerMain_def)
  then show ?thesis by (simp only: status command green)
qed

section \<open>What the processes read is what the runner passed\<close>

text \<open>A value of Go's \<^verbatim>\<open>int\<close> and of its \<^verbatim>\<open>int32\<close>.\<close>

definition fits64 :: "int \<Rightarrow> bool" where "fits64 v \<longleftrightarrow> - (2 ^ 63) \<le> v \<and> v < 2 ^ 63"

definition fits32 :: "int \<Rightarrow> bool" where "fits32 v \<longleftrightarrow> - (2 ^ 31) \<le> v \<and> v < 2 ^ 31"

lemma fits32_fits64: "fits32 v \<Longrightarrow> fits64 v"
  by (simp add: fits32_def fits64_def)

lemma toInt32_id: "fits32 v \<Longrightarrow> toInt32 v = v"
  by (simp add: fits32_def toInt32_def sint_sbintrunc' signed_take_bit_int_eq_self)

text \<open>The type of a flag, and an integer flag within its type.\<close>

datatype flag_type = TString | TInt | TBool

fun flagType :: "flag_value \<Rightarrow> flag_type" where
  "flagType (VString _) = TString"
| "flagType (VInt _) = TInt"
| "flagType (VBool _) = TBool"

fun wellTyped :: "flag_value \<Rightarrow> bool" where
  "wellTyped (VInt n) \<longleftrightarrow> fits64 n"
| "wellTyped _ \<longleftrightarrow> True"

lemma ParseInt0_fits: "ParseInt0 s = Some n \<Longrightarrow> fits64 n"
  by (auto simp: ParseInt0_def fits64_def Let_def split: prod.splits if_splits option.splits)

lemma setFlag_typed: "setFlag old s = Some v \<Longrightarrow> flagType v = flagType old \<and> wellTyped v"
  by (cases old) (auto simp: ParseInt0_fits)

definition signature :: "flags \<Rightarrow> (string \<times> flag_type) list" where
  "signature fs = map (\<lambda>(name, v). (name, flagType v)) fs"

definition flagsTyped :: "flags \<Rightarrow> bool" where
  "flagsTyped fs \<longleftrightarrow> list_all (\<lambda>(_, v). wellTyped v) fs"

lemma update_typed:
  assumes "map_of fs name = Some old" and "flagType v = flagType old" and "wellTyped v"
  shows "signature (AList.update name v fs) = signature fs" "flagsTyped fs \<Longrightarrow> flagsTyped (AList.update name v fs)"
  using assms by (induction fs) (auto simp: signature_def flagsTyped_def split: if_splits)

lemma assign_typed:
  assumes "map_of fs name = Some old" and "assign name old s fs = Inr gs"
  shows "signature gs = signature fs" "flagsTyped fs \<Longrightarrow> flagsTyped gs"
  using assms update_typed [OF assms(1)] setFlag_typed [of old s] by (auto simp: assign_def split: option.splits)

text \<open>One argument: the parse ends at it, or goes on with flags of the same types.\<close>

lemma parseFlags_one:
  assumes "parseFlags fs (s # args) = Inr (gs, rest)"
  shows "gs = fs \<and> rest = s # args \<and> (length s < 2 \<or> hd s \<noteq> CHR ''-'') \<or> gs = fs \<and> s = ''--'' \<and> rest = args
    \<or> (\<exists>hs more. signature hs = signature fs \<and> (flagsTyped fs \<longrightarrow> flagsTyped hs) \<and> suffix more args
         \<and> parseFlags hs more = Inr (gs, rest))"
proof (cases "length s < 2 \<or> hd s \<noteq> CHR ''-'' \<or> s = ''--''")
  case True
  with assms show ?thesis by (auto simp: parseFlags.simps split: if_splits)
next
  case False
  define t where "t = (if s ! 1 = CHR ''-'' then drop 2 s else drop 1 s)"
  obtain name given where n: "splitFlag t = (name, given)" by (cases "splitFlag t")
  have step: "parseFlags fs (s # args) = (if t = [] \<or> hd t = CHR ''-'' \<or> hd t = CHR ''='' then Inl (BadSyntax s)
      else (case map_of fs name of None \<Rightarrow> Inl (if name = ''help'' \<or> name = ''h'' then HelpRequested else NotDefined name)
        | Some old \<Rightarrow> (case (given, old) of
            (Some v, _) \<Rightarrow> (case assign name old v fs of Inl e \<Rightarrow> Inl e | Inr fs \<Rightarrow> parseFlags fs args)
          | (None, VBool _) \<Rightarrow> parseFlags (AList.update name (VBool True) fs) args
          | (None, _) \<Rightarrow> if args = [] then Inl (NeedsArgument name)
              else (case assign name old (hd args) fs of Inl e \<Rightarrow> Inl e | Inr fs \<Rightarrow> parseFlags fs (tl args)))))"
    using False unfolding parseFlags.simps(2) Let_def t_def [symmetric] by (simp add: n)
  obtain old where old: "map_of fs name = Some old"
    using assms unfolding step by (cases "map_of fs name") (auto split: if_splits)
  have "(\<exists>v hs. assign name old v fs = Inr hs \<and> (parseFlags hs args = Inr (gs, rest) \<or> parseFlags hs (tl args) = Inr (gs, rest)))
    \<or> flagType old = TBool \<and> parseFlags (AList.update name (VBool True) fs) args = Inr (gs, rest)"
    using assms unfolding step old by (cases given; cases old) (auto split: if_splits sum.splits)
  then have "\<exists>hs more. (\<exists>v. assign name old v fs = Inr hs \<or> flagType old = TBool \<and> hs = AList.update name (VBool True) fs)
      \<and> more \<in> {args, tl args} \<and> parseFlags hs more = Inr (gs, rest)"
    by blast
  then obtain hs more v where hs: "assign name old v fs = Inr hs \<or> flagType old = TBool \<and> hs = AList.update name (VBool True) fs"
    and more: "more \<in> {args, tl args}" "parseFlags hs more = Inr (gs, rest)" by blast
  have "signature hs = signature fs \<and> (flagsTyped fs \<longrightarrow> flagsTyped hs)"
    using hs assign_typed [OF old] update_typed [OF old, of "VBool True"] by auto
  moreover have "suffix more args" using more(1) by (auto simp: suffix_tl)
  ultimately show ?thesis using more(2) by blast
qed

theorem parseFlags_typed:
  assumes "parseFlags fs args = Inr (gs, rest)"
  shows "signature gs = signature fs \<and> (flagsTyped fs \<longrightarrow> flagsTyped gs) \<and> suffix rest args
    \<and> (rest = [] \<or> length (hd rest) < 2 \<or> hd (hd rest) \<noteq> CHR ''-'' \<or> suffix (''--'' # rest) args)"
  using assms
proof (induction args arbitrary: fs rule: length_induct)
  case (1 args)
  show ?case
  proof (cases args)
    case (Cons s as)
    have IH: "signature gs = signature hs \<and> (flagsTyped hs \<longrightarrow> flagsTyped gs) \<and> suffix rest more
        \<and> (rest = [] \<or> length (hd rest) < 2 \<or> hd (hd rest) \<noteq> CHR ''-'' \<or> suffix (''--'' # rest) more)"
      if "suffix more as" "parseFlags hs more = Inr (gs, rest)" for hs more
      by (rule 1(1) [rule_format]) (use that suffix_length_le [OF that(1)] Cons in simp_all)
    show ?thesis
      using parseFlags_one [OF 1(2) [unfolded Cons]]
    proof (elim disjE exE conjE)
      fix hs more
      assume hs: "signature hs = signature fs" "flagsTyped fs \<longrightarrow> flagsTyped hs" "suffix more as" "parseFlags hs more = Inr (gs, rest)"
      have "suffix more args" using hs(3) Cons by (simp add: suffix_ConsI)
      then have longer: "suffix xs args" if "suffix xs more" for xs using that by (rule suffix_order.trans [rotated])
      show ?thesis using IH [OF hs(3,4)] hs(1,2) longer [of rest] longer [of "''--'' # rest"] by simp blast
    qed (simp_all add: Cons suffix_ConsI)
  qed (use 1(2) in \<open>simp add: parseFlags.simps(1)\<close>)
qed

text \<open>The arguments of a process: every flag, then its value.\<close>

definition commandLine :: "(string \<times> string) list \<Rightarrow> string list" where
  "commandLine args = concat (map (\<lambda>(flag, v). [flag, v]) args)"

lemma parseFlags_pair:
  assumes "map_of fs name = Some old" and "flagType old \<noteq> TBool" and "setFlag old v = Some x"
    and "name \<noteq> []" and "hd name \<noteq> CHR ''-''" and "CHR ''='' \<notin> set name"
  shows "parseFlags fs ((CHR ''-'' # CHR ''-'' # name) # v # args) = parseFlags (AList.update name x fs) args"
proof -
  have "splitFlag name = (name, None)"
    using assms(6) by (simp add: splitFlag_def takeWhile_eq_all_conv dropWhile_eq_Nil_conv)
  moreover have "hd name \<noteq> CHR ''=''" using assms(4,6) by (cases name) auto
  ultimately show ?thesis
    using assms by (cases old) (auto simp: parseFlags.simps(2) assign_def)
qed

definition adapterFlags :: "Manifest \<Rightarrow> string \<Rightarrow> int \<Rightarrow> int \<Rightarrow> string \<Rightarrow> string \<Rightarrow> flags" where
  "adapterFlags m entry featureWidth payloadFloats clockDomain events =
     [(''listen'', VString (mtAdapterEndpoint (mnTransport m))), (''triton'', VString (mtTritonEndpoint (mnTransport m))),
      (''model'', VString entry), (''events'', VString events), (''experiment'', VString (mnExperiment m)),
      (''session'', VString (mnSession m)), (''run'', VString (mnRun m)), (''cell'', VString (mnCell m)),
      (''clock-domain'', VString clockDomain), (''target-b'', VInt (mcSize (mnCohort m))), (''feature-width'', VInt featureWidth),
      (''payload-floats'', VInt payloadFloats), (''max-message-bytes'', VInt (mtMaxMessageBytes (mnTransport m))),
      (''initial-window-size'', VInt (mtInitialWindowSize (mnTransport m))),
      (''initial-conn-window-size'', VInt (mtInitialConnWindowSize (mnTransport m)))]"

definition proxyFlags :: "Manifest \<Rightarrow> string \<Rightarrow> string \<Rightarrow> flags" where
  "proxyFlags m clockDomain events =
     [(''listen'', VString (mtProxyEndpoint (mnTransport m))), (''backend'', VString (mtAdapterEndpoint (mnTransport m))),
      (''events'', VString events), (''experiment'', VString (mnExperiment m)), (''session'', VString (mnSession m)),
      (''run'', VString (mnRun m)), (''cell'', VString (mnCell m)), (''clock-domain'', VString clockDomain),
      (''target-b'', VInt (mcSize (mnCohort m))), (''formation-deadline-millis'', VInt (mcFormationDeadlineMillis (mnCohort m))),
      (''max-message-bytes'', VInt (mtMaxMessageBytes (mnTransport m))),
      (''initial-window-size'', VInt (mtInitialWindowSize (mnTransport m))),
      (''initial-conn-window-size'', VInt (mtInitialConnWindowSize (mnTransport m)))]"

text \<open>The manifest's integers are of the Go types of their fields, as its decoder leaves them.\<close>

definition manifestInts :: "Manifest \<Rightarrow> bool" where
  "manifestInts m \<longleftrightarrow> fits64 (mcSize (mnCohort m)) \<and> fits64 (mcFormationDeadlineMillis (mnCohort m))
     \<and> fits64 (mtMaxMessageBytes (mnTransport m)) \<and> fits32 (mtInitialWindowSize (mnTransport m))
     \<and> fits32 (mtInitialConnWindowSize (mnTransport m))"

lemma ParseInt0_fits64: "fits64 v \<Longrightarrow> ParseInt0 (Itoa v) = Some v"
  using ParseInt0_Itoa by (simp add: fits64_def)

lemma adapter_flags:
  assumes "manifestInts m" and "fits64 featureWidth" and "fits64 payloadFloats"
  shows "parseFlags adapterDefaults (commandLine (adapterArgs m entry featureWidth payloadFloats clockDomain events))
    = Inr (adapterFlags m entry featureWidth payloadFloats clockDomain events, [])"
  using assms
  by (simp add: commandLine_def adapterArgs_def adapterDefaults_def adapterFlags_def manifestInts_def
      parseFlags_pair ParseInt0_fits64 fits32_fits64 parseFlags.simps(1))

lemma proxy_flags:
  assumes "manifestInts m"
  shows "parseFlags proxyDefaults (commandLine (proxyArgs m clockDomain events)) = Inr (proxyFlags m clockDomain events, [])"
  using assms
  by (simp add: commandLine_def proxyArgs_def proxyDefaults_def proxyFlags_def manifestInts_def
      parseFlags_pair ParseInt0_fits64 fits32_fits64 parseFlags.simps(1))

section \<open>The two processes of a run\<close>

lemma Establish_named: "Establish sha256 k = Some (Inr clock) \<Longrightarrow> doID clock \<noteq> []"
  by (auto simp: Establish_def deriveID_def Let_def split: sum.splits option.splits)

text \<open>The clock a process goes on with is the run's, and its cell is one this build runs.\<close>

lemma ownClock_declared:
  assumes "ownClock fs p = Some (Inr (cell, clock))"
  shows "cell = stringFlag fs ''cell'' \<and> Identity.Implemented cell
    \<and> (stringFlag fs ''clock-domain'' \<noteq> [] \<longrightarrow> doID clock = stringFlag fs ''clock-domain'')"
  using assms ParseCell_Inr_iff
  by (auto simp: ownClock_def CheckImplemented_None_iff split: sum.splits option.splits if_splits)

lemma ownClock_runs:
  assumes "Identity.Implemented (stringFlag fs ''cell'')" and "Establish (pmSha p) (pmKernel p) = Some (Inr clock)"
    and "doID clock = stringFlag fs ''clock-domain''"
  shows "ownClock fs p = Some (Inr (stringFlag fs ''cell'', clock))"
proof -
  have "ParseCell (stringFlag fs ''cell'') = Inr (stringFlag fs ''cell'')"
    using assms(1) ParseCell_Inr_iff Implemented_AllCells by blast
  moreover have "CheckImplemented (stringFlag fs ''cell'') = None" using assms(1) by simp
  ultimately show ?thesis using assms(2,3) by (simp add: ownClock_def del: CheckImplemented_None_iff)
qed

text \<open>The header of the stream a process of the run writes, and what the wired processes are.\<close>

definition runHeader :: "Manifest \<Rightarrow> string \<Rightarrow> WriterID \<Rightarrow> RunHeader" where
  "runHeader m clockDomain writer = \<lparr>hExperiment = mnExperiment m, hSession = mnSession m, hRun = mnRun m, hCell = mnCell m,
     hClockDomain = clockDomain, hWriterID = writer\<rparr>"

definition declaredConfig :: "Manifest \<Rightarrow> string \<Rightarrow> Config" where
  "declaredConfig m clockDomain = \<lparr>cfgExperiment = mnExperiment m, cfgSession = mnSession m, cfgRun = mnRun m,
     cfgCell = mnCell m, cfgClockDomain = clockDomain, cfgTargetB = mcSize (mnCohort m)\<rparr>"

definition declaredAdapter :: "Manifest \<Rightarrow> string \<Rightarrow> int \<Rightarrow> int \<Rightarrow> string \<Rightarrow> adapterProcess" where
  "declaredAdapter m entry featureWidth payloadFloats clockDomain = \<lparr>apHeader = runHeader m clockDomain 3,
     apConfig = \<lparr>acExpectation = expectationOf (declaredConfig m clockDomain), acModel = entry\<rparr>,
     apRecord = \<lparr>prSchemaVersion = 1, prExperiment = mnExperiment m, prSession = mnSession m, prRun = mnRun m, prCell = mnCell m,
       prClockDomain = clockDomain, prExecutor = KindIndividual, prModelEntry = entry,
       prDownstream = dialConfig \<lparr>tpEndpoint = mtTritonEndpoint (mnTransport m), tpMaxMessageBytes = mtMaxMessageBytes (mnTransport m),
         tpInitialWindowSize = mtInitialWindowSize (mnTransport m),
         tpInitialConnWindowSize = mtInitialConnWindowSize (mnTransport m), tpDialTimeoutNanos = 0\<rparr>,
       prServing = \<lparr>svMaxMessageBytes = mtMaxMessageBytes (mnTransport m), svInitialWindowSize = mtInitialWindowSize (mnTransport m),
         svInitialConnWindowSize = mtInitialConnWindowSize (mnTransport m)\<rparr>,
       prFeatureWidth = featureWidth, prPayloadFloats = payloadFloats\<rparr>\<rparr>"

definition declaredProxy :: "Manifest \<Rightarrow> string \<Rightarrow> proxyProcess" where
  "declaredProxy m clockDomain = \<lparr>ppHeader = runHeader m clockDomain 2,
     ppService = \<lparr>svCfg = \<lparr>pcCell = mnCell m, pcRun = mnRun m, pcTargetB = mcSize (mnCohort m),
         pcFormationDeadline = FormationDeadline (mnCohort m)\<rparr>,
       svBuilder = \<lparr>bldCfg = declaredConfig m clockDomain, bldNextID = 0\<rparr>, svHeap = [], svForming = [], svClosed = False\<rparr>\<rparr>"

lemmas flag_reads = stringFlag_def intFlag_def adapterFlags_def proxyFlags_def

lemma NewSubmitter_Inr: "NewSubmitter w f = Inr s \<Longrightarrow> sbFeatureWidth s = w \<and> sbPayloadFloats s = f"
  by (auto simp: NewSubmitter_def split: if_splits)

lemma newExecutor_Inr: "newExecutor cell = Inr kind \<Longrightarrow> kind = KindIndividual"
  by (auto simp: newExecutor_def split: sum.splits if_splits)

lemma adapter_wired:
  assumes "manifestInts m" and "clockDomain \<noteq> []"
    and "wireAdapter (adapterFlags m entry featureWidth payloadFloats clockDomain events) p = Some (Inr a)"
  shows "a = declaredAdapter m entry featureWidth payloadFloats clockDomain
    \<and> ProcessRecord_Validate ProcessRecordSchemaVersion (apRecord a) = None"
proof -
  let ?fs = "adapterFlags m entry featureWidth payloadFloats clockDomain events"
  obtain cell clock where own: "ownClock ?fs p = Some (Inr (cell, clock))"
    using assms(3) unfolding wireAdapter_def by (auto split: if_splits option.splits sum.splits)
  have declared: "cell = mnCell m" "doID clock = clockDomain"
    using ownClock_declared [OF own] assms(2) by (simp_all add: flag_reads)
  have windows: "toInt32 (mtInitialWindowSize (mnTransport m)) = mtInitialWindowSize (mnTransport m)"
      "toInt32 (mtInitialConnWindowSize (mnTransport m)) = mtInitialConnWindowSize (mnTransport m)"
    using assms(1) by (simp_all add: manifestInts_def toInt32_id)
  show ?thesis
    using assms(3) unfolding wireAdapter_def own
    by (auto simp: Let_def flag_reads declared windows declaredAdapter_def declaredConfig_def expectationOf_def runHeader_def
        streamHeader_def gatewayFlags_def servingFlags_def ProcessRecordSchemaVersion_def
        dest!: NewSubmitter_Inr newExecutor_Inr split: if_splits option.splits sum.splits)
qed

lemma proxy_wired:
  assumes "clockDomain \<noteq> []" and "wireProxy (proxyFlags m clockDomain events) p = Some (Inr a)"
  shows "a = declaredProxy m clockDomain"
proof -
  let ?fs = "proxyFlags m clockDomain events"
  obtain cell clock where own: "ownClock ?fs p = Some (Inr (cell, clock))"
    using assms(2) unfolding wireProxy_def by (auto split: if_splits option.splits sum.splits)
  have declared: "cell = mnCell m" "doID clock = clockDomain"
    using ownClock_declared [OF own] assms(1) by (simp_all add: flag_reads)
  show ?thesis
    using assms(2) unfolding wireProxy_def own
    by (auto simp: Let_def flag_reads declared declaredProxy_def declaredConfig_def runHeader_def streamHeader_def
        NewBuilder_def NewService_def FormationDeadline_def millis_def split: if_splits option.splits sum.splits)
qed

lemmas startup = NewFileWriter_def NewWriter_def RunHeader_Validate_def streamHeader_def NewBuilder_def Config_Validate_def NewService_def
  ProxyConfig_Validate_def NewSubmitter_def NewAdapter_def ProcessRecord_Validate_def ProcessRecordSchemaVersion_def

lemma banks_hold: "int maxBodySize * 4 \<le> int DefaultBankBytes"
  by (simp add: DefaultBankBytes_def maxBodySize_def varintFields_def maxVarintField_def StageCount_def tritonRequestIDMax_def
      MaxMembership_def)

lemma singles_executor:
  assumes "\<not> VectorizesCompute cell"
  shows "newExecutor cell = Inr KindIndividual" "KindIndividual \<noteq> []"
  using assms by (simp_all add: newExecutor_def SelectKind_def Executor.Implemented_def implementedKinds_def Let_def)

text \<open>Everything the operating system is asked for succeeds.\<close>

definition allGranted :: "processMet \<Rightarrow> bool" where
  "allGranted p \<longleftrightarrow> pmDials p \<and> pmCreates p \<and> pmWritesRecord p \<and> pmListens p \<and> pmServes p \<and> pmCloses p \<and> pmWritesStats p"

lemma validManifest:
  assumes "Manifest_Validate m = None"
  shows "mnExperiment m \<noteq> []" "mnSession m \<noteq> []" "mnRun m \<noteq> []" "mnCell m \<noteq> []" "Identity.Implemented (mnCell m)"
    "\<not> VectorizesCompute (mnCell m)" "1 \<le> mcSize (mnCohort m)"
    "if AggregatesEnvelopes (mnCell m) then 1 \<le> mcFormationDeadlineMillis (mnCohort m) else mcFormationDeadlineMillis (mnCohort m) = 0"
  using assms [unfolded Manifest_Validate_None Let_def]
  by (auto simp: requiredFields_def Identity.Implemented_def implementedCells_def split: if_splits)

lemma adapter_starts:
  assumes "Manifest_Validate m = None" and "manifestInts m" and "1 \<le> featureWidth" and "1 \<le> payloadFloats"
    and "entry \<noteq> []" and "events \<noteq> []" and "Establish (pmSha p) (pmKernel p) = Some (Inr clock)" and "allGranted p"
  shows "wireAdapter (adapterFlags m entry featureWidth payloadFloats (doID clock) events) p
    = Some (Inr (declaredAdapter m entry featureWidth payloadFloats (doID clock)))"
proof -
  let ?fs = "adapterFlags m entry featureWidth payloadFloats (doID clock) events"
  have "ownClock ?fs p = Some (Inr (mnCell m, clock))"
    using ownClock_runs [of ?fs p clock] assms(7) validManifest(5) [OF assms(1)] by (simp add: flag_reads)
  moreover have "toInt32 (mtInitialWindowSize (mnTransport m)) = mtInitialWindowSize (mnTransport m)"
      "toInt32 (mtInitialConnWindowSize (mnTransport m)) = mtInitialConnWindowSize (mnTransport m)"
    using assms(2) by (simp_all add: manifestInts_def toInt32_id)
  ultimately show ?thesis
    using assms validManifest [OF assms(1)] singles_executor [OF validManifest(6) [OF assms(1)]] banks_hold Establish_named [OF assms(7)]
    by (simp add: wireAdapter_def flag_reads startup allGranted_def declaredAdapter_def declaredConfig_def expectationOf_def
        runHeader_def gatewayFlags_def servingFlags_def)
qed

lemma proxy_starts:
  assumes "Manifest_Validate m = None" and "mcFormationDeadlineMillis (mnCohort m) \<le> 9223372036854"
    and "events \<noteq> []" and "Establish (pmSha p) (pmKernel p) = Some (Inr clock)" and "allGranted p"
  shows "wireProxy (proxyFlags m (doID clock) events) p = Some (Inr (declaredProxy m (doID clock)))"
proof -
  let ?fs = "proxyFlags m (doID clock) events"
  have "ownClock ?fs p = Some (Inr (mnCell m, clock))"
    using ownClock_runs [of ?fs p clock] assms(4) validManifest(5) [OF assms(1)] by (simp add: flag_reads)
  moreover have "wrap64 (mcFormationDeadlineMillis (mnCohort m) * 1000000) = mcFormationDeadlineMillis (mnCohort m) * 1000000"
    using validManifest(8) [OF assms(1)] assms(2) by (intro wrap64_id) (auto split: if_splits)
  ultimately show ?thesis
    using assms validManifest [OF assms(1)] banks_hold Establish_named [OF assms(4)]
    by (simp add: wireProxy_def flag_reads startup allGranted_def declaredProxy_def declaredConfig_def runHeader_def
        FormationDeadline_def millis_def split: if_splits)
qed

lemma come_up:
  assumes "Manifest_Validate m = None" and "manifestInts m" and "mcFormationDeadlineMillis (mnCohort m) \<le> 9223372036854"
    and "1 \<le> featureWidth" and "fits64 featureWidth" and "1 \<le> payloadFloats" and "fits64 payloadFloats"
    and "entry \<noteq> []" and "ea \<noteq> []" and "ep \<noteq> []" and "allGranted p" and "allGranted q"
    and "Establish (pmSha p) (pmKernel p) = Some (Inr clock)" and "Establish (pmSha q) (pmKernel q) = Some (Inr clock')"
    and "doID clock' = doID clock"
  shows "adapterMain (commandLine (adapterArgs m entry featureWidth payloadFloats (doID clock) ea)) p
      = Some (None, Some (declaredAdapter m entry featureWidth payloadFloats (doID clock)))
    \<and> proxyMain (commandLine (proxyArgs m (doID clock) ep)) q = Some (None, Some (declaredProxy m (doID clock)))"
proof -
  have "serveProcess p = None" "serveProcess q = None" using assms(11,12) by (simp_all add: serveProcess_def allGranted_def)
  then show ?thesis
    using adapter_flags [OF assms(2,5,7)] adapter_starts [OF assms(1,2,4,6,8,9,13,11)]
      proxy_flags [OF assms(2)] proxy_starts [OF assms(1,3,10,14,12), unfolded assms(15)]
    by (simp add: adapterMain_def proxyMain_def)
qed

text \<open>
  C24. The two processes of a run agree on it. For a manifest whose integers, with the feature
  width and the payload length, fit the Go types they are read into, and a named clock domain:
  whatever the kernels said, an adapter and a proxy
  that came up on the runner's arguments are in the run's clock domain, write streams whose
  headers differ in the writer alone, and carry exactly what the manifest declares
  (\<^verbatim>\<open>declaredAdapter\<close>, \<^verbatim>\<open>declaredProxy\<close>). The formation deadline is the declared milliseconds
  as a 64-bit product of nanoseconds, which is the declared time up to 9223372036854 ms (292 years)
  and wraps beyond it. What the adapter expects is what the proxy's envelopes are stamped with: in a cell
  that aggregates, where no payload is empty, every envelope a cohort is sent in, in every run of
  that proxy, is one the adapter accepts. The process record the adapter leaves is of what it wired
  and is one the runner reads back.
\<close>

theorem processes_share_run:
  assumes "manifestInts m" and "fits64 featureWidth" and "fits64 payloadFloats" and "clockDomain \<noteq> []"
    and "adapterMain (commandLine (adapterArgs m entry featureWidth payloadFloats clockDomain ea)) p = Some (r, Some a)"
    and "proxyMain (commandLine (proxyArgs m clockDomain ep)) q = Some (r', Some x)"
  shows "a = declaredAdapter m entry featureWidth payloadFloats clockDomain \<and> x = declaredProxy m clockDomain
    \<and> apHeader a = (ppHeader x)\<lparr>hWriterID := 3\<rparr>
    \<and> acExpectation (apConfig a) = expectationOf (bldCfg (svBuilder (ppService x)))
    \<and> ProcessRecord_Validate ProcessRecordSchemaVersion (apRecord a) = None
    \<and> pcFormationDeadline (svCfg (ppService x)) = wrap64 (mcFormationDeadlineMillis (mnCohort m) * 1000000)
    \<and> (0 \<le> mcFormationDeadlineMillis (mnCohort m) \<and> mcFormationDeadlineMillis (mnCohort m) \<le> 9223372036854
         \<longrightarrow> pcFormationDeadline (svCfg (ppService x)) = mcFormationDeadlineMillis (mnCohort m) * 1000000)
    \<and> (\<forall>psize P s cs fid env. proxy_run psize (svCfg (ppService x)) (bldCfg (svBuilder (ppService x))) P (s, cs) \<and> [] \<notin> P
         \<and> AggregatesEnvelopes (mnCell m) \<and> fid < length (svHeap s) \<and> fmEnv (svHeap s ! fid) = Some env
         \<longrightarrow> Envelope.Validate (Some env) (acExpectation (apConfig a)) = None)"
proof -
  have "wireAdapter (adapterFlags m entry featureWidth payloadFloats clockDomain ea) p = Some (Inr a)"
    using assms(5) by (auto simp: adapterMain_def adapter_flags [OF assms(1-3)] split: option.splits sum.splits)
  note a = adapter_wired [OF assms(1,4) this]
  have "wireProxy (proxyFlags m clockDomain ep) q = Some (Inr x)"
    using assms(6) by (auto simp: proxyMain_def proxy_flags [OF assms(1)] split: option.splits sum.splits)
  note x = proxy_wired [OF assms(4) this]
  have same: "acExpectation (apConfig a) = expectationOf (bldCfg (svBuilder (ppService x)))"
    using a x by (simp add: declaredAdapter_def declaredProxy_def)
  have cell: "cfgCell (bldCfg (svBuilder (ppService x))) = mnCell m" using x by (simp add: declaredProxy_def declaredConfig_def)
  have "apHeader a = (ppHeader x)\<lparr>hWriterID := 3\<rparr>" using a x by (simp add: declaredAdapter_def declaredProxy_def runHeader_def)
  moreover have "Envelope.Validate (Some env) (acExpectation (apConfig a)) = None"
    if "proxy_run psize (svCfg (ppService x)) (bldCfg (svBuilder (ppService x))) P (s, cs)" "[] \<notin> P" "AggregatesEnvelopes (mnCell m)"
      "fid < length (svHeap s)" "fmEnv (svHeap s ! fid) = Some env" for psize P s cs fid env
    using sent_accepted [OF that(1,2) _ that(4,5)] that(3) by (simp add: same cell)
  moreover have "pcFormationDeadline (svCfg (ppService x)) = wrap64 (mcFormationDeadlineMillis (mnCohort m) * 1000000)"
    using x by (simp add: declaredProxy_def FormationDeadline_def millis_def)
  moreover have "wrap64 (n * 1000000) = n * 1000000" if "0 \<le> n" "n \<le> 9223372036854" for n
    using that by (intro wrap64_id) auto
  ultimately show ?thesis using a x same by (intro conjI allI impI) (elim conjE, (assumption | simp)?)+
qed

section \<open>What comes up on any command line\<close>

lemma toInt32_fits: "fits32 (toInt32 n)"
  using sint_greater_eq [of "of_int n :: 32 word"] sint_less [of "of_int n :: 32 word"] by (simp only: toInt32_def fits32_def) simp

lemma intFlag_fits: "flagsTyped fs \<Longrightarrow> fits64 (intFlag fs name)"
  by (induction fs) (auto simp: flagsTyped_def intFlag_def fits64_def split: flag_value.splits option.splits)

lemma defaults_typed: "flagsTyped adapterDefaults" "flagsTyped proxyDefaults"
  by (simp_all add: flagsTyped_def adapterDefaults_def proxyDefaults_def fits64_def MaxMessageBytes_def)

definition wfAdapter :: "flags \<Rightarrow> processMet \<Rightarrow> adapterProcess \<Rightarrow> bool" where
  "wfAdapter fs p a \<longleftrightarrow> (let h = apHeader a; x = acExpectation (apConfig a); r = apRecord a;
       ceiling = intFlag fs ''max-message-bytes''; window = toInt32 (intFlag fs ''initial-window-size'');
       connWindow = toInt32 (intFlag fs ''initial-conn-window-size'') in
     RunHeader_Validate h = None \<and> hWriterID h = 3 \<and> Identity.Implemented (hCell h) \<and> hCell h = stringFlag fs ''cell''
     \<and> hExperiment h = stringFlag fs ''experiment'' \<and> hSession h = stringFlag fs ''session'' \<and> hRun h = stringFlag fs ''run''
     \<and> (case Establish (pmSha p) (pmKernel p) of Some (Inr clock) \<Rightarrow> hClockDomain h = doID clock | _ \<Rightarrow> False)
     \<and> stringFlag fs ''clock-domain'' \<in> {[], hClockDomain h}
     \<and> x = \<lparr>xpRun = hRun h, xpCell = hCell h, xpClockDomain = hClockDomain h, xpTargetB = intFlag fs ''target-b''\<rparr>
     \<and> acModel (apConfig a) = stringFlag fs ''model'' \<and> acModel (apConfig a) \<noteq> []
     \<and> ProcessRecord_Validate ProcessRecordSchemaVersion r = None \<and> 1 \<le> prFeatureWidth r \<and> 1 \<le> prPayloadFloats r
     \<and> r = \<lparr>prSchemaVersion = 1, prExperiment = hExperiment h, prSession = hSession h, prRun = hRun h, prCell = hCell h,
          prClockDomain = hClockDomain h, prExecutor = KindIndividual, prModelEntry = acModel (apConfig a),
          prDownstream = \<lparr>tpEndpoint = stringFlag fs ''triton'', tpMaxMessageBytes = (if ceiling = 0 then MaxMessageBytes else ceiling),
            tpInitialWindowSize = window, tpInitialConnWindowSize = connWindow, tpDialTimeoutNanos = 0\<rparr>,
          prServing = \<lparr>svMaxMessageBytes = ceiling, svInitialWindowSize = window, svInitialConnWindowSize = connWindow\<rparr>,
          prFeatureWidth = intFlag fs ''feature-width'', prPayloadFloats = intFlag fs ''payload-floats''\<rparr>)"

definition wfProxy :: "flags \<Rightarrow> processMet \<Rightarrow> proxyProcess \<Rightarrow> bool" where
  "wfProxy fs p x \<longleftrightarrow> (let h = ppHeader x; c = svCfg (ppService x); b = bldCfg (svBuilder (ppService x)) in
     RunHeader_Validate h = None \<and> hWriterID h = 2 \<and> Identity.Implemented (hCell h) \<and> hCell h = stringFlag fs ''cell''
     \<and> hExperiment h = stringFlag fs ''experiment'' \<and> hSession h = stringFlag fs ''session'' \<and> hRun h = stringFlag fs ''run''
     \<and> (case Establish (pmSha p) (pmKernel p) of Some (Inr clock) \<Rightarrow> hClockDomain h = doID clock | _ \<Rightarrow> False)
     \<and> stringFlag fs ''clock-domain'' \<in> {[], hClockDomain h}
     \<and> Config_Validate b = None \<and> ProxyConfig_Validate c = None \<and> 1 \<le> pcTargetB c
     \<and> b = \<lparr>cfgExperiment = hExperiment h, cfgSession = hSession h, cfgRun = hRun h, cfgCell = hCell h, cfgClockDomain = hClockDomain h,
          cfgTargetB = intFlag fs ''target-b''\<rparr>
     \<and> c = \<lparr>pcCell = hCell h, pcRun = hRun h, pcTargetB = intFlag fs ''target-b'',
          pcFormationDeadline = wrap64 (intFlag fs ''formation-deadline-millis'' * 1000000)\<rparr>
     \<and> svHeap (ppService x) = [] \<and> \<not> svClosed (ppService x))"

lemma ownClock_established:
  assumes "ownClock fs p = Some (Inr (cell, clock))"
  shows "Establish (pmSha p) (pmKernel p) = Some (Inr clock) \<and> doID clock \<noteq> [] \<and> Identity.Implemented cell \<and> cell \<noteq> []
    \<and> cell = stringFlag fs ''cell'' \<and> stringFlag fs ''clock-domain'' \<in> {[], doID clock}"
proof -
  have "Establish (pmSha p) (pmKernel p) = Some (Inr clock)"
    using assms by (auto simp: ownClock_def split: sum.splits option.splits if_splits)
  moreover have "Identity.Implemented cell" using ownClock_declared [OF assms] by blast
  moreover have "cell = stringFlag fs ''cell'' \<and> stringFlag fs ''clock-domain'' \<in> {[], doID clock}"
    using ownClock_declared [OF assms] by auto
  ultimately show ?thesis using Establish_named by (auto simp: Identity.Implemented_def implementedCells_def)
qed

lemma NewSubmitter_bounds: "NewSubmitter w f = Inr s \<Longrightarrow> sbFeatureWidth s = w \<and> sbPayloadFloats s = f \<and> 1 \<le> w \<and> 1 \<le> f"
  by (auto simp: NewSubmitter_def split: if_splits)

lemma NewFileWriter_header: "NewFileWriter p h = Inr w \<Longrightarrow> RunHeader_Validate h = None"
  by (auto simp: NewFileWriter_def NewWriter_def split: if_splits option.splits sum.splits)

lemma wireAdapter_wf:
  assumes "wireAdapter fs p = Some (Inr a)"
  shows "wfAdapter fs p a"
proof -
  obtain cell clock where own: "ownClock fs p = Some (Inr (cell, clock))"
    using assms unfolding wireAdapter_def by (auto split: if_splits option.splits sum.splits)
  have clock: "Establish (pmSha p) (pmKernel p) = Some (Inr clock)" "doID clock \<noteq> []" "cell = stringFlag fs ''cell''"
    "Identity.Implemented (stringFlag fs ''cell'')" "stringFlag fs ''clock-domain'' \<in> {[], doID clock}"
    using ownClock_established [OF own] by auto
  obtain submitter kind w where parts: "NewSubmitter (intFlag fs ''feature-width'') (intFlag fs ''payload-floats'') = Inr submitter"
    "newExecutor cell = Inr kind" "NewFileWriter p (streamHeader fs cell clock 3) = Inr w"
    using assms unfolding wireAdapter_def own by (auto split: if_splits option.splits sum.splits)
  have dialled: "dialConfig (gatewayFlags fs) = \<lparr>tpEndpoint = stringFlag fs ''triton'',
      tpMaxMessageBytes = (if intFlag fs ''max-message-bytes'' = 0 then MaxMessageBytes else intFlag fs ''max-message-bytes''),
      tpInitialWindowSize = toInt32 (intFlag fs ''initial-window-size''),
      tpInitialConnWindowSize = toInt32 (intFlag fs ''initial-conn-window-size''), tpDialTimeoutNanos = 0\<rparr>"
    by (simp add: dialConfig_def gatewayFlags_def)
  have a: "a = \<lparr>apHeader = streamHeader fs cell clock 3,
      apConfig = \<lparr>acExpectation = \<lparr>xpRun = stringFlag fs ''run'', xpCell = cell, xpClockDomain = doID clock,
          xpTargetB = intFlag fs ''target-b''\<rparr>, acModel = stringFlag fs ''model''\<rparr>,
      apRecord = \<lparr>prSchemaVersion = ProcessRecordSchemaVersion, prExperiment = stringFlag fs ''experiment'',
          prSession = stringFlag fs ''session'', prRun = stringFlag fs ''run'', prCell = cell, prClockDomain = doID clock,
          prExecutor = kind, prModelEntry = stringFlag fs ''model'', prDownstream = dialConfig (gatewayFlags fs),
          prServing = servingFlags fs, prFeatureWidth = sbFeatureWidth submitter, prPayloadFloats = sbPayloadFloats submitter\<rparr>\<rparr>"
    and reads: "ProcessRecord_Validate ProcessRecordSchemaVersion (apRecord a) = None"
    and model: "stringFlag fs ''model'' \<noteq> []"
    using assms unfolding wireAdapter_def own by (auto simp: parts Let_def split: if_splits option.splits)
  show ?thesis
    using reads NewSubmitter_bounds [OF parts(1)] NewFileWriter_header [OF parts(3)] unfolding wfAdapter_def Let_def a
    by (simp add: clock model dialled newExecutor_Inr [OF parts(2)])
       (use clock in \<open>simp add: streamHeader_def servingFlags_def ProcessRecordSchemaVersion_def\<close>)
qed

lemma wireProxy_wf:
  assumes "wireProxy fs p = Some (Inr a)"
  shows "wfProxy fs p a"
proof -
  obtain cell clock where own: "ownClock fs p = Some (Inr (cell, clock))"
    using assms unfolding wireProxy_def by (auto split: if_splits option.splits sum.splits)
  have clock: "Establish (pmSha p) (pmKernel p) = Some (Inr clock)" "doID clock \<noteq> []" "cell = stringFlag fs ''cell''"
    "Identity.Implemented (stringFlag fs ''cell'')" "stringFlag fs ''clock-domain'' \<in> {[], doID clock}"
    using ownClock_established [OF own] by auto
  obtain builder w where parts: "NewBuilder \<lparr>cfgExperiment = stringFlag fs ''experiment'', cfgSession = stringFlag fs ''session'',
      cfgRun = stringFlag fs ''run'', cfgCell = cell, cfgClockDomain = doID clock, cfgTargetB = intFlag fs ''target-b''\<rparr> = Inr builder"
    "NewFileWriter p (streamHeader fs cell clock 2) = Inr w"
    using assms unfolding wireProxy_def own by (auto split: if_splits option.splits sum.splits)
  obtain service where served: "NewService \<lparr>pcCell = cell, pcRun = stringFlag fs ''run'', pcTargetB = intFlag fs ''target-b'',
      pcFormationDeadline = wrap64 (intFlag fs ''formation-deadline-millis'' * 1000000)\<rparr> (Some builder) True = Inr service"
    and a: "a = \<lparr>ppHeader = streamHeader fs cell clock 2, ppService = service\<rparr>"
    using assms unfolding wireProxy_def own by (auto simp: parts split: if_splits sum.splits)
  have builder: "Config_Validate (bldCfg builder) = None" "bldCfg builder = \<lparr>cfgExperiment = stringFlag fs ''experiment'',
      cfgSession = stringFlag fs ''session'', cfgRun = stringFlag fs ''run'', cfgCell = cell, cfgClockDomain = doID clock,
      cfgTargetB = intFlag fs ''target-b''\<rparr>"
    using parts(1) by (auto simp: NewBuilder_def split: option.splits)
  have service: "ProxyConfig_Validate (svCfg service) = None" "svCfg service = \<lparr>pcCell = cell, pcRun = stringFlag fs ''run'',
      pcTargetB = intFlag fs ''target-b'', pcFormationDeadline = wrap64 (intFlag fs ''formation-deadline-millis'' * 1000000)\<rparr>"
    "svBuilder service = builder" "svHeap service = []" "\<not> svClosed service"
    using served by (auto simp: NewService_def split: option.splits)
  have "1 \<le> pcTargetB (svCfg service)" using service(1) by (auto simp: ProxyConfig_Validate_def split: if_splits)
  then show ?thesis
    using builder(1) service(1) NewFileWriter_header [OF parts(2)] unfolding wfProxy_def Let_def a
    by (simp add: clock builder(2) service(2-5)) (use clock in \<open>simp add: streamHeader_def\<close>)
qed

text \<open>
  C39. Only well-formed processes come up. Whatever the command line, an adapter or a proxy that
  starts did so on flags that parsed, each of the type it is declared with and every integer within
  Go's \<^verbatim>\<open>int\<close>. Its cell is implemented and its clock domain the one its kernel establishes, never
  another than the one asked for; its stream's header is valid, of its own writer and of the
  experiment, session and run of its flags; what it serves with is of the same run, cell and clock
  domain as that header and of the flags' cohort size. The adapter's process record is one the
  runner reads back: of the individual executor and the model entry, with a positive feature width
  and payload length, the transport as the gateway was dialled (the endpoint, the message ceiling,
  256 MiB where the flag is 0, and the two windows, each cut to \<^verbatim>\<open>int32\<close>) and the transport it
  serves with. The proxy's two configurations are valid, of one cohort size, and its deadline is
  the flag's milliseconds in nanoseconds, a 64-bit product.
\<close>

theorem processes_well_formed:
  "(case adapterMain args p of
      Some (_, Some a) \<Rightarrow> (case parseFlags adapterDefaults args of Inl _ \<Rightarrow> False
        | Inr (fs, _) \<Rightarrow> signature fs = signature adapterDefaults \<and> flagsTyped fs \<and> wfAdapter fs p a)
    | _ \<Rightarrow> True)
   \<and> (case proxyMain args p of
      Some (_, Some x) \<Rightarrow> (case parseFlags proxyDefaults args of Inl _ \<Rightarrow> False
        | Inr (fs, _) \<Rightarrow> signature fs = signature proxyDefaults \<and> flagsTyped fs \<and> wfProxy fs p x)
    | _ \<Rightarrow> True)"
proof -
  have "signature fs = signature defaults \<and> flagsTyped fs"
    if "parseFlags defaults args = Inr (fs, rest)" "flagsTyped defaults" for defaults fs rest
    using parseFlags_typed [OF that(1)] that(2) by blast
  then show ?thesis
    using defaults_typed
    by (auto simp: adapterMain_def proxyMain_def wireAdapter_wf wireProxy_wf split: sum.splits option.splits)
qed

section \<open>A sample run's processes\<close>

definition sampleProcess :: processMet where
  "sampleProcess = \<lparr>pmKernel = sampleKernel, pmSha = id, pmDials = True, pmCreates = True, pmWritesRecord = True, pmListens = True,
     pmServes = True, pmCloses = True, pmWritesStats = True\<rparr>"

lemma sample_ints: "manifestInts (sampleManifest CellF10)"
  by (simp add: manifestInts_def fits64_def fits32_def sampleManifest_def)

lemma sample_up:
  assumes "Establish id sampleKernel = Some (Inr clock)"
  shows "adapterMain (commandLine (adapterArgs (sampleManifest CellF10) ''a_unbatched'' 4 2 (doID clock) ''ea'')) sampleProcess
      = Some (None, Some (declaredAdapter (sampleManifest CellF10) ''a_unbatched'' 4 2 (doID clock)))
    \<and> proxyMain (commandLine (proxyArgs (sampleManifest CellF10) (doID clock) ''ep'')) sampleProcess
      = Some (None, Some (declaredProxy (sampleManifest CellF10) (doID clock)))"
proof -
  have "Manifest_Validate (sampleManifest CellF10) = None" by (rule sampleManifest_valid) simp
  then show ?thesis
    by (rule come_up [OF _ sample_ints])
       (use assms in \<open>simp_all add: fits64_def sampleManifest_def AggregatesEnvelopes_def allGranted_def sampleProcess_def\<close>)
qed

theorem processes_share_run_witness:
  "\<exists>clock a x. Establish id sampleKernel = Some (Inr clock)
     \<and> adapterMain (commandLine (adapterArgs (sampleManifest CellF10) ''a_unbatched'' 4 2 (doID clock) ''ea'')) sampleProcess = Some (None, Some a)
     \<and> proxyMain (commandLine (proxyArgs (sampleManifest CellF10) (doID clock) ''ep'')) sampleProcess = Some (None, Some x)
     \<and> acExpectation (apConfig a) = expectationOf (bldCfg (svBuilder (ppService x))) \<and> hRun (apHeader a) = ''r''
     \<and> pcFormationDeadline (svCfg (ppService x)) = 50000000"
proof -
  obtain clock where clock: "Establish id sampleKernel = Some (Inr clock)"
    using sample_establish by (auto split: option.splits sum.splits)
  note up = sample_up [OF clock]
  have ints: "fits64 4" "fits64 2" by (simp_all add: fits64_def)
  let ?m = "sampleManifest CellF10"
  have "acExpectation (apConfig (declaredAdapter ?m ''a_unbatched'' 4 2 (doID clock)))
      = expectationOf (bldCfg (svBuilder (ppService (declaredProxy ?m (doID clock)))))"
    using processes_share_run [OF sample_ints ints Establish_named [OF clock] conjunct1 [OF up] conjunct2 [OF up]] by blast
  moreover have "hRun (apHeader (declaredAdapter ?m ''a_unbatched'' 4 2 (doID clock))) = ''r''"
      "pcFormationDeadline (svCfg (ppService (declaredProxy ?m (doID clock)))) = 50000000"
    by (simp_all add: declaredAdapter_def declaredProxy_def runHeader_def sampleManifest_def FormationDeadline_def millis_def wrap64_def
        AggregatesEnvelopes_def)
  ultimately show ?thesis using up clock by blast
qed



text \<open>The manifest's check is of the milliseconds; the nanoseconds the proxy counts wrap.\<close>

lemma deadline_wraps:
  defines "m \<equiv> (sampleManifest CellF10)\<lparr>mnCohort := (mnCohort (sampleManifest CellF10))\<lparr>mcFormationDeadlineMillis := 18446744073710\<rparr>,
    mnWorkload := (mnWorkload (sampleManifest CellF10))\<lparr>mwRequestTimeoutMillis := 18446744073711\<rparr>\<rparr>"
  shows "Manifest_Validate m = None \<and> manifestInts m \<and> FormationDeadline (mnCohort m) = 448384"
proof -
  have "Manifest_Validate m = None"
    unfolding Manifest_Validate_None Let_def
    by (auto simp: m_def sampleManifest_def requiredFields_def Identity.Implemented_def implementedCells_def UsesProxy_def
        AggregatesEnvelopes_def VectorizesCompute_def MaxOrdinal_def wrap64_def)
  moreover have "manifestInts m" by (simp add: m_def manifestInts_def fits64_def fits32_def sampleManifest_def)
  moreover have "FormationDeadline (mnCohort m) = 448384" by (simp add: m_def FormationDeadline_def millis_def wrap64_def)
  ultimately show ?thesis by blast
qed

end
