(* ===== verification/Spec2Isabelle.thy ===== *)
theory Spec2Isabelle
  imports Commands
begin

text \<open>
  A verification library of batch2go's run path: what the load generator, the proxy and the
  adapter do to a request, what the event writer archives of it, and what the offline
  validator concludes from the archive.

  The program. A run sends cohorts of logical requests to an inference server under one cell
  of a factorial design: Factor A decides whether the proxy aggregates a cohort into one
  envelope, Factor V whether the cohort is computed as one batch. Every process stamps the
  stages of a request that it owns and writes one event record per request; the validator
  joins the records of a run and decides whether the run is what its cell says it is.

  The theories, in the order they import each other.

  \<^item> Prelude: binary64 arithmetic as rationals with rounding, facts on lists, association
    lists, groups and words, the collections of simp rules.
  \<^item> Identity (\<^verbatim>\<open>internal/identity\<close>): cells and their properties, the logical request and its
    64-bit UID.
  \<^item> Schema, Codec, CodecProofs (\<^verbatim>\<open>internal/events/schema.go, codec.go\<close>): stages as bits of a
    mask, records, the protobuf encoder and decoder byte for byte; C1 is the round
    trip and \<^verbatim>\<open>appendRecord_maxBodySize\<close> the bound the writer relies on.
  \<^item> Archive (\<^verbatim>\<open>internal/events/parquet\<close>): a decoded record as an archive row and back; C2.
  \<^item> RecordWriter (\<^verbatim>\<open>internal/events/writer.go\<close>): the two banks, the flusher and the closing
    of a stream as a step relation; C4, C5.
  \<^item> Workload (\<^verbatim>\<open>internal/workload/barrier.go\<close>): the cohort barrier as a step relation, observed
    with what the clock read at each arrival; C3.
  \<^item> Envelope, Messages (\<^verbatim>\<open>internal/envelope, api/envelope/v1\<close>): building, checking and
    accounting an envelope; C6, C7.
  \<^item> Proxy, ProxyProofs, CohortContract (\<^verbatim>\<open>internal/proxy\<close>): \<^verbatim>\<open>Submit\<close> from its checks on, on both of
    its paths, cohort formation, sealing, the deadline and shutdown as a step relation between
    critical sections; C8 to C13 rest on one invariant of the reachable states (the last is of a
    call of \<^verbatim>\<open>forward\<close>, in any state of the builder).
  \<^item> Joining, Chain, RunChecks, Executions, FanOut, Aggregation, Conservation, Verdict
    (\<^verbatim>\<open>internal/validate\<close>): the joined map, the chain of spans of a cell, and every check of the
    validator as the list of defects it collects; C14 to C20 say, check by check, which runs
    are accepted (the lemmas \<^verbatim>\<open>*_accepts\<close> do so for the others, and the chain of spans walks its topology), and C21 what a passing verdict
    promises of the archive.
  \<^item> Executor (\<^verbatim>\<open>internal/executor, internal/executor/individual\<close>): which executor a cell
    selects, and the individual executor's goroutines as a step relation; C25.
  \<^item> Adapter (\<^verbatim>\<open>internal/adapter\<close>): the service around the executor, its records and its
    answer; C26. What it needs of an executor is the locale \<^verbatim>\<open>executor_contract\<close>, which the
    individual executor's completed fan-outs meet.
  \<^item> Submission, Trace, Gateway (\<^verbatim>\<open>internal/triton\<close>): one inference request and the checks on
    its response, C27; the trace files and the collector that waits for them, C28 and C29; the
    server's life cycle and counters (\<^verbatim>\<open>contamination_of_snapshots\<close>).
  \<^item> Manifest (\<^verbatim>\<open>internal/manifest\<close>): a run's configuration and which ones are accepted; C30.
  \<^item> Clients (\<^verbatim>\<open>internal/client, internal/runner/path.go\<close>): the two paths a request may take,
    and that the evidence comes back through the shared one unchanged; C31.
  \<^item> Runner (\<^verbatim>\<open>internal/runner/run.go, bundle.go, validate.go\<close>): the release of a cohort, the
    backend's records, the archive and the expectation its verdict is judged against; C33 to C34.
  \<^item> DirectRun: the two ends of a direct-path run put together, from what the runner writes of
    a run that was in order to the verdict on it.
  \<^item> Services (\<^verbatim>\<open>internal/runner/services.go\<close>): the processes the shared path needs, as a step
    relation of starts, exits, watchers, interrupts and the stop; C35.
  \<^item> Execute (\<^verbatim>\<open>internal/runner/run.go\<close>): the phases of a run in their order, which failure of
    which phase ends it, and that a run that returns accounts for every request;
    C32.
  \<^item> Pipeline: a direct-path run in order passes, from its release through its archive to its
    verdict, the counterpart of C21.
  \<^item> Strings: what the sources use of Go's \<^verbatim>\<open>strings\<close>, \<^verbatim>\<open>strconv\<close> and \<^verbatim>\<open>fmt\<close>.
  \<^item> ModelRepo (\<^verbatim>\<open>internal/modelrepo\<close>): the catalog, and the model repository a run writes from
    it to an explicit disk, its configuration text for text.
  \<^item> ClockDomain (\<^verbatim>\<open>internal/events/clockdomain\<close>): how a clock is established and certified; two
    domains of one identity are one boot of one host (\<^verbatim>\<open>same_domain_same_boot\<close>).
  \<^item> Collector (\<^verbatim>\<open>internal/runner/gc.go\<close>): the recorder of the garbage collector;
    C38 bounds what it reports.
  \<^item> Orchestration (\<^verbatim>\<open>Run\<close> in \<^verbatim>\<open>internal/runner/run.go\<close>): the whole run over the theories before;
    C22 is what a run that returns promises, and C23 that a run in
    order returns.
  \<^item> Suite (\<^verbatim>\<open>internal/runner/suite.go, implementation.go\<close>): which contracts an acceptance suite
    runs, and whether two runs were built the same; C36, C37.
  \<^item> Commands (\<^verbatim>\<open>cmd/adapter, cmd/proxy, cmd/runner\<close>): flags, the two processes as they are wired and the
    runner's subcommands; C24 says that the two processes the runner starts agree on the run,
    C40 that they start, C39 what comes up on any command line, and
    \<^verbatim>\<open>contracts_green\<close> when an acceptance suite exits 0.

  How state and operations correspond. A Go struct is a record with a short prefix per field,
  an error an \<^verbatim>\<open>option\<close> or the left of a sum, a map an association list where its order can be
  seen and a partial map elsewhere, machine integers are words of their width. Code under a
  mutex is one step; what happens between critical sections (clock readings, the backend's
  answer, a context that ends) is an argument of the step. Timestamps are signed 64-bit words.
  The texts of errors and of a check's details are not modelled, only which one is produced.

  Bounds and fuel. Loops are structural recursions or folds, and the decoder's loop over a
  message consumes at least one byte per round. Theorems about float64 are about binary64
  rounding to nearest even, stated for readings below \<open>2^53\<close> where exactness is needed.

  Parameters. \<^verbatim>\<open>proto.Size\<close>, the backend of the proxy and of the executor, the RPCs of the
  inference server as functions from request to response, directory listings, the JSON decoder,
  SHA-256, which system calls fail, clocks, timers, the process's CPU reading. A loop that polls takes the list of what its looks
  find, and \<^verbatim>\<open>None\<close> is the list running out before the loop ends.

  Not modelled: opening and removing files outside the model repository, the stats file, the
  JSON and Parquet file formats, gRPC transport and generated code, what the commands
  print, the test kit.
\<close>

end
